(* ===== verification/Prelude.thy ===== *)
theory Prelude
  imports Main "HOL-Library.Word" "HOL-Library.Multiset"
begin

text \<open>
  Shared vocabulary of the development: the fixed-width integers of the C++ code, the
  bounded \<^verbatim>\<open>size_t\<close> arithmetic of its counters, byte buffers, and the generic
  facts on lists and words that the component theories use.

  A \<^verbatim>\<open>butil::IOBuf\<close> is modelled by the byte sequence it denotes (\<open>bytes\<close>):
  \<^verbatim>\<open>append\<close> is \<open>@\<close>, \<^verbatim>\<open>pop_front(n)\<close> is \<open>drop n\<close>, \<^verbatim>\<open>append_to(out, n, pos)\<close> appends
  \<open>take n (drop pos buf)\<close>, \<^verbatim>\<open>size\<close> is \<open>length\<close>.  A \<^verbatim>\<open>size_t\<close> that measures a buffer is
  a \<open>nat\<close>; a \<^verbatim>\<open>size_t\<close> counter that is decremented uses \<open>add64\<close> and \<open>sub64\<close>, which
  write the wrap-around modulo \<open>2^64\<close> out.
\<close>

unbundle bit_operations_syntax

section \<open>Types\<close>

type_synonym u8 = "8 word"
type_synonym u32 = "32 word"
type_synonym u64 = "64 word"
type_synonym bytes = "u8 list"
type_synonym ptr = "nat option"

section \<open>Collections of rewrite rules\<close>

named_theorems wire_defs \<open>definitions of the wire codec\<close>
named_theorems slot_defs \<open>definitions of the slot table operations\<close>
named_theorems conn_defs \<open>definitions of the connection state machines\<close>

section \<open>Bounded machine arithmetic\<close>

definition SIZE_MAX :: nat where "SIZE_MAX = 2 ^ 64 - 1"

definition UINT32_MAX :: nat where "UINT32_MAX = 2 ^ 32 - 1"

definition add64 :: "nat \<Rightarrow> nat \<Rightarrow> nat" where
  "add64 x y = (x + y) mod 2 ^ 64"

definition sub64 :: "nat \<Rightarrow> nat \<Rightarrow> nat" where
  "sub64 x y = (x + 2 ^ 64 - y mod 2 ^ 64) mod 2 ^ 64"

lemma add64_exact: "x + y \<le> SIZE_MAX \<Longrightarrow> add64 x y = x + y"
  by (simp add: add64_def SIZE_MAX_def)

lemma sub64_exact: "y \<le> x \<Longrightarrow> x \<le> SIZE_MAX \<Longrightarrow> sub64 x y = x - y"
proof -
  assume le: "y \<le> x" and bound: "x \<le> SIZE_MAX"
  then have "y mod 2 ^ 64 = y" "x - y < 2 ^ 64"
    by (simp_all add: SIZE_MAX_def)
  then have "(x + 2 ^ 64 - y mod 2 ^ 64) mod 2 ^ 64 = (x - y + 2 ^ 64) mod 2 ^ 64"
    using le by simp
  also have "\<dots> = x - y"
    using \<open>x - y < 2 ^ 64\<close> by simp
  finally show ?thesis by (simp add: sub64_def)
qed

lemma sub64_add64_cancel: "x + y \<le> SIZE_MAX \<Longrightarrow> sub64 (add64 x y) y = x"
  by (simp add: add64_exact sub64_exact)

text \<open>Casts between clock units truncate towards zero.\<close>

definition ns_to_us :: "int \<Rightarrow> int" where
  "ns_to_us t = (if 0 \<le> t then t div 1000 else - ((- t) div 1000))"

lemma ns_to_us_mono:
  assumes "s \<le> t"
  shows "ns_to_us s \<le> ns_to_us t"
proof -
  have "s div 1000 \<le> t div 1000" "(- t) div 1000 \<le> (- s) div 1000"
    using assms by (simp_all add: zdiv_mono1)
  moreover have "0 \<le> t div 1000" if "0 \<le> t" using that by simp
  moreover have "0 \<le> (- s) div 1000" if "\<not> 0 \<le> s" using that by simp
  ultimately show ?thesis using assms by (auto simp: ns_to_us_def)
qed

section \<open>Words\<close>

lemma unat_le_UINT32_MAX: "unat (w :: u32) \<le> UINT32_MAX"
  using unsigned_less [of w, where 'a = nat] by (simp add: UINT32_MAX_def)

lemma unat_of_nat_u32: "n \<le> UINT32_MAX \<Longrightarrow> unat (of_nat n :: u32) = n"
  by (simp add: UINT32_MAX_def unat_of_nat)

lemma bit_u8_lt: "bit (w :: u8) n \<Longrightarrow> n < 8"
  using bit_imp_le_length [of w n] by simp

lemma bit_u32_lt: "bit (w :: u32) n \<Longrightarrow> n < 32"
  using bit_imp_le_length [of w n] by simp

lemma pack_hi_lo:
  fixes hi lo :: u32
  shows "drop_bit 32 (push_bit 32 (ucast hi :: u64) OR ucast lo) = ucast hi"
    and "ucast (push_bit 32 (ucast hi :: u64) OR ucast lo) = lo"
    and "ucast (drop_bit 32 (push_bit 32 (ucast hi :: u64) OR ucast lo)) = hi"
  by (auto intro!: bit_word_eqI simp: bit_simps dest: bit_u32_lt)

section \<open>Lists\<close>

lemma take_append_le: "n \<le> length xs \<Longrightarrow> take n (xs @ ys) = take n xs"
  by simp

lemma take_drop_append_le:
  "n + m \<le> length xs \<Longrightarrow> take n (drop m (xs @ ys)) = take n (drop m xs)"
  by simp

lemma mset_concat_list_update:
  assumes "i < length xss"
  shows "mset (concat (xss[i := ys])) + mset (xss ! i) = mset (concat xss) + mset ys"
proof -
  define l r where "l = take i xss" and "r = drop (Suc i) xss"
  have eqs: "xss = l @ xss ! i # r" "xss[i := ys] = l @ ys # r"
    unfolding l_def r_def using assms by (rule id_take_nth_drop, intro upd_conv_take_nth_drop)
  have "mset (concat xss) = mset (concat l) + mset (xss ! i) + mset (concat r)"
    by (subst eqs(1)) simp
  then show ?thesis unfolding eqs(2) by simp
qed

end
