(* ===== verification/Wire_Protocol.thy ===== *)
theory Wire_Protocol
  imports Prelude
begin

text \<open>
  The RPC wire format, version 1 (\<^verbatim>\<open>include/ant_rpc/rpc/protocol.hpp\<close>) and the error codes
  (\<^verbatim>\<open>include/ant_rpc/rpc/error_code.hpp\<close>): header packing, frame packing and the incremental
  frame parser.

  The protobuf codec of \<open>RpcMeta\<close> and of user messages is generated code, so it is an
  argument: \<open>ser\<close> is \<^verbatim>\<open>SerializeToZeroCopyStream\<close> (\<open>None\<close> when it returns false), \<open>par\<close>
  is \<^verbatim>\<open>ParseFromZeroCopyStream\<close>.  The law the framing relies on is \<open>meta_codec_ok\<close>.
\<close>

section \<open>Error codes\<close>

definition RPC_SUCCESS :: int where "RPC_SUCCESS = 0"
definition RPC_ENOSERVICE :: int where "RPC_ENOSERVICE = 1001"
definition RPC_ENOMETHOD :: int where "RPC_ENOMETHOD = 1002"
definition RPC_EINVALID_DATA :: int where "RPC_EINVALID_DATA = 1003"
definition RPC_ETIMEOUT :: int where "RPC_ETIMEOUT = 1004"
definition RPC_ECANCELED :: int where "RPC_ECANCELED = 1005"
definition RPC_EINTERNAL :: int where "RPC_EINTERNAL = 1006"
definition RPC_EOVERLOAD :: int where "RPC_EOVERLOAD = 1007"
definition RPC_ECONN_FAILED :: int where "RPC_ECONN_FAILED = 1008"
definition RPC_EUNKNOWN :: int where "RPC_EUNKNOWN = 1099"

lemmas rpc_codes = RPC_SUCCESS_def RPC_ENOSERVICE_def RPC_ENOMETHOD_def RPC_EINVALID_DATA_def
  RPC_ETIMEOUT_def RPC_ECANCELED_def RPC_EINTERNAL_def RPC_EOVERLOAD_def RPC_ECONN_FAILED_def
  RPC_EUNKNOWN_def

definition RpcErrorToString :: "int \<Rightarrow> string" where
  "RpcErrorToString error_code =
     (if error_code = RPC_SUCCESS then ''RPC_SUCCESS''
      else if error_code = RPC_ENOSERVICE then ''RPC_ENOSERVICE''
      else if error_code = RPC_ENOMETHOD then ''RPC_ENOMETHOD''
      else if error_code = RPC_EINVALID_DATA then ''RPC_EINVALID_DATA''
      else if error_code = RPC_ETIMEOUT then ''RPC_ETIMEOUT''
      else if error_code = RPC_ECANCELED then ''RPC_ECANCELED''
      else if error_code = RPC_EINTERNAL then ''RPC_EINTERNAL''
      else if error_code = RPC_EOVERLOAD then ''RPC_EOVERLOAD''
      else if error_code = RPC_ECONN_FAILED then ''RPC_ECONN_FAILED''
      else ''RPC_EUNKNOWN'')"

section \<open>Header and metadata\<close>

record RpcHeader =
  magic :: u32
  body_len :: u32
  meta_len :: u32
  flags :: u32

text \<open>
  \<open>RpcMeta\<close> is the message of \<^verbatim>\<open>proto/rpc_meta.proto\<close>.  \<^verbatim>\<open>msg_type\<close> is an open proto3
  enum, hence an integer; \<^verbatim>\<open>headers\<close> is a map, kept as an association list.
\<close>

record RpcMeta =
  m_correlation_id :: u64
  m_msg_type :: int
  m_service_name :: string
  m_method_name :: string
  m_log_id :: u64
  m_timeout_ms :: int
  m_error_code :: int
  m_error_text :: string
  m_attachment_size :: u32
  m_headers :: "(string \<times> string) list"

definition RPC_REQUEST :: int where "RPC_REQUEST = 0"
definition RPC_RESPONSE :: int where "RPC_RESPONSE = 1"
definition RPC_HEARTBEAT :: int where "RPC_HEARTBEAT = 2"

definition empty_meta :: RpcMeta where
  "empty_meta = \<lparr>m_correlation_id = 0, m_msg_type = RPC_REQUEST, m_service_name = [],
     m_method_name = [], m_log_id = 0, m_timeout_ms = 0, m_error_code = 0, m_error_text = [],
     m_attachment_size = 0, m_headers = []\<rparr>"

definition kMagic :: u32 where "kMagic = 0x414E5452"
definition kRpcHeaderBytes :: nat where "kRpcHeaderBytes = 16"
definition kDefaultMaxRpcFrameBytes :: nat where "kDefaultMaxRpcFrameBytes = 16 * 1024 * 1024"
definition kRpcWireVersion :: u8 where "kRpcWireVersion = 1"
definition kWireVersionShift :: nat where "kWireVersionShift = 24"
definition kWireFeatureMask :: u32 where "kWireFeatureMask = 0x00FFFFFF"
definition kKnownWireFeatures :: u32 where "kKnownWireFeatures = 0"

lemmas [wire_defs] = kMagic_def kRpcHeaderBytes_def kRpcWireVersion_def kWireVersionShift_def
  kWireFeatureMask_def kKnownWireFeatures_def

definition default_header :: RpcHeader where
  "default_header = \<lparr>magic = kMagic, body_len = 0, meta_len = 0, flags = 0\<rparr>"

definition MakeWireFlags :: "u8 \<Rightarrow> u32 \<Rightarrow> u32" where
  "MakeWireFlags version features =
     push_bit kWireVersionShift (ucast version) OR (features AND kWireFeatureMask)"

definition WireVersion :: "u32 \<Rightarrow> u8" where
  "WireVersion fl = ucast (drop_bit kWireVersionShift fl)"

definition WireFeatures :: "u32 \<Rightarrow> u32" where
  "WireFeatures fl = fl AND kWireFeatureMask"

datatype FrameParseStatus =
    SUCCESS
  | NEED_MORE_DATA
  | ERROR_MAGIC_MISMATCH
  | ERROR_UNSUPPORTED_VERSION
  | ERROR_UNSUPPORTED_FLAGS
  | ERROR_FRAME_TOO_LARGE
  | ERROR_INVALID_LENGTH
  | ERROR_CORRUPTED_FRAME

record FrameParseResult =
  status :: FrameParseStatus
  total_frame_bytes :: nat
  header :: RpcHeader
  meta :: RpcMeta
  body_iobuf :: bytes
  attachment_iobuf :: bytes

section \<open>Big-endian integers\<close>

definition LoadUint32BE :: "bytes \<Rightarrow> nat \<Rightarrow> u32" where
  "LoadUint32BE bs offset =
     push_bit 24 (ucast (bs ! offset)) OR push_bit 16 (ucast (bs ! (offset + 1))) OR
     push_bit 8 (ucast (bs ! (offset + 2))) OR ucast (bs ! (offset + 3))"

definition StoreUint32BE :: "bytes \<Rightarrow> nat \<Rightarrow> u32 \<Rightarrow> bytes" where
  "StoreUint32BE bs offset v =
     bs[offset := ucast (drop_bit 24 v), offset + 1 := ucast (drop_bit 16 v),
        offset + 2 := ucast (drop_bit 8 v), offset + 3 := ucast v]"

definition AppendWireHeader :: "RpcHeader \<Rightarrow> bytes \<Rightarrow> bytes" where
  "AppendWireHeader h out =
     (let bs = replicate kRpcHeaderBytes 0;
          bs = StoreUint32BE bs 0 (magic h);
          bs = StoreUint32BE bs 4 (body_len h);
          bs = StoreUint32BE bs 8 (meta_len h);
          bs = StoreUint32BE bs 12 (flags h)
      in out @ bs)"

definition FitsUint32 :: "nat \<Rightarrow> bool" where
  "FitsUint32 v \<longleftrightarrow> v \<le> UINT32_MAX"

section \<open>Packing\<close>

text \<open>
  \<open>PackSerializedFrame\<close> returns the boolean result, the metadata (whose
  \<^verbatim>\<open>attachment_size\<close> it sets, even when it fails later) and the output buffer.
\<close>

definition PackSerializedFrame ::
  "(RpcMeta \<Rightarrow> bytes option) \<Rightarrow> RpcMeta \<Rightarrow> bytes \<Rightarrow> bytes option \<Rightarrow> bytes \<Rightarrow> nat
   \<Rightarrow> bool \<times> RpcMeta \<times> bytes" where
  "PackSerializedFrame ser m body attachment out max_frame_bytes =
     (let attachment_size = (case attachment of Some a \<Rightarrow> length a | None \<Rightarrow> 0)
      in if \<not> FitsUint32 attachment_size \<or> \<not> FitsUint32 (length body) \<or>
            attachment_size > UINT32_MAX - length body
         then (False, m, out)
         else let m' = m\<lparr>m_attachment_size := of_nat attachment_size\<rparr>
         in case ser m' of
              None \<Rightarrow> (False, m', out)
            | Some meta_buf \<Rightarrow>
                if meta_buf = [] \<or> \<not> FitsUint32 (length meta_buf) then (False, m', out)
                else let payload_size = length meta_buf + length body + attachment_size
                in if payload_size > max_frame_bytes \<or>
                      kRpcHeaderBytes > max_frame_bytes - payload_size
                   then (False, m', out)
                   else let h = default_header\<lparr>meta_len := of_nat (length meta_buf),
                                  body_len := of_nat (length body + attachment_size),
                                  flags := MakeWireFlags kRpcWireVersion 0\<rparr>;
                            out = AppendWireHeader h out;
                            out = out @ meta_buf;
                            out = (if body \<noteq> [] then out @ body else out);
                            out = (if attachment_size \<noteq> 0
                                   then out @ (case attachment of Some a \<Rightarrow> a | None \<Rightarrow> [])
                                   else out)
                        in (True, m', out))"

definition PackRpcFrame ::
  "(RpcMeta \<Rightarrow> bytes option) \<Rightarrow> ('msg \<Rightarrow> bytes option) \<Rightarrow> RpcMeta \<Rightarrow> 'msg option \<Rightarrow>
   bytes option \<Rightarrow> bytes \<Rightarrow> nat \<Rightarrow> bool \<times> RpcMeta \<times> bytes" where
  "PackRpcFrame ser msg_ser m message attachment out_buf max_frame_bytes =
     (case message of
        None \<Rightarrow> PackSerializedFrame ser m [] attachment out_buf max_frame_bytes
      | Some msg \<Rightarrow>
          (case msg_ser msg of
             None \<Rightarrow> (False, m, out_buf)
           | Some body \<Rightarrow> PackSerializedFrame ser m body attachment out_buf max_frame_bytes))"

definition PackRpcFrameRaw ::
  "(RpcMeta \<Rightarrow> bytes option) \<Rightarrow> RpcMeta \<Rightarrow> bytes \<Rightarrow> bytes option \<Rightarrow> bytes \<Rightarrow> nat
   \<Rightarrow> bool \<times> RpcMeta \<times> bytes" where
  "PackRpcFrameRaw ser m raw_body attachment out_buf max_frame_bytes =
     PackSerializedFrame ser m raw_body attachment out_buf max_frame_bytes"

definition PackRpcFrameNamed ::
  "(RpcMeta \<Rightarrow> bytes option) \<Rightarrow> ('msg \<Rightarrow> bytes option) \<Rightarrow> u8 \<Rightarrow> u64 \<Rightarrow> string \<Rightarrow> string \<Rightarrow>
   'msg \<Rightarrow> bytes \<Rightarrow> nat \<Rightarrow> bool \<times> bytes" where
  "PackRpcFrameNamed ser msg_ser msg_type correlation_id service_name method_name message
     out_buf max_frame_bytes =
     (let m = empty_meta\<lparr>m_msg_type := uint msg_type, m_correlation_id := correlation_id\<rparr>;
          m = (if service_name \<noteq> [] then m\<lparr>m_service_name := service_name\<rparr> else m);
          m = (if method_name \<noteq> [] then m\<lparr>m_method_name := method_name\<rparr> else m);
          (ok, _, out) = PackRpcFrame ser msg_ser m (Some message) None out_buf max_frame_bytes
      in (ok, out))"

section \<open>Parsing\<close>

definition parse_result :: "FrameParseStatus \<Rightarrow> nat \<Rightarrow> RpcHeader \<Rightarrow> FrameParseResult" where
  "parse_result st n h = \<lparr>status = st, total_frame_bytes = n, header = h, meta = empty_meta,
     body_iobuf = [], attachment_iobuf = []\<rparr>"

definition TryParseRpcFrame ::
  "(bytes \<Rightarrow> RpcMeta option) \<Rightarrow> bytes \<Rightarrow> nat \<Rightarrow> FrameParseResult" where
  "TryParseRpcFrame par buf max_frame_bytes =
     (if length buf < kRpcHeaderBytes then parse_result NEED_MORE_DATA 0 default_header
      else let header_bytes = take kRpcHeaderBytes buf;
               h = \<lparr>magic = LoadUint32BE header_bytes 0,
                    body_len = LoadUint32BE header_bytes 4,
                    meta_len = LoadUint32BE header_bytes 8,
                    flags = LoadUint32BE header_bytes 12\<rparr>
      in if magic h \<noteq> kMagic then parse_result ERROR_MAGIC_MISMATCH 0 default_header
      else if WireVersion (flags h) \<noteq> kRpcWireVersion
        then parse_result ERROR_UNSUPPORTED_VERSION 0 h
      else if WireFeatures (flags h) AND NOT kKnownWireFeatures \<noteq> 0
        then parse_result ERROR_UNSUPPORTED_FLAGS 0 h
      else if meta_len h = 0 then parse_result ERROR_INVALID_LENGTH 0 h
      else let meta_size = unat (meta_len h)
      in if meta_size > SIZE_MAX - unat (body_len h) then parse_result ERROR_INVALID_LENGTH 0 h
      else let payload_size = meta_size + unat (body_len h)
      in if payload_size > max_frame_bytes \<or> kRpcHeaderBytes > max_frame_bytes - payload_size
        then parse_result ERROR_FRAME_TOO_LARGE 0 h
      else let total_needed = kRpcHeaderBytes + payload_size
      in if length buf < total_needed then parse_result NEED_MORE_DATA total_needed h
      else let meta_buf = take (unat (meta_len h)) (drop kRpcHeaderBytes buf)
      in case par meta_buf of
           None \<Rightarrow> parse_result ERROR_CORRUPTED_FRAME total_needed h
         | Some m \<Rightarrow>
             let attachment_size = m_attachment_size m
             in if attachment_size > body_len h
                then parse_result ERROR_INVALID_LENGTH total_needed h
                else let proto_body_len = body_len h - attachment_size;
                         body_offset = kRpcHeaderBytes + unat (meta_len h);
                         body = (if proto_body_len \<noteq> 0
                                 then take (unat proto_body_len) (drop body_offset buf) else []);
                         att = (if attachment_size \<noteq> 0
                                then take (unat attachment_size)
                                       (drop (body_offset + unat proto_body_len) buf) else [])
                     in \<lparr>status = SUCCESS, total_frame_bytes = total_needed, header = h,
                          meta = m, body_iobuf = body, attachment_iobuf = att\<rparr>)"

section \<open>The codec: integers, flags, header\<close>

lemma be32_bytes_id:
  "push_bit 24 (ucast (ucast (drop_bit 24 v) :: u8)) OR push_bit 16 (ucast (ucast (drop_bit 16 v) :: u8)) OR
   push_bit 8 (ucast (ucast (drop_bit 8 v) :: u8)) OR ucast (ucast v :: u8) = (v :: u32)"
proof (rule bit_word_eqI)
  fix n assume "n < LENGTH(32)"
  then consider "n < 8" | "8 \<le> n" "n < 16" | "16 \<le> n" "n < 24" | "24 \<le> n" "n < 32"
    by fastforce
  then show "bit (push_bit 24 (ucast (ucast (drop_bit 24 v) :: u8)) OR push_bit 16 (ucast (ucast (drop_bit 16 v) :: u8)) OR
   push_bit 8 (ucast (ucast (drop_bit 8 v) :: u8)) OR ucast (ucast v :: u8) :: u32) n = bit v n"
    by cases (auto simp: bit_simps)
qed

lemma AppendWireHeader_prefix: "AppendWireHeader h out = out @ AppendWireHeader h []"
  by (simp add: AppendWireHeader_def Let_def)

lemma length_AppendWireHeader: "length (AppendWireHeader h []) = kRpcHeaderBytes"
  by (simp add: AppendWireHeader_def Let_def StoreUint32BE_def)

lemma Load_AppendWireHeader:
  "LoadUint32BE (AppendWireHeader h []) 0 = magic h"
  "LoadUint32BE (AppendWireHeader h []) 4 = body_len h"
  "LoadUint32BE (AppendWireHeader h []) 8 = meta_len h"
  "LoadUint32BE (AppendWireHeader h []) 12 = flags h"
  by (simp_all add: AppendWireHeader_def Let_def StoreUint32BE_def LoadUint32BE_def
      kRpcHeaderBytes_def be32_bytes_id)

lemma WireVersion_MakeWireFlags: "WireVersion (MakeWireFlags v f) = v"
  unfolding WireVersion_def MakeWireFlags_def kWireVersionShift_def kWireFeatureMask_def
  by (auto intro!: bit_word_eqI simp: bit_simps dest: bit_u8_lt)


lemma kWireFeatureMask_mask: "kWireFeatureMask = mask 24"
  by (simp add: kWireFeatureMask_def mask_eq_exp_minus_1)

lemma WireFeatures_MakeWireFlags: "WireFeatures (MakeWireFlags v f) = f AND kWireFeatureMask"
proof (rule bit_word_eqI)
  fix n assume "n < LENGTH(32)"
  show "bit (WireFeatures (MakeWireFlags v f)) n = bit (f AND kWireFeatureMask) n"
    unfolding WireFeatures_def MakeWireFlags_def kWireVersionShift_def kWireFeatureMask_mask
    by (auto simp: bit_simps)
qed

lemma MakeWireFlags_surj: "MakeWireFlags (WireVersion fl) (WireFeatures fl) = fl"
proof (rule bit_word_eqI)
  fix n assume "n < LENGTH(32)"
  then show "bit (MakeWireFlags (WireVersion fl) (WireFeatures fl)) n = bit fl n"
    unfolding WireVersion_def WireFeatures_def MakeWireFlags_def kWireVersionShift_def
      kWireFeatureMask_mask
    by (cases "n < 24") (auto simp: bit_simps)
qed

section \<open>A staged view of the parser\<close>

text \<open>
  The parser reads a header, checks it, waits for the whole frame and then splits the payload.
  The following stages are proof devices; \<open>TryParse_unfold\<close> shows that they compose to
  \<open>TryParseRpcFrame\<close>.
\<close>

definition frame_header :: "bytes \<Rightarrow> RpcHeader" where
  "frame_header buf = (let hb = take kRpcHeaderBytes buf in
     \<lparr>magic = LoadUint32BE hb 0, body_len = LoadUint32BE hb 4, meta_len = LoadUint32BE hb 8,
      flags = LoadUint32BE hb 12\<rparr>)"

definition header_error :: "RpcHeader \<Rightarrow> nat \<Rightarrow> FrameParseStatus option" where
  "header_error h n =
     (if magic h \<noteq> kMagic then Some ERROR_MAGIC_MISMATCH
      else if WireVersion (flags h) \<noteq> kRpcWireVersion then Some ERROR_UNSUPPORTED_VERSION
      else if WireFeatures (flags h) \<noteq> 0 then Some ERROR_UNSUPPORTED_FLAGS
      else if meta_len h = 0 then Some ERROR_INVALID_LENGTH
      else if n < kRpcHeaderBytes + unat (meta_len h) + unat (body_len h)
        then Some ERROR_FRAME_TOO_LARGE
      else None)"

definition frame_size :: "RpcHeader \<Rightarrow> nat" where
  "frame_size h = kRpcHeaderBytes + unat (meta_len h) + unat (body_len h)"

definition frame_payload :: "(bytes \<Rightarrow> RpcMeta option) \<Rightarrow> RpcHeader \<Rightarrow> bytes \<Rightarrow> FrameParseResult" where
  "frame_payload par h payload =
     (case par (take (unat (meta_len h)) payload) of
        None \<Rightarrow> parse_result ERROR_CORRUPTED_FRAME (frame_size h) h
      | Some m \<Rightarrow>
          if m_attachment_size m > body_len h
          then parse_result ERROR_INVALID_LENGTH (frame_size h) h
          else \<lparr>status = SUCCESS, total_frame_bytes = frame_size h, header = h, meta = m,
                body_iobuf = take (unat (body_len h) - unat (m_attachment_size m))
                  (drop (unat (meta_len h)) payload),
                attachment_iobuf = take (unat (m_attachment_size m))
                  (drop (unat (meta_len h) + unat (body_len h) - unat (m_attachment_size m)) payload)\<rparr>)"

lemma no_size_overflow: "\<not> unat (a :: u32) > SIZE_MAX - unat (b :: u32)"
  using unat_le_UINT32_MAX[of a] unat_le_UINT32_MAX[of b]
  by (simp add: UINT32_MAX_def SIZE_MAX_def)


lemma payload_slices:
  assumes "a \<le> b"
  shows "take m (drop k (take (k + m + b) buf)) = take m (drop k buf)"
    and "take (b - a) (drop m (drop k (take (k + m + b) buf))) = take (b - a) (drop (k + m) buf)"
    and "take a (drop (m + b - a) (drop k (take (k + m + b) buf))) = take a (drop (k + m + (b - a)) buf)"
  using assms by (simp_all add: drop_take add_ac min_def)

lemma frame_payload_unfold:
  "(case par (take (unat (meta_len h)) (drop kRpcHeaderBytes buf)) of
      None \<Rightarrow> parse_result ERROR_CORRUPTED_FRAME (frame_size h) h
    | Some m \<Rightarrow>
        if m_attachment_size m > body_len h
        then parse_result ERROR_INVALID_LENGTH (frame_size h) h
        else \<lparr>status = SUCCESS, total_frame_bytes = frame_size h, header = h, meta = m,
              body_iobuf = (if body_len h - m_attachment_size m \<noteq> 0
                 then take (unat (body_len h - m_attachment_size m))
                   (drop (kRpcHeaderBytes + unat (meta_len h)) buf) else []),
              attachment_iobuf = (if m_attachment_size m \<noteq> 0
                 then take (unat (m_attachment_size m))
                   (drop (kRpcHeaderBytes + unat (meta_len h) +
                      unat (body_len h - m_attachment_size m)) buf) else [])\<rparr>)
   = frame_payload par h (drop kRpcHeaderBytes (take (frame_size h) buf))"
proof -
  have slice: "take (unat (meta_len h)) (drop kRpcHeaderBytes (take (frame_size h) buf))
      = take (unat (meta_len h)) (drop kRpcHeaderBytes buf)"
    unfolding frame_size_def by (rule payload_slices(1)[where a = 0]) simp
  show ?thesis
  proof (cases "par (take (unat (meta_len h)) (drop kRpcHeaderBytes buf))")
    case None
    then show ?thesis by (simp add: frame_payload_def slice)
  next
    case (Some m)
    show ?thesis
    proof (cases "m_attachment_size m > body_len h")
      case True
      with Some show ?thesis by (simp add: frame_payload_def slice)
    next
      case False
      then have le: "unat (m_attachment_size m) \<le> unat (body_len h)"
        by (simp add: word_less_nat_alt)
      have diff: "unat (body_len h - m_attachment_size m)
          = unat (body_len h) - unat (m_attachment_size m)"
        using False by (simp add: unat_sub)
      have body: "(if body_len h - m_attachment_size m \<noteq> 0
          then take (unat (body_len h) - unat (m_attachment_size m)) xs else []) =
          take (unat (body_len h) - unat (m_attachment_size m)) xs" for xs :: bytes
        using diff by (metis take0 unsigned_0 diff_0_eq_0 take_eq_Nil)
      have att: "(if m_attachment_size m \<noteq> 0 then take (unat (m_attachment_size m)) xs else [])
          = take (unat (m_attachment_size m)) xs" for xs :: bytes
        by simp
      show ?thesis
        using False Some
        by (simp only: frame_payload_def slice option.case if_False body att
            frame_size_def payload_slices[OF le] diff)
    qed
  qed
qed

lemma TryParse_unfold:
  "TryParseRpcFrame par buf n =
     (if length buf < kRpcHeaderBytes then parse_result NEED_MORE_DATA 0 default_header
      else case header_error (frame_header buf) n of
          Some e \<Rightarrow> parse_result e 0
            (if e = ERROR_MAGIC_MISMATCH then default_header else frame_header buf)
        | None \<Rightarrow>
            if length buf < frame_size (frame_header buf)
            then parse_result NEED_MORE_DATA (frame_size (frame_header buf)) (frame_header buf)
            else frame_payload par (frame_header buf)
              (drop kRpcHeaderBytes (take (frame_size (frame_header buf)) buf)))"
proof (cases "length buf < kRpcHeaderBytes")
  case True
  then show ?thesis by (simp add: TryParseRpcFrame_def)
next
  case False
  define h where "h = frame_header buf"
  define hb where "hb = take kRpcHeaderBytes buf"
  have h: "h = \<lparr>magic = LoadUint32BE hb 0, body_len = LoadUint32BE hb 4,
      meta_len = LoadUint32BE hb 8, flags = LoadUint32BE hb 12\<rparr>"
    by (simp add: h_def hb_def frame_header_def Let_def)
  have size: "frame_size h = kRpcHeaderBytes + (unat (meta_len h) + unat (body_len h))"
    by (simp add: frame_size_def)
  have limit: "(unat (meta_len h) + unat (body_len h) > n \<or>
      kRpcHeaderBytes > n - (unat (meta_len h) + unat (body_len h)))
      = (n < kRpcHeaderBytes + unat (meta_len h) + unat (body_len h))"
    by (auto simp: kRpcHeaderBytes_def)
  have known: "WireFeatures f AND NOT kKnownWireFeatures = WireFeatures f" for f
    by (simp add: kKnownWireFeatures_def)
  have "TryParseRpcFrame par buf n =
     (case header_error h n of
        Some e \<Rightarrow> parse_result e 0 (if e = ERROR_MAGIC_MISMATCH then default_header else h)
      | None \<Rightarrow> if length buf < frame_size h then parse_result NEED_MORE_DATA (frame_size h) h
          else frame_payload par h (drop kRpcHeaderBytes (take (frame_size h) buf)))"
    unfolding TryParseRpcFrame_def hb_def[symmetric] Let_def h[symmetric] size[symmetric]
      known limit frame_payload_unfold header_error_def
    using False by (simp add: no_size_overflow cong: if_weak_cong)
  then show ?thesis using False by (simp only: h_def if_False)
qed

lemma frame_header_append: "kRpcHeaderBytes \<le> length buf \<Longrightarrow> frame_header (buf @ rest) = frame_header buf"
  by (simp add: frame_header_def)

lemma frame_header_AppendWireHeader: "frame_header (AppendWireHeader h [] @ rest) = h"
  by (simp add: frame_header_def length_AppendWireHeader Load_AppendWireHeader)

lemma frame_size_ge: "kRpcHeaderBytes \<le> frame_size h"
  by (simp add: frame_size_def)

lemma frame_payload_status: "status (frame_payload par h p) \<noteq> NEED_MORE_DATA"
  by (auto simp: frame_payload_def parse_result_def split: option.split)

lemma TryParse_need_more_iff:
  "status (TryParseRpcFrame par buf n) = NEED_MORE_DATA \<longleftrightarrow>
     length buf < kRpcHeaderBytes \<or>
     header_error (frame_header buf) n = None \<and> length buf < frame_size (frame_header buf)"
  by (auto simp: TryParse_unfold parse_result_def frame_payload_status header_error_def
      split: option.split)

lemma TryParse_stable:
  assumes "status (TryParseRpcFrame par buf n) \<noteq> NEED_MORE_DATA"
  shows "TryParseRpcFrame par (buf @ rest) n = TryParseRpcFrame par buf n"
  using assms unfolding TryParse_need_more_iff
  by (auto simp: TryParse_unfold frame_header_append split: option.split)

lemma TryParse_success_size:
  assumes "status (TryParseRpcFrame par buf n) = SUCCESS"
  shows "total_frame_bytes (TryParseRpcFrame par buf n) = frame_size (frame_header buf)"
    and "frame_size (frame_header buf) \<le> length buf" and "frame_size (frame_header buf) \<le> n"
  using assms unfolding TryParse_unfold
  by (auto simp: parse_result_def frame_payload_def header_error_def frame_size_def
      split: option.splits if_splits)


section \<open>Packed frames\<close>


definition meta_codec_ok :: "(RpcMeta \<Rightarrow> bytes option) \<Rightarrow> (bytes \<Rightarrow> RpcMeta option) \<Rightarrow> bool" where
  "meta_codec_ok ser par \<longleftrightarrow> (\<forall>m bs. ser m = Some bs \<longrightarrow> par bs = Some m)"

text \<open>The protobuf law: parsing what was serialised gives the message back.\<close>

definition att_bytes :: "bytes option \<Rightarrow> bytes" where
  "att_bytes attachment = (case attachment of Some a \<Rightarrow> a | None \<Rightarrow> [])"

definition with_att :: "RpcMeta \<Rightarrow> bytes option \<Rightarrow> RpcMeta" where
  "with_att m attachment = m\<lparr>m_attachment_size := of_nat (length (att_bytes attachment))\<rparr>"

definition packed_frame :: "bytes \<Rightarrow> bytes \<Rightarrow> bytes option \<Rightarrow> bytes" where
  "packed_frame meta_buf body attachment =
     AppendWireHeader \<lparr>magic = kMagic,
       body_len = of_nat (length body + length (att_bytes attachment)),
       meta_len = of_nat (length meta_buf), flags = MakeWireFlags kRpcWireVersion 0\<rparr> []
     @ meta_buf @ body @ att_bytes attachment"

definition packable :: "(RpcMeta \<Rightarrow> bytes option) \<Rightarrow> RpcMeta \<Rightarrow> bytes \<Rightarrow> bytes option \<Rightarrow> nat \<Rightarrow> bytes \<Rightarrow> bool" where
  "packable ser m body attachment n meta_buf \<longleftrightarrow>
     length body + length (att_bytes attachment) \<le> UINT32_MAX \<and>
     ser (with_att m attachment) = Some meta_buf \<and> meta_buf \<noteq> [] \<and>
     length meta_buf \<le> UINT32_MAX \<and>
     kRpcHeaderBytes + length meta_buf + length body + length (att_bytes attachment) \<le> n"

lemma PackSerializedFrame_packable:
  assumes "packable ser m body attachment n mb"
  shows "PackSerializedFrame ser m body attachment out n =
     (True, with_att m attachment, out @ packed_frame mb body attachment)"
proof -
  have att: "(case attachment of None \<Rightarrow> 0 | Some a \<Rightarrow> length a) = length (att_bytes attachment)"
    by (simp add: att_bytes_def split: option.split)
  show ?thesis
    using assms
    unfolding PackSerializedFrame_def packable_def Let_def att with_att_def[symmetric]
    by (auto simp: packed_frame_def default_header_def att_bytes_def FitsUint32_def
        AppendWireHeader_prefix[of _ out] kRpcHeaderBytes_def)
qed

lemma PackSerializedFrame_not_packable:
  assumes "\<nexists>mb. packable ser m body attachment n mb"
  shows "\<exists>m'. PackSerializedFrame ser m body attachment out n = (False, m', out)"
proof -
  have att: "(case attachment of None \<Rightarrow> 0 | Some a \<Rightarrow> length a) = length (att_bytes attachment)"
    by (simp add: att_bytes_def split: option.split)
  show ?thesis
    using assms
    unfolding PackSerializedFrame_def packable_def Let_def att with_att_def[symmetric]
    by (cases "ser (with_att m attachment)")
       (auto simp: FitsUint32_def kRpcHeaderBytes_def UINT32_MAX_def)
qed

lemma PackSerializedFrame_True_packable:
  assumes "PackSerializedFrame ser m body att out n = (True, m', out')"
  shows "\<exists>mb. packable ser m body att n mb \<and> m' = with_att m att \<and>
    out' = out @ packed_frame mb body att"
proof (cases "\<exists>mb. packable ser m body att n mb")
  case True
  then obtain mb where "packable ser m body att n mb" by blast
  then show ?thesis using assms PackSerializedFrame_packable by fastforce
next
  case False
  then show ?thesis using assms PackSerializedFrame_not_packable [OF False, of out] by auto
qed

lemma split_three:
  "length xs = m + b \<Longrightarrow> a \<le> b \<Longrightarrow>
   take m xs @ take (b - a) (drop m xs) @ take a (drop (m + b - a) xs) = xs"
proof -
  assume len: "length xs = m + b" and le: "a \<le> b"
  have "take a (drop (m + b - a) xs) = drop (b - a) (drop m xs)"
    using len le by (simp add: add.commute)
  then have "take m xs @ take (b - a) (drop m xs) @ take a (drop (m + b - a) xs) =
      take m xs @ (take (b - a) (drop m xs) @ drop (b - a) (drop m xs))"
    by simp
  also have "\<dots> = xs" by (simp only: append_take_drop_id)
  finally show ?thesis .
qed

lemma packed_frame_header:
  "frame_header (packed_frame mb body attachment @ rest) =
     \<lparr>magic = kMagic, body_len = of_nat (length body + length (att_bytes attachment)),
       meta_len = of_nat (length mb), flags = MakeWireFlags kRpcWireVersion 0\<rparr>"
  by (simp add: packed_frame_def frame_header_AppendWireHeader)

lemma length_packed_frame:
  "length (packed_frame mb body attachment) =
     kRpcHeaderBytes + length mb + length body + length (att_bytes attachment)"
  by (simp add: packed_frame_def length_AppendWireHeader)

lemma packable_header_ok:
  assumes "packable ser m body attachment n mb"
  defines "h \<equiv> \<lparr>magic = kMagic, body_len = of_nat (length body + length (att_bytes attachment)),
      meta_len = of_nat (length mb), flags = MakeWireFlags kRpcWireVersion 0\<rparr>"
  shows "header_error h n = None" "frame_size h = length (packed_frame mb body attachment)"
    "unat (meta_len h) = length mb"
    "unat (body_len h) = length body + length (att_bytes attachment)"
    "unat (of_nat (length (att_bytes attachment)) :: u32) = length (att_bytes attachment)"
proof -
  show lens: "unat (meta_len h) = length mb"
    "unat (body_len h) = length body + length (att_bytes attachment)"
    "unat (of_nat (length (att_bytes attachment)) :: u32) = length (att_bytes attachment)"
    using assms(1) unfolding h_def packable_def by (simp_all add: unat_of_nat_u32 del: of_nat_add)
  then have "meta_len h \<noteq> 0"
    using assms(1) by (metis length_0_conv packable_def unsigned_0)
  then show "header_error h n = None"
    using assms(1) lens
    by (simp add: header_error_def h_def WireVersion_MakeWireFlags WireFeatures_MakeWireFlags
        packable_def add_ac)
  show "frame_size h = length (packed_frame mb body attachment)"
    by (simp add: frame_size_def lens length_packed_frame)
qed

lemma packed_prefix_incomplete:
  assumes "PackSerializedFrame ser m body att [] n = (True, m', frame)" "k < length frame"
  shows "status (TryParseRpcFrame par (take k frame) n) = NEED_MORE_DATA"
proof (cases "k < kRpcHeaderBytes")
  case True
  then show ?thesis using assms(2) by (simp add: TryParse_need_more_iff)
next
  case False
  from PackSerializedFrame_True_packable [OF assms(1)] obtain mb where
    ok: "packable ser m body att n mb" and f: "frame = packed_frame mb body att" by auto
  have h: "frame_header (take k frame) = frame_header (packed_frame mb body att @ [])"
    using False by (simp add: f frame_header_def)
  have "header_error (frame_header (take k frame)) n = None"
    "frame_size (frame_header (take k frame)) = length frame"
    unfolding h packed_frame_header using packable_header_ok(1,2) [OF ok] f by simp_all
  then show ?thesis
    using assms(2) by (simp add: TryParse_need_more_iff)
qed

lemma parse_packed_frame:
  assumes codec: "meta_codec_ok ser par" and ok: "packable ser m body attachment n mb"
  shows "TryParseRpcFrame par (packed_frame mb body attachment @ rest) n =
     \<lparr>status = SUCCESS, total_frame_bytes = length (packed_frame mb body attachment),
      header = \<lparr>magic = kMagic, body_len = of_nat (length body + length (att_bytes attachment)),
        meta_len = of_nat (length mb), flags = MakeWireFlags kRpcWireVersion 0\<rparr>,
      meta = with_att m attachment, body_iobuf = body, attachment_iobuf = att_bytes attachment\<rparr>"
proof -
  define h where "h = frame_header (packed_frame mb body attachment @ rest)"
  note h = h_def[unfolded packed_frame_header]
  note facts = packable_header_ok [OF ok, folded h]
  have noerr: "header_error h n = None" and size: "frame_size h = length (packed_frame mb body attachment)"
    and lens: "unat (meta_len h) = length mb"
      "unat (body_len h) = length body + length (att_bytes attachment)"
      "unat (of_nat (length (att_bytes attachment)) :: u32) = length (att_bytes attachment)"
    by (rule facts)+
  have payload: "drop kRpcHeaderBytes (take (frame_size h) (packed_frame mb body attachment @ rest))
     = mb @ body @ att_bytes attachment"
    by (simp add: size) (simp add: packed_frame_def length_AppendWireHeader)
  have m: "m_attachment_size (with_att m attachment) = of_nat (length (att_bytes attachment))"
    by (simp add: with_att_def)
  have le: "\<not> m_attachment_size (with_att m attachment) > body_len h"
    by (simp add: m lens word_less_nat_alt)
  have par: "par mb = Some (with_att m attachment)"
    using codec ok by (auto simp: meta_codec_ok_def packable_def)
  have "frame_payload par h (mb @ body @ att_bytes attachment) =
     \<lparr>status = SUCCESS, total_frame_bytes = frame_size h, header = h,
      meta = with_att m attachment, body_iobuf = body, attachment_iobuf = att_bytes attachment\<rparr>"
    using le by (simp add: frame_payload_def lens par m)
  moreover have "kRpcHeaderBytes \<le> length (packed_frame mb body attachment @ rest)"
    by (simp add: length_packed_frame)
  ultimately show ?thesis
    unfolding h[symmetric] TryParse_unfold h_def[symmetric] noerr option.case payload
    by (simp add: size)
qed

section \<open>Byte streams\<close>

text \<open>
  The receive loops of both peers drain a buffer frame by frame and keep the remainder for the
  next read.  \<open>stream_parser\<close> is the contract they rely on; its consequence is that the way TCP
  splits the stream into reads does not matter.
\<close>


function DrainFrames ::
  "(bytes \<Rightarrow> RpcMeta option) \<Rightarrow> nat \<Rightarrow> bytes \<Rightarrow> FrameParseResult list \<times> bytes" where
  "DrainFrames par n buf =
     (let r = TryParseRpcFrame par buf n
      in if status r = SUCCESS
         then let (rs, rest) = DrainFrames par n (drop (total_frame_bytes r) buf) in (r # rs, rest)
         else ([], buf))"
  by pat_completeness auto
termination
proof (relation "measure (\<lambda>(par, n, buf). length buf)", goal_cases)
  case (2 par n buf r)
  then have "total_frame_bytes r = frame_size (frame_header buf)"
    "frame_size (frame_header buf) \<le> length buf"
    using TryParse_success_size [of par buf n] by simp_all
  then show ?case
    using frame_size_ge [of "frame_header buf"] by (simp add: kRpcHeaderBytes_def)
qed simp

declare DrainFrames.simps [simp del]

fun feed_chunks :: "(bytes \<Rightarrow> 'r list \<times> bytes) \<Rightarrow> bytes \<Rightarrow> bytes list \<Rightarrow> 'r list \<times> bytes" where
  "feed_chunks drain buf [] = ([], buf)"
| "feed_chunks drain buf (c # cs) =
     (let (rs, rest) = drain (buf @ c); (rs', rest') = feed_chunks drain rest cs
      in (rs @ rs', rest'))"

locale stream_parser =
  fixes parse :: "bytes \<Rightarrow> 'r"
    and is_frame :: "'r \<Rightarrow> bool"
    and incomplete :: "'r \<Rightarrow> bool"
    and consumed :: "'r \<Rightarrow> nat"
    and drain :: "bytes \<Rightarrow> 'r list \<times> bytes"
  assumes consumed_pos: "is_frame (parse b) \<Longrightarrow> 0 < consumed (parse b)"
    and consumed_le: "is_frame (parse b) \<Longrightarrow> consumed (parse b) \<le> length b"
    and frame_complete: "is_frame r \<Longrightarrow> \<not> incomplete r"
    and stable: "\<not> incomplete (parse b) \<Longrightarrow> parse (b @ x) = parse b"
    and drain_eq: "drain b =
      (if is_frame (parse b)
       then let (rs, rest) = drain (drop (consumed (parse b)) b) in (parse b # rs, rest)
       else ([], b))"
begin

lemma drain_append:
  "drain (b @ x) = (let (rs, rest) = drain b; (rs', rest') = drain (rest @ x) in (rs @ rs', rest'))"
proof (induction b rule: length_induct)
  case (1 b)
  show ?case
  proof (cases "is_frame (parse b)")
    case False
    then have "drain b = ([], b)" by (subst drain_eq) simp
    then show ?thesis by (simp split: prod.split)
  next
    case True
    define k where "k = consumed (parse b)"
    from True have le: "k \<le> length b" and pos: "0 < k"
      by (simp_all add: k_def consumed_le consumed_pos)
    have same: "parse (b @ x) = parse b"
      using True frame_complete stable by blast
    have ih: "drain (drop k b @ x) =
        (let (rs, rest) = drain (drop k b); (rs', rest') = drain (rest @ x) in (rs @ rs', rest'))"
      using "1.IH" le pos by simp
    have unfold1: "drain (b @ x) = (let (rs, rest) = drain (drop k b @ x) in (parse b # rs, rest))"
      using True le by (subst drain_eq) (simp add: same k_def)
    have unfold2: "drain b = (let (rs, rest) = drain (drop k b) in (parse b # rs, rest))"
      using True by (subst drain_eq) (simp add: k_def)
    show ?thesis
      unfolding unfold1 unfold2 ih by (simp split: prod.split)
  qed
qed

lemma drain_idem: "drain b = (rs, rest) \<Longrightarrow> drain rest = ([], rest)"
proof (induction b arbitrary: rs rule: length_induct)
  case (1 b)
  show ?case
  proof (cases "is_frame (parse b)")
    case False
    with "1.prems" show ?thesis
      by (metis drain_eq snd_conv)
  next
    case True
    then have "length (drop (consumed (parse b)) b) < length b"
      using consumed_pos consumed_le by fastforce
    moreover obtain rs' where "drain (drop (consumed (parse b)) b) = (rs', rest)"
      using "1.prems" True by (subst (asm) drain_eq) (auto split: prod.splits)
    ultimately show ?thesis using "1.IH" by blast
  qed
qed

lemma feed_from:
  "drain buf = ([], buf) \<Longrightarrow> feed_chunks drain buf cs = drain (buf @ concat cs)"
proof (induction cs arbitrary: buf)
  case Nil
  then show ?case by simp
next
  case (Cons c cs)
  obtain rs rest where d: "drain (buf @ c) = (rs, rest)" by fastforce
  then have "drain rest = ([], rest)" by (rule drain_idem)
  then have "feed_chunks drain rest cs = drain (rest @ concat cs)" by (rule Cons.IH)
  moreover have "drain ((buf @ c) @ concat cs) =
      (let (rs', rest') = drain (rest @ concat cs) in (rs @ rs', rest'))"
    by (subst drain_append) (simp add: d)
  ultimately show ?case by (simp add: d)
qed

lemma drain_Nil: "drain [] = ([], [])"
proof -
  have "\<not> is_frame (parse [])"
    using consumed_pos [of "[]"] consumed_le [of "[]"] by fastforce
  then show ?thesis by (subst drain_eq) simp
qed

lemma feed_chunks_concat: "feed_chunks drain [] cs = drain (concat cs)"
  using feed_from [OF drain_Nil] by simp

end

interpretation wire: stream_parser "\<lambda>b. TryParseRpcFrame par b n" "\<lambda>r. status r = SUCCESS"
  "\<lambda>r. status r = NEED_MORE_DATA" total_frame_bytes "DrainFrames par n" for par n
proof (unfold_locales, goal_cases)
  case (1 b)
  then show ?case
    using TryParse_success_size(1) [OF 1] frame_size_ge [of "frame_header b"]
    by (simp add: kRpcHeaderBytes_def)
next
  case (2 b)
  then show ?case using TryParse_success_size(1,2) [OF 2] by simp
next
  case (4 b x)
  then show ?case by (rule TryParse_stable)
next
  case (5 b)
  then show ?case by (subst DrainFrames.simps) (simp add: Let_def)
qed simp

fun pack_stream ::
  "(RpcMeta \<Rightarrow> bytes option) \<Rightarrow> nat \<Rightarrow> (RpcMeta \<times> bytes \<times> bytes option) list \<Rightarrow> bytes \<Rightarrow> bytes option" where
  "pack_stream ser n [] out = Some out"
| "pack_stream ser n ((m, body, att) # calls) out =
     (case PackSerializedFrame ser m body att out n of
        (True, _, out') \<Rightarrow> pack_stream ser n calls out'
      | (False, _, _) \<Rightarrow> None)"

lemma pack_stream_drain:
  assumes "meta_codec_ok ser par" "pack_stream ser n calls out = Some out'"
  shows "\<exists>s. out' = out @ s \<and> snd (DrainFrames par n s) = [] \<and>
    map (\<lambda>r. (meta r, body_iobuf r, attachment_iobuf r)) (fst (DrainFrames par n s)) =
    map (\<lambda>(m, body, att). (with_att m att, body, att_bytes att)) calls"
  using assms(2)
proof (induction calls arbitrary: out)
  case Nil
  then show ?case using wire.drain_Nil by simp
next
  case (Cons c calls)
  obtain m body att where c: "c = (m, body, att)" by (cases c)
  from Cons.prems obtain m1 out1 where p: "PackSerializedFrame ser m body att out n = (True, m1, out1)"
    and rest: "pack_stream ser n calls out1 = Some out'"
    by (auto simp: c split: prod.splits bool.splits)
  from PackSerializedFrame_True_packable [OF p] obtain mb where
    ok: "packable ser m body att n mb" and out1: "out1 = out @ packed_frame mb body att" by blast
  from Cons.IH [OF rest] obtain s where s: "out' = out1 @ s" "snd (DrainFrames par n s) = []"
    "map (\<lambda>r. (meta r, body_iobuf r, attachment_iobuf r)) (fst (DrainFrames par n s)) =
     map (\<lambda>(m, body, att). (with_att m att, body, att_bytes att)) calls" by blast
  have "DrainFrames par n (packed_frame mb body att @ s) =
     (let (rs, r) = DrainFrames par n s
      in (TryParseRpcFrame par (packed_frame mb body att @ s) n # rs, r))"
    by (subst DrainFrames.simps) (simp add: parse_packed_frame [OF assms(1) ok])
  then show ?case
    using s out1
    by (intro exI [of _ "packed_frame mb body att @ s"])
       (simp add: c parse_packed_frame [OF assms(1) ok] split: prod.splits)
qed

section \<open>Properties\<close>

text \<open>
  C1: a frame that \<^verbatim>\<open>PackSerializedFrame\<close> accepts is appended to the output and fits the
  configured limit; \<^verbatim>\<open>TryParseRpcFrame\<close> with the same limit, given that frame followed by any
  further bytes, succeeds, consumes exactly the frame and returns the metadata, body and
  attachment that were packed.
\<close>

theorem pack_parse_roundtrip:
  assumes "meta_codec_ok ser par"
    and "PackSerializedFrame ser m body att out n = (True, m', out')"
  shows "\<exists>frame. out' = out @ frame \<and> length frame \<le> n \<and>
    (\<forall>rest. let r = TryParseRpcFrame par (frame @ rest) n
      in status r = SUCCESS \<and> total_frame_bytes r = length frame \<and> meta r = m' \<and>
         body_iobuf r = body \<and> attachment_iobuf r = (case att of Some a \<Rightarrow> a | None \<Rightarrow> []))"
proof -
  from PackSerializedFrame_True_packable [OF assms(2)] obtain mb where
    ok: "packable ser m body att n mb" "m' = with_att m att" "out' = out @ packed_frame mb body att"
    by blast
  moreover have "length (packed_frame mb body att) \<le> n"
    using ok(1) by (simp add: length_packed_frame packable_def)
  ultimately show ?thesis
    by (intro exI [of _ "packed_frame mb body att"])
       (simp add: parse_packed_frame [OF assms(1) ok(1)] att_bytes_def)
qed

text \<open>
  A concrete codec for one message: it serialises one metadata value and refuses the others.
\<close>

definition sample_meta :: RpcMeta where
  "sample_meta = empty_meta\<lparr>m_correlation_id := 7, m_service_name := ''Echo'', m_attachment_size := 1\<rparr>"

definition sample_ser :: "RpcMeta \<Rightarrow> bytes option" where
  "sample_ser m = (if m = sample_meta then Some [8, 7] else None)"

definition sample_par :: "bytes \<Rightarrow> RpcMeta option" where
  "sample_par bs = (if bs = [8, 7] then Some sample_meta else None)"

lemma sample_codec_ok: "meta_codec_ok sample_ser sample_par"
  by (simp add: meta_codec_ok_def sample_ser_def sample_par_def)

lemma sample_pack:
  "PackSerializedFrame sample_ser (sample_meta\<lparr>m_attachment_size := 0\<rparr>) [1, 2] (Some [9]) [] 64 =
     (True, sample_meta, packed_frame [8, 7] [1, 2] (Some [9]))"
  using PackSerializedFrame_packable [of sample_ser "sample_meta\<lparr>m_attachment_size := 0\<rparr>" "[1, 2]"
      "Some [9]" 64 "[8, 7]" "[]"]
  by (simp add: packable_def with_att_def att_bytes_def sample_ser_def sample_meta_def
      empty_meta_def UINT32_MAX_def kRpcHeaderBytes_def)

theorem pack_parse_roundtrip_witness:
  "\<exists>frame. packed_frame [8, 7] [1, 2] (Some [9]) = [] @ frame \<and> length frame \<le> 64 \<and>
    (\<forall>rest. let r = TryParseRpcFrame sample_par (frame @ rest) 64
      in status r = SUCCESS \<and> total_frame_bytes r = length frame \<and> meta r = sample_meta \<and>
         body_iobuf r = [1, 2] \<and> attachment_iobuf r = [9])"
  using pack_parse_roundtrip [OF sample_codec_ok sample_pack] by simp

text \<open>
  \<^verbatim>\<open>PackSerializedFrame\<close> succeeds exactly when body and attachment together fit 32 bits,
  the metadata serialises to a non-empty 32-bit length and the complete frame, header included,
  fits \<^verbatim>\<open>max_frame_bytes\<close>; when it fails the output buffer is untouched.
\<close>

theorem pack_succeeds_iff:
  "fst (PackSerializedFrame ser m body att out n) =
     (let a = (case att of Some a \<Rightarrow> length a | None \<Rightarrow> 0) in
      length body + a \<le> UINT32_MAX \<and>
      (\<exists>mb. ser (m\<lparr>m_attachment_size := of_nat a\<rparr>) = Some mb \<and> mb \<noteq> [] \<and>
         length mb \<le> UINT32_MAX \<and> kRpcHeaderBytes + length mb + length body + a \<le> n)) \<and>
   (fst (PackSerializedFrame ser m body att out n) \<or>
    snd (snd (PackSerializedFrame ser m body att out n)) = out)"
proof -
  have a: "(case att of Some a \<Rightarrow> length a | None \<Rightarrow> 0) = length (att_bytes att)"
    by (simp add: att_bytes_def split: option.split)
  show ?thesis
  proof (cases "\<exists>mb. packable ser m body att n mb")
    case True
    then obtain mb where ok: "packable ser m body att n mb" by blast
    show ?thesis
      using ok by (auto simp: PackSerializedFrame_packable [OF ok] a Let_def packable_def with_att_def)
  next
    case False
    then show ?thesis
      using PackSerializedFrame_not_packable [OF False, of out]
      by (auto simp: a Let_def packable_def with_att_def)
  qed
qed

text \<open>
  C2: any sequence of calls packed one after the other into a buffer, cut into arbitrary chunks
  and fed to the parse loop chunk by chunk, comes out as exactly those calls in order, with
  nothing left over.
\<close>

theorem stream_roundtrip:
  assumes "meta_codec_ok ser par" and "pack_stream ser n calls [] = Some out"
    and "concat chunks = out"
  shows "map (\<lambda>r. (meta r, body_iobuf r, attachment_iobuf r))
           (fst (feed_chunks (DrainFrames par n) [] chunks)) =
         map (\<lambda>(m, body, att). (with_att m att, body, att_bytes att)) calls \<and>
         snd (feed_chunks (DrainFrames par n) [] chunks) = []"
  using pack_stream_drain [OF assms(1,2)] assms(3)
  by (auto simp: wire.feed_chunks_concat)

lemma sample_stream:
  "pack_stream sample_ser 64 [(sample_meta, [1, 2], Some [9]), (sample_meta, [], Some [5])] [] =
     Some (packed_frame [8, 7] [1, 2] (Some [9]) @ packed_frame [8, 7] [] (Some [5]))"
proof -
  have "packable sample_ser sample_meta [1, 2] (Some [9]) 64 [8, 7]"
    "packable sample_ser sample_meta [] (Some [5]) 64 [8, 7]"
    by (simp_all add: packable_def with_att_def att_bytes_def sample_ser_def sample_meta_def
        empty_meta_def UINT32_MAX_def kRpcHeaderBytes_def)
  then show ?thesis by (simp add: PackSerializedFrame_packable)
qed

theorem stream_roundtrip_witness:
  "map (\<lambda>r. (meta r, body_iobuf r, attachment_iobuf r))
     (fst (feed_chunks (DrainFrames sample_par 64) []
        [take 3 (packed_frame [8, 7] [1, 2] (Some [9]) @ packed_frame [8, 7] [] (Some [5])),
         drop 3 (packed_frame [8, 7] [1, 2] (Some [9]) @ packed_frame [8, 7] [] (Some [5]))])) =
   [(sample_meta, [1, 2], [9]), (sample_meta, [], [5])]"
proof -
  have chunks: "concat [take 3 xs, drop 3 xs] = xs" for xs :: bytes
    by simp
  show ?thesis
    unfolding conjunct1 [OF stream_roundtrip [OF sample_codec_ok sample_stream chunks]]
    by (simp add: with_att_def att_bytes_def sample_meta_def empty_meta_def)
qed

text \<open>
  C3: a successful parse is sound: the header carries the magic number, version 1 and no feature
  bit, the frame obeys the limit, and the consumed bytes are exactly 16 header bytes, the bytes
  from which protobuf parsed the metadata, the body and the attachment, in this order, the
  attachment having the size the metadata declares.
\<close>

theorem parse_success_sound:
  assumes "status (TryParseRpcFrame par buf n) = SUCCESS"
  shows "let r = TryParseRpcFrame par buf n; h = header r
    in magic h = kMagic \<and> WireVersion (flags h) = kRpcWireVersion \<and> WireFeatures (flags h) = 0 \<and>
       total_frame_bytes r = kRpcHeaderBytes + unat (meta_len h) + unat (body_len h) \<and>
       total_frame_bytes r \<le> n \<and> total_frame_bytes r \<le> length buf \<and>
       length (attachment_iobuf r) = unat (m_attachment_size (meta r)) \<and>
       (\<exists>hb mb. length hb = kRpcHeaderBytes \<and> length mb = unat (meta_len h) \<and>
          par mb = Some (meta r) \<and>
          take (total_frame_bytes r) buf = hb @ mb @ body_iobuf r @ attachment_iobuf r)"
proof -
  define h where "h = frame_header buf"
  define pay where "pay = drop kRpcHeaderBytes (take (frame_size h) buf)"
  have size: "frame_size h \<le> length buf" "frame_size h \<le> n"
    using TryParse_success_size [OF assms] by (simp_all add: h_def)
  have noerr: "header_error h n = None" and r: "TryParseRpcFrame par buf n = frame_payload par h pay"
    using assms unfolding TryParse_unfold h_def pay_def
    by (auto simp: parse_result_def header_error_def split: option.splits if_splits)
  from assms obtain m where m: "par (take (unat (meta_len h)) pay) = Some m"
    "unat (m_attachment_size m) \<le> unat (body_len h)"
    and rr: "frame_payload par h pay =
      \<lparr>status = SUCCESS, total_frame_bytes = frame_size h, header = h, meta = m,
       body_iobuf = take (unat (body_len h) - unat (m_attachment_size m)) (drop (unat (meta_len h)) pay),
       attachment_iobuf = take (unat (m_attachment_size m))
         (drop (unat (meta_len h) + unat (body_len h) - unat (m_attachment_size m)) pay)\<rparr>"
    unfolding r
    by (auto simp: frame_payload_def parse_result_def word_le_nat_alt not_less
        split: option.splits if_splits)
  have len: "length pay = unat (meta_len h) + unat (body_len h)"
    using size by (simp add: pay_def frame_size_def)
  have split: "pay = take (unat (meta_len h)) pay @
      take (unat (body_len h) - unat (m_attachment_size m)) (drop (unat (meta_len h)) pay) @
      take (unat (m_attachment_size m))
        (drop (unat (meta_len h) + unat (body_len h) - unat (m_attachment_size m)) pay)"
    by (rule split_three [OF len m(2), symmetric])
  have whole: "take (frame_size h) buf = take kRpcHeaderBytes buf @ pay"
    unfolding pay_def frame_size_def
    by (metis add.assoc append_take_drop_id le_add1 min.absorb1 take_take)
  have hb: "length (take kRpcHeaderBytes buf) = kRpcHeaderBytes"
    using size(1) by (simp add: frame_size_def)
  have bytes: "\<exists>hb mb. length hb = kRpcHeaderBytes \<and> length mb = unat (meta_len h) \<and>
      par mb = Some m \<and> take (frame_size h) buf = hb @ mb @
        body_iobuf (frame_payload par h pay) @ attachment_iobuf (frame_payload par h pay)"
  proof (intro exI conjI)
    show "take (frame_size h) buf = take kRpcHeaderBytes buf @ take (unat (meta_len h)) pay @
        body_iobuf (frame_payload par h pay) @ attachment_iobuf (frame_payload par h pay)"
      unfolding whole rr FrameParseResult.simps using split by simp
  qed (use hb len m(1) in simp_all)
  have "magic h = kMagic" "WireVersion (flags h) = kRpcWireVersion" "WireFeatures (flags h) = 0"
    using noerr by (auto simp: header_error_def split: if_splits)
  then show ?thesis
    using bytes size m len unfolding r rr Let_def by (simp add: frame_size_def)
qed

theorem parse_success_sound_witness:
  "let r = TryParseRpcFrame sample_par (packed_frame [8, 7] [1, 2] (Some [9])) 64; h = header r
    in magic h = kMagic \<and> total_frame_bytes r = 21 \<and> length (attachment_iobuf r) = 1"
proof -
  have ok: "packable sample_ser sample_meta [1, 2] (Some [9]) 64 [8, 7]"
    by (simp add: packable_def with_att_def att_bytes_def sample_ser_def sample_meta_def
        empty_meta_def UINT32_MAX_def kRpcHeaderBytes_def)
  have parsed: "TryParseRpcFrame sample_par (packed_frame [8, 7] [1, 2] (Some [9])) 64 =
     \<lparr>status = SUCCESS, total_frame_bytes = 21,
      header = \<lparr>magic = kMagic, body_len = 3, meta_len = 2, flags = MakeWireFlags kRpcWireVersion 0\<rparr>,
      meta = with_att sample_meta (Some [9]), body_iobuf = [1, 2], attachment_iobuf = [9]\<rparr>"
    using parse_packed_frame [OF sample_codec_ok ok, of "[]"]
    by (simp add: length_packed_frame att_bytes_def kRpcHeaderBytes_def)
  then have "status (TryParseRpcFrame sample_par (packed_frame [8, 7] [1, 2] (Some [9])) 64) = SUCCESS"
    by simp
  from parse_success_sound [OF this] parsed show ?thesis by simp
qed

text \<open>
  C4: the parser is incremental: on every proper prefix of a valid frame it asks for more data
  and never reports an error, and once it reports anything else, further bytes never change its
  answer.
\<close>

theorem parse_incremental:
  assumes "PackSerializedFrame ser m body att [] n = (True, m', frame)"
  shows "(k < length frame \<longrightarrow> status (TryParseRpcFrame par (take k frame) n) = NEED_MORE_DATA) \<and>
    (status (TryParseRpcFrame par buf n) \<noteq> NEED_MORE_DATA \<longrightarrow>
      TryParseRpcFrame par (buf @ rest) n = TryParseRpcFrame par buf n)"
  using packed_prefix_incomplete [OF assms] TryParse_stable by blast

theorem parse_incremental_witness:
  "status (TryParseRpcFrame sample_par (take 20 (packed_frame [8, 7] [1, 2] (Some [9]))) 64)
     = NEED_MORE_DATA"
  using parse_incremental [OF sample_pack, of 20 sample_par]
  by (simp add: length_packed_frame att_bytes_def kRpcHeaderBytes_def)

text \<open>
  C0: the flags word carries an 8-bit version above 24 feature bits: packing and unpacking are
  inverse, and a frame header is accepted only with version 1 and no feature.
\<close>

theorem wire_flags_roundtrip:
  "WireVersion (MakeWireFlags v f) = v \<and> WireFeatures (MakeWireFlags v f) = f AND kWireFeatureMask \<and>
   MakeWireFlags (WireVersion fl) (WireFeatures fl) = fl"
  using WireVersion_MakeWireFlags WireFeatures_MakeWireFlags MakeWireFlags_surj by blast

end
