(* ===== verification/Metrics.thy ===== *)
theory Metrics
  imports Wire_Protocol "HOL-Library.Char_ord" "HOL-Library.List_Lexorder"
    "HOL-Library.Product_Lexorder"
begin

text \<open>
  The observability primitives (\<^verbatim>\<open>metrics/metric.hpp\<close>, \<^verbatim>\<open>metrics/latency_recorder.hpp\<close>), the
  client's metric block (\<^verbatim>\<open>rpc/core/client_metrics.hpp\<close>) and the server's
  (\<^verbatim>\<open>rpc/server/server_metrics.hpp\<close>).

  A counter is an unsigned and a gauge a signed 64-bit atomic; both wrap, so both are words and a
  gauge is read with \<^const>\<open>sint\<close>.  The compare-exchange loops of the latency recorder retry until
  the exchange succeeds and every retry recomputes from the value just observed, so one operation
  is one update of the state.
\<close>

section \<open>Counters and gauges\<close>

type_synonym Counter = u64
type_synonym Gauge = "64 word"

definition Counter_Add :: "Counter \<Rightarrow> u64 \<Rightarrow> Counter" where
  "Counter_Add v delta = v + delta"

definition Gauge_Set :: "int \<Rightarrow> Gauge" where
  "Gauge_Set v = word_of_int v"

definition Gauge_Add :: "Gauge \<Rightarrow> int \<Rightarrow> Gauge" where
  "Gauge_Add v delta = v + word_of_int delta"

definition Gauge_Value :: "Gauge \<Rightarrow> int" where
  "Gauge_Value v = sint v"

lemmas metric_ops = Counter_Add_def Gauge_Add_def

section \<open>Latency recorder\<close>

definition UINT64_MAX :: u64 where
  "UINT64_MAX = - 1"

record LatencySnapshot =
  snap_count :: u64
  snap_total :: u64
  snap_min :: u64
  snap_max :: u64
  snap_average :: u64

definition LatencySnapshot_empty :: "LatencySnapshot \<Rightarrow> bool" where
  "LatencySnapshot_empty s = (snap_count s = 0)"

record LatencyRecorder =
  lr_count :: u64
  lr_total_microseconds :: u64
  lr_min_microseconds :: u64
  lr_max_microseconds :: u64

definition new_LatencyRecorder :: LatencyRecorder where
  "new_LatencyRecorder = \<lparr>lr_count = 0, lr_total_microseconds = 0,
     lr_min_microseconds = UINT64_MAX, lr_max_microseconds = 0\<rparr>"

definition AddToTotal :: "u64 \<Rightarrow> LatencyRecorder \<Rightarrow> LatencyRecorder" where
  "AddToTotal latency r =
     (let current = lr_total_microseconds r;
          nxt = (if UINT64_MAX - current < latency then UINT64_MAX else current + latency)
      in r\<lparr>lr_total_microseconds := nxt\<rparr>)"

definition UpdateMin :: "u64 \<Rightarrow> LatencyRecorder \<Rightarrow> LatencyRecorder" where
  "UpdateMin latency r =
     (if latency < lr_min_microseconds r then r\<lparr>lr_min_microseconds := latency\<rparr> else r)"

definition UpdateMax :: "u64 \<Rightarrow> LatencyRecorder \<Rightarrow> LatencyRecorder" where
  "UpdateMax latency r =
     (if latency > lr_max_microseconds r then r\<lparr>lr_max_microseconds := latency\<rparr> else r)"

definition RecordMicroseconds :: "u64 \<Rightarrow> LatencyRecorder \<Rightarrow> LatencyRecorder" where
  "RecordMicroseconds latency r =
     (let r = AddToTotal latency r; r = UpdateMin latency r; r = UpdateMax latency r
      in r\<lparr>lr_count := lr_count r + 1\<rparr>)"

definition Record :: "int \<Rightarrow> LatencyRecorder \<Rightarrow> LatencyRecorder" where
  "Record latency r = (if latency < 0 then r else RecordMicroseconds (word_of_int latency) r)"

definition Snapshot :: "LatencyRecorder \<Rightarrow> LatencySnapshot" where
  "Snapshot r =
     (let count = lr_count r
      in if count = 0
         then \<lparr>snap_count = 0, snap_total = 0, snap_min = 0, snap_max = 0, snap_average = 0\<rparr>
         else let total = lr_total_microseconds r
              in \<lparr>snap_count = count, snap_total = total, snap_min = lr_min_microseconds r,
                  snap_max = lr_max_microseconds r, snap_average = total div count\<rparr>)"

section \<open>Client metrics\<close>

record ClientMetrics =
  cm_calls_started :: Counter
  cm_calls_completed :: Counter
  cm_calls_succeeded :: Counter
  cm_call_errors :: Counter
  cm_calls_timed_out :: Counter
  cm_calls_canceled :: Counter
  cm_active_in_flight :: Gauge
  cm_outbound_bytes :: Gauge
  cm_call_latency :: LatencyRecorder

definition new_ClientMetrics :: ClientMetrics where
  "new_ClientMetrics = \<lparr>cm_calls_started = 0, cm_calls_completed = 0, cm_calls_succeeded = 0,
     cm_call_errors = 0, cm_calls_timed_out = 0, cm_calls_canceled = 0, cm_active_in_flight = 0,
     cm_outbound_bytes = 0, cm_call_latency = new_LatencyRecorder\<rparr>"

definition RecordCompletion :: "int \<Rightarrow> u64 \<Rightarrow> ClientMetrics \<Rightarrow> ClientMetrics" where
  "RecordCompletion error_code latency_us m =
     (let m = m\<lparr>cm_calls_completed := Counter_Add (cm_calls_completed m) 1\<rparr>;
          m = (if error_code = RPC_SUCCESS
               then m\<lparr>cm_calls_succeeded := Counter_Add (cm_calls_succeeded m) 1\<rparr>
               else let m = m\<lparr>cm_call_errors := Counter_Add (cm_call_errors m) 1\<rparr>
                    in if error_code = RPC_ETIMEOUT
                       then m\<lparr>cm_calls_timed_out := Counter_Add (cm_calls_timed_out m) 1\<rparr>
                       else if error_code = RPC_ECANCELED
                       then m\<lparr>cm_calls_canceled := Counter_Add (cm_calls_canceled m) 1\<rparr>
                       else m)
      in m\<lparr>cm_call_latency := RecordMicroseconds latency_us (cm_call_latency m)\<rparr>)"

section \<open>Server metrics\<close>

datatype ConnectionCloseReason =
  kNone | kLocalRequest | kServerStop | kPeerEof | kReadError | kWriteError | kProtocolError |
  kIdleTimeout | kResourceLimit | kInternalError | kUnknown | kCount

fun CloseReason_index :: "ConnectionCloseReason \<Rightarrow> nat" where
  "CloseReason_index kNone = 0"
| "CloseReason_index kLocalRequest = 1"
| "CloseReason_index kServerStop = 2"
| "CloseReason_index kPeerEof = 3"
| "CloseReason_index kReadError = 4"
| "CloseReason_index kWriteError = 5"
| "CloseReason_index kProtocolError = 6"
| "CloseReason_index kIdleTimeout = 7"
| "CloseReason_index kResourceLimit = 8"
| "CloseReason_index kInternalError = 9"
| "CloseReason_index kUnknown = 10"
| "CloseReason_index kCount = 11"

fun ConnectionCloseReasonName :: "ConnectionCloseReason \<Rightarrow> string" where
  "ConnectionCloseReasonName kLocalRequest = ''local_request''"
| "ConnectionCloseReasonName kServerStop = ''server_stop''"
| "ConnectionCloseReasonName kPeerEof = ''peer_eof''"
| "ConnectionCloseReasonName kReadError = ''read_error''"
| "ConnectionCloseReasonName kWriteError = ''write_error''"
| "ConnectionCloseReasonName kProtocolError = ''protocol_error''"
| "ConnectionCloseReasonName kIdleTimeout = ''idle_timeout''"
| "ConnectionCloseReasonName kResourceLimit = ''resource_limit''"
| "ConnectionCloseReasonName kInternalError = ''internal_error''"
| "ConnectionCloseReasonName kNone = ''unknown''"
| "ConnectionCloseReasonName kUnknown = ''unknown''"
| "ConnectionCloseReasonName kCount = ''unknown''"

record ServerMethodMetrics =
  mm_service_name :: string
  mm_method_name :: string
  mm_calls_started :: Counter
  mm_calls_completed :: Counter
  mm_call_errors :: Counter
  mm_active_in_flight :: Gauge
  mm_call_latency :: LatencyRecorder

text \<open>
  A method descriptor is a protobuf object; it is a handle (a natural number) together with the
  two names the code asks it for.
\<close>

record MethodDescriptor =
  md_handle :: nat
  md_service_full_name :: string
  md_name :: string

record ServerMetrics =
  sm_accepted_connections :: Counter
  sm_rejected_connections :: Counter
  sm_closed_connections :: Counter
  sm_requests_received :: Counter
  sm_calls_started :: Counter
  sm_calls_completed :: Counter
  sm_call_errors :: Counter
  sm_requests_rejected_overload :: Counter
  sm_responses_enqueued :: Counter
  sm_write_errors :: Counter
  sm_partial_write_completions :: Counter
  sm_protocol_errors :: Counter
  sm_active_connections :: Gauge
  sm_active_in_flight :: Gauge
  sm_pending_worker_tasks :: Gauge
  sm_outbound_bytes :: Gauge
  sm_io_command_backlog :: Gauge
  sm_request_latency :: LatencyRecorder
  sm_method_metrics :: "(nat \<times> ServerMethodMetrics) list"
  sm_connection_closes_by_reason :: "Counter list"

definition new_ServerMetrics :: ServerMetrics where
  "new_ServerMetrics = \<lparr>sm_accepted_connections = 0, sm_rejected_connections = 0,
     sm_closed_connections = 0, sm_requests_received = 0, sm_calls_started = 0,
     sm_calls_completed = 0, sm_call_errors = 0, sm_requests_rejected_overload = 0,
     sm_responses_enqueued = 0, sm_write_errors = 0, sm_partial_write_completions = 0,
     sm_protocol_errors = 0, sm_active_connections = 0, sm_active_in_flight = 0,
     sm_pending_worker_tasks = 0, sm_outbound_bytes = 0, sm_io_command_backlog = 0,
     sm_request_latency = new_LatencyRecorder, sm_method_metrics = [],
     sm_connection_closes_by_reason = replicate (CloseReason_index kCount) 0\<rparr>"

definition RecordConnectionClose :: "ConnectionCloseReason \<Rightarrow> ServerMetrics \<Rightarrow> ServerMetrics" where
  "RecordConnectionClose reason m =
     (let reason = (if reason = kNone \<or> reason = kCount then kUnknown else reason);
          i = CloseReason_index reason; cs = sm_connection_closes_by_reason m
      in m\<lparr>sm_connection_closes_by_reason := cs[i := Counter_Add (cs ! i) 1]\<rparr>)"

definition ConnectionCloses :: "ServerMetrics \<Rightarrow> ConnectionCloseReason \<Rightarrow> u64" where
  "ConnectionCloses m reason =
     (let reason = (if reason = kNone \<or> reason = kCount then kUnknown else reason)
      in sm_connection_closes_by_reason m ! CloseReason_index reason)"

definition new_ServerMethodMetrics :: "MethodDescriptor \<Rightarrow> ServerMethodMetrics" where
  "new_ServerMethodMetrics d = \<lparr>mm_service_name = md_service_full_name d,
     mm_method_name = md_name d, mm_calls_started = 0, mm_calls_completed = 0, mm_call_errors = 0,
     mm_active_in_flight = 0, mm_call_latency = new_LatencyRecorder\<rparr>"

text \<open>
  \<open>GetOrCreateMethod\<close> returns a reference that stays valid for the life of the metrics block; the
  reference is the descriptor handle, the key of the table.
\<close>

definition GetOrCreateMethod :: "MethodDescriptor \<Rightarrow> ServerMetrics \<Rightarrow> nat \<times> ServerMetrics" where
  "GetOrCreateMethod d m =
     (case map_of (sm_method_metrics m) (md_handle d) of
        Some _ \<Rightarrow> (md_handle d, m)
      | None \<Rightarrow> (md_handle d,
          m\<lparr>sm_method_metrics := (md_handle d, new_ServerMethodMetrics d) # sm_method_metrics m\<rparr>))"

definition MethodSnapshot :: "ServerMetrics \<Rightarrow> ServerMethodMetrics list" where
  "MethodSnapshot m =
     sort_key (\<lambda>mm. (mm_service_name mm, mm_method_name mm)) (map snd (sm_method_metrics m))"

section \<open>Recorder lemmas\<close>

lemma unat_UINT64_MAX: "unat UINT64_MAX = 2 ^ 64 - 1"
  by (simp add: UINT64_MAX_def unsigned_minus_1_eq_mask mask_eq_exp_minus_1)

lemma AddToTotal_total:
  "unat (lr_total_microseconds (AddToTotal l r)) =
     min (unat (lr_total_microseconds r) + unat l) (2 ^ 64 - 1)"
proof -
  define t where "t = lr_total_microseconds r"
  have t: "unat t < 2 ^ 64" and l: "unat l < 2 ^ 64"
    using unsigned_less [of t, where 'a = nat] unsigned_less [of l, where 'a = nat] by simp_all
  have diff: "unat (UINT64_MAX - t) = 2 ^ 64 - 1 - unat t"
    using t by (simp add: unat_sub word_le_nat_alt unat_UINT64_MAX)
  show ?thesis
  proof (cases "UINT64_MAX - t < l")
    case True
    then show ?thesis
      using diff t by (simp add: AddToTotal_def Let_def flip: t_def)
        (simp add: word_less_nat_alt unat_UINT64_MAX)
  next
    case False
    then have le: "unat t + unat l \<le> 2 ^ 64 - 1"
      using diff t by (simp add: word_less_nat_alt)
    then have "unat (t + l) = unat t + unat l"
      by (intro unat_add_lem [THEN iffD1]) simp
    then show ?thesis
      using False le by (simp add: AddToTotal_def Let_def flip: t_def)
  qed
qed

lemma RecordMicroseconds_simps:
  "lr_count (RecordMicroseconds l r) = lr_count r + 1"
  "lr_total_microseconds (RecordMicroseconds l r) = lr_total_microseconds (AddToTotal l r)"
  "lr_min_microseconds (RecordMicroseconds l r) = min (lr_min_microseconds r) l"
  "lr_max_microseconds (RecordMicroseconds l r) = max (lr_max_microseconds r) l"
  by (auto simp: RecordMicroseconds_def UpdateMin_def UpdateMax_def AddToTotal_def Let_def)

lemma fold_Record_summary:
  fixes ls r
  defines "r' \<equiv> fold RecordMicroseconds ls r"
  shows "lr_count r' = lr_count r + of_nat (length ls)"
    and "unat (lr_total_microseconds r') =
      min (unat (lr_total_microseconds r) + sum_list (map unat ls)) (2 ^ 64 - 1)"
    and "lr_min_microseconds r' = fold min ls (lr_min_microseconds r)"
    and "lr_max_microseconds r' = fold max ls (lr_max_microseconds r)"
  unfolding r'_def
proof (induction ls arbitrary: r)
  case Nil
  {
    case 2
    then show ?case using unsigned_less [of "lr_total_microseconds r", where 'a = nat] by simp
  }
next
  case (Cons l ls)
  {
    case 1
    then show ?case by (simp add: Cons.IH(1) RecordMicroseconds_simps)
  next
    case 2
    then show ?case by (simp add: Cons.IH(2) RecordMicroseconds_simps AddToTotal_total min_def)
  next
    case 3
    then show ?case by (simp add: Cons.IH(3) RecordMicroseconds_simps min.commute)
  next
    case 4
    then show ?case by (simp add: Cons.IH(4) RecordMicroseconds_simps max.commute)
  }
qed simp_all

lemma fold_min_Min: "ls \<noteq> [] \<Longrightarrow> fold min ls UINT64_MAX = Min (set ls)"
  using Min.set_eq_fold [of UINT64_MAX ls]
  by (simp add: UINT64_MAX_def Min_insert min_absorb2 word_n1_ge)

lemma fold_max_Max: "ls \<noteq> [] \<Longrightarrow> fold max ls (0 :: u64) = Max (set ls)"
  using Max.set_eq_fold [of 0 ls] by (simp add: Max_insert max_absorb2)

lemma sum_list_bounds:
  fixes xs :: "nat list"
  assumes "\<forall>x\<in>set xs. lo \<le> x \<and> x \<le> hi"
  shows "length xs * lo \<le> sum_list xs \<and> sum_list xs \<le> length xs * hi"
  using assms by (induction xs) auto

section \<open>Properties\<close>

text \<open>
  After any non-empty sequence of fewer than \<open>2^64\<close> latencies the snapshot reports their
  number, their sum saturated at the largest 64-bit value, their minimum, their maximum and the
  truncated quotient of sum and number, and when the sum did not saturate the average lies between
  minimum and maximum.
\<close>

theorem latency_snapshot_summary:
  assumes "ls \<noteq> []" "length ls < 2 ^ 64"
  shows "let s = Snapshot (fold RecordMicroseconds ls new_LatencyRecorder);
      total = sum_list (map unat ls)
    in unat (snap_count s) = length ls \<and> unat (snap_total s) = min total (2 ^ 64 - 1) \<and>
       snap_min s = Min (set ls) \<and> snap_max s = Max (set ls) \<and>
       snap_average s = snap_total s div snap_count s \<and>
       (total < 2 ^ 64 \<longrightarrow> snap_min s \<le> snap_average s \<and> snap_average s \<le> snap_max s)"
proof -
  define r where "r = fold RecordMicroseconds ls new_LatencyRecorder"
  define total where "total = sum_list (map unat ls)"
  note sum = fold_Record_summary [of ls new_LatencyRecorder, folded r_def,
      unfolded new_LatencyRecorder_def, simplified, folded total_def]
  have cnt: "unat (lr_count r) = length ls"
    using assms(2) by (simp add: sum(1) unat_of_nat)
  then have pos: "lr_count r \<noteq> 0" using assms(1) by auto
  have mm: "lr_min_microseconds r = Min (set ls)" "lr_max_microseconds r = Max (set ls)"
    using assms(1) by (simp_all add: sum fold_min_Min fold_max_Max)
  have "\<forall>x\<in>set (map unat ls). unat (Min (set ls)) \<le> x \<and> x \<le> unat (Max (set ls))"
    by (auto simp flip: word_le_nat_alt)
  note bounds = sum_list_bounds [OF this, folded total_def]
  have "Min (set ls) \<le> lr_total_microseconds r div lr_count r \<and>
      lr_total_microseconds r div lr_count r \<le> Max (set ls)" if "total < 2 ^ 64"
  proof -
    have "unat (lr_total_microseconds r) = total" using that sum(2) by simp
    moreover have "unat (Min (set ls)) \<le> total div length ls"
      using bounds assms(1) by (simp add: less_eq_div_iff_mult_less_eq mult.commute)
    moreover have "total div length ls \<le> unat (Max (set ls))"
      using div_le_mono [OF conjunct2 [OF bounds], of "length ls"] assms(1) by simp
    ultimately show ?thesis by (simp add: word_le_nat_alt unat_div cnt)
  qed
  then show ?thesis
    using pos cnt mm sum(2) unfolding Let_def r_def [symmetric] total_def [symmetric]
    by (simp add: Snapshot_def Let_def)
qed

theorem latency_snapshot_summary_witness:
  "let s = Snapshot (fold RecordMicroseconds [5, 2, 9] new_LatencyRecorder)
    in unat (snap_count s) = 3 \<and> unat (snap_total s) = 16 \<and> snap_min s = 2 \<and> snap_max s = 9"
  using latency_snapshot_summary [of "[5, 2, 9]"] by (simp add: Let_def)

text \<open>
  The completion counters partition: every completion is a success or an error, modulo the wrap
  of the 64-bit counters.
\<close>

definition completions_partitioned :: "ClientMetrics \<Rightarrow> bool" where
  "completions_partitioned m =
     (cm_calls_completed m = cm_calls_succeeded m + cm_call_errors m \<and>
      lr_count (cm_call_latency m) = cm_calls_completed m)"

lemma RecordCompletion_partitioned:
  "completions_partitioned m \<Longrightarrow> completions_partitioned (RecordCompletion e l m)"
  by (simp add: completions_partitioned_def RecordCompletion_def metric_ops Let_def
      RecordMicroseconds_simps algebra_simps)

lemma RecordCompletion_simps [simp]:
  "cm_active_in_flight (RecordCompletion e l m) = cm_active_in_flight m"
  "cm_outbound_bytes (RecordCompletion e l m) = cm_outbound_bytes m"
  "cm_calls_started (RecordCompletion e l m) = cm_calls_started m"
  "cm_calls_completed (RecordCompletion e l m) = cm_calls_completed m + 1"
  by (simp_all add: RecordCompletion_def Let_def metric_ops)

end
