(* ===== verification/Metric_Registry.thy ===== *)
theory Metric_Registry
  imports Metrics
begin

text \<open>
  \<^verbatim>\<open>metrics/metric_registry.hpp\<close>: the registry of custom metrics and its text exposition.  A metric that
  the registry retains is an address into a \<open>metric_store\<close>, from which a snapshot reads.  A
  \<^verbatim>\<open>std::map\<close> of labels is its list of pairs in key order; the hash map of families is an association
  list, whose order no result depends on.  Strings are compared as unsigned bytes, as
  \<^verbatim>\<open>std::string\<close> does.

  \<open>scrape\<close> is a reader of the text format, independent of the writer: it skips comment lines and returns
  the name, the labels and the value of every sample.
\<close>

section \<open>State\<close>

type_synonym MetricLabels = "(string \<times> string) list"

datatype Handle = CounterHandle nat | GaugeHandle nat | LatencyHandle nat

datatype MetricValue = CounterValue u64 | GaugeValue int | LatencyValue LatencySnapshot

fun Handle_index :: "Handle \<Rightarrow> nat" where
  "Handle_index (CounterHandle _) = 0"
| "Handle_index (GaugeHandle _) = 1"
| "Handle_index (LatencyHandle _) = 2"

fun MetricValue_index :: "MetricValue \<Rightarrow> nat" where
  "MetricValue_index (CounterValue _) = 0"
| "MetricValue_index (GaugeValue _) = 1"
| "MetricValue_index (LatencyValue _) = 2"

record Entry =
  en_labels :: MetricLabels
  en_metric :: Handle

record MetricRegistry =
  mr_prefix :: string
  mr_families :: "(string \<times> Entry list) list"

record MetricSnapshot =
  ms_name :: string
  ms_labels :: MetricLabels
  ms_value :: MetricValue

record metric_store =
  st_counter :: "nat \<Rightarrow> Counter"
  st_gauge :: "nat \<Rightarrow> Gauge"
  st_latency :: "nat \<Rightarrow> LatencyRecorder"

definition new_MetricRegistry :: "string \<Rightarrow> MetricRegistry" where
  "new_MetricRegistry prefix = \<lparr>mr_prefix = prefix, mr_families = []\<rparr>"

section \<open>Names\<close>

definition letter :: "char \<Rightarrow> bool" where
  "letter c = ((CHR ''a'' \<le> c \<and> c \<le> CHR ''z'') \<or> (CHR ''A'' \<le> c \<and> c \<le> CHR ''Z'') \<or> c = CHR ''_'')"

definition name_char :: "char \<Rightarrow> bool" where
  "name_char c = (letter c \<or> (CHR ''0'' \<le> c \<and> c \<le> CHR ''9''))"

definition ValidName :: "string \<Rightarrow> bool" where
  "ValidName name = (name \<noteq> [] \<and> letter (hd name) \<and> list_all name_char name)"

definition SameLabelKeys :: "MetricLabels \<Rightarrow> MetricLabels \<Rightarrow> bool" where
  "SameLabelKeys a b = (length a = length b \<and> list_all2 (\<lambda>x y. fst x = fst y) a b)"

definition summary_suffixes :: "string list" where
  "summary_suffixes = [''_count'', ''_sum'', ''_min'', ''_max'']"

definition Conflicts :: "string \<Rightarrow> nat \<Rightarrow> string \<Rightarrow> nat \<Rightarrow> bool" where
  "Conflicts a at b bt =
     list_ex (\<lambda>suffix. (at = 2 \<and> a @ suffix = b) \<or> (bt = 2 \<and> b @ suffix = a)) summary_suffixes"

section \<open>Registration\<close>

text \<open>The body of the loop over the families: whether this family refuses the new entry.\<close>

definition family_refuses :: "string \<Rightarrow> Handle \<Rightarrow> MetricLabels \<Rightarrow> string \<times> Entry list \<Rightarrow> bool" where
  "family_refuses name handle labels family =
     (let (existing_name, entries) = family; front = hd entries
      in if existing_name = name
         then Handle_index (en_metric front) \<noteq> Handle_index handle \<or> \<not> SameLabelKeys (en_labels front) labels \<or>
              list_ex (\<lambda>entry. en_labels entry = labels) entries
         else Conflicts existing_name (Handle_index (en_metric front)) name (Handle_index handle))"

fun push_entry :: "string \<Rightarrow> Entry \<Rightarrow> (string \<times> Entry list) list \<Rightarrow> (string \<times> Entry list) list" where
  "push_entry name e [] = [(name, [e])]"
| "push_entry name e ((n, es) # fs) = (if n = name then (n, es @ [e]) # fs else (n, es) # push_entry name e fs)"

definition Register :: "string \<Rightarrow> Handle option \<Rightarrow> MetricLabels \<Rightarrow> MetricRegistry \<Rightarrow> bool \<times> MetricRegistry" where
  "Register name metric labels r =
     (if \<not> ValidName name then (False, r)
      else let name = mr_prefix r @ name
           in if metric = None \<or> \<not> ValidName name then (False, r)
              else if list_ex (\<lambda>(key, _). \<not> ValidName key \<or> take 2 key = ''__'') labels then (False, r)
              else if list_ex (family_refuses name (the metric) labels) (mr_families r) then (False, r)
              else (True, r\<lparr>mr_families :=
                     push_entry name \<lparr>en_labels = labels, en_metric = the metric\<rparr> (mr_families r)\<rparr>))"

text \<open>Erasing the first entry with these labels, and the family when it becomes empty.\<close>

fun erase_entry :: "MetricLabels \<Rightarrow> Entry list \<Rightarrow> Entry list option" where
  "erase_entry labels [] = None"
| "erase_entry labels (e # es) =
     (if en_labels e = labels then Some es
      else case erase_entry labels es of None \<Rightarrow> None | Some es \<Rightarrow> Some (e # es))"

definition Unregister :: "string \<Rightarrow> MetricLabels \<Rightarrow> MetricRegistry \<Rightarrow> bool \<times> MetricRegistry" where
  "Unregister name labels r =
     (let name = mr_prefix r @ name
      in case map_of (mr_families r) name of
           None \<Rightarrow> (False, r)
         | Some entries \<Rightarrow>
             (case erase_entry labels entries of
                None \<Rightarrow> (False, r)
              | Some [] \<Rightarrow> (True, r\<lparr>mr_families := filter (\<lambda>f. fst f \<noteq> name) (mr_families r)\<rparr>)
              | Some es \<Rightarrow> (True, r\<lparr>mr_families := map (\<lambda>(n, es'). (n, if n = name then es else es')) (mr_families r)\<rparr>)))"

section \<open>Snapshots and text\<close>

fun read_handle :: "metric_store \<Rightarrow> Handle \<Rightarrow> MetricValue" where
  "read_handle st (CounterHandle a) = CounterValue (st_counter st a)"
| "read_handle st (GaugeHandle a) = GaugeValue (Gauge_Value (st_gauge st a))"
| "read_handle st (LatencyHandle a) = LatencyValue (Snapshot (st_latency st a))"

definition sample :: "metric_store \<Rightarrow> string \<Rightarrow> Entry \<Rightarrow> MetricSnapshot" where
  "sample st name entry = \<lparr>ms_name = name, ms_labels = en_labels entry, ms_value = read_handle st (en_metric entry)\<rparr>"

definition Registry_Snapshot :: "metric_store \<Rightarrow> MetricRegistry \<Rightarrow> MetricSnapshot list" where
  "Registry_Snapshot st r =
     sort_key (\<lambda>s. (ms_name s, ms_labels s)) (concat (map (\<lambda>(name, entries). map (sample st name) entries) (mr_families r)))"

abbreviation newline :: char where "newline \<equiv> CHR 0x0A"
abbreviation quote :: char where "quote \<equiv> CHR 0x22"
abbreviation backslash :: char where "backslash \<equiv> CHR 0x5C"

text \<open>Decimal output of an integer by a stream.\<close>

definition digit :: "nat \<Rightarrow> char" where
  "digit n = char_of (48 + n)"

fun decimal :: "nat \<Rightarrow> string" where
  "decimal n = (if n < 10 then [digit n] else decimal (n div 10) @ [digit (n mod 10)])"

declare decimal.simps [simp del]

definition decimal_int :: "int \<Rightarrow> string" where
  "decimal_int i = (if i < 0 then CHR ''-'' # decimal (nat (- i)) else decimal (nat i))"

definition escape_char :: "char \<Rightarrow> string" where
  "escape_char c =
     (if c = backslash \<or> c = quote then [backslash] else []) @ (if c = newline then [backslash, CHR ''n''] else [c])"

fun label_pairs :: "bool \<Rightarrow> MetricLabels \<Rightarrow> string" where
  "label_pairs first [] = []"
| "label_pairs first ((key, label) # ls) =
     (if first then [] else '','') @ key @ ''='' @ [quote] @ concat (map escape_char label) @ [quote] @ label_pairs False ls"

definition label_text :: "MetricLabels \<Rightarrow> string" where
  "label_text labels = (if labels \<noteq> [] then ''{'' @ label_pairs True labels @ ''}'' else [])"

definition write_sample :: "MetricSnapshot \<Rightarrow> string \<Rightarrow> int \<Rightarrow> string" where
  "write_sample s suffix v = ms_name s @ suffix @ label_text (ms_labels s) @ '' '' @ decimal_int v @ [newline]"

definition type_text :: "MetricSnapshot \<Rightarrow> string" where
  "type_text s =
     ''# TYPE '' @ ms_name s @ '' '' @
       (if MetricValue_index (ms_value s) = 0 then ''counter''
        else if MetricValue_index (ms_value s) = 1 then ''gauge'' else ''summary'') @ [newline] @
     (if MetricValue_index (ms_value s) = 2
      then ''# TYPE '' @ ms_name s @ ''_min gauge'' @ [newline] @ ''# TYPE '' @ ms_name s @ ''_max gauge'' @ [newline]
      else [])"

definition value_text :: "MetricSnapshot \<Rightarrow> string" where
  "value_text s =
     (case ms_value s of
        CounterValue v \<Rightarrow> write_sample s '''' (uint v)
      | GaugeValue v \<Rightarrow> write_sample s '''' v
      | LatencyValue v \<Rightarrow> write_sample s ''_count'' (uint (snap_count v)) @ write_sample s ''_sum'' (uint (snap_total v)) @
          write_sample s ''_min'' (uint (snap_min v)) @ write_sample s ''_max'' (uint (snap_max v)))"

fun samples_text :: "string \<Rightarrow> MetricSnapshot list \<Rightarrow> string" where
  "samples_text previous [] = []"
| "samples_text previous (s # ss) =
     (if previous \<noteq> ms_name s then type_text s else []) @ value_text s @ samples_text (ms_name s) ss"

definition PrometheusText :: "metric_store \<Rightarrow> MetricRegistry \<Rightarrow> string" where
  "PrometheusText st r = samples_text '''' (Registry_Snapshot st r)"


section \<open>Reading the text\<close>

text \<open>The series of a sample as the text names them: name with suffix, labels and value.\<close>

type_synonym series = "(string \<times> MetricLabels) \<times> int"

definition series_of :: "MetricSnapshot \<Rightarrow> series list" where
  "series_of s =
     (case ms_value s of
        CounterValue v \<Rightarrow> [((ms_name s, ms_labels s), uint v)]
      | GaugeValue v \<Rightarrow> [((ms_name s, ms_labels s), v)]
      | LatencyValue v \<Rightarrow> [((ms_name s @ ''_count'', ms_labels s), uint (snap_count v)), ((ms_name s @ ''_sum'', ms_labels s), uint (snap_total v)),
          ((ms_name s @ ''_min'', ms_labels s), uint (snap_min v)), ((ms_name s @ ''_max'', ms_labels s), uint (snap_max v))])"

fun read_decimal :: "nat \<Rightarrow> string \<Rightarrow> nat" where
  "read_decimal acc [] = acc"
| "read_decimal acc (c # cs) = read_decimal (10 * acc + (of_char c - 48)) cs"

definition read_int :: "string \<Rightarrow> int" where
  "read_int s = (case s of [] \<Rightarrow> 0 | c # cs \<Rightarrow> if c = CHR ''-'' then - int (read_decimal 0 cs) else int (read_decimal 0 s))"

fun unquote :: "string \<Rightarrow> string \<times> string" where
  "unquote [] = ([], [])"
| "unquote (c # cs) =
     (if c = quote then ([], cs)
      else if c = backslash
      then case cs of [] \<Rightarrow> ([], [])
           | d # ds \<Rightarrow> (case unquote ds of (v, rest) \<Rightarrow> ((if d = CHR ''n'' then newline else d) # v, rest))
      else case unquote cs of (v, rest) \<Rightarrow> (c # v, rest))"

text \<open>Pairs until the closing brace; each turn consumes a character, so the length of the text is enough fuel.\<close>

fun read_pairs :: "nat \<Rightarrow> string \<Rightarrow> MetricLabels \<times> string" where
  "read_pairs 0 s = ([], s)"
| "read_pairs (Suc n) s =
     (let key = takeWhile (\<lambda>c. c \<noteq> CHR ''='') s;
          (v, rest) = unquote (drop 2 (dropWhile (\<lambda>c. c \<noteq> CHR ''='') s))
      in if take 1 rest = '','' then (case read_pairs n (drop 1 rest) of (ls, rest) \<Rightarrow> ((key, v) # ls, rest))
         else ([(key, v)], drop 1 rest))"

definition read_line :: "string \<Rightarrow> series list" where
  "read_line line =
     (if line = [] \<or> hd line = CHR ''#'' then []
      else let name = takeWhile name_char line; rest = dropWhile name_char line;
               (labels, rest) = (if take 1 rest = ''{'' then read_pairs (length rest) (drop 1 rest) else ([], rest))
           in [((name, labels), read_int (drop 1 rest))])"

fun lines_of :: "string \<Rightarrow> string \<Rightarrow> string list" where
  "lines_of acc [] = (if acc = [] then [] else [rev acc])"
| "lines_of acc (c # cs) = (if c = newline then rev acc # lines_of [] cs else lines_of (c # acc) cs)"

definition scrape :: "string \<Rightarrow> series list" where
  "scrape text = concat (map read_line (lines_of [] text))"

section \<open>Reading back\<close>

lemma of_char_digit: "n < 10 \<Longrightarrow> of_char (digit n) = (48 + n :: nat)"
  by (simp add: digit_def)

lemma read_decimal_append: "read_decimal acc (xs @ [c]) = 10 * read_decimal acc xs + (of_char c - 48)"
  by (induction xs arbitrary: acc) simp_all

lemma read_decimal_decimal [simp]: "read_decimal 0 (decimal n) = n"
proof (induction n rule: decimal.induct)
  case (1 n)
  show ?case
  proof (cases "n < 10")
    case True
    then show ?thesis by (simp add: decimal.simps [of n] of_char_digit)
  next
    case False
    then show ?thesis using 1 by (simp add: decimal.simps [of n] read_decimal_append of_char_digit)
  qed
qed

lemma decimal_chars: "c \<in> set (decimal n) \<Longrightarrow> (48 :: nat) \<le> of_char c \<and> of_char c \<le> (57 :: nat)"
proof (induction n rule: decimal.induct)
  case (1 n)
  show ?case
  proof (cases "n < 10")
    case True
    then show ?thesis using 1 by (simp add: decimal.simps [of n] of_char_digit)
  next
    case False
    have d: "c = digit (n mod 10) \<Longrightarrow> (48 :: nat) \<le> of_char c \<and> of_char c \<le> (57 :: nat)"
      using of_char_digit [of "n mod 10"] by simp
    from False show ?thesis using 1 d by (auto simp: decimal.simps [of n])
  qed
qed

lemma decimal_not_Nil [simp]: "decimal n \<noteq> []"
  by (simp add: decimal.simps)

lemma decimal_not_minus: "CHR ''-'' \<notin> set (decimal n)" "newline \<notin> set (decimal n)"
  using decimal_chars by fastforce+

lemma read_int_decimal [simp]: "read_int (decimal_int i) = i"
proof (cases "i < 0")
  case True
  then show ?thesis by (simp add: read_int_def decimal_int_def)
next
  case False
  obtain c cs where d: "decimal (nat i) = c # cs" by (cases "decimal (nat i)") simp_all
  have "c \<noteq> CHR ''-''" using decimal_not_minus(1) [of "nat i"] by (auto simp: d)
  moreover have "read_decimal 0 (c # cs) = nat i" using read_decimal_decimal [of "nat i"] by (simp add: d)
  ultimately show ?thesis using False by (simp add: read_int_def decimal_int_def d del: read_decimal.simps)
qed

lemma decimal_int_no_newline: "newline \<notin> set (decimal_int i)"
  by (simp add: decimal_int_def decimal_not_minus)

lemma unquote_escape [simp]: "unquote (concat (map escape_char v) @ quote # rest) = (v, rest)"
  by (induction v) (auto simp: escape_char_def)

lemma escape_no_newline: "newline \<notin> set (concat (map escape_char v))"
  by (induction v) (auto simp: escape_char_def)


definition label_keys_valid :: "MetricLabels \<Rightarrow> bool" where
  "label_keys_valid labels = list_all (\<lambda>(key, _). ValidName key) labels"

lemma name_char_other [simp]:
  "\<not> name_char (CHR ''='')" "\<not> name_char (CHR ''{'')" "\<not> name_char (CHR '' '')" "\<not> name_char newline" "\<not> name_char (CHR ''#'')"
  by (simp_all add: name_char_def letter_def less_eq_char_def)

lemma valid_name_chars: "ValidName name \<Longrightarrow> c \<in> set name \<Longrightarrow> name_char c"
  by (auto simp: ValidName_def list_all_iff)

lemma take_name:
  assumes "list_all name_char name" "\<not> name_char c"
  shows "takeWhile name_char (name @ c # rest) = name" "dropWhile name_char (name @ c # rest) = c # rest"
  using assms by (simp_all add: list_all_iff)

lemma read_pairs_step:
  assumes "ValidName key"
  shows "read_pairs (Suc n) (key @ ''='' @ [quote] @ concat (map escape_char label) @ [quote] @ rest) =
    (if take 1 rest = '','' then (case read_pairs n (drop 1 rest) of (ls, rest) \<Rightarrow> ((key, label) # ls, rest))
     else ([(key, label)], drop 1 rest))"
proof -
  have k: "c \<noteq> CHR ''=''" if "c \<in> set key" for c
    using valid_name_chars [OF assms that] name_char_other(1) by auto
  have "takeWhile (\<lambda>c. c \<noteq> CHR ''='') (key @ CHR ''='' # r) = key"
    "dropWhile (\<lambda>c. c \<noteq> CHR ''='') (key @ CHR ''='' # r) = CHR ''='' # r" for r
    using k by (simp_all add: takeWhile_append2 dropWhile_append2)
  then show ?thesis by (simp add: Let_def)
qed

lemma read_pairs_text:
  "labels \<noteq> [] \<Longrightarrow> label_keys_valid labels \<Longrightarrow> length labels \<le> n \<Longrightarrow>
   read_pairs n (label_pairs True labels @ CHR ''}'' # rest) = (labels, rest)"
proof (induction labels arbitrary: n)
  case (Cons l ls)
  obtain key v where l: "l = (key, v)" by fastforce
  obtain m where n: "n = Suc m" using Cons.prems(3) by (cases n) simp_all
  have key: "ValidName key" using Cons.prems(2) by (simp add: label_keys_valid_def l)
  show ?case
  proof (cases ls)
    case Nil
    then show ?thesis using read_pairs_step [OF key, of m v "CHR ''}'' # rest"] by (simp add: l n)
  next
    case (Cons l' ls')
    obtain key' v' where l': "l' = (key', v')" by fastforce
    have "read_pairs m (label_pairs True ls @ CHR ''}'' # rest) = (ls, rest)"
      using Cons Cons.IH [of m] Cons.prems by (simp add: label_keys_valid_def n)
    moreover have "label_pairs False ls = CHR '','' # label_pairs True ls" by (simp add: Cons l')
    ultimately show ?thesis
      using read_pairs_step [OF key, of m v "label_pairs False ls @ CHR ''}'' # rest"] by (simp add: l n)
  qed
qed simp

lemma label_pairs_length: "length labels \<le> length (label_pairs b labels)"
proof (induction labels arbitrary: b)
  case (Cons l ls)
  have "length ls \<le> length (label_pairs False ls)" by (rule Cons)
  then show ?case by (cases l) auto
qed simp

definition series_line :: "series \<Rightarrow> string" where
  "series_line s = (case s of ((name, labels), v) \<Rightarrow> name @ label_text labels @ '' '' @ decimal_int v)"

definition series_ok :: "series \<Rightarrow> bool" where
  "series_ok s = (case s of ((name, labels), v) \<Rightarrow> ValidName name \<and> label_keys_valid labels)"

lemma read_series_line:
  assumes "series_ok s"
  shows "read_line (series_line s) = [s]"
proof -
  obtain name labels v where s: "s = ((name, labels), v)" by (metis prod.collapse)
  have name: "list_all name_char name" "name \<noteq> []" and keys: "label_keys_valid labels"
    using assms by (simp_all add: s series_ok_def ValidName_def)
  have "hd name \<noteq> CHR ''#''" using name name_char_other(5) by (cases name) auto
  then have h: "\<not> (series_line s = [] \<or> hd (series_line s) = CHR ''#'')" using name(2) by (simp add: s series_line_def)
  show ?thesis
  proof (cases "labels = []")
    case True
    then show ?thesis using h take_name [OF name(1)] by (simp add: read_line_def s series_line_def label_text_def)
  next
    case False
    let ?rest = "label_pairs True labels @ CHR ''}'' # CHR '' '' # decimal_int v"
    have "length labels \<le> length (CHR ''{'' # ?rest)" using label_pairs_length [of labels True] by simp
    then have "read_pairs (length (CHR ''{'' # ?rest)) ?rest = (labels, CHR '' '' # decimal_int v)"
      by (rule read_pairs_text [OF False keys])
    then show ?thesis
      using h False take_name [OF name(1)] by (simp add: read_line_def s series_line_def label_text_def)
  qed
qed

lemma series_line_no_newline:
  assumes "series_ok s"
  shows "newline \<notin> set (series_line s)"
proof -
  obtain name labels v where s: "s = ((name, labels), v)" by (metis prod.collapse)
  have n: "newline \<notin> set key" if "ValidName key" for key
    using valid_name_chars [OF that] name_char_other(4) by blast
  have "label_keys_valid ls \<Longrightarrow> newline \<notin> set (label_pairs b ls)" for b ls
    using n escape_no_newline by (induction ls arbitrary: b) (auto simp: label_keys_valid_def split: if_splits)
  then show ?thesis
    using assms n decimal_int_no_newline by (auto simp: s series_ok_def series_line_def label_text_def)
qed

lemma lines_of_line:
  assumes "newline \<notin> set l"
  shows "lines_of [] (l @ newline # rest) = l # lines_of [] rest"
proof -
  have "lines_of acc (l @ newline # rest) = (rev acc @ l) # lines_of [] rest" for acc
    using assms by (induction l arbitrary: acc) auto
  from this [of "[]"] show ?thesis by simp
qed

lemma scrape_nil [simp]: "scrape [] = []"
  by (simp add: scrape_def)

lemma scrape_series [simp]: "series_ok s \<Longrightarrow> scrape (series_line s @ newline # rest) = s # scrape rest"
  by (simp add: scrape_def lines_of_line series_line_no_newline read_series_line)

lemma scrape_comment [simp]: "newline \<notin> set l \<Longrightarrow> scrape (CHR ''#'' # l @ newline # rest) = scrape rest"
  using lines_of_line [of "CHR ''#'' # l" rest] by (simp add: scrape_def read_line_def)


section \<open>Registry invariant\<close>

inductive registry_reach :: "MetricRegistry \<Rightarrow> bool" where
  registry_new: "registry_reach (new_MetricRegistry prefix)"
| registry_add: "registry_reach r \<Longrightarrow> registry_reach (snd (Register name metric labels r))"
| registry_remove: "registry_reach r \<Longrightarrow> registry_reach (snd (Unregister name labels r))"

definition typed :: "nat \<Rightarrow> string list \<Rightarrow> Entry \<Rightarrow> bool" where
  "typed kind keys e = (label_keys_valid (en_labels e) \<and> Handle_index (en_metric e) = kind \<and> map fst (en_labels e) = keys)"

definition family_ok :: "string \<Rightarrow> string \<times> Entry list \<Rightarrow> bool" where
  "family_ok prefix f =
     (snd f \<noteq> [] \<and> ValidName (fst f) \<and> take (length prefix) (fst f) = prefix \<and> distinct (map en_labels (snd f)) \<and>
      (\<exists>kind keys. \<forall>e \<in> set (snd f). typed kind keys e))"

definition apart :: "string \<times> Entry list \<Rightarrow> string \<times> Entry list \<Rightarrow> bool" where
  "apart f g = (fst f \<noteq> fst g \<and>
     \<not> Conflicts (fst f) (Handle_index (en_metric (hd (snd f)))) (fst g) (Handle_index (en_metric (hd (snd g)))))"

definition registry_ok :: "MetricRegistry \<Rightarrow> bool" where
  "registry_ok r = (list_all (family_ok (mr_prefix r)) (mr_families r) \<and> sorted_wrt apart (mr_families r))"

lemma Conflicts_sym: "Conflicts a i b j = Conflicts b j a i"
  by (auto simp: Conflicts_def list_ex_iff)

lemma apart_sym: "apart f g = apart g f"
  by (auto simp: apart_def Conflicts_sym)

lemma same_keys: "SameLabelKeys a b = (map fst a = map fst b)"
  by (auto simp: SameLabelKeys_def list_eq_iff_nth_eq list_all2_conv_all_nth)

lemma family_ok_push:
  assumes ok: "family_ok prefix (name, es)" and e: "label_keys_valid (en_labels e)"
    and acc: "\<not> family_refuses name (en_metric e) (en_labels e) (name, es)"
  shows "family_ok prefix (name, es @ [e])" "hd (es @ [e]) = hd es"
proof -
  have es: "es \<noteq> []" using ok by (simp add: family_ok_def)
  then show "hd (es @ [e]) = hd es" by simp
  obtain kind keys where t: "\<forall>x \<in> set es. typed kind keys x" using ok by (auto simp: family_ok_def)
  then have "typed kind keys (hd es)" using es by simp
  moreover have "Handle_index (en_metric (hd es)) = Handle_index (en_metric e)" "map fst (en_labels (hd es)) = map fst (en_labels e)"
    and new: "en_labels e \<notin> en_labels ` set es"
    using acc by (auto simp: family_refuses_def same_keys list_ex_iff Let_def)
  ultimately have "\<forall>x \<in> set (es @ [e]). typed kind keys x" using t e by (simp add: typed_def)
  then have "\<exists>kind keys. \<forall>x \<in> set (es @ [e]). typed kind keys x" by blast
  then show "family_ok prefix (name, es @ [e])" using ok new by (simp add: family_ok_def)
qed

lemma push_entry_families:
  assumes "list_all (family_ok prefix) fs" "sorted_wrt apart fs" "ValidName name" "take (length prefix) name = prefix"
    and e: "label_keys_valid (en_labels e)" and "\<not> list_ex (family_refuses name (en_metric e) (en_labels e)) fs"
  shows "list_all (family_ok prefix) (push_entry name e fs) \<and> sorted_wrt apart (push_entry name e fs) \<and>
    (\<forall>f. (\<forall>g \<in> set fs. apart f g) \<longrightarrow> apart f (name, [e]) \<longrightarrow> (\<forall>g \<in> set (push_entry name e fs). apart f g))"
  using assms
proof (induction fs)
  case Nil
  then show ?case by (auto simp: family_ok_def typed_def)
next
  case (Cons f fs)
  obtain n es where f: "f = (n, es)" by fastforce
  have tl: "list_all (family_ok prefix) fs" "sorted_wrt apart fs" "\<forall>g \<in> set fs. apart f g" "family_ok prefix f"
    using Cons.prems(1,2) by simp_all
  show ?case
  proof (cases "n = name")
    case True
    have "family_ok prefix (name, es)" "\<not> family_refuses name (en_metric e) (en_labels e) (name, es)"
      using Cons.prems(1,6) by (simp_all add: f True)
    note ok = family_ok_push [OF this(1) e this(2)]
    have "apart g (name, es @ [e]) = apart g f" "apart (name, es @ [e]) g = apart f g" for g
      by (simp_all only: apart_def f True fst_conv snd_conv ok(2))
    then show ?thesis using ok(1) tl by (simp add: f True)
  next
    case False
    have IH: "list_all (family_ok prefix) (push_entry name e fs) \<and> sorted_wrt apart (push_entry name e fs) \<and>
      (\<forall>f. (\<forall>g \<in> set fs. apart f g) \<longrightarrow> apart f (name, [e]) \<longrightarrow> (\<forall>g \<in> set (push_entry name e fs). apart f g))"
      by (rule Cons.IH) (use Cons.prems tl in simp_all)
    have "apart f (name, [e])" using Cons.prems(6) False by (simp add: f apart_def family_refuses_def)
    then have new: "\<forall>g \<in> set (push_entry name e fs). apart f g" using IH tl(3) by blast
    have p: "push_entry name e (f # fs) = f # push_entry name e fs" using False by (simp add: f)
    show ?thesis unfolding p list.pred_inject sorted_wrt.simps list.set using IH tl new by blast
  qed
qed

definition register_accepts :: "string \<Rightarrow> Handle option \<Rightarrow> MetricLabels \<Rightarrow> MetricRegistry \<Rightarrow> bool" where
  "register_accepts name metric labels r =
     (ValidName name \<and> metric \<noteq> None \<and> ValidName (mr_prefix r @ name) \<and>
      \<not> list_ex (\<lambda>(key, _). \<not> ValidName key \<or> take 2 key = ''__'') labels \<and>
      \<not> list_ex (family_refuses (mr_prefix r @ name) (the metric) labels) (mr_families r))"

lemma Register_cases:
  "Register name metric labels r =
     (if register_accepts name metric labels r
      then (True, r\<lparr>mr_families := push_entry (mr_prefix r @ name) \<lparr>en_labels = labels, en_metric = the metric\<rparr> (mr_families r)\<rparr>)
      else (False, r))"
  unfolding Register_def Let_def register_accepts_def
  by (cases "ValidName name"; cases "metric = None"; cases "ValidName (mr_prefix r @ name)";
      cases "list_ex (\<lambda>(key, _). \<not> ValidName key \<or> take 2 key = ''__'') labels";
      cases "list_ex (family_refuses (mr_prefix r @ name) (the metric) labels) (mr_families r)";
      simp only: if_True if_False simp_thms)

lemma accepts_keys: "register_accepts name metric labels r \<Longrightarrow> label_keys_valid labels"
  by (auto simp: register_accepts_def label_keys_valid_def list_ex_iff list_all_iff)

lemma Register_ok:
  assumes "registry_ok r"
  shows "registry_ok (snd (Register name metric labels r))"
proof (cases "register_accepts name metric labels r")
  case True
  let ?e = "\<lparr>en_labels = labels, en_metric = the metric\<rparr>"
  have "list_all (family_ok (mr_prefix r)) (mr_families r)" "sorted_wrt apart (mr_families r)"
    using assms by (simp_all add: registry_ok_def)
  moreover have "ValidName (mr_prefix r @ name)" "\<not> list_ex (family_refuses (mr_prefix r @ name) (en_metric ?e) (en_labels ?e)) (mr_families r)"
    using True by (simp_all add: register_accepts_def)
  ultimately have "list_all (family_ok (mr_prefix r)) (push_entry (mr_prefix r @ name) ?e (mr_families r)) \<and>
      sorted_wrt apart (push_entry (mr_prefix r @ name) ?e (mr_families r))"
    using push_entry_families [of "mr_prefix r" "mr_families r" "mr_prefix r @ name" ?e] accepts_keys [OF True] by simp
  then show ?thesis using True by (simp add: registry_ok_def Register_cases)
qed (use assms in \<open>simp add: Register_cases\<close>)

lemma erase_entry_some:
  "erase_entry labels es = Some es' \<Longrightarrow> \<exists>xs e ys. es = xs @ e # ys \<and> es' = xs @ ys \<and> en_labels e = labels"
proof (induction es arbitrary: es')
  case (Cons a es)
  show ?case
  proof (cases "en_labels a = labels")
    case True
    then show ?thesis using Cons.prems by (intro exI [of _ "[]"] exI [of _ a] exI [of _ es]) simp
  next
    case False
    then obtain es'' where r: "erase_entry labels es = Some es''" "es' = a # es''" using Cons.prems by (auto split: option.splits)
    then obtain xs e ys where "es = xs @ e # ys" "es'' = xs @ ys" "en_labels e = labels" using Cons.IH by blast
    then show ?thesis using r(2) by (intro exI [of _ "a # xs"] exI [of _ e] exI [of _ ys]) simp
  qed
qed simp

lemma family_ok_erase:
  assumes ok: "family_ok prefix (n, es)" and sub: "set es' \<subseteq> set es" and ne: "es' \<noteq> []"
    and d: "distinct (map en_labels es')"
  shows "family_ok prefix (n, es')" "Handle_index (en_metric (hd es')) = Handle_index (en_metric (hd es))"
proof -
  have ne': "es \<noteq> []" using ok by (simp add: family_ok_def)
  obtain kind keys where t: "\<forall>x \<in> set es. typed kind keys x" using ok by (auto simp: family_ok_def)
  then have t': "\<forall>x \<in> set es'. typed kind keys x" using sub by blast
  then have "\<exists>kind keys. \<forall>x \<in> set es'. typed kind keys x" by blast
  then show "family_ok prefix (n, es')" using ok ne d by (simp add: family_ok_def)
  show "Handle_index (en_metric (hd es')) = Handle_index (en_metric (hd es))"
    using t t' hd_in_set [OF ne] hd_in_set [OF ne'] by (simp add: typed_def)
qed

lemma erase_entry_family:
  assumes "family_ok prefix (n, es)" "erase_entry labels es = Some es'" "es' \<noteq> []"
  shows "family_ok prefix (n, es') \<and> Handle_index (en_metric (hd es')) = Handle_index (en_metric (hd es))"
proof -
  obtain xs e ys where es: "es = xs @ e # ys" "es' = xs @ ys" using erase_entry_some [OF assms(2)] by blast
  have sub: "set es' \<subseteq> set es" by (auto simp: es)
  have d: "distinct (map en_labels es')" using assms(1) by (auto simp: es family_ok_def)
  show ?thesis using family_ok_erase [OF assms(1) sub assms(3) d] by blast
qed


lemma family_lookup:
  assumes "sorted_wrt apart fs" "map_of fs name = Some entries" "f \<in> set fs" "fst f = name"
  shows "snd f = entries"
  using assms
proof (induction fs)
  case (Cons g fs)
  then show ?case
  proof (cases "fst g = name")
    case True
    have "f \<notin> set fs"
    proof
      assume "f \<in> set fs"
      then have "apart g f" using Cons.prems(1) by simp
      then show False using True Cons.prems(4) by (simp add: apart_def)
    qed
    then show ?thesis using True Cons.prems by (cases g) simp
  next
    case False
    then have "map_of fs name = Some entries" using Cons.prems(2) by (cases g) simp
    moreover have "f \<in> set fs" using False Cons.prems(3,4) by auto
    ultimately show ?thesis using Cons.IH Cons.prems(1,4) by simp
  qed
qed simp

lemma Unregister_ok:
  assumes "registry_ok r"
  shows "registry_ok (snd (Unregister name labels r))"
proof -
  let ?n = "mr_prefix r @ name"
  have ok: "list_all (family_ok (mr_prefix r)) (mr_families r)" "sorted_wrt apart (mr_families r)"
    using assms by (simp_all add: registry_ok_def)
  have keep: "registry_ok (r\<lparr>mr_families := filter (\<lambda>f. fst f \<noteq> ?n) (mr_families r)\<rparr>)"
    using ok by (simp add: registry_ok_def sorted_wrt_filter list_all_iff)
  have change: "registry_ok (r\<lparr>mr_families := map (\<lambda>(m, es'). (m, if m = ?n then es else es')) (mr_families r)\<rparr>)"
    if m: "map_of (mr_families r) ?n = Some entries" and e: "erase_entry labels entries = Some es" "es \<noteq> []" for entries es
  proof -
    let ?g = "\<lambda>(m, es'). (m, if m = ?n then es else es')"
    have new: "family_ok (mr_prefix r) (?g f) \<and> fst (?g f) = fst f \<and>
        Handle_index (en_metric (hd (snd (?g f)))) = Handle_index (en_metric (hd (snd f)))" if "f \<in> set (mr_families r)" for f
    proof -
      obtain n' es' where f: "f = (n', es')" by fastforce
      have fo: "family_ok (mr_prefix r) (n', es')" using ok(1) that by (simp add: f list_all_iff)
      show ?thesis
      proof (cases "n' = ?n")
        case True
        then have "es' = entries" using family_lookup [OF ok(2) m that] by (simp add: f)
        then show ?thesis using erase_entry_family [OF fo _ e(2), of labels] e(1) True by (simp add: f)
      qed (use fo in \<open>simp add: f\<close>)
    qed
    have "sorted_wrt (\<lambda>x y. apart (?g x) (?g y)) (mr_families r)"
    proof (rule sorted_wrt_mono_rel [OF _ ok(2)])
      fix x y assume "x \<in> set (mr_families r)" "y \<in> set (mr_families r)" and xy: "apart x y"
      note new [OF this(1)] new [OF this(2)]
      with xy show "apart (?g x) (?g y)" by (simp only: apart_def simp_thms)
    qed
    then show ?thesis using new by (simp add: registry_ok_def sorted_wrt_map list_all_iff)
  qed
  consider "snd (Unregister name labels r) = r"
    | "snd (Unregister name labels r) = r\<lparr>mr_families := filter (\<lambda>f. fst f \<noteq> ?n) (mr_families r)\<rparr>"
    | entries es where "map_of (mr_families r) ?n = Some entries" "erase_entry labels entries = Some es" "es \<noteq> []"
        "snd (Unregister name labels r) = r\<lparr>mr_families := map (\<lambda>(m, es'). (m, if m = ?n then es else es')) (mr_families r)\<rparr>"
    unfolding Unregister_def Let_def
    by (cases "map_of (mr_families r) ?n"; cases "erase_entry labels (the (map_of (mr_families r) ?n))";
        cases "the (erase_entry labels (the (map_of (mr_families r) ?n)))") simp_all
  then show ?thesis
  proof cases
    case 1
    then show ?thesis using assms by (simp only:)
  next
    case 2
    then show ?thesis using keep by (simp only:)
  next
    case (3 entries es)
    show ?thesis unfolding 3(4) by (rule change [OF 3(1-3)])
  qed
qed

lemma registry_reach_ok: "registry_reach r \<Longrightarrow> registry_ok r"
  by (induction rule: registry_reach.induct)
    (simp add: registry_ok_def new_MetricRegistry_def, rule Register_ok, assumption, rule Unregister_ok)

section \<open>Exported series\<close>

definition ids :: "string \<Rightarrow> Entry \<Rightarrow> (string \<times> MetricLabels) list" where
  "ids n e = (if Handle_index (en_metric e) = 2 then map (\<lambda>suffix. (n @ suffix, en_labels e)) summary_suffixes else [(n, en_labels e)])"

lemma ids_series: "map fst (series_of (sample st n e)) = ids n e"
  by (cases "en_metric e") (simp_all add: series_of_def sample_def ids_def summary_suffixes_def)

lemma suffix_last:
  assumes "a @ x = b @ y" "x \<in> set summary_suffixes" "y \<in> set summary_suffixes"
  shows "a = b"
proof -
  have "x \<noteq> []" "y \<noteq> []" using assms(2,3) by (auto simp: summary_suffixes_def)
  then have "last x = last y" using arg_cong [OF assms(1), of last] by simp
  then have "x = y" using assms(2,3) by (auto simp: summary_suffixes_def)
  then show ?thesis using assms(1) by simp
qed

lemma ids_labels: "x \<in> set (ids n e) \<Longrightarrow> snd x = en_labels e"
  by (auto simp: ids_def split: if_splits)

lemma ids_apart:
  assumes "n \<noteq> n'" "\<not> Conflicts n (Handle_index (en_metric e)) n' (Handle_index (en_metric e'))"
  shows "set (ids n e) \<inter> set (ids n' e') = {}"
proof -
  have "x \<in> set (ids n e) \<Longrightarrow> x \<in> set (ids n' e') \<Longrightarrow> False" for x
    using assms suffix_last [of n _ n'] by (auto simp: ids_def Conflicts_def list_ex_iff split: if_splits)
  then show ?thesis by blast
qed

lemma ids_distinct: "distinct (ids n e)"
  by (simp add: ids_def summary_suffixes_def)

lemma family_ids_distinct:
  "distinct (map en_labels es) \<Longrightarrow> distinct (concat (map (ids n) es))"
proof (induction es)
  case (Cons e es)
  have "set (ids n e) \<inter> set (ids n e') = {}" if "e' \<in> set es" for e'
  proof -
    have "en_labels e \<noteq> en_labels e'" using Cons.prems that by auto
    then show ?thesis using ids_labels by (metis disjoint_iff)
  qed
  then have "set (ids n e) \<inter> (\<Union>e' \<in> set es. set (ids n e')) = {}" by blast
  moreover have "distinct (concat (map (ids n) es))" using Cons by simp
  ultimately show ?case by (simp add: ids_distinct)
qed simp


definition family_ids :: "string \<times> Entry list \<Rightarrow> (string \<times> MetricLabels) list" where
  "family_ids f = concat (map (ids (fst f)) (snd f))"

lemma family_kind:
  assumes "family_ok prefix f" "e \<in> set (snd f)"
  shows "Handle_index (en_metric e) = Handle_index (en_metric (hd (snd f)))" "label_keys_valid (en_labels e)" "ValidName (fst f)"
proof -
  obtain kind keys where "\<forall>x \<in> set (snd f). typed kind keys x" using assms(1) by (auto simp: family_ok_def)
  moreover have "hd (snd f) \<in> set (snd f)" using assms(1) by (simp add: family_ok_def)
  ultimately show "Handle_index (en_metric e) = Handle_index (en_metric (hd (snd f)))" "label_keys_valid (en_labels e)"
    using assms(2) by (simp_all add: typed_def)
  show "ValidName (fst f)" using assms(1) by (simp add: family_ok_def)
qed

lemma family_ids_apart:
  assumes "family_ok prefix f" "family_ok prefix g" "apart f g"
  shows "set (family_ids f) \<inter> set (family_ids g) = {}"
proof -
  have "set (ids (fst f) e) \<inter> set (ids (fst g) e') = {}" if "e \<in> set (snd f)" "e' \<in> set (snd g)" for e e'
    using assms(3) ids_apart [of "fst f" "fst g" e e'] family_kind(1) [OF assms(1) that(1)] family_kind(1) [OF assms(2) that(2)]
    by (simp add: apart_def)
  then show ?thesis by (auto simp: family_ids_def)
qed

lemma families_ids_distinct:
  "list_all (family_ok prefix) fs \<Longrightarrow> sorted_wrt apart fs \<Longrightarrow> distinct (concat (map family_ids fs))"
proof (induction fs)
  case (Cons f fs)
  have "set (family_ids f) \<inter> set (family_ids g) = {}" if "g \<in> set fs" for g
    using family_ids_apart [of prefix f g] Cons.prems that by (simp add: list_all_iff)
  then have "set (family_ids f) \<inter> (\<Union>g \<in> set fs. set (family_ids g)) = {}" by blast
  moreover have "distinct (family_ids f)" using Cons.prems(1) by (simp add: family_ids_def family_ok_def family_ids_distinct)
  ultimately show ?case using Cons by simp
qed simp

definition samples :: "metric_store \<Rightarrow> MetricRegistry \<Rightarrow> MetricSnapshot list" where
  "samples st r = concat (map (\<lambda>(name, entries). map (sample st name) entries) (mr_families r))"

lemma samples_ids: "map fst (concat (map series_of (samples st r))) = concat (map family_ids (mr_families r))"
proof -
  have "map fst (concat (map series_of (map (sample st n) es))) = concat (map (ids n) es)" for n es
    by (induction es) (simp_all add: ids_series)
  then have "map fst (concat (map series_of (concat (map (\<lambda>(n, es). map (sample st n) es) fs)))) = concat (map family_ids fs)" for fs
    by (induction fs) (auto simp: family_ids_def)
  then show ?thesis by (simp add: samples_def)
qed

lemma mset_concat_map_perm: "mset xs = mset ys \<Longrightarrow> mset (concat (map h xs)) = mset (concat (map h ys))"
  by (simp add: mset_concat) (metis mset_map sum_mset_sum_list)

lemma snapshot_mset: "mset (Registry_Snapshot st r) = mset (samples st r)"
  by (simp add: Registry_Snapshot_def samples_def)

lemma exported_distinct:
  assumes "registry_ok r"
  shows "distinct (map fst (concat (map series_of (Registry_Snapshot st r))))"
proof -
  have "distinct (map fst (concat (map series_of (samples st r))))"
    unfolding samples_ids using assms families_ids_distinct by (auto simp: registry_ok_def)
  moreover have "mset (map fst (concat (map series_of (Registry_Snapshot st r)))) = mset (map fst (concat (map series_of (samples st r))))"
    using mset_concat_map_perm [OF snapshot_mset, of series_of st r] by (simp only: mset_map)
  ultimately show ?thesis using mset_eq_imp_distinct_iff by blast
qed

section \<open>The text of a registry\<close>

definition sample_ok :: "MetricSnapshot \<Rightarrow> bool" where
  "sample_ok s = (ValidName (ms_name s) \<and> label_keys_valid (ms_labels s))"

lemma snapshot_ok:
  assumes "registry_ok r"
  shows "list_all sample_ok (Registry_Snapshot st r)"
proof -
  have "sample_ok s" if s: "s \<in> set (samples st r)" for s
  proof -
    obtain f e where f: "f \<in> set (mr_families r)" "e \<in> set (snd f)" "s = sample st (fst f) e"
      using s by (auto simp: samples_def)
    have "family_ok (mr_prefix r) f" using assms f(1) by (simp add: registry_ok_def list_all_iff)
    from family_kind [OF this f(2)] show ?thesis by (simp add: f(3) sample_ok_def sample_def)
  qed
  moreover have "set (Registry_Snapshot st r) = set (samples st r)" using snapshot_mset by (metis set_mset_mset)
  ultimately show ?thesis by (simp add: list_all_iff)
qed

lemma valid_suffix: "ValidName n \<Longrightarrow> suffix \<in> set ([] # summary_suffixes) \<Longrightarrow> ValidName (n @ suffix)"
  by (auto simp: ValidName_def summary_suffixes_def name_char_def letter_def less_eq_char_def)

lemma scrape_write:
  assumes "sample_ok s" "suffix \<in> set ([] # summary_suffixes)"
  shows "scrape (write_sample s suffix v @ rest) = ((ms_name s @ suffix, ms_labels s), v) # scrape rest"
proof -
  have "series_ok ((ms_name s @ suffix, ms_labels s), v)" using assms valid_suffix by (simp add: series_ok_def sample_ok_def)
  moreover have "write_sample s suffix v @ rest = series_line ((ms_name s @ suffix, ms_labels s), v) @ newline # rest"
    by (simp add: write_sample_def series_line_def)
  ultimately show ?thesis by (simp only: scrape_series)
qed

lemma scrape_value: "sample_ok s \<Longrightarrow> scrape (value_text s @ rest) = series_of s @ scrape rest"
  by (cases "ms_value s") (simp_all add: value_text_def series_of_def scrape_write summary_suffixes_def)

lemma scrape_type:
  assumes "sample_ok s"
  shows "scrape (type_text s @ rest) = scrape rest"
proof -
  have n: "newline \<notin> set (ms_name s)" using assms valid_name_chars [of "ms_name s" newline] by (auto simp: sample_ok_def)
  have line: "scrape (''# TYPE '' @ ms_name s @ kind @ newline # rest) = scrape rest" if "newline \<notin> set kind" for kind rest
    using scrape_comment [of "'' TYPE '' @ ms_name s @ kind" rest] n that by simp
  show ?thesis
    using line [of "'' counter''"] line [of "'' gauge''"] line [of "'' summary''"] line [of "''_min gauge''"] line [of "''_max gauge''"]
    by (cases "ms_value s") (simp_all add: type_text_def)
qed

lemma scrape_samples: "list_all sample_ok ss \<Longrightarrow> scrape (samples_text previous ss) = concat (map series_of ss)"
  by (induction ss arbitrary: previous) (simp_all add: scrape_value scrape_type)

text \<open>
  C38: the text exposition of a registry can be read back: after any sequence of registrations and
  removals a reader of the format recovers from the text exactly the samples of the snapshot, with
  their labels (whatever characters the values contain) and values, and no series occurs twice, not
  even through the suffixes that a latency summary adds to its name.
\<close>

theorem exposition_roundtrip:
  assumes "registry_reach r"
  shows "scrape (PrometheusText st r) = concat (map series_of (Registry_Snapshot st r)) \<and>
    distinct (map fst (scrape (PrometheusText st r)))"
  using scrape_samples [OF snapshot_ok [OF registry_reach_ok [OF assms]]] exported_distinct [OF registry_reach_ok [OF assms]]
  by (simp add: PrometheusText_def)

text \<open>
  C39: after any sequence of registrations and removals the registry is well typed: family names are
  distinct, valid and carry the prefix of the registry, and the entries of a family have one kind of metric,
  one list of valid label keys and pairwise different labels.
\<close>

theorem registry_well_typed:
  assumes "registry_reach r"
  shows "distinct (map fst (mr_families r)) \<and>
    (\<forall>(n, es) \<in> set (mr_families r). es \<noteq> [] \<and> ValidName n \<and> take (length (mr_prefix r)) n = mr_prefix r \<and>
       distinct (map en_labels es) \<and> (\<exists>kind keys. list_all ValidName keys \<and>
         (\<forall>e \<in> set es. Handle_index (en_metric e) = kind \<and> map fst (en_labels e) = keys)))"
proof -
  have ok: "list_all (family_ok (mr_prefix r)) (mr_families r)" "sorted_wrt apart (mr_families r)"
    using registry_reach_ok [OF assms] by (simp_all add: registry_ok_def)
  have "distinct (map fst fs)" if "sorted_wrt apart fs" for fs
    using that by (induction fs) (auto simp: apart_def)
  moreover have "snd f \<noteq> [] \<and> ValidName (fst f) \<and> take (length (mr_prefix r)) (fst f) = mr_prefix r \<and>
       distinct (map en_labels (snd f)) \<and> (\<exists>kind keys. list_all ValidName keys \<and>
         (\<forall>e \<in> set (snd f). Handle_index (en_metric e) = kind \<and> map fst (en_labels e) = keys))"
    if "f \<in> set (mr_families r)" for f
  proof -
    have f: "family_ok (mr_prefix r) f" using ok(1) that by (simp add: list_all_iff)
    then obtain kind keys where t: "\<forall>e \<in> set (snd f). typed kind keys e" and ne: "snd f \<noteq> []" by (auto simp: family_ok_def)
    have "typed kind keys (hd (snd f))" using t ne by simp
    then have "list_all ValidName keys" by (fastforce simp: typed_def label_keys_valid_def list_all_iff)
    moreover have "\<forall>e \<in> set (snd f). Handle_index (en_metric e) = kind \<and> map fst (en_labels e) = keys"
      using t by (simp add: typed_def)
    ultimately show ?thesis using f unfolding family_ok_def by blast
  qed
  ultimately show ?thesis using ok(2) by fastforce
qed

text \<open>The order in which the hash map holds the families is immaterial.\<close>

definition sample_key :: "MetricSnapshot \<Rightarrow> string \<times> MetricLabels" where
  "sample_key s = (ms_name s, ms_labels s)"

definition family_keys :: "string \<times> Entry list \<Rightarrow> (string \<times> MetricLabels) list" where
  "family_keys f = map (\<lambda>e. (fst f, en_labels e)) (snd f)"

lemma samples_keys: "map sample_key (samples st r) = concat (map family_keys (mr_families r))"
proof -
  have "map sample_key (concat (map (\<lambda>(n, es). map (sample st n) es) fs)) = concat (map family_keys fs)" for fs
    by (induction fs) (auto simp: family_keys_def sample_key_def sample_def)
  then show ?thesis by (simp add: samples_def)
qed

lemma sample_keys_distinct:
  "list_all (family_ok prefix) fs \<Longrightarrow> sorted_wrt apart fs \<Longrightarrow> distinct (concat (map family_keys fs))"
proof (induction fs)
  case (Cons f fs)
  have "set (family_keys f) \<inter> set (family_keys g) = {}" if "g \<in> set fs" for g
    using Cons.prems(2) that by (auto simp: family_keys_def apart_def)
  then have "set (family_keys f) \<inter> (\<Union>g \<in> set fs. set (family_keys g)) = {}" by blast
  moreover have "distinct (family_keys f)"
    using Cons.prems(1) by (auto simp: family_keys_def family_ok_def distinct_map inj_on_def)
  ultimately show ?case using Cons by simp
qed simp

text \<open>
  C40: the exported text does not depend on the iteration order of the hash map: a registry with the
  same families in any other order is exported as the same text.
\<close>

theorem exposition_order_independent:
  assumes "registry_reach r" "mset (mr_families r') = mset (mr_families r)"
  shows "PrometheusText st r' = PrometheusText st r"
proof -
  have m: "mset (samples st r') = mset (samples st r)"
    unfolding samples_def by (rule mset_concat_map_perm [OF assms(2)])
  have "distinct (map sample_key (samples st r))"
    unfolding samples_keys using registry_reach_ok [OF assms(1)] sample_keys_distinct by (auto simp: registry_ok_def)
  then have "inj_on sample_key (set (samples st r))" by (simp add: distinct_map)
  then have "inj_on sample_key (set (samples st r'))" using m by (metis set_mset_mset)
  then have "sort_key sample_key (samples st r') = sort_key sample_key (samples st r)"
    using m by (intro sort_key_inj_key_eq) simp_all
  then show ?thesis by (simp add: PrometheusText_def Registry_Snapshot_def samples_def sample_key_def [abs_def])
qed

text \<open>A registry with one counter, whose label value contains a quote and a line break.\<close>

definition sample_store :: metric_store where
  "sample_store = \<lparr>st_counter = \<lambda>_. 7, st_gauge = \<lambda>_. 0, st_latency = \<lambda>_. new_LatencyRecorder\<rparr>"

definition sample_registry :: MetricRegistry where
  "sample_registry = snd (Register ''hits'' (Some (CounterHandle 0)) [(''path'', [quote, newline])] (new_MetricRegistry ''app_''))"

lemma sample_registry_eval:
  "sample_registry = \<lparr>mr_prefix = ''app_'',
     mr_families = [(''app_hits'', [\<lparr>en_labels = [(''path'', [quote, newline])], en_metric = CounterHandle 0\<rparr>])]\<rparr>"
  by (simp add: sample_registry_def Register_def new_MetricRegistry_def ValidName_def name_char_def letter_def less_eq_char_def)

theorem exposition_roundtrip_witness:
  "registry_reach sample_registry \<and>
   scrape (PrometheusText sample_store sample_registry) =
     [((''app_hits'', [(''path'', [quote, newline])]), 7)]"
proof -
  have r: "registry_reach sample_registry" unfolding sample_registry_def by (intro registry_add registry_new)
  from exposition_roundtrip [OF r, of sample_store]
  show ?thesis using r by (simp add: Registry_Snapshot_def sample_registry_eval sample_def series_of_def sample_store_def)
qed

theorem registry_well_typed_witness:
  "registry_reach sample_registry \<and> ValidName ''app_hits'' \<and> distinct (map fst (mr_families sample_registry))"
proof -
  have r: "registry_reach sample_registry" unfolding sample_registry_def by (intro registry_add registry_new)
  from registry_well_typed [OF r] show ?thesis using r by (auto simp: sample_registry_eval)
qed

text \<open>Two metrics, registered in one order and held in the other.\<close>

definition paired_registry :: MetricRegistry where
  "paired_registry =
     snd (Register ''b'' (Some (CounterHandle 1)) [] (snd (Register ''a'' (Some (GaugeHandle 0)) [] (new_MetricRegistry ''app_''))))"

lemma paired_registry_eval:
  "paired_registry = \<lparr>mr_prefix = ''app_'', mr_families =
     [(''app_a'', [\<lparr>en_labels = [], en_metric = GaugeHandle 0\<rparr>]), (''app_b'', [\<lparr>en_labels = [], en_metric = CounterHandle 1\<rparr>])]\<rparr>"
  by (simp add: paired_registry_def Register_def new_MetricRegistry_def ValidName_def name_char_def letter_def less_eq_char_def
      family_refuses_def Conflicts_def summary_suffixes_def)

theorem exposition_order_independent_witness:
  "registry_reach paired_registry \<and> rev (mr_families paired_registry) \<noteq> mr_families paired_registry \<and>
   PrometheusText sample_store (paired_registry\<lparr>mr_families := rev (mr_families paired_registry)\<rparr>) =
     PrometheusText sample_store paired_registry"
proof -
  have r: "registry_reach paired_registry" unfolding paired_registry_def by (intro registry_add registry_new)
  from exposition_order_independent [OF r, of "paired_registry\<lparr>mr_families := rev (mr_families paired_registry)\<rparr>" sample_store]
  show ?thesis using r by (simp add: paired_registry_eval)
qed

end
