(* ===== verification/Controller.thy ===== *)
theory Controller
  imports Wire_Protocol "HOL-Library.AList"
begin

text \<open>
  \<^verbatim>\<open>rpc/controller.hpp\<close>: the per-call context \<^verbatim>\<open>RpcController\<close>.  Every method is a function on
  the record \<open>RpcController\<close>; a method that calls out (cancelling a slot through the weak
  \<^verbatim>\<open>RpcCallCancellationTarget\<close>, running a user closure) returns the calls it makes as a list of
  events, in order.  The mutexes make each critical section atomic; a method with several critical
  sections is composed of the functions of those sections, which the interleaving model at the end
  schedules separately.  Clock readings (nanoseconds of the steady clock) are arguments.
\<close>

section \<open>State\<close>

record EndPoint =
  ep_ip :: u32
  ep_port :: int

definition no_endpoint :: EndPoint where
  "no_endpoint = \<lparr>ep_ip = 0, ep_port = 0\<rparr>"

record ActiveSlot =
  as_target :: nat
  as_correlation_id :: u64

type_synonym closure = nat

record RpcController =
  c_failed :: bool
  c_error_code :: int
  c_error_text :: string
  c_correlation_id :: u64
  c_log_id :: u64
  c_remote_side :: EndPoint
  c_local_side :: EndPoint
  c_request_headers :: "(string \<times> string) list"
  c_response_headers :: "(string \<times> string) list"
  c_request_attachment :: bytes
  c_response_attachment :: bytes
  c_timeout_ms :: int
  c_cancel_requested :: bool
  c_active_slot :: "ActiveSlot option"
  c_notify_on_cancel :: "closure option"
  c_notify_registered :: bool
  c_rpc_completed :: bool
  c_latency_us :: int
  c_start_time :: int

datatype controller_event =
  CallCancelRpcSlot nat u64
| RunClosure closure

definition new_RpcController :: "int \<Rightarrow> RpcController" where
  "new_RpcController now = \<lparr>c_failed = False, c_error_code = RPC_SUCCESS, c_error_text = [],
     c_correlation_id = 0, c_log_id = 0, c_remote_side = no_endpoint, c_local_side = no_endpoint,
     c_request_headers = [], c_response_headers = [], c_request_attachment = [],
     c_response_attachment = [], c_timeout_ms = - 1, c_cancel_requested = False,
     c_active_slot = None, c_notify_on_cancel = None, c_notify_registered = False,
     c_rpc_completed = False, c_latency_us = 0, c_start_time = now\<rparr>"

section \<open>Cancellation plumbing\<close>

text \<open>\<open>alive\<close> says which weak targets can still be locked.\<close>

definition RequestCancel :: "(nat \<Rightarrow> bool) \<Rightarrow> ActiveSlot option \<Rightarrow> controller_event list" where
  "RequestCancel alive active_slot =
     (case active_slot of
        None \<Rightarrow> []
      | Some a \<Rightarrow> if alive (as_target a) then [CallCancelRpcSlot (as_target a) (as_correlation_id a)]
                  else [])"

definition RunNotifyCallback :: "closure option \<Rightarrow> controller_event list" where
  "RunNotifyCallback callback = (case callback of None \<Rightarrow> [] | Some cb \<Rightarrow> [RunClosure cb])"

definition TakeNotifyOnCompletion :: "RpcController \<Rightarrow> closure option \<times> RpcController" where
  "TakeNotifyOnCompletion c =
     (let c = c\<lparr>c_rpc_completed := True\<rparr>
      in case c_notify_on_cancel c of
           None \<Rightarrow> (None, c)
         | Some cb \<Rightarrow> (Some cb, c\<lparr>c_notify_on_cancel := None\<rparr>))"

definition TakeNotifyOnCancellation :: "RpcController \<Rightarrow> closure option \<times> RpcController" where
  "TakeNotifyOnCancellation c =
     (case c_notify_on_cancel c of
        None \<Rightarrow> (None, c)
      | Some cb \<Rightarrow> (Some cb, c\<lparr>c_notify_on_cancel := None\<rparr>))"

definition BindActiveSlot ::
  "(nat \<Rightarrow> bool) \<Rightarrow> nat \<Rightarrow> u64 \<Rightarrow> RpcController \<Rightarrow> bool \<times> RpcController \<times> controller_event list" where
  "BindActiveSlot alive target correlation_id c =
     (if c_active_slot c \<noteq> None then (False, c, [])
      else let slot = Some \<lparr>as_target = target, as_correlation_id = correlation_id\<rparr>;
               c = c\<lparr>c_active_slot := slot\<rparr>
           in (True, c, if c_cancel_requested c then RequestCancel alive slot else []))"

definition ClearActiveSlot :: "u64 \<Rightarrow> RpcController \<Rightarrow> RpcController" where
  "ClearActiveSlot correlation_id c =
     (case c_active_slot c of
        Some a \<Rightarrow> if as_correlation_id a = correlation_id then c\<lparr>c_active_slot := None\<rparr> else c
      | None \<Rightarrow> c)"

section \<open>The protobuf interface\<close>

definition Reset :: "int \<Rightarrow> RpcController \<Rightarrow> RpcController" where
  "Reset now c = c\<lparr>c_failed := False, c_cancel_requested := False, c_error_code := RPC_SUCCESS,
     c_error_text := [], c_correlation_id := 0, c_log_id := 0, c_timeout_ms := - 1,
     c_remote_side := no_endpoint, c_local_side := no_endpoint, c_request_headers := [],
     c_response_headers := [], c_request_attachment := [], c_response_attachment := [],
     c_start_time := now, c_latency_us := 0, c_notify_on_cancel := None,
     c_notify_registered := False, c_rpc_completed := False\<rparr>"

definition StartCancel ::
  "(nat \<Rightarrow> bool) \<Rightarrow> RpcController \<Rightarrow> RpcController \<times> controller_event list" where
  "StartCancel alive c =
     (let c = c\<lparr>c_cancel_requested := True\<rparr>;
          active_slot = c_active_slot c;
          (notify, c) = TakeNotifyOnCancellation c
      in (c, RequestCancel alive active_slot @ RunNotifyCallback notify))"

definition SetFailed :: "int \<Rightarrow> string \<Rightarrow> RpcController \<Rightarrow> RpcController" where
  "SetFailed error_code reason c =
     c\<lparr>c_failed := True, c_error_code := error_code, c_error_text := reason\<rparr>"

definition SetFailedReason :: "string \<Rightarrow> RpcController \<Rightarrow> RpcController" where
  "SetFailedReason reason c = SetFailed RPC_EINTERNAL reason c"

definition IsCanceled :: "RpcController \<Rightarrow> bool" where
  "IsCanceled c = (c_cancel_requested c \<or> c_failed c \<and> c_error_code c = RPC_ECANCELED)"

definition NotifyOnCancel ::
  "closure option \<Rightarrow> RpcController \<Rightarrow> RpcController \<times> controller_event list" where
  "NotifyOnCancel callback c =
     (case callback of
        None \<Rightarrow> (c, [])
      | Some cb \<Rightarrow>
          (if c_notify_registered c then (c, RunNotifyCallback (Some cb))
           else let c = c\<lparr>c_notify_registered := True\<rparr>
                in if c_cancel_requested c \<or> c_rpc_completed c
                   then (c, RunNotifyCallback (Some cb))
                   else (c\<lparr>c_notify_on_cancel := Some cb\<rparr>, [])))"

section \<open>Headers and timing\<close>

definition SetRequestHeader :: "string \<Rightarrow> string \<Rightarrow> RpcController \<Rightarrow> RpcController" where
  "SetRequestHeader k v c = c\<lparr>c_request_headers := AList.update k v (c_request_headers c)\<rparr>"

definition GetRequestHeader :: "string \<Rightarrow> RpcController \<Rightarrow> string option" where
  "GetRequestHeader k c = map_of (c_request_headers c) k"

definition SetResponseHeader :: "string \<Rightarrow> string \<Rightarrow> RpcController \<Rightarrow> RpcController" where
  "SetResponseHeader k v c = c\<lparr>c_response_headers := AList.update k v (c_response_headers c)\<rparr>"

definition GetResponseHeader :: "string \<Rightarrow> RpcController \<Rightarrow> string option" where
  "GetResponseHeader k c = map_of (c_response_headers c) k"

definition GetHeader :: "string \<Rightarrow> RpcController \<Rightarrow> string option" where
  "GetHeader k c =
     (case GetResponseHeader k c of Some v \<Rightarrow> Some v | None \<Rightarrow> GetRequestHeader k c)"

definition RecordStart :: "int \<Rightarrow> RpcController \<Rightarrow> RpcController" where
  "RecordStart now c = c\<lparr>c_start_time := now\<rparr>"

definition set_latency_us :: "int \<Rightarrow> RpcController \<Rightarrow> RpcController" where
  "set_latency_us us c = c\<lparr>c_latency_us := us\<rparr>"

definition CalculateElapsedUs :: "int \<Rightarrow> RpcController \<Rightarrow> int" where
  "CalculateElapsedUs now c = ns_to_us (now - c_start_time c)"

section \<open>Interleavings of cancellation, completion and registration\<close>

text \<open>
  The atomic steps of the concurrent methods: \<open>StartCancel\<close> is the flag store followed by the
  critical section that takes the closure; the slot table's winner takes it on completion; the
  user registers closures.  Any thread may run any of them at any time, so a schedule is a list.
\<close>

datatype notify_step =
  StoreCancelFlag
| TakeForCancel
| TakeForCompletion
| Register closure

fun notify_exec :: "notify_step \<Rightarrow> RpcController \<Rightarrow> RpcController \<times> closure list" where
  "notify_exec StoreCancelFlag c = (c\<lparr>c_cancel_requested := True\<rparr>, [])"
| "notify_exec TakeForCancel c =
     (case TakeNotifyOnCancellation c of (cb, c') \<Rightarrow> (c', case cb of None \<Rightarrow> [] | Some x \<Rightarrow> [x]))"
| "notify_exec TakeForCompletion c =
     (case TakeNotifyOnCompletion c of (cb, c') \<Rightarrow> (c', case cb of None \<Rightarrow> [] | Some x \<Rightarrow> [x]))"
| "notify_exec (Register cb) c =
     (case NotifyOnCancel (Some cb) c of
        (c', evs) \<Rightarrow> (c', concat (map (\<lambda>e. case e of RunClosure x \<Rightarrow> [x] | _ \<Rightarrow> []) evs)))"

fun notify_run :: "notify_step list \<Rightarrow> RpcController \<Rightarrow> RpcController \<times> closure list" where
  "notify_run [] c = (c, [])"
| "notify_run (s # ss) c =
     (let (c1, run1) = notify_exec s c; (c2, run2) = notify_run ss c1 in (c2, run1 @ run2))"

definition registrations :: "notify_step list \<Rightarrow> closure list" where
  "registrations ss = concat (map (\<lambda>s. case s of Register cb \<Rightarrow> [cb] | _ \<Rightarrow> []) ss)"

text \<open>Once a cancel flag is stored and the closure taken, or the call completed, it is settled.\<close>

definition notify_settled :: "RpcController \<Rightarrow> bool" where
  "notify_settled c = ((c_cancel_requested c \<or> c_rpc_completed c) \<and> c_notify_on_cancel c = None)"

lemmas notify_defs = TakeNotifyOnCancellation_def TakeNotifyOnCompletion_def NotifyOnCancel_def
  RunNotifyCallback_def

definition pending_closure :: "RpcController \<Rightarrow> closure multiset" where
  "pending_closure c = (case c_notify_on_cancel c of None \<Rightarrow> {#} | Some cb \<Rightarrow> {#cb#})"

lemma notify_exec_conserves:
  assumes "notify_exec s c = (c', run)"
    and "c_notify_on_cancel c \<noteq> None \<longrightarrow> c_notify_registered c"
  shows "mset run + pending_closure c' = mset (registrations [s]) + pending_closure c"
    and "c_notify_on_cancel c' \<noteq> None \<longrightarrow> c_notify_registered c'"
    and "notify_settled c \<longrightarrow> notify_settled c'"
  using assms
  by (cases s; auto simp: notify_defs pending_closure_def registrations_def notify_settled_def Let_def
      split: option.splits if_splits)+

lemma notify_run_conserves:
  assumes "notify_run ss c = (c', run)" "c_notify_on_cancel c \<noteq> None \<longrightarrow> c_notify_registered c"
  shows "mset run + pending_closure c' = mset (registrations ss) + pending_closure c"
    and "notify_settled c \<longrightarrow> notify_settled c'"
  using assms
proof (induction ss arbitrary: c run)
  case Nil
  {
    case 1
    then show ?case by (simp add: registrations_def)
  next
    case 2
    then show ?case by simp
  }
next
  case (Cons s ss)
  {
    case 1
    obtain c1 r1 where ex: "notify_exec s c = (c1, r1)" by fastforce
    obtain c2 r2 where rn: "notify_run ss c1 = (c2, r2)" by fastforce
    note step = notify_exec_conserves [OF ex 1(2)]
    have reg: "mset (registrations (s # ss)) = mset (registrations [s]) + mset (registrations ss)"
      by (simp add: registrations_def)
    have "c' = c2" and run: "run = r1 @ r2" using 1(1) ex rn by simp_all
    then have "mset r2 + pending_closure c' = mset (registrations ss) + pending_closure c1"
      using Cons.IH(1) [OF _ step(2)] rn by simp
    then have "mset run + pending_closure c' =
        mset (registrations ss) + (mset r1 + pending_closure c1)"
      unfolding run by (simp only: mset_append union_assoc) (simp only: ac_simps)
    then show ?case
      unfolding reg step(1) by (simp only: ac_simps)
  next
    case 2
    obtain c1 r1 where ex: "notify_exec s c = (c1, r1)" by fastforce
    obtain c2 r2 where rn: "notify_run ss c1 = (c2, r2)" by fastforce
    note step = notify_exec_conserves [OF ex 2(2)]
    have "c' = c2" using 2(1) ex rn by simp
    then show ?case
      using step(3) Cons.IH(2) [OF _ step(2)] rn by blast
  }
qed

lemma notify_run_registered:
  assumes "notify_run ss c = (c', run)" "c_notify_on_cancel c \<noteq> None \<longrightarrow> c_notify_registered c"
  shows "c_notify_on_cancel c' \<noteq> None \<longrightarrow> c_notify_registered c'"
  using assms
proof (induction ss arbitrary: c run)
  case (Cons s ss)
  obtain c1 r1 where 1: "notify_exec s c = (c1, r1)" by fastforce
  show ?case
    using Cons.IH [of c1] Cons.prems notify_exec_conserves(2) [OF 1 Cons.prems(2)] 1
    by (auto simp: Let_def split: prod.splits)
qed simp

lemma take_settles:
  "notify_exec TakeForCompletion c = (c', run) \<Longrightarrow> notify_settled c'"
  "c_cancel_requested c \<Longrightarrow> notify_exec TakeForCancel c = (c', run) \<Longrightarrow> notify_settled c'"
  by (auto simp: notify_defs notify_settled_def Let_def split: option.splits)

lemma notify_run_append:
  "notify_run (xs @ ys) c =
     (let (c1, r1) = notify_run xs c; (c2, r2) = notify_run ys c1 in (c2, r1 @ r2))"
  by (induction xs arbitrary: c) (simp_all add: Let_def split: prod.splits)

lemma cancel_flag_stays:
  "notify_run ss c = (c', run) \<Longrightarrow> c_cancel_requested c \<Longrightarrow> c_cancel_requested c'"
proof (induction ss arbitrary: c run)
  case (Cons s ss)
  obtain c1 r1 where "notify_exec s c = (c1, r1)" by fastforce
  moreover from this have "c_cancel_requested c1"
    using Cons.prems(2)
    by (cases s) (auto simp: notify_defs Let_def split: option.splits if_splits)
  ultimately show ?case using Cons by (auto simp: Let_def split: prod.splits)
qed simp

section \<open>Properties\<close>

text \<open>
  C10: in every interleaving of cancellation, completion and registrations on a fresh controller
  each registered closure is run at most once; it has run exactly once as soon as the call has
  completed or a \<^verbatim>\<open>StartCancel\<close> has finished (its flag store is followed by its take).
\<close>

theorem notify_exactly_once:
  assumes "notify_run ss (new_RpcController now) = (c, run)"
  shows "mset run \<subseteq># mset (registrations ss) \<and>
    (TakeForCompletion \<in> set ss \<or> (\<exists>xs ys zs. ss = xs @ StoreCancelFlag # ys @ TakeForCancel # zs)
      \<longrightarrow> mset run = mset (registrations ss))"
proof -
  have fresh: "c_notify_on_cancel (new_RpcController now) \<noteq> None \<longrightarrow>
      c_notify_registered (new_RpcController now)" "pending_closure (new_RpcController now) = {#}"
    by (simp_all add: new_RpcController_def pending_closure_def)
  note total = notify_run_conserves(1) [OF assms fresh(1), unfolded fresh(2), simplified]
  have settled: "notify_settled c" if split: "ss = as @ s # zs"
    and s: "s = TakeForCompletion \<or>
      s = TakeForCancel \<and> c_cancel_requested (fst (notify_run as (new_RpcController now)))" for as s zs
  proof -
    obtain c1 r1 where 1: "notify_run as (new_RpcController now) = (c1, r1)" by fastforce
    obtain c2 r2 where 2: "notify_exec s c1 = (c2, r2)" by fastforce
    obtain r3 where 3: "notify_run zs c2 = (c, r3)"
      using assms unfolding split by (auto simp: notify_run_append 1 2 Let_def split: prod.splits)
    have inv1: "c_notify_on_cancel c1 \<noteq> None \<longrightarrow> c_notify_registered c1"
      using 1 fresh(1) by (rule notify_run_registered)
    have "notify_settled c2" using s 1 2 take_settles by auto
    then show ?thesis
      using notify_run_conserves(2) [OF 3 notify_exec_conserves(2) [OF 2 inv1]] by blast
  qed
  have "notify_settled c" if "TakeForCompletion \<in> set ss"
    using that settled by (metis split_list)
  moreover have "notify_settled c" if "ss = xs @ StoreCancelFlag # ys @ TakeForCancel # zs" for xs ys zs
  proof -
    obtain c1 r1 where 1: "notify_run xs (new_RpcController now) = (c1, r1)" by fastforce
    obtain c2 r2 where 2: "notify_run ys (c1\<lparr>c_cancel_requested := True\<rparr>) = (c2, r2)" by fastforce
    have "c_cancel_requested c2" using cancel_flag_stays [OF 2] by simp
    then show ?thesis
      using settled [of "xs @ StoreCancelFlag # ys" TakeForCancel zs] that
      by (simp add: notify_run_append 1 2 Let_def)
  qed
  ultimately show ?thesis
    using total by (auto simp: notify_settled_def pending_closure_def simp flip: total)
qed

theorem notify_exactly_once_witness:
  "mset (snd (notify_run [StoreCancelFlag, Register 4, TakeForCancel, Register 5]
     (new_RpcController 0))) = {#4, 5#}"
proof -
  define ss where "ss = [StoreCancelFlag, Register 4, TakeForCancel, Register 5]"
  obtain c run where eq: "notify_run ss (new_RpcController 0) = (c, run)" by fastforce
  have "\<exists>xs ys zs. ss = xs @ StoreCancelFlag # ys @ TakeForCancel # zs"
    unfolding ss_def by (rule exI [of _ "[]"], rule exI [of _ "[Register 4]"]) simp
  then have "mset run = mset (registrations ss)" using notify_exactly_once [OF eq] by blast
  then show ?thesis using eq by (simp add: ss_def registrations_def)
qed

text \<open>
  Binding a slot to a controller that already owns one is refused and changes nothing;
  otherwise the slot is bound, and when cancellation was requested before, the cancellation is
  delivered at once to exactly the slot just bound, provided its target still exists.  Only the
  call with the same versioned correlation id unbinds it.
\<close>

theorem bind_clear_contract:
  "let (ok, c', evs) = BindActiveSlot alive t cid c
   in (ok = (c_active_slot c = None)) \<and>
      (ok \<longrightarrow> c_active_slot c' = Some \<lparr>as_target = t, as_correlation_id = cid\<rparr> \<and>
         evs = (if c_cancel_requested c \<and> alive t then [CallCancelRpcSlot t cid] else []) \<and>
         (\<forall>cid'. c_active_slot (ClearActiveSlot cid' c') =
            (if cid' = cid then None else c_active_slot c'))) \<and>
      (\<not> ok \<longrightarrow> c' = c \<and> evs = [])"
  by (simp add: BindActiveSlot_def RequestCancel_def ClearActiveSlot_def Let_def)

theorem bind_clear_contract_witness:
  "c_active_slot (fst (snd (BindActiveSlot (\<lambda>_. True) 3 77 (new_RpcController 0)))) =
     Some \<lparr>as_target = 3, as_correlation_id = 77\<rparr>"
  using bind_clear_contract [of "\<lambda>_. True" 3 77 "new_RpcController 0"]
  by (simp add: new_RpcController_def Let_def split: prod.splits)

end
