(* ===== verification/Quad_Heap.thy ===== *)
theory Quad_Heap
  imports Prelude
begin

text \<open>
  The 4-ary min-heap of \<^verbatim>\<open>scheduler/timer_keeper.hpp\<close>: \<^verbatim>\<open>sift_up\<close>, \<^verbatim>\<open>sift_down\<close>,
  \<^verbatim>\<open>push_heap_4ary\<close> and \<^verbatim>\<open>pop_heap_4ary\<close> on the vector \<^verbatim>\<open>heap_\<close>.  The elements are pointers to
  timer entries; \<open>key\<close> reads the expiry time behind a pointer.  The theory shows that the four
  routines implement a priority queue: they keep the heap order and the multiset of elements, and
  a pop returns an element with the least key.
\<close>

section \<open>The routines\<close>

fun sift_up_loop :: "('a \<Rightarrow> 'k::linorder) \<Rightarrow> 'a \<Rightarrow> 'a list \<Rightarrow> nat \<Rightarrow> 'a list" where
  "sift_up_loop key entry heap index =
     (if index > 0
      then let parent = (index - 1) div 4
           in if key entry < key (heap ! parent)
              then sift_up_loop key entry (heap[index := heap ! parent]) parent
              else heap[index := entry]
      else heap[index := entry])"

declare sift_up_loop.simps [simp del]

definition sift_up :: "('a \<Rightarrow> 'k::linorder) \<Rightarrow> 'a list \<Rightarrow> nat \<Rightarrow> 'a list" where
  "sift_up key heap index = sift_up_loop key (heap ! index) heap index"

definition scan_min_child :: "('a \<Rightarrow> 'k::linorder) \<Rightarrow> 'a list \<Rightarrow> nat \<Rightarrow> nat \<times> 'k" where
  "scan_min_child key heap first_child =
     (let last_child = min (first_child + 4) (length heap)
      in fold (\<lambda>c (min_child, min_time).
                 if key (heap ! c) < min_time then (c, key (heap ! c)) else (min_child, min_time))
           [first_child + 1..<last_child] (first_child, key (heap ! first_child)))"

lemma fold_min_scan:
  fixes key :: "'a \<Rightarrow> 'k::linorder"
  assumes "fold (\<lambda>c (m, t). if key (xs ! c) < t then (c, key (xs ! c)) else (m, t)) cs (m0, t0) = (m, t)"
    and "t0 = key (xs ! m0)"
  shows "m \<in> insert m0 (set cs)" "t = key (xs ! m)" "\<forall>c\<in>insert m0 (set cs). t \<le> key (xs ! c)"
  using assms
proof (induction cs arbitrary: m0 t0)
  case Nil
  {
    case 1 then show ?case by simp
  next
    case 2 then show ?case by auto
  next
    case 3 then show ?case by auto
  }
next
  case (Cons c cs)
  {
    case 1 then show ?case using Cons.IH(1) by (auto split: if_splits)
  next
    case 2 then show ?case using Cons.IH(2) by (auto split: if_splits)
  next
    case 3
    show ?case
    proof (cases "key (xs ! c) < t0")
      case True
      then show ?thesis using 3 Cons.IH(3) [of c "key (xs ! c)"] by auto
    next
      case False
      then show ?thesis using 3 Cons.IH(3) [of m0 t0] by auto
    qed
  }
qed

lemma scan_min_child:
  assumes "scan_min_child key xs f = (m, t)" "f < length xs"
  shows "f \<le> m" "m < f + 4" "m < length xs" "t = key (xs ! m)"
    "\<forall>c. f \<le> c \<and> c < f + 4 \<and> c < length xs \<longrightarrow> key (xs ! m) \<le> key (xs ! c)"
proof -
  note scan = fold_min_scan [OF assms(1) [unfolded scan_min_child_def Let_def] refl]
  show "f \<le> m" "m < f + 4" "m < length xs" "t = key (xs ! m)"
    using scan(1,2) assms(2) by auto
  then have "key (xs ! m) \<le> key (xs ! c)" if "f \<le> c" "c < f + 4" "c < length xs" for c
    using scan(3) that by (cases "c = f") auto
  then show "\<forall>c. f \<le> c \<and> c < f + 4 \<and> c < length xs \<longrightarrow> key (xs ! m) \<le> key (xs ! c)"
    by blast
qed

function sift_down_loop :: "('a \<Rightarrow> 'k::linorder) \<Rightarrow> 'a \<Rightarrow> 'a list \<Rightarrow> nat \<Rightarrow> 'a list" where
  "sift_down_loop key entry heap index =
     (let first_child = 4 * index + 1
      in if first_child \<ge> length heap then heap[index := entry]
         else let (min_child, min_time) = scan_min_child key heap first_child
              in if min_time < key entry
                 then sift_down_loop key entry (heap[index := heap ! min_child]) min_child
                 else heap[index := entry])"
  by pat_completeness auto
termination
proof (relation "measure (\<lambda>(key, entry, heap, index). length heap - index)", goal_cases)
  case (2 key entry heap index first_child p min_child min_time)
  then have "first_child \<le> min_child" "min_child < length heap"
    using scan_min_child(1,3) [of key heap first_child min_child min_time] by simp_all
  with 2(1) show ?case by simp
qed simp

declare sift_down_loop.simps [simp del]

definition sift_down :: "('a \<Rightarrow> 'k::linorder) \<Rightarrow> 'a list \<Rightarrow> nat \<Rightarrow> 'a list" where
  "sift_down key heap index = sift_down_loop key (heap ! index) heap index"

definition push_heap_4ary :: "('a \<Rightarrow> 'k::linorder) \<Rightarrow> 'a \<Rightarrow> 'a list \<Rightarrow> 'a list" where
  "push_heap_4ary key entry heap =
     (let heap = heap @ [entry] in sift_up key heap (length heap - 1))"

definition pop_heap_4ary :: "('a \<Rightarrow> 'k::linorder) \<Rightarrow> 'a list \<Rightarrow> 'a \<times> 'a list" where
  "pop_heap_4ary key heap =
     (let first = heap ! 0; back = last heap; heap = butlast heap
      in if heap \<noteq> [] then (first, sift_down key (heap[0 := back]) 0) else (first, heap))"

section \<open>Heap order\<close>

definition par4 :: "nat \<Rightarrow> nat" where
  "par4 i = (i - 1) div 4"

definition heap4 :: "('a \<Rightarrow> 'k::linorder) \<Rightarrow> 'a list \<Rightarrow> bool" where
  "heap4 key xs = (\<forall>i. 0 < i \<and> i < length xs \<longrightarrow> key (xs ! par4 i) \<le> key (xs ! i))"

lemma par4_less: "0 < i \<Longrightarrow> par4 i < i"
  by (auto simp: par4_def)

lemma par4_child: "0 < i \<Longrightarrow> par4 i = p \<longleftrightarrow> 4 * p + 1 \<le> i \<and> i < 4 * p + 5"
  by (auto simp: par4_def)

text \<open>The order holds except between a given position and its parent, or its children.\<close>

definition heap4_above :: "('a \<Rightarrow> 'k::linorder) \<Rightarrow> 'a list \<Rightarrow> nat \<Rightarrow> bool" where
  "heap4_above key xs p =
     ((\<forall>i. 0 < i \<and> i < length xs \<and> i \<noteq> p \<longrightarrow> key (xs ! par4 i) \<le> key (xs ! i)) \<and>
      (\<forall>i. 0 < p \<and> 0 < i \<and> i < length xs \<and> par4 i = p \<longrightarrow> key (xs ! par4 p) \<le> key (xs ! i)))"

definition heap4_below :: "('a \<Rightarrow> 'k::linorder) \<Rightarrow> 'a list \<Rightarrow> nat \<Rightarrow> bool" where
  "heap4_below key xs p =
     ((\<forall>i. 0 < i \<and> i < length xs \<and> par4 i \<noteq> p \<longrightarrow> key (xs ! par4 i) \<le> key (xs ! i)) \<and>
      (\<forall>i. 0 < p \<and> 0 < i \<and> i < length xs \<and> par4 i = p \<longrightarrow> key (xs ! par4 p) \<le> key (xs ! i)))"

lemma mset_move:
  assumes "i < length xs" "j < length xs" "i \<noteq> j"
  shows "mset (xs[i := xs ! j, j := e]) = mset (xs[i := e])"
proof -
  have "mset (xs[i := e, i := xs[i := e] ! j, j := xs[i := e] ! i]) = mset (xs[i := e])"
    using assms by (intro mset_swap) simp_all
  then show ?thesis using assms by (simp add: nth_list_update)
qed

lemma heap4_above_step:
  assumes inv: "heap4_above key ys p" and p: "0 < p" "p < length ys"
    and less: "key (ys ! p) < key (ys ! par4 p)"
  shows "heap4_above key (ys[p := ys ! par4 p, par4 p := ys ! p]) (par4 p)"
proof -
  define q where "q = par4 p"
  define zs where "zs = ys[p := ys ! q, q := ys ! p]"
  have q: "q < p" "q < length ys" using p par4_less [of p] by (simp_all add: q_def)
  have z: "zs ! p = ys ! q" "zs ! q = ys ! p" "length zs = length ys"
    "i \<noteq> p \<Longrightarrow> i \<noteq> q \<Longrightarrow> zs ! i = ys ! i" for i
    using p q by (simp_all add: zs_def)
  have ord: "key (ys ! par4 i) \<le> key (ys ! i)" if "0 < i" "i < length ys" "i \<noteq> p" for i
    using inv that by (simp add: heap4_above_def)
  have kids: "key (ys ! q) \<le> key (ys ! i)" if "0 < i" "i < length ys" "par4 i = p" for i
    using inv that p by (simp add: heap4_above_def q_def)
  have grand: "key (ys ! par4 q) \<le> key (ys ! q)" "par4 q \<noteq> p" "par4 q \<noteq> q" if "0 < q"
    using ord [of q] that q par4_less [OF that] by simp_all
  have "key (zs ! par4 i) \<le> key (zs ! i)" if i: "0 < i" "i < length ys" "i \<noteq> q" for i
  proof (cases "i = p")
    case True
    then show ?thesis using z less by (simp flip: q_def)
  next
    case False
    then have "key (zs ! par4 i) \<le> key (ys ! i)"
      using i z ord [of i] kids [of i] less [folded q_def] by (cases "par4 i = p"; cases "par4 i = q") auto
    then show ?thesis using False i z by simp
  qed
  moreover have "key (zs ! par4 q) \<le> key (zs ! i)"
    if i: "0 < q" "0 < i" "i < length ys" "par4 i = q" for i
  proof (cases "i = p")
    case True
    then show ?thesis using z grand i by simp
  next
    case False
    then have "key (ys ! q) \<le> key (ys ! i)" "i \<noteq> q"
      using ord [of i] i par4_less [of i] by auto
    then show ?thesis using z grand [OF i(1)] False by auto
  qed
  ultimately have "heap4_above key zs q" by (simp add: heap4_above_def z)
  then show ?thesis by (simp add: zs_def q_def)
qed

lemma heap4_below_step:
  assumes inv: "heap4_below key ys p" and p: "p < length ys"
    and m: "0 < m" "m < length ys" "par4 m = p" and less: "key (ys ! m) < key (ys ! p)"
    and least: "\<forall>c. 0 < c \<and> c < length ys \<and> par4 c = p \<longrightarrow> key (ys ! m) \<le> key (ys ! c)"
  shows "heap4_below key (ys[p := ys ! m, m := ys ! p]) m"
proof -
  define zs where "zs = ys[p := ys ! m, m := ys ! p]"
  have pm: "p < m" using m par4_less by fastforce
  have z: "zs ! p = ys ! m" "zs ! m = ys ! p" "length zs = length ys"
    "i \<noteq> p \<Longrightarrow> i \<noteq> m \<Longrightarrow> zs ! i = ys ! i" for i
    using p m pm by (simp_all add: zs_def)
  have ord: "key (ys ! par4 i) \<le> key (ys ! i)" if "0 < i" "i < length ys" "par4 i \<noteq> p" for i
    using inv that by (simp add: heap4_below_def)
  have "key (zs ! par4 i) \<le> key (zs ! i)" if i: "0 < i" "i < length ys" "par4 i \<noteq> m" for i
  proof (cases "par4 i = p")
    case True
    then show ?thesis using z less least i m par4_less [OF i(1)] by (cases "i = m") auto
  next
    case False
    then have "i \<noteq> m" using m by auto
    moreover have "key (ys ! par4 p) \<le> key (ys ! m)" if "0 < p"
      using inv that m by (simp add: heap4_below_def)
    ultimately show ?thesis using False i z ord [of i] by (cases "i = p") auto
  qed
  moreover have "key (zs ! par4 m) \<le> key (zs ! i)" if i: "0 < i" "i < length ys" "par4 i = m" for i
    using ord [of i] i z m pm par4_less [OF i(1)] by auto
  ultimately have "heap4_below key zs m" by (simp add: heap4_below_def z)
  then show ?thesis by (simp add: zs_def)
qed

lemma sift_up_loop_unfold:
  "sift_up_loop key entry heap index =
     (if index > 0 \<and> key entry < key (heap ! par4 index)
      then sift_up_loop key entry (heap[index := heap ! par4 index]) (par4 index)
      else heap[index := entry])"
  by (subst sift_up_loop.simps) (simp add: par4_def Let_def)

lemma sift_up_loop_correct:
  assumes "index < length heap" "heap4_above key (heap[index := entry]) index"
  shows "heap4 key (sift_up_loop key entry heap index) \<and>
    mset (sift_up_loop key entry heap index) = mset (heap[index := entry])"
  using assms
proof (induction index arbitrary: heap rule: less_induct)
  case (less index)
  define q where "q = par4 index"
  show ?case
  proof (cases "index > 0 \<and> key entry < key (heap ! q)")
    case True
    then have q: "q < index" "q < length heap"
      using less.prems(1) par4_less [of index] by (simp_all add: q_def)
    have "heap4_above key (heap[index := heap ! q, q := entry]) q"
      using heap4_above_step [OF less.prems(2)] True less.prems(1) q by (simp flip: q_def)
    then have "heap4 key (sift_up_loop key entry (heap[index := heap ! q]) q) \<and>
        mset (sift_up_loop key entry (heap[index := heap ! q]) q) =
        mset (heap[index := heap ! q, q := entry])"
      using less.IH [of q "heap[index := heap ! q]"] q by simp
    then show ?thesis
      using True q less.prems(1) mset_move [of index heap q entry]
      by (simp add: sift_up_loop_unfold [of key entry heap index] flip: q_def)
  next
    case False
    have "q < index" if "0 < index" using that by (simp add: q_def par4_less)
    then have "0 < index \<longrightarrow> key (heap[index := entry] ! q) \<le> key (heap[index := entry] ! index)"
      using False less.prems(1) by auto
    then have "heap4 key (heap[index := entry])"
      using less.prems(2) unfolding heap4_above_def heap4_def q_def by metis
    then show ?thesis
      using False by (auto simp: sift_up_loop_unfold [of key entry heap index] simp flip: q_def)
  qed
qed

lemma sift_down_loop_correct:
  assumes "index < length heap" "heap4_below key (heap[index := entry]) index"
  shows "heap4 key (sift_down_loop key entry heap index) \<and>
    mset (sift_down_loop key entry heap index) = mset (heap[index := entry])"
  using assms
proof (induction "length heap - index" arbitrary: heap index rule: less_induct)
  case less
  let ?ys = "heap[index := entry]"
  show ?case
  proof (cases "4 * index + 1 \<ge> length heap")
    case True
    have "par4 i \<noteq> index" if "0 < i" "i < length heap" for i
      using True that par4_child [of i index] by auto
    then have "heap4 key ?ys"
      using less.prems(2) unfolding heap4_below_def heap4_def by (metis length_list_update)
    then show ?thesis using True by (simp add: sift_down_loop.simps)
  next
    case False
    obtain m t where scan: "scan_min_child key heap (4 * index + 1) = (m, t)" by fastforce
    note mc = scan_min_child [OF scan, simplified]
    have m: "0 < m" "index < m" "m < length heap" "par4 m = index" and t: "t = key (heap ! m)"
      using False mc(1-4) by (auto simp: par4_child)
    have least: "key (heap ! m) \<le> key (heap ! c)" if "0 < c" "c < length heap" "par4 c = index" for c
      using mc(5) False that par4_child [of c index] by simp
    have unfold: "sift_down_loop key entry heap index =
        (if t < key entry then sift_down_loop key entry (heap[index := heap ! m]) m else ?ys)"
      using False by (subst sift_down_loop.simps) (simp add: scan [simplified])
    show ?thesis
    proof (cases "t < key entry")
      case True
      have "\<forall>c. 0 < c \<and> c < length ?ys \<and> par4 c = index \<longrightarrow> key (?ys ! m) \<le> key (?ys ! c)"
        using least m par4_less [of index] by (auto simp: nth_list_update)
      then have "heap4_below key (heap[index := heap ! m, m := entry]) m"
        using heap4_below_step [OF less.prems(2), of m] True t m less.prems(1) by simp
      then have "heap4 key (sift_down_loop key entry (heap[index := heap ! m]) m) \<and>
          mset (sift_down_loop key entry (heap[index := heap ! m]) m) =
          mset (heap[index := heap ! m, m := entry])"
        using less.hyps [of "heap[index := heap ! m]" m] m less.prems(1) by simp
      then show ?thesis
        using True m less.prems(1) mset_move [of index heap m entry] by (simp add: unfold)
    next
      case False
      have "key (?ys ! par4 i) \<le> key (?ys ! i)" if "0 < i" "i < length heap" for i
      proof (cases "par4 i = index")
        case True
        then show ?thesis
          using False t least [OF that True] less.prems(1) par4_less [OF that(1)] by simp
      next
        case ne: False
        then show ?thesis using less.prems(2) that by (simp add: heap4_below_def)
      qed
      then show ?thesis using False by (simp add: unfold heap4_def)
    qed
  qed
qed

section \<open>Push and pop\<close>

lemma push_heap_4ary_correct:
  assumes "heap4 key heap"
  shows "heap4 key (push_heap_4ary key e heap)"
    and "mset (push_heap_4ary key e heap) = add_mset e (mset heap)"
proof -
  have "heap4_above key (heap @ [e]) (length heap)"
  proof -
    have "par4 i < length heap" if "0 < i" "i < length heap" for i
      using that par4_less [of i] by simp
    moreover have "par4 i \<noteq> length heap" if "0 < i" "i < Suc (length heap)" for i
      using that par4_less [of i] by simp
    ultimately show ?thesis
      using assms by (auto simp: heap4_above_def heap4_def nth_append less_Suc_eq)
  qed
  then show "heap4 key (push_heap_4ary key e heap)"
    "mset (push_heap_4ary key e heap) = add_mset e (mset heap)"
    using sift_up_loop_correct [of "length heap" "heap @ [e]" key e]
    by (simp_all add: push_heap_4ary_def sift_up_def Let_def)
qed

lemma heap4_least:
  assumes "heap4 key heap" "i < length heap"
  shows "key (heap ! 0) \<le> key (heap ! i)"
  using assms(2)
proof (induction i rule: less_induct)
  case (less i)
  show ?case
  proof (cases "i = 0")
    case False
    then have "key (heap ! 0) \<le> key (heap ! par4 i)"
      using less par4_less [of i] by simp
    also have "\<dots> \<le> key (heap ! i)"
      using False less.prems assms(1) by (simp add: heap4_def)
    finally show ?thesis .
  qed simp
qed

lemma pop_heap_4ary_correct:
  assumes "heap4 key heap" "heap \<noteq> []" "pop_heap_4ary key heap = (first, heap')"
  shows "first = heap ! 0" "heap4 key heap'" "mset heap = add_mset first (mset heap')"
    "\<forall>x\<in>set heap. key first \<le> key x"
proof -
  show first: "first = heap ! 0"
    using assms(3) by (simp add: pop_heap_4ary_def Let_def split: if_splits)
  show "\<forall>x\<in>set heap. key first \<le> key x"
    using heap4_least [OF assms(1)] by (auto simp: first in_set_conv_nth)
  have "heap4 key heap' \<and> mset heap = add_mset first (mset heap')"
  proof (cases "butlast heap = []")
    case True
    then have "heap = [first]" "heap' = []"
      using assms(2,3) first by (simp_all add: pop_heap_4ary_def Let_def butlast_conv_take)
        (cases heap; simp)+
    then show ?thesis by (simp add: heap4_def)
  next
    case False
    define bl where "bl = butlast heap"
    have h: "heap = bl @ [last heap]" "0 < length bl"
      using assms(2) False by (simp_all add: bl_def del: length_butlast)
    have heap': "heap' = sift_down_loop key (last heap) (bl[0 := last heap]) 0"
      using assms(3) False h(2) by (simp add: pop_heap_4ary_def sift_down_def Let_def flip: bl_def)
    have "heap4_below key (bl[0 := last heap]) 0"
    proof -
      have "key (bl ! par4 i) \<le> key (bl ! i)" if "0 < i" "i < length bl" for i
        using assms(1) that par4_less [OF that(1)] h(1)
        by (metis heap4_def length_append_singleton less_SucI nth_append order_less_trans)
      then show ?thesis by (auto simp: heap4_below_def nth_list_update)
    qed
    then have "heap4 key heap' \<and> mset heap' = mset (bl[0 := last heap])"
      using sift_down_loop_correct [of 0 "bl[0 := last heap]" key "last heap"] h(2)
      by (simp add: heap')
    moreover have "bl ! 0 = first" using h first by (metis nth_append)
    then have "mset heap = add_mset first (mset (bl[0 := last heap]))"
      using h(2) by (subst h(1)) (cases bl; simp)
    ultimately show ?thesis by simp
  qed
  then show "heap4 key heap'" "mset heap = add_mset first (mset heap')" by simp_all
qed

section \<open>The priority-queue interface\<close>

text \<open>
  What the timer thread relies on: an abstraction to a multiset, an invariant, and the laws of
  \<open>push\<close> and \<open>pop\<close>.  Popping until a bound is passed delivers exactly the elements within the
  bound, in non-decreasing order of their keys.
\<close>

text \<open>Repeated pops, as the expiry loop does them.\<close>

fun pop_n :: "('q \<Rightarrow> 'a \<times> 'q) \<Rightarrow> nat \<Rightarrow> 'q \<Rightarrow> 'a list \<times> 'q" where
  "pop_n pop 0 q = ([], q)"
| "pop_n pop (Suc n) q = (let (x, q1) = pop q; (xs, q2) = pop_n pop n q1 in (x # xs, q2))"

locale priority_queue =
  fixes key :: "'a \<Rightarrow> 'k::linorder"
    and inv :: "'q \<Rightarrow> bool"
    and bag :: "'q \<Rightarrow> 'a multiset"
    and push :: "'a \<Rightarrow> 'q \<Rightarrow> 'q"
    and pop :: "'q \<Rightarrow> 'a \<times> 'q"
  assumes push_inv: "inv q \<Longrightarrow> inv (push x q)"
    and push_bag: "inv q \<Longrightarrow> bag (push x q) = add_mset x (bag q)"
    and pop_inv: "inv q \<Longrightarrow> bag q \<noteq> {#} \<Longrightarrow> inv (snd (pop q))"
    and pop_bag: "inv q \<Longrightarrow> bag q \<noteq> {#} \<Longrightarrow> bag q = add_mset (fst (pop q)) (bag (snd (pop q)))"
    and pop_least: "inv q \<Longrightarrow> bag q \<noteq> {#} \<Longrightarrow> x \<in># bag q \<Longrightarrow> key (fst (pop q)) \<le> key x"
begin

lemma pops_sorted:
  assumes "inv q" "n \<le> size (bag q)"
  shows "inv (snd (pop_n pop n q)) \<and> bag q = mset (fst (pop_n pop n q)) + bag (snd (pop_n pop n q)) \<and>
    sorted (map key (fst (pop_n pop n q))) \<and> length (fst (pop_n pop n q)) = n \<and>
    (\<forall>x\<in>set (fst (pop_n pop n q)). \<forall>y\<in>#bag (snd (pop_n pop n q)). key x \<le> key y)"
  using assms
proof (induction n arbitrary: q)
  case (Suc n)
  then have ne: "bag q \<noteq> {#}" by auto
  obtain x q1 where p: "pop q = (x, q1)" by fastforce
  note laws = pop_inv [OF Suc.prems(1) ne] pop_bag [OF Suc.prems(1) ne] pop_least [OF Suc.prems(1) ne]
  have "n \<le> size (bag q1)" using Suc.prems(2) laws(2) by (simp add: p)
  note ih = Suc.IH [OF laws(1) [unfolded p snd_conv] this]
  have low: "key x \<le> key y" if "y \<in># bag q1" for y using laws(2,3) that by (simp add: p)
  have "bag q1 = mset (fst (pop_n pop n q1)) + bag (snd (pop_n pop n q1))" using ih by blast
  then have "key x \<le> key y" if "y \<in> set (fst (pop_n pop n q1)) \<or> y \<in># bag (snd (pop_n pop n q1))" for y
    using that low by auto
  then show ?case using ih laws(2) p by (auto simp: Let_def split: prod.splits)
qed simp

end

interpretation quad: priority_queue key "heap4 key" mset "push_heap_4ary key" "pop_heap_4ary key"
  for key :: "'a \<Rightarrow> 'k::linorder"
proof (unfold_locales, goal_cases)
  case (1 q x)
  then show ?case by (rule push_heap_4ary_correct)
next
  case (2 q x)
  then show ?case by (rule push_heap_4ary_correct)
next
  case (3 q)
  then show ?case using pop_heap_4ary_correct(2) [of key q "fst (pop_heap_4ary key q)" "snd (pop_heap_4ary key q)"] by simp
next
  case (4 q)
  then show ?case using pop_heap_4ary_correct(3) [of key q "fst (pop_heap_4ary key q)" "snd (pop_heap_4ary key q)"] by simp
next
  case (5 q x)
  then show ?case using pop_heap_4ary_correct(4) [of key q "fst (pop_heap_4ary key q)" "snd (pop_heap_4ary key q)"] by simp
qed

section \<open>Properties\<close>

lemma fold_push: "heap4 key h \<Longrightarrow> heap4 key (fold (push_heap_4ary key) xs h) \<and>
    mset (fold (push_heap_4ary key) xs h) = mset xs + mset h"
  by (induction xs arbitrary: h) (simp_all add: push_heap_4ary_correct)

text \<open>
  C9: after pushing any elements in any order, the 4-ary heap delivers by repeated pops the \<open>n\<close>
  elements with the least keys in non-decreasing order and keeps the others, none lost and none
  duplicated.
\<close>

theorem heap_priority_order:
  assumes "n \<le> length xs"
  shows "let (out, heap) = pop_n (pop_heap_4ary key) n (fold (push_heap_4ary key) xs [])
    in length out = n \<and> sorted (map key out) \<and> mset xs = mset out + mset heap \<and> heap4 key heap \<and>
       (\<forall>x\<in>set out. \<forall>y\<in>set heap. key x \<le> key y)"
proof -
  define h where "h = fold (push_heap_4ary key) xs []"
  have h: "heap4 key h" "mset h = mset xs"
    using fold_push [of key "[]" xs] by (simp_all add: h_def heap4_def)
  moreover have "n \<le> size (mset h)" using assms h(2) by simp
  ultimately show ?thesis
    using quad.pops_sorted [of key h n]
    by (auto simp flip: h_def split: prod.splits)
qed

theorem heap_priority_order_witness:
  "let (out, heap) = pop_n (pop_heap_4ary (\<lambda>x. x :: nat)) 2 (fold (push_heap_4ary (\<lambda>x. x)) [5, 3, 9, 1] [])
    in length out = 2 \<and> sorted out \<and> mset [5, 3, 9, 1] = mset out + mset heap"
  using heap_priority_order [of 2 "[5, 3, 9, 1]" "\<lambda>x. x :: nat"] by (simp split: prod.splits)

end
