(* ===== verification/Timer_Keeper.thy ===== *)
theory Timer_Keeper
  imports Quad_Heap
begin

text \<open>
  \<^verbatim>\<open>scheduler/timer_keeper.hpp\<close>: sixteen locked buckets that receive timers, and one thread that
  drains them into the 4-ary heap, dispatches what has expired and sleeps until the next expiry.

  Timer entries are heap objects shared between a bucket's intrusive list, the heap and the
  bucket's \<^verbatim>\<open>active_timers_\<close> index, so they live in an explicit store \<open>tk_entries\<close> and everything
  else holds addresses.  \<open>Run\<close> is a program with a counter (\<open>timer_pc\<close>): one \<open>Run_step\<close> is one
  section of the loop that other threads cannot observe half-done.  Producers interleave:
  \<open>add_internal\<close> first publishes the entry under the bucket lock and only later compares with
  the global nearest run time; the time between the two is the list \<open>tk_announcing\<close>.

  Times are nanoseconds of the steady clock.  \<open>tk_scheduled\<close> logs the calls of
  \<^verbatim>\<open>executor_.schedule\<close>; \<open>tk_fired\<close> and \<open>tk_dropped\<close> log how each entry was destroyed.
\<close>

section \<open>State\<close>

definition kNumBuckets :: nat where "kNumBuckets = 16"
definition kBucketMask :: u64 where "kBucketMask = 15"
definition TIME_MAX :: int where "TIME_MAX = 2 ^ 63 - 1"
definition TIME_MIN :: int where "TIME_MIN = - (2 ^ 63)"

record TimerEntry =
  te_id :: u64
  te_expire_at :: int
  te_task_node :: ptr
  te_owns_task_node :: bool
  te_canceled :: bool

record Bucket =
  b_nearest_run_time :: int
  b_tasks :: "nat list"
  b_active_timers :: "u64 \<rightharpoonup> nat"

datatype timer_pc =
  LoopTop
| DrainBucket nat
| DrainList nat "nat list"
| Expire "nat list"
| Dispatch "nat list" bool
| Prepare
| Waiting int
| Exited

record TimerKeeper =
  tk_entries :: "nat \<rightharpoonup> TimerEntry"
  tk_fresh :: nat
  tk_buckets :: "Bucket list"
  tk_heap :: "nat list"
  tk_global_nearest_run_time :: int
  tk_global_nearest_run_time_us :: int
  tk_next_seq :: u64
  tk_running :: bool
  tk_pc :: timer_pc
  tk_announcing :: "int list"
  tk_scheduled :: "nat list"
  tk_fired :: "(nat \<times> nat) list"
  tk_dropped :: "nat list"
  tk_deleted_tasks :: "nat list"

definition new_Bucket :: Bucket where
  "new_Bucket = \<lparr>b_nearest_run_time = TIME_MAX, b_tasks = [], b_active_timers = Map.empty\<rparr>"

definition new_TimerKeeper :: TimerKeeper where
  "new_TimerKeeper = \<lparr>tk_entries = Map.empty, tk_fresh = 0,
     tk_buckets = replicate kNumBuckets new_Bucket, tk_heap = [],
     tk_global_nearest_run_time = TIME_MAX, tk_global_nearest_run_time_us = TIME_MAX,
     tk_next_seq = 1, tk_running = False, tk_pc = Exited, tk_announcing = [],
     tk_scheduled = [], tk_fired = [], tk_dropped = [], tk_deleted_tasks = []\<rparr>"

section \<open>Buckets\<close>

definition Bucket_schedule :: "nat \<Rightarrow> TimerEntry \<Rightarrow> Bucket \<Rightarrow> bool \<times> Bucket" where
  "Bucket_schedule addr entry b =
     (let b = b\<lparr>b_tasks := addr # b_tasks b,
                b_active_timers := (b_active_timers b)(te_id entry \<mapsto> addr)\<rparr>
      in if te_expire_at entry < b_nearest_run_time b
         then (True, b\<lparr>b_nearest_run_time := te_expire_at entry\<rparr>) else (False, b))"

definition consume_tasks :: "Bucket \<Rightarrow> nat list \<times> Bucket" where
  "consume_tasks b =
     (let head = b_tasks b
      in if head \<noteq> [] then (head, b\<lparr>b_tasks := [], b_nearest_run_time := TIME_MAX\<rparr>) else (head, b))"

definition Bucket_cancel :: "u64 \<Rightarrow> Bucket \<Rightarrow> nat option \<times> Bucket" where
  "Bucket_cancel tid b =
     (case b_active_timers b tid of
        Some a \<Rightarrow> (Some a, b\<lparr>b_active_timers := (b_active_timers b)(tid := None)\<rparr>)
      | None \<Rightarrow> (None, b))"

definition Bucket_unregister :: "u64 \<Rightarrow> Bucket \<Rightarrow> Bucket" where
  "Bucket_unregister tid b = b\<lparr>b_active_timers := (b_active_timers b)(tid := None)\<rparr>"

definition bucket_of :: "u64 \<Rightarrow> nat" where
  "bucket_of tid = unat (tid AND kBucketMask)"

definition update_bucket :: "nat \<Rightarrow> (Bucket \<Rightarrow> Bucket) \<Rightarrow> TimerKeeper \<Rightarrow> TimerKeeper" where
  "update_bucket i f s = s\<lparr>tk_buckets := (tk_buckets s)[i := f (tk_buckets s ! i)]\<rparr>"

text \<open>Reading an entry through a pointer; the code only dereferences live entries.\<close>

definition entry_of :: "(nat \<rightharpoonup> TimerEntry) \<Rightarrow> nat \<Rightarrow> TimerEntry" where
  "entry_of entries a = (case entries a of Some e \<Rightarrow> e
     | None \<Rightarrow> \<lparr>te_id = 0, te_expire_at = 0, te_task_node = None, te_owns_task_node = False,
                te_canceled = False\<rparr>)"

abbreviation entry_at :: "TimerKeeper \<Rightarrow> nat \<Rightarrow> TimerEntry" where
  "entry_at s a \<equiv> entry_of (tk_entries s) a"

definition expire_of :: "(nat \<rightharpoonup> TimerEntry) \<Rightarrow> nat \<Rightarrow> int" where
  "expire_of entries a = te_expire_at (entry_of entries a)"

abbreviation expire_key :: "TimerKeeper \<Rightarrow> nat \<Rightarrow> int" where
  "expire_key s \<equiv> expire_of (tk_entries s)"

section \<open>Producers\<close>

text \<open>
  \<open>rnd\<close> is the value of \<^verbatim>\<open>fast_random()\<close>.  \<open>add_internal\<close> ends where the entry is published; when
  the bucket reported an earlier expiry the producer goes on to \<open>announce\<close> it.
\<close>

definition get_bucket_index :: "u64 \<Rightarrow> nat" where
  "get_bucket_index rnd = unat (rnd AND kBucketMask)"

definition add_internal ::
  "int \<Rightarrow> u64 \<Rightarrow> int \<Rightarrow> ptr \<Rightarrow> bool \<Rightarrow> TimerKeeper \<Rightarrow> u64 \<times> TimerKeeper" where
  "add_internal now rnd delay_us task_node owns_task_node s =
     (let addr = tk_fresh s; seq = tk_next_seq s;
          bucket_idx = get_bucket_index rnd;
          entry = \<lparr>te_id = push_bit 4 seq OR (of_nat bucket_idx AND kBucketMask),
                   te_expire_at = now + delay_us * 1000, te_task_node = task_node,
                   te_owns_task_node = owns_task_node, te_canceled = False\<rparr>;
          (earlier, b) = Bucket_schedule addr entry (tk_buckets s ! bucket_idx);
          s = s\<lparr>tk_fresh := addr + 1, tk_next_seq := seq + 1,
                tk_entries := (tk_entries s)(addr \<mapsto> entry),
                tk_buckets := (tk_buckets s)[bucket_idx := b]\<rparr>
      in (te_id entry,
          if earlier then s\<lparr>tk_announcing := te_expire_at entry # tk_announcing s\<rparr> else s))"

definition announce :: "int \<Rightarrow> TimerKeeper \<Rightarrow> TimerKeeper" where
  "announce expire_at s =
     (let s = s\<lparr>tk_announcing := remove1 expire_at (tk_announcing s)\<rparr>; expire_us = ns_to_us expire_at
      in if expire_us < tk_global_nearest_run_time_us s
         then s\<lparr>tk_global_nearest_run_time_us := expire_us, tk_global_nearest_run_time := expire_at,
                tk_pc := (case tk_pc s of Waiting _ \<Rightarrow> LoopTop | pc \<Rightarrow> pc)\<rparr>
         else s)"

definition AddTimer ::
  "int \<Rightarrow> u64 \<Rightarrow> int \<Rightarrow> ptr \<Rightarrow> TimerKeeper \<Rightarrow> u64 \<times> TimerKeeper" where
  "AddTimer now rnd delay_us task_node s =
     (if task_node = None then (0, s) else add_internal now rnd delay_us task_node False s)"

definition AddTimerCallback ::
  "int \<Rightarrow> u64 \<Rightarrow> int \<Rightarrow> nat \<Rightarrow> TimerKeeper \<Rightarrow> u64 \<times> TimerKeeper" where
  "AddTimerCallback now rnd delay_us callback s =
     add_internal now rnd delay_us (Some callback) True s"

definition CancelTimer :: "u64 \<Rightarrow> TimerKeeper \<Rightarrow> TimerKeeper" where
  "CancelTimer tid s =
     (if tid = 0 then s
      else let i = bucket_of tid; (hit, b) = Bucket_cancel tid (tk_buckets s ! i);
               s = s\<lparr>tk_buckets := (tk_buckets s)[i := b]\<rparr>
           in case hit of
                None \<Rightarrow> s
              | Some a \<Rightarrow> s\<lparr>tk_entries := (tk_entries s)(a \<mapsto> (entry_at s a)\<lparr>te_canceled := True\<rparr>)\<rparr>)"

definition Start :: "TimerKeeper \<Rightarrow> TimerKeeper" where
  "Start s = (if \<not> tk_running s then s\<lparr>tk_running := True, tk_pc := LoopTop\<rparr> else s)"

text \<open>\<open>Stop\<close> up to its \<^verbatim>\<open>join\<close>; the thread then runs to \<open>Exited\<close>.\<close>

definition Stop :: "TimerKeeper \<Rightarrow> TimerKeeper" where
  "Stop s =
     (if tk_running s
      then s\<lparr>tk_running := False, tk_global_nearest_run_time := TIME_MIN,
             tk_global_nearest_run_time_us := TIME_MIN,
             tk_pc := (case tk_pc s of Waiting _ \<Rightarrow> LoopTop | pc \<Rightarrow> pc)\<rparr>
      else s)"

section \<open>The timer thread\<close>

definition delete_entry :: "nat \<Rightarrow> TimerKeeper \<Rightarrow> TimerKeeper" where
  "delete_entry a s = s\<lparr>tk_entries := (tk_entries s)(a := None)\<rparr>"

text \<open>\<^verbatim>\<open>if (owns_task_node && task_node) delete task_node\<close>, as the tasks deleted.\<close>

definition owned_task :: "TimerEntry \<Rightarrow> nat list" where
  "owned_task e = (case (te_owns_task_node e, te_task_node e) of (True, Some t) \<Rightarrow> [t] | _ \<Rightarrow> [])"

definition drain_one :: "nat \<Rightarrow> nat \<Rightarrow> TimerKeeper \<Rightarrow> TimerKeeper" where
  "drain_one i p s =
     (if te_canceled (entry_at s p)
      then let e = entry_at s p; s = update_bucket i (Bucket_unregister (te_id e)) s
           in (delete_entry p s)\<lparr>tk_dropped := p # tk_dropped s,
                tk_deleted_tasks := owned_task e @ tk_deleted_tasks s\<rparr>
      else s\<lparr>tk_heap := push_heap_4ary (expire_key s) p (tk_heap s)\<rparr>)"

definition expire_one :: "int \<Rightarrow> nat list \<Rightarrow> TimerKeeper \<Rightarrow> TimerKeeper" where
  "expire_one now expired s =
     (if tk_heap s = [] then s\<lparr>tk_pc := Dispatch expired False\<rparr>
      else let tp = tk_heap s ! 0; e = entry_at s tp
      in if now < te_expire_at e then s\<lparr>tk_pc := Dispatch expired False\<rparr>
      else if ns_to_us (te_expire_at e) > tk_global_nearest_run_time_us s
      then s\<lparr>tk_pc := Dispatch expired True\<rparr>
      else let s = s\<lparr>tk_heap := snd (pop_heap_4ary (expire_key s) (tk_heap s))\<rparr>;
               s = update_bucket (bucket_of (te_id e)) (Bucket_unregister (te_id e)) s;
               s = (case (te_canceled e, te_task_node e) of
                      (False, Some task) \<Rightarrow>
                        s\<lparr>tk_pc := Expire (task # expired), tk_fired := (tp, task) # tk_fired s\<rparr>
                    | (False, None) \<Rightarrow> s\<lparr>tk_pc := Expire expired, tk_dropped := tp # tk_dropped s\<rparr>
                    | (True, _) \<Rightarrow> s\<lparr>tk_pc := Expire expired, tk_dropped := tp # tk_dropped s,
                                     tk_deleted_tasks := owned_task e @ tk_deleted_tasks s\<rparr>)
           in delete_entry tp s)"

definition cleanup_one :: "nat \<Rightarrow> TimerKeeper \<Rightarrow> TimerKeeper" where
  "cleanup_one a s =
     (let e = entry_at s a;
          s = update_bucket (bucket_of (te_id e)) (Bucket_unregister (te_id e)) s
      in (delete_entry a s)\<lparr>tk_dropped := a # tk_dropped s,
           tk_deleted_tasks := owned_task e @ tk_deleted_tasks s\<rparr>)"

definition Run_cleanup :: "TimerKeeper \<Rightarrow> TimerKeeper" where
  "Run_cleanup s = (fold cleanup_one (tk_heap s) s)\<lparr>tk_heap := [], tk_pc := Exited\<rparr>"

definition prepare_sleep :: "int \<Rightarrow> TimerKeeper \<Rightarrow> TimerKeeper" where
  "prepare_sleep now s =
     (let next_run_time = (if tk_heap s \<noteq> [] then te_expire_at (entry_at s (tk_heap s ! 0)) else TIME_MAX)
      in if \<not> tk_running s then Run_cleanup s
      else let next_run_us = (if next_run_time = TIME_MAX then TIME_MAX else ns_to_us next_run_time)
      in if next_run_us > tk_global_nearest_run_time_us s then s\<lparr>tk_pc := LoopTop\<rparr>
      else let s = s\<lparr>tk_global_nearest_run_time := next_run_time,
                     tk_global_nearest_run_time_us := next_run_us\<rparr>
           in if next_run_time = TIME_MAX then s\<lparr>tk_pc := Waiting TIME_MAX\<rparr>
              else if next_run_time > now then s\<lparr>tk_pc := Waiting next_run_time\<rparr>
              else s\<lparr>tk_pc := LoopTop\<rparr>)"

definition Run_step :: "int \<Rightarrow> TimerKeeper \<Rightarrow> TimerKeeper" where
  "Run_step now s =
     (case tk_pc s of
        LoopTop \<Rightarrow>
          if \<not> tk_running s then Run_cleanup s
          else s\<lparr>tk_global_nearest_run_time := TIME_MAX, tk_global_nearest_run_time_us := TIME_MAX,
                 tk_pc := DrainBucket 0\<rparr>
      | DrainBucket i \<Rightarrow>
          if i < kNumBuckets
          then let (tasks, b) = consume_tasks (tk_buckets s ! i)
               in s\<lparr>tk_buckets := (tk_buckets s)[i := b], tk_pc := DrainList i tasks\<rparr>
          else s\<lparr>tk_pc := Expire []\<rparr>
      | DrainList i [] \<Rightarrow> s\<lparr>tk_pc := DrainBucket (i + 1)\<rparr>
      | DrainList i (p # ps) \<Rightarrow> (drain_one i p s)\<lparr>tk_pc := DrainList i ps\<rparr>
      | Expire expired \<Rightarrow> expire_one now expired s
      | Dispatch [] pull_again \<Rightarrow> s\<lparr>tk_pc := (if pull_again then LoopTop else Prepare)\<rparr>
      | Dispatch (t # ts) pull_again \<Rightarrow>
          s\<lparr>tk_scheduled := tk_scheduled s @ [t], tk_pc := Dispatch ts pull_again\<rparr>
      | Prepare \<Rightarrow> prepare_sleep now s
      | Waiting _ \<Rightarrow> s\<lparr>tk_pc := LoopTop\<rparr>
      | Exited \<Rightarrow> s)"

section \<open>Interleavings\<close>

text \<open>
  Any thread may add, announce or cancel between any two steps of the timer thread.  The clock
  stays within the representable range, as the arithmetic of \<^verbatim>\<open>std::chrono\<close> requires.
\<close>

inductive timer_step :: "TimerKeeper \<Rightarrow> TimerKeeper \<Rightarrow> bool" where
  step_add: "\<lbrakk>now + delay * 1000 < TIME_MAX\<rbrakk>
    \<Longrightarrow> timer_step s (snd (add_internal now rnd delay task owns s))"
| step_announce: "e \<in> set (tk_announcing s) \<Longrightarrow> timer_step s (announce e s)"
| step_cancel: "timer_step s (CancelTimer tid s)"
| step_run: "tk_pc s \<noteq> Exited \<Longrightarrow> timer_step s (Run_step now s)"
| step_start: "tk_pc s = Exited \<Longrightarrow> timer_step s (Start s)"
| step_stop: "timer_step s (Stop s)"

inductive timer_reach :: "TimerKeeper \<Rightarrow> bool" where
  reach_init: "timer_reach new_TimerKeeper"
| reach_step: "timer_reach s \<Longrightarrow> timer_step s s' \<Longrightarrow> timer_reach s'"

inductive_cases timer_step_cases: "timer_step s s'"

section \<open>Ownership of entries\<close>

fun drain_list :: "timer_pc \<Rightarrow> nat list" where
  "drain_list (DrainList i ps) = ps"
| "drain_list _ = []"

definition bucket_tasks :: "Bucket list \<Rightarrow> nat list" where
  "bucket_tasks bs = concat (map b_tasks bs)"

definition owned :: "Bucket list \<Rightarrow> timer_pc \<Rightarrow> nat list \<Rightarrow> nat list" where
  "owned bs pc heap = bucket_tasks bs @ drain_list pc @ heap"

text \<open>
  Every entry ever allocated is in exactly one place: a bucket list, the list being drained, the
  heap, or destroyed; and exactly the first three kinds are live objects.
\<close>

definition own_ok ::
  "(nat \<rightharpoonup> TimerEntry) \<Rightarrow> nat \<Rightarrow> nat list \<Rightarrow> (nat \<times> nat) list \<Rightarrow> nat list \<Rightarrow> bool" where
  "own_ok entries fresh own fired dropped =
     (mset own + mset (map fst fired) + mset dropped = mset [0..<fresh] \<and> dom entries = set own)"

text \<open>A bucket list holds entries of that bucket, its index refers to such live entries.\<close>

definition tasks_ok :: "(nat \<rightharpoonup> TimerEntry) \<Rightarrow> Bucket list \<Rightarrow> bool" where
  "tasks_ok entries bs =
     (\<forall>i < kNumBuckets. \<forall>a \<in> set (b_tasks (bs ! i)). bucket_of (te_id (entry_of entries a)) = i)"

definition active_ok :: "(nat \<rightharpoonup> TimerEntry) \<Rightarrow> Bucket list \<Rightarrow> bool" where
  "active_ok entries bs =
     (\<forall>i < kNumBuckets. \<forall>tid a. b_active_timers (bs ! i) tid = Some a \<longrightarrow>
        a \<in> dom entries \<and> te_id (entry_of entries a) = tid \<and> bucket_of tid = i)"

fun drain_ok :: "(nat \<rightharpoonup> TimerEntry) \<Rightarrow> timer_pc \<Rightarrow> bool" where
  "drain_ok entries (DrainList i ps) =
     (i < kNumBuckets \<and> (\<forall>a \<in> set ps. bucket_of (te_id (entry_of entries a)) = i))"
| "drain_ok entries _ = True"

fun undispatched :: "timer_pc \<Rightarrow> nat list" where
  "undispatched (Expire ts) = ts"
| "undispatched (Dispatch ts _) = ts"
| "undispatched _ = []"

definition store_inv :: "TimerKeeper \<Rightarrow> bool" where
  "store_inv s =
     (length (tk_buckets s) = kNumBuckets \<and>
      own_ok (tk_entries s) (tk_fresh s) (owned (tk_buckets s) (tk_pc s) (tk_heap s))
        (tk_fired s) (tk_dropped s) \<and>
      tasks_ok (tk_entries s) (tk_buckets s) \<and> active_ok (tk_entries s) (tk_buckets s) \<and>
      drain_ok (tk_entries s) (tk_pc s))"

definition timer_inv :: "TimerKeeper \<Rightarrow> bool" where
  "timer_inv s =
     (store_inv s \<and> heap4 (expire_key s) (tk_heap s) \<and>
      mset (tk_scheduled s) + mset (undispatched (tk_pc s)) = mset (map snd (tk_fired s)))"

lemmas timer_inv_defs = timer_inv_def store_inv_def

lemma bucket_of_less [simp]: "bucket_of w < kNumBuckets" "get_bucket_index w < kNumBuckets"
proof -
  have "unat (w AND 15) < 16" for w :: u64
  proof -
    have "w AND 15 = take_bit 4 w" by (simp add: take_bit_eq_mask mask_eq_exp_minus_1)
    then show ?thesis using take_bit_nat_less_exp [of 4 "unat w"]
      by (simp add: unsigned_take_bit_eq)
  qed
  then show "bucket_of w < kNumBuckets" "get_bucket_index w < kNumBuckets"
    by (simp_all add: bucket_of_def get_bucket_index_def kBucketMask_def kNumBuckets_def)
qed

lemma bucket_of_new_id:
  assumes "i < kNumBuckets"
  shows "bucket_of (push_bit 4 seq OR (of_nat i AND kBucketMask)) = i"
proof -
  have m: "kBucketMask = mask 4" by (simp add: kBucketMask_def mask_eq_exp_minus_1)
  have "(push_bit 4 seq OR (of_nat i AND kBucketMask)) AND kBucketMask = (of_nat i AND mask 4 :: u64)"
    unfolding m by (rule bit_word_eqI) (auto simp: bit_simps)
  also have "\<dots> = take_bit 4 (of_nat i)" by (simp add: take_bit_eq_mask)
  finally show ?thesis
    using assms by (simp add: bucket_of_def unsigned_take_bit_eq unat_of_nat kNumBuckets_def
        take_bit_nat_eq_self_iff)
qed

lemma bucket_tasks_update:
  assumes "i < length bs"
  shows "mset (bucket_tasks (bs[i := b])) + mset (b_tasks (bs ! i)) =
    mset (bucket_tasks bs) + mset (b_tasks b)"
  using mset_concat_list_update [of i "map b_tasks bs" "b_tasks b"] assms
  by (simp add: bucket_tasks_def map_update)

lemma bucket_tasks_same:
  "b_tasks b = b_tasks (bs ! i) \<Longrightarrow> bucket_tasks (bs[i := b]) = bucket_tasks bs"
proof -
  assume same: "b_tasks b = b_tasks (bs ! i)"
  have "(map b_tasks bs)[i := b_tasks (bs ! i)] = map b_tasks bs"
    by (cases "i < length bs") (auto simp: list_eq_iff_nth_eq nth_list_update)
  then show ?thesis by (simp add: bucket_tasks_def map_update same)
qed

lemma bucket_tasks_mem:
  "i < length bs \<Longrightarrow> a \<in> set (b_tasks (bs ! i)) \<Longrightarrow> a \<in> set (bucket_tasks bs)"
  by (auto simp: bucket_tasks_def)


lemma heap4_cong:
  "(\<And>x. x \<in> set xs \<Longrightarrow> key' x = key x) \<Longrightarrow> heap4 key' xs = heap4 key xs"
  unfolding heap4_def
  by (metis (no_types, lifting) less_trans nth_mem par4_less)

lemma own_ok_distinct:
  assumes "own_ok entries fresh own fired dropped"
  shows "distinct (own @ map fst fired @ dropped)"
proof -
  have "mset (own @ map fst fired @ dropped) = mset [0..<fresh]"
    using assms by (simp add: own_ok_def add.assoc)
  then show ?thesis by (metis distinct_upt mset_eq_imp_distinct_iff)
qed

lemma own_ok_fresh:
  assumes "own_ok entries fresh own fired dropped"
  shows "fresh \<notin> set own" "fresh \<notin> dom entries"
proof -
  have "set_mset (mset own + mset (map fst fired) + mset dropped) = {0..<fresh}"
    using assms by (simp only: own_ok_def set_mset_mset set_upt)
  then show "fresh \<notin> set own" "fresh \<notin> dom entries"
    using assms by (auto simp: own_ok_def)
qed

text \<open>Moves of an entry between the places.\<close>

lemma own_ok_new:
  assumes "own_ok entries fresh own fired dropped" "mset own' = add_mset fresh (mset own)"
  shows "own_ok (entries(fresh \<mapsto> e)) (fresh + 1) own' fired dropped"
proof -
  have "set own' = insert fresh (set own)"
    using assms(2) by (metis set_mset_add_mset_insert set_mset_mset)
  then show ?thesis
    using assms by (simp add: own_ok_def atLeast0_lessThan_Suc)
qed

lemma own_ok_drop:
  assumes "own_ok entries fresh own fired dropped" "mset own = add_mset a (mset own')"
  shows "own_ok (entries(a := None)) fresh own' fired (a # dropped)"
    and "own_ok (entries(a := None)) fresh own' ((a, t) # fired) dropped"
proof -
  have "distinct own" using own_ok_distinct [OF assms(1)] by simp
  then have "distinct (a # own')" using assms(2) by (metis mset.simps(2) mset_eq_imp_distinct_iff)
  moreover have "set own = insert a (set own')"
    using assms(2) by (metis set_mset_add_mset_insert set_mset_mset)
  ultimately show "own_ok (entries(a := None)) fresh own' fired (a # dropped)"
    "own_ok (entries(a := None)) fresh own' ((a, t) # fired) dropped"
    using assms by (auto simp: own_ok_def)
qed

lemma own_ok_perm:
  "own_ok entries fresh own fired dropped \<Longrightarrow> mset own' = mset own \<Longrightarrow>
   own_ok entries fresh own' fired dropped"
  by (simp add: own_ok_def) (metis set_mset_mset)

lemma entry_of_upd [simp]:
  "entry_of (m(a \<mapsto> e)) a = e"
  "b \<noteq> a \<Longrightarrow> entry_of (m(a := x)) b = entry_of m b"
  by (simp_all add: entry_of_def)

lemma expire_of_upd [simp]:
  "b \<noteq> a \<Longrightarrow> expire_of (m(a := x)) b = expire_of m b"
  by (simp add: expire_of_def)

section \<open>The operations keep the invariant\<close>

text \<open>Steps that only move the counter or the nearest run times.\<close>

lemma timer_inv_frame:
  assumes "timer_inv s"
    and "tk_entries s' = tk_entries s" "tk_fresh s' = tk_fresh s" "tk_buckets s' = tk_buckets s"
      "tk_heap s' = tk_heap s" "tk_fired s' = tk_fired s" "tk_dropped s' = tk_dropped s"
    and "drain_list (tk_pc s') = drain_list (tk_pc s)"
      "drain_ok (tk_entries s) (tk_pc s) \<longrightarrow> drain_ok (tk_entries s) (tk_pc s')"
    and "mset (tk_scheduled s') + mset (undispatched (tk_pc s')) =
      mset (tk_scheduled s) + mset (undispatched (tk_pc s))"
  shows "timer_inv s'"
  using assms by (simp add: timer_inv_defs owned_def)

lemma timer_inv_announce: "timer_inv s \<Longrightarrow> timer_inv (announce e s)"
  by (rule timer_inv_frame [of s]; cases "tk_pc s") (simp_all add: announce_def Let_def)

lemma timer_inv_Stop: "timer_inv s \<Longrightarrow> timer_inv (Stop s)"
  by (rule timer_inv_frame [of s]; cases "tk_pc s") (simp_all add: Stop_def)

lemma timer_inv_Start: "timer_inv s \<Longrightarrow> tk_pc s = Exited \<Longrightarrow> timer_inv (Start s)"
  by (rule timer_inv_frame [of s]) (simp_all add: Start_def)

text \<open>Replacing a bucket.\<close>

lemma tasks_okD:
  "tasks_ok entries bs \<Longrightarrow> a \<in> set (b_tasks (bs ! i)) \<Longrightarrow> i < kNumBuckets \<Longrightarrow>
   bucket_of (te_id (entry_of entries a)) = i"
  by (simp add: tasks_ok_def)

lemma active_okD:
  "active_ok entries bs \<Longrightarrow> b_active_timers (bs ! i) tid = Some a \<Longrightarrow> i < kNumBuckets \<Longrightarrow>
   a \<in> dom entries \<and> te_id (entry_of entries a) = tid \<and> bucket_of tid = i"
  by (simp add: active_ok_def)

lemma tasks_ok_update:
  "tasks_ok entries bs \<Longrightarrow> i < length bs \<Longrightarrow>
   (\<And>a. a \<in> set (b_tasks b) \<Longrightarrow> bucket_of (te_id (entry_of entries a)) = i) \<Longrightarrow>
   tasks_ok entries (bs[i := b])"
  by (auto simp: tasks_ok_def nth_list_update)

lemma active_ok_update:
  "active_ok entries bs \<Longrightarrow> i < length bs \<Longrightarrow>
   (\<And>tid a. b_active_timers b tid = Some a \<Longrightarrow>
      a \<in> dom entries \<and> te_id (entry_of entries a) = tid \<and> bucket_of tid = i) \<Longrightarrow>
   active_ok entries (bs[i := b])"
  by (auto simp: active_ok_def nth_list_update)

lemma ok_entries_cong:
  assumes "\<And>a. a \<in> set (owned bs pc heap) \<Longrightarrow> te_id (entry_of entries' a) = te_id (entry_of entries a)"
    and "length bs = kNumBuckets"
  shows "tasks_ok entries bs \<Longrightarrow> tasks_ok entries' bs"
    and "drain_ok entries pc \<Longrightarrow> drain_ok entries' pc"
proof -
  show "tasks_ok entries bs \<Longrightarrow> tasks_ok entries' bs"
    using assms bucket_tasks_mem [of _ bs] by (auto simp: tasks_ok_def owned_def)
  show "drain_ok entries pc \<Longrightarrow> drain_ok entries' pc"
    using assms(1) by (cases pc) (auto simp: owned_def)
qed

lemma timer_inv_add_internal:
  assumes inv: "timer_inv s"
  shows "timer_inv (snd (add_internal now rnd delay task owns s))"
proof -
  define i where "i = get_bucket_index rnd"
  define e where "e = \<lparr>te_id = push_bit 4 (tk_next_seq s) OR (of_nat i AND kBucketMask),
      te_expire_at = now + delay * 1000, te_task_node = task, te_owns_task_node = owns,
      te_canceled = False\<rparr>"
  obtain earlier b where b: "Bucket_schedule (tk_fresh s) e (tk_buckets s ! i) = (earlier, b)"
    by fastforce
  define ents where "ents = (tk_entries s)(tk_fresh s \<mapsto> e)"
  define s1 where "s1 = s\<lparr>tk_fresh := tk_fresh s + 1, tk_next_seq := tk_next_seq s + 1,
      tk_entries := ents, tk_buckets := (tk_buckets s)[i := b]\<rparr>"
  let ?own = "owned (tk_buckets s) (tk_pc s) (tk_heap s)"
  have own: "own_ok (tk_entries s) (tk_fresh s) ?own (tk_fired s) (tk_dropped s)"
    and len: "length (tk_buckets s) = kNumBuckets" and i: "i < length (tk_buckets s)"
    using inv by (simp_all add: timer_inv_defs i_def)
  have bt: "b_tasks b = tk_fresh s # b_tasks (tk_buckets s ! i)"
    and ba: "b_active_timers b = (b_active_timers (tk_buckets s ! i))(te_id e \<mapsto> tk_fresh s)"
    using b by (auto simp: Bucket_schedule_def Let_def split: if_splits)
  have eid: "bucket_of (te_id e) = i" using i len by (simp add: e_def bucket_of_new_id)
  have same: "entry_of ents a = entry_of (tk_entries s) a" if "a \<in> set ?own" for a
    using own_ok_fresh(1) [OF own] that by (metis ents_def entry_of_upd(2))
  have own1: "own_ok ents (tk_fresh s + 1) (owned ((tk_buckets s)[i := b]) (tk_pc s) (tk_heap s))
      (tk_fired s) (tk_dropped s)"
    unfolding ents_def using own
    by (rule own_ok_new) (use bucket_tasks_update [OF i, of b] in \<open>simp add: owned_def bt\<close>)
  have tasks1: "tasks_ok ents (tk_buckets s)" "drain_ok ents (tk_pc s)"
    using ok_entries_cong [OF _ len, of "tk_pc s" "tk_heap s" ents "tk_entries s"] same inv
    by (auto simp: timer_inv_defs)
  have mem: "a \<in> set ?own" if "a \<in> dom (tk_entries s)" for a
    using own that by (simp add: own_ok_def)
  have act1: "active_ok ents (tk_buckets s)"
    using inv same mem by (auto simp: timer_inv_defs active_ok_def ents_def)
  have "timer_inv s1"
    unfolding timer_inv_defs
  proof (intro conjI)
    show "tasks_ok (tk_entries s1) (tk_buckets s1)"
      unfolding s1_def using tasks1(1) i len eid tasks_okD [OF tasks1(1)]
      by (auto intro!: tasks_ok_update simp: bt) (simp add: ents_def)
    have "a \<in> dom ents \<and> te_id (entry_of ents a) = tid \<and> bucket_of tid = i"
      if "b_active_timers b tid = Some a" for tid a
      using that active_okD [OF act1, of i tid a] i len eid
      by (cases "tid = te_id e") (auto simp: ba ents_def)
    then show "active_ok (tk_entries s1) (tk_buckets s1)"
      using active_ok_update [OF act1 i, of b] by (simp add: s1_def)
    have "expire_of ents a = expire_key s a" if "a \<in> set (tk_heap s)" for a
      using same [of a] that by (simp add: owned_def expire_of_def)
    then show "heap4 (expire_key s1) (tk_heap s1)"
      using inv heap4_cong [of "tk_heap s" "expire_of ents" "expire_key s"]
      by (simp add: timer_inv_defs s1_def)
  qed (use inv len own1 tasks1 in \<open>simp_all add: s1_def timer_inv_defs\<close>)
  moreover have "snd (add_internal now rnd delay task owns s) =
      (if earlier then s1\<lparr>tk_announcing := te_expire_at e # tk_announcing s1\<rparr> else s1)"
    using b by (simp add: add_internal_def Let_def s1_def e_def i_def ents_def)
  ultimately show ?thesis using timer_inv_frame [of s1] by auto
qed

lemma timer_inv_CancelTimer:
  assumes inv: "timer_inv s"
  shows "timer_inv (CancelTimer tid s)"
proof (cases "b_active_timers (tk_buckets s ! bucket_of tid) tid")
  case None
  then show ?thesis using inv by (simp add: CancelTimer_def Bucket_cancel_def Let_def)
next
  case (Some a)
  define i where "i = bucket_of tid"
  define b where "b = (tk_buckets s ! i)\<lparr>b_active_timers := (b_active_timers (tk_buckets s ! i))(tid := None)\<rparr>"
  define ents where "ents = (tk_entries s)(a \<mapsto> (entry_at s a)\<lparr>te_canceled := True\<rparr>)"
  let ?own = "owned (tk_buckets s) (tk_pc s) (tk_heap s)"
  have len: "length (tk_buckets s) = kNumBuckets" and act: "active_ok (tk_entries s) (tk_buckets s)"
    and tsk: "tasks_ok (tk_entries s) (tk_buckets s)"
    and own: "own_ok (tk_entries s) (tk_fresh s) ?own (tk_fired s) (tk_dropped s)"
    using inv by (simp_all add: timer_inv_defs)
  have i: "i < length (tk_buckets s)" by (simp add: i_def len)
  have a: "a \<in> dom (tk_entries s)" using active_okD [OF act Some] by simp
  have ids: "te_id (entry_of ents x) = te_id (entry_at s x)" "expire_of ents x = expire_key s x" for x
    by (cases "x = a"; simp add: ents_def expire_of_def)+
  have dom: "dom ents = dom (tk_entries s)" using a by (auto simp: ents_def)
  have "own_ok ents (tk_fresh s) (owned ((tk_buckets s)[i := b]) (tk_pc s) (tk_heap s))
      (tk_fired s) (tk_dropped s)"
    using own by (simp add: own_ok_def dom owned_def bucket_tasks_same b_def)
  moreover have "tasks_ok ents ((tk_buckets s)[i := b])"
    using tsk i by (auto simp: tasks_ok_def ids nth_list_update b_def)
  moreover have "active_ok ents ((tk_buckets s)[i := b])"
    using act i dom by (auto simp: active_ok_def ids nth_list_update b_def split: if_splits)
  moreover have "drain_ok ents (tk_pc s)"
    using inv by (cases "tk_pc s") (simp_all add: timer_inv_defs ids)
  moreover have "heap4 (expire_of ents) (tk_heap s)"
    using inv heap4_cong [of "tk_heap s" "expire_of ents" "expire_key s"] ids(2)
    by (simp add: timer_inv_def)
  ultimately have "timer_inv (s\<lparr>tk_buckets := (tk_buckets s)[i := b], tk_entries := ents\<rparr>)"
    using inv len by (simp add: timer_inv_defs)
  then show ?thesis
    using Some inv by (simp add: CancelTimer_def Bucket_cancel_def Let_def i_def b_def ents_def)
qed

text \<open>Destroying an entry after it was unregistered.\<close>

definition unregister_bucket :: "TimerEntry \<Rightarrow> Bucket list \<Rightarrow> Bucket list" where
  "unregister_bucket e bs =
     bs[bucket_of (te_id e) := Bucket_unregister (te_id e) (bs ! bucket_of (te_id e))]"

lemma update_bucket_unregister:
  "update_bucket (bucket_of (te_id e)) (Bucket_unregister (te_id e)) s =
     s\<lparr>tk_buckets := unregister_bucket e (tk_buckets s)\<rparr>"
  by (simp add: update_bucket_def unregister_bucket_def)

lemma unregister_bucket_simps [simp]:
  "length (unregister_bucket e bs) = length bs"
  "bucket_tasks (unregister_bucket e bs) = bucket_tasks bs"
  by (simp_all add: unregister_bucket_def bucket_tasks_same Bucket_unregister_def)

lemma nth_unregister_bucket:
  "i < length bs \<Longrightarrow> unregister_bucket e bs ! i =
     (if i = bucket_of (te_id e) then Bucket_unregister (te_id e) (bs ! i) else bs ! i)"
  by (simp add: unregister_bucket_def nth_list_update)

lemma delete_ok:
  assumes "length bs = kNumBuckets" "tasks_ok entries bs" "active_ok entries bs"
    and "a \<notin> set (bucket_tasks bs)"
  shows "tasks_ok (entries(a := None)) (unregister_bucket (entry_of entries a) bs)"
    and "active_ok (entries(a := None)) (unregister_bucket (entry_of entries a) bs)"
proof -
  have "bucket_of (te_id (entry_of (entries(a := None)) x)) = i"
    if "i < kNumBuckets" "x \<in> set (b_tasks (bs ! i))" for i x
  proof -
    have "x \<noteq> a" using that assms(1,4) bucket_tasks_mem [of i bs x] by auto
    then show ?thesis using tasks_okD [OF assms(2)] that by simp
  qed
  then show "tasks_ok (entries(a := None)) (unregister_bucket (entry_of entries a) bs)"
    using assms(1) by (simp add: tasks_ok_def nth_unregister_bucket Bucket_unregister_def)
  have live: "x \<noteq> a" if "i < kNumBuckets"
    "b_active_timers (unregister_bucket (entry_of entries a) bs ! i) tid = Some x" for i tid x
    using that assms(1) active_okD [OF assms(3), of i tid x]
    by (auto simp: nth_unregister_bucket Bucket_unregister_def split: if_splits)
  show "active_ok (entries(a := None)) (unregister_bucket (entry_of entries a) bs)"
    unfolding active_ok_def
  proof (intro allI impI)
    fix i tid x assume h: "i < kNumBuckets"
      "b_active_timers (unregister_bucket (entry_of entries a) bs ! i) tid = Some x"
    have "b_active_timers (bs ! i) tid = Some x"
      using h assms(1) by (auto simp: nth_unregister_bucket Bucket_unregister_def split: if_splits)
    then show "x \<in> dom (entries(a := None)) \<and> te_id (entry_of (entries(a := None)) x) = tid \<and>
        bucket_of tid = i"
      using active_okD [OF assms(3) _ h(1)] live [OF h] by auto
  qed
qed

lemma drain_ok_delete:
  "drain_ok entries pc \<Longrightarrow> a \<notin> set (drain_list pc) \<Longrightarrow> drain_ok (entries(a := None)) pc"
  by (cases pc) (auto, metis entry_of_upd(2))

lemma store_inv_remove:
  assumes inv: "store_inv s" and "mset (owned (tk_buckets s) (tk_pc s) (tk_heap s)) =
      add_mset a (mset (owned (tk_buckets s) pc heap))"
    and "drain_ok (tk_entries s) pc"
  defines "bs \<equiv> unregister_bucket (entry_at s a) (tk_buckets s)"
  shows "store_inv (s\<lparr>tk_entries := (tk_entries s)(a := None), tk_buckets := bs, tk_pc := pc,
      tk_heap := heap, tk_dropped := a # tk_dropped s\<rparr>)"
    and "store_inv (s\<lparr>tk_entries := (tk_entries s)(a := None), tk_buckets := bs, tk_pc := pc,
      tk_heap := heap, tk_fired := (a, t) # tk_fired s\<rparr>)"
    and "b \<in> set (owned (tk_buckets s) pc heap) \<Longrightarrow> b \<noteq> a"
proof -
  let ?own = "owned (tk_buckets s) (tk_pc s) (tk_heap s)"
  have own: "own_ok (tk_entries s) (tk_fresh s) ?own (tk_fired s) (tk_dropped s)"
    and len: "length (tk_buckets s) = kNumBuckets"
    using inv by (simp_all add: store_inv_def)
  have "distinct ?own" using own_ok_distinct [OF own] by simp
  then have "distinct (a # owned (tk_buckets s) pc heap)"
    using assms(2) by (metis mset.simps(2) mset_eq_imp_distinct_iff)
  then have notin: "a \<notin> set (owned (tk_buckets s) pc heap)" by simp
  then show "b \<in> set (owned (tk_buckets s) pc heap) \<Longrightarrow> b \<noteq> a" by auto
  have "owned bs pc heap = owned (tk_buckets s) pc heap" by (simp add: owned_def bs_def)
  moreover note own_ok_drop [OF own assms(2)]
  moreover have "tasks_ok ((tk_entries s)(a := None)) bs" "active_ok ((tk_entries s)(a := None)) bs"
    using delete_ok [OF len] inv notin by (simp_all add: bs_def store_inv_def owned_def)
  moreover have "drain_ok ((tk_entries s)(a := None)) pc"
    using drain_ok_delete [OF assms(3)] notin by (simp add: owned_def)
  ultimately show "store_inv (s\<lparr>tk_entries := (tk_entries s)(a := None), tk_buckets := bs, tk_pc := pc,
      tk_heap := heap, tk_dropped := a # tk_dropped s\<rparr>)"
    "store_inv (s\<lparr>tk_entries := (tk_entries s)(a := None), tk_buckets := bs, tk_pc := pc,
      tk_heap := heap, tk_fired := (a, t) # tk_fired s\<rparr>)"
    using len by (simp_all add: store_inv_def bs_def)
qed

lemma heap4_delete:
  "heap4 (expire_of entries) heap \<Longrightarrow> a \<notin> set heap \<Longrightarrow> heap4 (expire_of (entries(a := None))) heap"
  by (subst heap4_cong [of _ _ "expire_of entries"]) (metis expire_of_upd)+

lemma timer_inv_drain_one:
  assumes inv: "timer_inv s" and pc: "tk_pc s = DrainList i (p # ps)"
  shows "timer_inv ((drain_one i p s)\<lparr>tk_pc := DrainList i ps\<rparr>)"
proof -
  have st: "store_inv s" and hp: "heap4 (expire_key s) (tk_heap s)" using inv by (simp_all add: timer_inv_def)
  have i: "i = bucket_of (te_id (entry_at s p))" and dr: "drain_ok (tk_entries s) (DrainList i ps)"
    using st pc by (simp_all add: store_inv_def)
  show ?thesis
  proof (cases "te_canceled (entry_at s p)")
    case True
    have own: "mset (owned (tk_buckets s) (tk_pc s) (tk_heap s)) =
        add_mset p (mset (owned (tk_buckets s) (DrainList i ps) (tk_heap s)))"
      by (simp add: owned_def pc)
    have "p \<notin> set (tk_heap s)" using store_inv_remove(3) [OF st own dr] by (auto simp: owned_def)
    then show ?thesis
      using store_inv_remove(1) [OF st own dr] inv pc True heap4_delete [OF hp]
        update_bucket_unregister [of "entry_at s p" s, folded i]
      by (simp add: drain_one_def timer_inv_defs delete_entry_def Let_def)
  next
    case False
    note push = push_heap_4ary_correct [OF hp, of p]
    have "own_ok (tk_entries s) (tk_fresh s)
        (owned (tk_buckets s) (DrainList i ps) (push_heap_4ary (expire_key s) p (tk_heap s)))
        (tk_fired s) (tk_dropped s)"
      by (rule own_ok_perm [of _ _ "owned (tk_buckets s) (tk_pc s) (tk_heap s)"])
        (use st push(2) in \<open>simp_all add: store_inv_def owned_def pc\<close>)
    then show ?thesis
      using False inv push(1) dr by (simp add: drain_one_def timer_inv_defs pc)
  qed
qed

lemma pop_owned:
  assumes "store_inv s" "heap4 (expire_key s) (tk_heap s)" "tk_heap s \<noteq> []"
    and "pop_heap_4ary (expire_key s) (tk_heap s) = (tp, heap)" and "drain_list pc = drain_list (tk_pc s)"
  shows "mset (owned (tk_buckets s) (tk_pc s) (tk_heap s)) = add_mset tp (mset (owned (tk_buckets s) pc heap))"
    and "tp = tk_heap s ! 0" and "heap4 (expire_key s) heap"
  using pop_heap_4ary_correct [OF assms(2-4)] assms(5) by (simp_all add: owned_def)

lemma timer_inv_expire_one:
  assumes inv: "timer_inv s" and pc: "tk_pc s = Expire ts"
  shows "timer_inv (expire_one now ts s)"
proof (cases "tk_heap s = [] \<or> now < te_expire_at (entry_at s (tk_heap s ! 0)) \<or>
    ns_to_us (te_expire_at (entry_at s (tk_heap s ! 0))) > tk_global_nearest_run_time_us s")
  case True
  then show ?thesis
    by (intro timer_inv_frame [OF inv]) (auto simp: expire_one_def Let_def pc)
next
  case False
  define tp where "tp = tk_heap s ! 0"
  define e where "e = entry_at s tp"
  obtain heap where pop: "pop_heap_4ary (expire_key s) (tk_heap s) = (tp, heap)"
    using False inv pop_heap_4ary_correct(1) [of "expire_key s" "tk_heap s"]
    by (cases "pop_heap_4ary (expire_key s) (tk_heap s)") (simp add: timer_inv_def tp_def)
  have st: "store_inv s" and hp: "heap4 (expire_key s) (tk_heap s)" and ne: "tk_heap s \<noteq> []"
    using inv False by (simp_all add: timer_inv_def)
  note own = pop_owned [OF st hp ne pop, of "Expire ts'" for ts', unfolded pc, simplified, folded pc]
  have tp: "tp \<notin> set heap"
    using store_inv_remove(3) [OF st own(1)] by (auto simp: owned_def)
  have heap': "heap4 (expire_of ((tk_entries s)(tp := None))) heap"
    using heap4_delete [OF own(3) tp] .
  have eq: "expire_one now ts s =
      (case (te_canceled e, te_task_node e) of
         (False, Some task) \<Rightarrow>
           s\<lparr>tk_entries := (tk_entries s)(tp := None), tk_buckets := unregister_bucket e (tk_buckets s),
             tk_pc := Expire (task # ts), tk_heap := heap, tk_fired := (tp, task) # tk_fired s\<rparr>
       | (c, _) \<Rightarrow>
           s\<lparr>tk_entries := (tk_entries s)(tp := None), tk_buckets := unregister_bucket e (tk_buckets s),
             tk_pc := Expire ts, tk_heap := heap, tk_dropped := tp # tk_dropped s,
             tk_deleted_tasks := (if c then owned_task e @ tk_deleted_tasks s else tk_deleted_tasks s)\<rparr>)"
    using False pop unfolding expire_one_def Let_def
    by (simp add: update_bucket_unregister delete_entry_def flip: tp_def e_def
        split: prod.splits option.splits bool.splits)
  show ?thesis
  proof (cases "\<not> te_canceled e \<and> te_task_node e \<noteq> None")
    case True
    then obtain task where "te_task_node e = Some task" "\<not> te_canceled e" by auto
    then show ?thesis
      using store_inv_remove(2) [OF st own(1), of "task # ts" task] heap' inv pc
      by (simp add: eq timer_inv_def e_def)
  next
    case nofire: False
    then have "expire_one now ts s =
        s\<lparr>tk_entries := (tk_entries s)(tp := None), tk_buckets := unregister_bucket e (tk_buckets s),
          tk_pc := Expire ts, tk_heap := heap, tk_dropped := tp # tk_dropped s,
          tk_deleted_tasks := (if te_canceled e then owned_task e @ tk_deleted_tasks s
            else tk_deleted_tasks s)\<rparr>"
      unfolding eq by (auto split: bool.splits option.splits)
    then show ?thesis
      using store_inv_remove(1) [OF st own(1), of ts] heap' inv pc by (simp add: timer_inv_defs e_def)
  qed
qed

lemma store_inv_cleanup:
  assumes "store_inv (s\<lparr>tk_heap := heap\<rparr>)" "drain_list (tk_pc s) = []"
  shows "store_inv ((fold cleanup_one heap s)\<lparr>tk_heap := []\<rparr>) \<and>
    tk_pc (fold cleanup_one heap s) = tk_pc s \<and>
    tk_fired (fold cleanup_one heap s) = tk_fired s \<and>
    tk_scheduled (fold cleanup_one heap s) = tk_scheduled s"
  using assms
proof (induction heap arbitrary: s)
  case (Cons a heap)
  have pc: "drain_ok entries (tk_pc s)" for entries
    using Cons.prems by (cases "tk_pc s") (auto simp: store_inv_def)
  have "store_inv ((cleanup_one a s)\<lparr>tk_heap := heap\<rparr>)"
    using store_inv_remove(1) [OF Cons.prems(1), of a "tk_pc s" heap] Cons.prems(2) pc
    by (simp add: cleanup_one_def Let_def update_bucket_unregister delete_entry_def owned_def
        store_inv_def)
  moreover have same: "tk_pc (cleanup_one a s) = tk_pc s" "tk_fired (cleanup_one a s) = tk_fired s"
    "tk_scheduled (cleanup_one a s) = tk_scheduled s"
    by (simp_all add: cleanup_one_def Let_def update_bucket_def delete_entry_def)
  ultimately show ?case
    using Cons.IH [of "cleanup_one a s"] Cons.prems(2) by simp
qed simp

lemma timer_inv_Run_cleanup:
  assumes inv: "timer_inv s" and pc: "tk_pc s = LoopTop \<or> tk_pc s = Prepare"
  shows "timer_inv (Run_cleanup s)"
proof -
  have "store_inv (s\<lparr>tk_heap := tk_heap s\<rparr>)" using inv by (simp add: timer_inv_def)
  from store_inv_cleanup [OF this] pc inv show ?thesis
    by (auto simp: Run_cleanup_def timer_inv_def store_inv_def heap4_def owned_def)
qed

lemma timer_inv_consume:
  assumes inv: "timer_inv s" and pc: "tk_pc s = DrainBucket i" and i: "i < kNumBuckets"
    and c: "consume_tasks (tk_buckets s ! i) = (tasks, b)"
  shows "timer_inv (s\<lparr>tk_buckets := (tk_buckets s)[i := b], tk_pc := DrainList i tasks\<rparr>)"
proof -
  have len: "length (tk_buckets s) = kNumBuckets" using inv by (simp add: timer_inv_defs)
  have b: "b_tasks b = []" "tasks = b_tasks (tk_buckets s ! i)"
    "b_active_timers b = b_active_timers (tk_buckets s ! i)"
    using c by (auto simp: consume_tasks_def Let_def split: if_splits)
  have own: "mset (owned ((tk_buckets s)[i := b]) (DrainList i tasks) (tk_heap s)) =
      mset (owned (tk_buckets s) (tk_pc s) (tk_heap s))"
    using bucket_tasks_update [of i "tk_buckets s" b] i len
    by (simp add: owned_def b pc add.commute add.left_commute)
  have tsk: "tasks_ok (tk_entries s) (tk_buckets s)" and act: "active_ok (tk_entries s) (tk_buckets s)"
    using inv by (simp_all add: timer_inv_defs)
  show ?thesis
    using inv len i own own_ok_perm [OF _ own] tasks_okD [OF tsk]
      tasks_ok_update [OF tsk, of i b] active_ok_update [OF act, of i b] active_okD [OF act, of i] pc
    by (simp add: timer_inv_defs b)
qed

lemma timer_inv_prepare:
  assumes inv: "timer_inv s" and pc: "tk_pc s = Prepare"
  shows "timer_inv (prepare_sleep now s)"
proof (cases "tk_running s")
  case False
  then show ?thesis using timer_inv_Run_cleanup [OF inv] pc by (simp add: prepare_sleep_def Let_def)
next
  case True
  then show ?thesis
    by (intro timer_inv_frame [OF inv]) (auto simp: prepare_sleep_def Let_def pc)
qed

lemma timer_inv_Run_step:
  assumes inv: "timer_inv s"
  shows "timer_inv (Run_step now s)"
proof (cases "tk_pc s")
  case LoopTop
  show ?thesis
  proof (cases "tk_running s")
    case True
    then show ?thesis
      using LoopTop by (intro timer_inv_frame [OF inv]) (simp_all add: Run_step_def)
  next
    case False
    then show ?thesis using timer_inv_Run_cleanup [OF inv] LoopTop by (simp add: Run_step_def)
  qed
next
  case (DrainBucket i)
  show ?thesis
  proof (cases "i < kNumBuckets")
    case True
    then show ?thesis
      using timer_inv_consume [OF inv DrainBucket] DrainBucket
      by (simp add: Run_step_def split: prod.split)
  next
    case False
    then show ?thesis
      using DrainBucket by (intro timer_inv_frame [OF inv]) (simp_all add: Run_step_def)
  qed
next
  case (DrainList i ps)
  show ?thesis
  proof (cases ps)
    case Nil
    then show ?thesis
      using DrainList by (intro timer_inv_frame [OF inv]) (simp_all add: Run_step_def)
  next
    case (Cons p qs)
    then show ?thesis
      using timer_inv_drain_one [OF inv, of i p qs] DrainList by (simp add: Run_step_def)
  qed
next
  case (Expire ts)
  then show ?thesis using timer_inv_expire_one [OF inv] by (simp add: Run_step_def)
next
  case (Dispatch ts pull)
  then show ?thesis
    by (cases ts; intro timer_inv_frame [OF inv]) (simp_all add: Run_step_def)
next
  case Prepare
  then show ?thesis using timer_inv_prepare [OF inv] by (simp add: Run_step_def)
next
  case (Waiting d)
  then show ?thesis by (intro timer_inv_frame [OF inv]) (simp_all add: Run_step_def)
next
  case Exited
  then show ?thesis using inv by (simp add: Run_step_def)
qed

lemma timer_inv_step: "timer_step s s' \<Longrightarrow> timer_inv s \<Longrightarrow> timer_inv s'"
  by (induction rule: timer_step.induct)
     (simp_all add: timer_inv_add_internal timer_inv_announce timer_inv_CancelTimer
       timer_inv_Run_step timer_inv_Start timer_inv_Stop)

lemma timer_inv_init: "timer_inv new_TimerKeeper"
  by (simp add: timer_inv_defs new_TimerKeeper_def own_ok_def owned_def bucket_tasks_def
      tasks_ok_def active_ok_def heap4_def new_Bucket_def)

lemma timer_reach_inv: "timer_reach s \<Longrightarrow> timer_inv s"
  by (induction rule: timer_reach.induct) (auto simp: timer_inv_init timer_inv_step)

section \<open>Entries evolve only by cancellation and destruction\<close>

definition evolves :: "(nat \<rightharpoonup> TimerEntry) \<Rightarrow> (nat \<rightharpoonup> TimerEntry) \<Rightarrow> bool" where
  "evolves m m' = (\<forall>a e'. m' a = Some e' \<longrightarrow>
     (\<exists>e. m a = Some e \<and> (e' = e \<or> e' = e\<lparr>te_canceled := True\<rparr>)))"

lemma evolves_refl [simp]: "evolves m m"
  by (simp add: evolves_def)

lemma evolves_trans: "evolves m1 m2 \<Longrightarrow> evolves m2 m3 \<Longrightarrow> evolves m1 m3"
  unfolding evolves_def by fastforce

lemma evolves_delete [simp]: "evolves m (m(a := None))"
  by (auto simp: evolves_def)


lemma evolves_canceled:
  assumes "evolves m m'" "m' a = Some e'" "m a = Some e" "te_canceled e"
  shows "te_canceled e'"
proof -
  obtain x where "m a = Some x" "e' = x \<or> e' = x\<lparr>te_canceled := True\<rparr>"
    using assms(1,2) unfolding evolves_def by blast
  then show ?thesis using assms(3,4) by auto
qed

lemma evolves_CancelTimer:
  assumes "timer_inv s"
  shows "evolves (tk_entries s) (tk_entries (CancelTimer tid s))"
proof (cases "b_active_timers (tk_buckets s ! bucket_of tid) tid")
  case (Some a)
  then have "a \<in> dom (tk_entries s)"
    using assms active_okD [of "tk_entries s" "tk_buckets s" "bucket_of tid" tid a]
    by (simp add: timer_inv_defs)
  then obtain e where "tk_entries s a = Some e" by auto
  then show ?thesis
    using Some by (auto simp: CancelTimer_def Bucket_cancel_def Let_def evolves_def entry_of_def)
qed (simp add: CancelTimer_def Bucket_cancel_def Let_def)

lemma cleanup_fold:
  "evolves (tk_entries s) (tk_entries (fold cleanup_one xs s)) \<and>
   tk_dropped (fold cleanup_one xs s) = rev xs @ tk_dropped s"
proof (induction xs arbitrary: s)
  case (Cons a xs)
  have "evolves (tk_entries s) (tk_entries (cleanup_one a s))"
    "tk_dropped (cleanup_one a s) = a # tk_dropped s"
    by (simp_all add: cleanup_one_def Let_def delete_entry_def update_bucket_def)
  then show ?case using Cons [of "cleanup_one a s"] evolves_trans by auto
qed simp

lemma evolves_expire_one: "evolves (tk_entries s) (tk_entries (expire_one now ts s))"
  unfolding expire_one_def Let_def
  by (simp add: delete_entry_def update_bucket_def split: prod.splits option.splits bool.splits)

lemma evolves_Run_step: "evolves (tk_entries s) (tk_entries (Run_step now s))"
proof -
  have c: "evolves (tk_entries s) (tk_entries (Run_cleanup s))"
    using cleanup_fold [of s "tk_heap s"] by (simp add: Run_cleanup_def)
  have "evolves (tk_entries s) (tk_entries (prepare_sleep now s))"
    using c by (simp add: prepare_sleep_def Let_def)
  moreover have "evolves (tk_entries s) (tk_entries (drain_one i p s))" for i p
    by (simp add: drain_one_def Let_def delete_entry_def update_bucket_def)
  ultimately show ?thesis
    using c evolves_expire_one [of s now]
    by (simp add: Run_step_def split: timer_pc.splits list.splits prod.splits)
qed

section \<open>No missed deadline\<close>






text \<open>Steps that leave lists and nearest times of the buckets alone.\<close>

definition same_lists :: "Bucket list \<Rightarrow> Bucket list \<Rightarrow> bool" where
  "same_lists bs bs' =
     (\<forall>i < kNumBuckets. b_tasks (bs' ! i) = b_tasks (bs ! i) \<and>
        b_nearest_run_time (bs' ! i) = b_nearest_run_time (bs ! i))"

lemma same_lists_refl [simp]: "same_lists bs bs"
  by (simp add: same_lists_def)



















section \<open>What happens to a timer\<close>

text \<open>
  \<open>fate\<close> of an entry after one step: it is still live, or it was dispatched, or it was dropped.
\<close>

lemma own_ok_accounts:
  assumes "own_ok entries fresh own fired dropped" "a < fresh"
  shows "a \<in> dom entries \<or> a \<in> fst ` set fired \<or> a \<in> set dropped"
proof -
  have "set_mset (mset own + mset (map fst fired) + mset dropped) = {0..<fresh}"
    using assms by (simp only: own_ok_def set_mset_mset set_upt)
  then show ?thesis using assms by (auto simp: own_ok_def)
qed

lemma own_ok_exclusive:
  assumes "own_ok entries fresh own fired dropped"
  shows "a \<in> set dropped \<Longrightarrow> a \<notin> fst ` set fired \<and> a \<notin> dom entries"
    "a \<in> fst ` set fired \<Longrightarrow> a \<notin> dom entries" "a \<in> dom entries \<Longrightarrow> a < fresh"
    "a \<in> set dropped \<Longrightarrow> a < fresh"
proof -
  have "set_mset (mset own + mset (map fst fired) + mset dropped) = {0..<fresh}"
    using assms by (simp only: own_ok_def set_mset_mset set_upt)
  then show "a \<in> set dropped \<Longrightarrow> a \<notin> fst ` set fired \<and> a \<notin> dom entries"
    "a \<in> fst ` set fired \<Longrightarrow> a \<notin> dom entries" "a \<in> dom entries \<Longrightarrow> a < fresh"
    "a \<in> set dropped \<Longrightarrow> a < fresh"
    using assms own_ok_distinct [OF assms] by (auto simp: own_ok_def)
qed

lemma timer_inv_own:
  "timer_inv s \<Longrightarrow> own_ok (tk_entries s) (tk_fresh s) (owned (tk_buckets s) (tk_pc s) (tk_heap s))
     (tk_fired s) (tk_dropped s)"
  by (simp add: timer_inv_defs)

text \<open>The logs only grow.\<close>

lemma step_logs:
  assumes "timer_step s s'"
  shows "set (tk_fired s) \<subseteq> set (tk_fired s') \<and> set (tk_dropped s) \<subseteq> set (tk_dropped s') \<and>
    tk_fresh s \<le> tk_fresh s'"
proof -
  have fresh: "tk_fresh (fold cleanup_one xs s) = tk_fresh s \<and>
      tk_fired (fold cleanup_one xs s) = tk_fired s" for xs s
    by (induction xs arbitrary: s)
       (simp_all add: cleanup_one_def Let_def update_bucket_def delete_entry_def)
  have cl: "set (tk_fired s) \<subseteq> set (tk_fired (Run_cleanup s)) \<and>
      set (tk_dropped s) \<subseteq> set (tk_dropped (Run_cleanup s)) \<and> tk_fresh s \<le> tk_fresh (Run_cleanup s)"
    using cleanup_fold [of s "tk_heap s"] fresh by (auto simp: Run_cleanup_def)
  have ex: "set (tk_fired s) \<subseteq> set (tk_fired (expire_one now ts s)) \<and>
      set (tk_dropped s) \<subseteq> set (tk_dropped (expire_one now ts s)) \<and>
      tk_fresh s \<le> tk_fresh (expire_one now ts s)" for now ts
    unfolding expire_one_def Let_def
    by (auto simp: delete_entry_def update_bucket_def split: prod.splits option.splits bool.splits)
  from assms show ?thesis
  proof cases
    case (step_run now)
    then show ?thesis
      using cl ex unfolding Run_step_def prepare_sleep_def Let_def
      by (auto simp: drain_one_def delete_entry_def update_bucket_def Let_def
          split: timer_pc.splits list.splits prod.splits if_splits)
  qed (auto simp: add_internal_def announce_def CancelTimer_def Start_def Stop_def Let_def
      split: prod.splits option.splits)
qed

lemma Run_step_fate:
  assumes "(a, task) \<in> set (tk_fired (Run_step now s))" "(a, task) \<notin> set (tk_fired s)"
  shows "te_expire_at (entry_at s a) \<le> now \<and> \<not> te_canceled (entry_at s a) \<and>
    te_task_node (entry_at s a) = Some task"
proof -
  have cl: "tk_fired (fold cleanup_one xs s) = tk_fired s" for xs s
    by (induction xs arbitrary: s)
       (simp_all add: cleanup_one_def Let_def update_bucket_def delete_entry_def)
  have "\<exists>ts. Run_step now s = expire_one now ts s"
    using assms unfolding Run_step_def prepare_sleep_def Run_cleanup_def Let_def
    by (auto simp: drain_one_def delete_entry_def update_bucket_def Let_def cl
        split: timer_pc.splits list.splits prod.splits if_splits)
  then show ?thesis
    using assms unfolding expire_one_def Let_def
    by (auto simp: delete_entry_def update_bucket_def
        split: prod.splits option.splits bool.splits if_splits)
qed


text \<open>Only steps of the timer thread destroy entries.\<close>

lemma other_steps:
  assumes "timer_step s s'" "\<forall>now. s' \<noteq> Run_step now s"
  shows "tk_fired s' = tk_fired s" "tk_dropped s' = tk_dropped s"
  using assms
  by (cases; auto simp: add_internal_def announce_def CancelTimer_def Start_def Stop_def Let_def
      split: prod.splits option.splits)+

lemma canceled_step:
  assumes inv: "timer_inv s" and step: "timer_step s s'"
    and e: "tk_entries s a = Some e" "te_canceled e"
  shows "(\<exists>e'. tk_entries s' a = Some e' \<and> te_canceled e') \<or> a \<in> set (tk_dropped s')"
proof -
  have inv': "timer_inv s'" using timer_inv_step [OF step inv] .
  have live: "a < tk_fresh s" "a \<notin> fst ` set (tk_fired s)"
    using own_ok_exclusive [OF timer_inv_own [OF inv]] domI [of "tk_entries s" a e] e(1) by blast+
  have "a \<notin> fst ` set (tk_fired s')"
  proof
    assume "a \<in> fst ` set (tk_fired s')"
    then obtain task where "(a, task) \<in> set (tk_fired s')" by force
    moreover from this live(2) have "(a, task) \<notin> set (tk_fired s)" by force
    ultimately show False
      using other_steps(1) [OF step] Run_step_fate [of a task _ s] e
      by (cases "\<exists>now. s' = Run_step now s") (auto simp: entry_of_def)
  qed
  moreover have "a < tk_fresh s'" using step_logs [OF step] live(1) by simp
  ultimately have "a \<in> dom (tk_entries s') \<or> a \<in> set (tk_dropped s')"
    using own_ok_accounts [OF timer_inv_own [OF inv']] by blast
  moreover have "te_canceled e'" if "tk_entries s' a = Some e'" for e'
    using step
  proof cases
    case (step_add now delay rnd task owns)
    then show ?thesis
      using that e live(1) by (auto simp: add_internal_def Let_def split: prod.splits if_splits)
  next
    case (step_cancel tid)
    then show ?thesis using evolves_canceled [OF evolves_CancelTimer [OF inv]] that e by simp
  next
    case (step_run now)
    then show ?thesis using evolves_canceled [OF evolves_Run_step] that e by simp
  qed (use that e in \<open>auto simp: announce_def Start_def Stop_def Let_def split: if_splits\<close>)
  ultimately show ?thesis by auto
qed

inductive timer_steps :: "TimerKeeper \<Rightarrow> TimerKeeper \<Rightarrow> bool" where
  steps_refl: "timer_steps s s"
| steps_more: "timer_steps s s' \<Longrightarrow> timer_step s' s'' \<Longrightarrow> timer_steps s s''"

lemma timer_steps_inv: "timer_steps s s' \<Longrightarrow> timer_inv s \<Longrightarrow> timer_inv s'"
  by (induction rule: timer_steps.induct) (auto simp: timer_inv_step)

lemma canceled_steps:
  assumes "timer_steps s s'" "timer_inv s" "tk_entries s a = Some e" "te_canceled e"
  shows "(\<exists>e'. tk_entries s' a = Some e' \<and> te_canceled e') \<or> a \<in> set (tk_dropped s')"
  using assms
proof (induction rule: timer_steps.induct)
  case (steps_more s s' s'')
  then consider e' where "tk_entries s' a = Some e'" "te_canceled e'" | "a \<in> set (tk_dropped s')"
    by blast
  then show ?case
  proof cases
    case 1
    then show ?thesis
      using canceled_step [OF timer_steps_inv [OF steps_more.hyps(1) steps_more.prems(1)] steps_more.hyps(2)] by blast
  next
    case 2
    then show ?thesis using step_logs [OF steps_more.hyps(2)] by blast
  qed
qed blast

section \<open>Properties\<close>


text \<open>
  A run used as an example: the thread starts with nothing to do and sleeps; then a timer due at
  5 ms is added and not yet announced.
\<close>

definition demo_idle :: TimerKeeper where
  "demo_idle = new_TimerKeeper\<lparr>tk_running := True, tk_pc := Waiting TIME_MAX\<rparr>"

definition demo_added :: TimerKeeper where
  "demo_added = snd (AddTimerCallback 0 3 5000 42 demo_idle)"

lemma reach_drained:
  assumes "timer_reach s" "tk_pc s = DrainBucket i" "i \<le> kNumBuckets"
    and "\<forall>j < kNumBuckets. b_tasks (tk_buckets s ! j) = []"
  shows "timer_reach (s\<lparr>tk_pc := DrainBucket kNumBuckets\<rparr>)"
  using assms
proof (induction "kNumBuckets - i" arbitrary: s i)
  case 0
  moreover from this have "i = kNumBuckets" by simp
  ultimately have "s\<lparr>tk_pc := DrainBucket kNumBuckets\<rparr> = s" by simp
  then show ?case using "0.prems"(1) by simp
next
  case (Suc n)
  then have i: "i < kNumBuckets" by simp
  define s1 where "s1 = s\<lparr>tk_pc := DrainList i []\<rparr>"
  have "consume_tasks (tk_buckets s ! i) = ([], tk_buckets s ! i)"
    using Suc.prems(4) i by (simp add: consume_tasks_def)
  then have "Run_step 0 s = s1" using Suc.prems(2) i by (simp add: Run_step_def s1_def)
  then have "timer_reach s1"
    using Suc.prems(1,2) step_run [of s 0] reach_step [of s s1] by simp
  then have "timer_reach (Run_step 0 s1)"
    using step_run [of s1 0] reach_step by (simp add: s1_def)
  moreover have "Run_step 0 s1 = s\<lparr>tk_pc := DrainBucket (i + 1)\<rparr>" by (simp add: Run_step_def s1_def)
  ultimately show ?case
    using Suc.hyps(1) [of "i + 1" "s\<lparr>tk_pc := DrainBucket (i + 1)\<rparr>"] Suc.hyps(2) Suc.prems i by simp
qed

lemma reach_run: "timer_reach s \<Longrightarrow> tk_pc s \<noteq> Exited \<Longrightarrow> Run_step 0 s = s' \<Longrightarrow> timer_reach s'"
  using reach_step step_run by blast

lemma demo_reach: "timer_reach demo_idle" "timer_reach demo_added"
proof -
  let ?at = "\<lambda>pc. new_TimerKeeper\<lparr>tk_running := True, tk_pc := pc\<rparr>"
  have "timer_reach (?at LoopTop)"
    using reach_step [OF reach_init step_start]
    by (simp add: new_TimerKeeper_def Start_def)
  then have "timer_reach (?at (DrainBucket 0))"
    by (rule reach_run) (simp_all add: Run_step_def new_TimerKeeper_def)
  then have "timer_reach (?at (DrainBucket kNumBuckets))"
    using reach_drained [of "?at (DrainBucket 0)" 0] by (simp add: new_TimerKeeper_def new_Bucket_def)
  then have "timer_reach (?at (Expire []))"
    by (rule reach_run) (simp_all add: Run_step_def)
  then have "timer_reach (?at (Dispatch [] False))"
    by (rule reach_run) (simp_all add: Run_step_def expire_one_def new_TimerKeeper_def)
  then have "timer_reach (?at Prepare)"
    by (rule reach_run) (simp_all add: Run_step_def)
  then show 1: "timer_reach demo_idle"
    by (rule reach_run) (simp_all add: Run_step_def prepare_sleep_def new_TimerKeeper_def demo_idle_def)
  show "timer_reach demo_added"
    unfolding demo_added_def AddTimerCallback_def
    by (rule reach_step [OF 1 step_add]) (simp add: TIME_MAX_def)
qed

definition demo_entry :: TimerEntry where
  "demo_entry = \<lparr>te_id = 19, te_expire_at = 5000000, te_task_node = Some 42,
     te_owns_task_node = True, te_canceled = False\<rparr>"

lemma demo_state:
  "tk_running demo_added" "tk_pc demo_added = Waiting TIME_MAX" "tk_announcing demo_added = [5000000]"
  "tk_entries demo_added = [0 \<mapsto> demo_entry]"
  by (simp_all add: demo_added_def AddTimerCallback_def add_internal_def Let_def Bucket_schedule_def
      demo_idle_def new_TimerKeeper_def new_Bucket_def get_bucket_index_def kBucketMask_def
      kNumBuckets_def TIME_MAX_def demo_entry_def)


text \<open>
  C6: every timer ever added is at any time in exactly one of three conditions: live (and then in
  exactly one of the bucket lists, the list being drained and the heap), dispatched, or dropped;
  and the tasks handed to the executor, with those about to be, are exactly the tasks of the
  dispatched timers, each once.
\<close>

theorem timer_exactly_once:
  assumes "timer_reach s"
  shows "distinct (owned (tk_buckets s) (tk_pc s) (tk_heap s) @ map fst (tk_fired s) @ tk_dropped s) \<and>
    set (owned (tk_buckets s) (tk_pc s) (tk_heap s)) = dom (tk_entries s) \<and>
    dom (tk_entries s) \<union> fst ` set (tk_fired s) \<union> set (tk_dropped s) = {0..<tk_fresh s} \<and>
    mset (tk_scheduled s) + mset (undispatched (tk_pc s)) = mset (map snd (tk_fired s))"
proof -
  have inv: "timer_inv s" using assms by (rule timer_reach_inv)
  note own = timer_inv_own [OF inv]
  have "set_mset (mset (owned (tk_buckets s) (tk_pc s) (tk_heap s)) + mset (map fst (tk_fired s)) +
      mset (tk_dropped s)) = {0..<tk_fresh s}"
    using own by (simp only: own_ok_def set_mset_mset set_upt)
  then show ?thesis
    using own_ok_distinct [OF own] own inv by (simp add: own_ok_def timer_inv_def)
qed

theorem timer_exactly_once_witness:
  "dom (tk_entries demo_added) \<union> fst ` set (tk_fired demo_added) \<union> set (tk_dropped demo_added) = {0..<tk_fresh demo_added}"
  using timer_exactly_once [OF demo_reach(2)] by blast

text \<open>
  C7: cancellation is final: once a live timer has been marked canceled its task is never
  dispatched, whatever the threads do afterwards.
\<close>

theorem timer_canceled_never_fires:
  assumes "timer_reach s" "tk_entries s a = Some e" "te_canceled e" "timer_steps s s'"
  shows "a \<notin> fst ` set (tk_fired s')"
  using canceled_steps [OF assms(4) timer_reach_inv [OF assms(1)] assms(2,3)]
    own_ok_exclusive [OF timer_inv_own [OF timer_steps_inv [OF assms(4) timer_reach_inv [OF assms(1)]]]]
  by blast

theorem timer_canceled_never_fires_witness:
  "0 \<notin> fst ` set (tk_fired (Run_step 9 (CancelTimer 19 demo_added)))"
proof -
  let ?s = "CancelTimer 19 demo_added"
  have reach: "timer_reach ?s" using reach_step [OF demo_reach(2) step_cancel] .
  have idx: "b_active_timers (tk_buckets demo_added ! 3) 19 = Some 0"
    by (simp add: demo_added_def AddTimerCallback_def add_internal_def Let_def Bucket_schedule_def
      demo_idle_def new_TimerKeeper_def new_Bucket_def get_bucket_index_def kBucketMask_def
      kNumBuckets_def TIME_MAX_def)
  have "bucket_of 19 = 3" by (simp add: bucket_of_def kBucketMask_def)
  then have "tk_entries ?s 0 = Some (demo_entry\<lparr>te_canceled := True\<rparr>)" "tk_pc ?s = tk_pc demo_added"
    using idx by (simp_all add: CancelTimer_def Bucket_cancel_def demo_state entry_of_def)
  moreover from this have "timer_steps ?s (Run_step 9 ?s)"
    using demo_state(2) by (intro steps_more [OF steps_refl step_run]) simp
  ultimately show ?thesis using timer_canceled_never_fires [OF reach] by simp
qed


text \<open>
  The second example: a timer of bucket 0 is added before the thread looks at the buckets; the
  thread drains it into the heap and comes to inspect the heap.
\<close>

definition demo_start :: TimerKeeper where
  "demo_start = snd (AddTimerCallback 0 0 5000 42 (Start new_TimerKeeper))"


lemmas demo_start_unfold = demo_start_def AddTimerCallback_def add_internal_def Let_def Bucket_schedule_def
  Start_def new_TimerKeeper_def new_Bucket_def get_bucket_index_def kBucketMask_def TIME_MAX_def


lemma demo_start_reach: "timer_reach demo_start"
proof -
  have "timer_reach (Start new_TimerKeeper)"
    by (rule reach_step [OF reach_init step_start]) (simp add: new_TimerKeeper_def)
  then show ?thesis
    unfolding demo_start_def AddTimerCallback_def
    by (rule reach_step [OF _ step_add]) (simp add: TIME_MAX_def)
qed



text \<open>
  \<^verbatim>\<open>CancelTimer\<close> never touches a destroyed entry: in every reachable state each identifier in a
  bucket's index denotes a live entry with that identifier, and only in the bucket its low four
  bits name.
\<close>

theorem timer_index_no_dangling:
  assumes "timer_reach s" "i < kNumBuckets" "b_active_timers (tk_buckets s ! i) tid = Some a"
  shows "\<exists>e. tk_entries s a = Some e \<and> te_id e = tid \<and> bucket_of tid = i"
proof -
  have "active_ok (tk_entries s) (tk_buckets s)"
    using timer_reach_inv [OF assms(1)] by (simp add: timer_inv_defs)
  from active_okD [OF this assms(3,2)] show ?thesis by (auto simp: entry_of_def)
qed

theorem timer_index_no_dangling_witness:
  "\<exists>e. tk_entries demo_start 0 = Some e \<and> te_id e = 16 \<and> bucket_of 16 = 0"
proof -
  have "b_active_timers (tk_buckets demo_start ! 0) 16 = Some 0"
    by (simp add: demo_start_unfold kNumBuckets_def)
  moreover have "timer_reach demo_start" using demo_start_reach .
  moreover have "(0::nat) < kNumBuckets" by (simp add: kNumBuckets_def)
  ultimately show ?thesis using timer_index_no_dangling by blast
qed

end
