(* ===== verification/Slot_Table.thy ===== *)
theory Slot_Table
  imports Controller Metrics Timer_Keeper
begin

text \<open>
  \<^verbatim>\<open>rpc/slot_table.hpp\<close>: the table of outstanding client calls.  A slot is allocated (ARMING) with
  a versioned correlation id, published (IN_FLIGHT) and resolved exactly once by a response, a
  timeout, a cancellation or a failure; the winner recycles the slot and dispatches the
  continuation.

  The record \<open>SlotTable\<close> has the fields of the class and the objects its methods act on: the
  controllers, response messages and raw bodies behind the pointers of a slot, the timer keeper,
  the client metrics and the executor (a log of scheduled tasks).  \<^verbatim>\<open>std::terminate\<close> is a flag.
  \<open>st_finalized\<close> records for which call, and with which code, the finalizer ran.  The iteration
  order of the \<^verbatim>\<open>unordered_set\<close> of active calls is that of a list.
  Protobuf parsing of a response is the argument \<open>parse_msg\<close>; clock readings are arguments.
\<close>

section \<open>Slot life cycle\<close>

datatype SlotState =
  FREE | ARMING | CANCEL_PENDING | TIMEOUT_PENDING | IN_FLIGHT | COMPLETED | TIMED_OUT | CANCELED | FAILED

fun SlotState_value :: "SlotState \<Rightarrow> u32" where
  "SlotState_value FREE = 0"
| "SlotState_value ARMING = 1"
| "SlotState_value CANCEL_PENDING = 2"
| "SlotState_value TIMEOUT_PENDING = 3"
| "SlotState_value IN_FLIGHT = 4"
| "SlotState_value COMPLETED = 5"
| "SlotState_value TIMED_OUT = 6"
| "SlotState_value CANCELED = 7"
| "SlotState_value FAILED = 8"

definition all_SlotStates :: "SlotState list" where
  "all_SlotStates = [FREE, ARMING, CANCEL_PENDING, TIMEOUT_PENDING, IN_FLIGHT, COMPLETED, TIMED_OUT,
     CANCELED, FAILED]"

definition PackSlotLifecycle :: "u32 \<Rightarrow> SlotState \<Rightarrow> u64" where
  "PackSlotLifecycle version state = push_bit 32 (ucast version) OR ucast (SlotState_value state)"

definition SlotLifecycleVersion :: "u64 \<Rightarrow> u32" where
  "SlotLifecycleVersion lifecycle = ucast (drop_bit 32 lifecycle)"

text \<open>The enumerator with the value of the low half, if it is one.\<close>

definition SlotLifecycleState :: "u64 \<Rightarrow> SlotState option" where
  "SlotLifecycleState lifecycle =
     find (\<lambda>st. SlotState_value st = ucast lifecycle) all_SlotStates"

definition MakeCorrelationId :: "u32 \<Rightarrow> u32 \<Rightarrow> u64" where
  "MakeCorrelationId version slot_id = push_bit 32 (ucast version) OR ucast slot_id"

definition GetSlotId :: "u64 \<Rightarrow> u32" where
  "GetSlotId correlation_id = ucast (correlation_id AND 0xFFFFFFFF)"

definition GetVersion :: "u64 \<Rightarrow> u32" where
  "GetVersion correlation_id = ucast (drop_bit 32 correlation_id)"

definition INVALID_SLOT :: u32 where "INVALID_SLOT = 0xFFFFFFFF"

datatype PublishOutcome = kInFlight | kCanceled | kTimedOut | kFailed | kInvalid

datatype ResponseCompletionOutcome = kCompleted | kUnknownCorrelationId | kLateResponse

datatype SlotResolutionKind = ResCanceled | ResTimedOut | ResFailed

record SlotResolution =
  res_kind :: SlotResolutionKind
  res_error_code :: int
  res_error_message :: string

definition Resolution_Canceled :: "string \<Rightarrow> SlotResolution" where
  "Resolution_Canceled message = \<lparr>res_kind = ResCanceled, res_error_code = RPC_ECANCELED, res_error_message = message\<rparr>"

definition Resolution_TimedOut :: "string \<Rightarrow> SlotResolution" where
  "Resolution_TimedOut message = \<lparr>res_kind = ResTimedOut, res_error_code = RPC_ETIMEOUT, res_error_message = message\<rparr>"

definition Resolution_Failed :: "int \<Rightarrow> string \<Rightarrow> SlotResolution" where
  "Resolution_Failed error_code message = \<lparr>res_kind = ResFailed, res_error_code = error_code, res_error_message = message\<rparr>"

section \<open>State\<close>

record CallSlot =
  sl_lifecycle :: u64
  sl_task :: ptr
  sl_response_msg :: ptr
  sl_controller :: ptr
  sl_raw_resp_body :: ptr
  sl_executor :: ptr
  sl_next_free :: u32
  sl_deadline_timer_id :: u64

text \<open>What the finalizer hands to an executor.\<close>

datatype dispatch =
  ScheduleTask nat
| ScheduleNotifyThenContinue closure ptr

record 'm SlotTable =
  st_slots :: "CallSlot list"
  st_free_head :: u32
  st_active_slots :: nat
  st_deadline_timer_keeper :: "TimerKeeper option"
  st_client_metrics :: "ClientMetrics option"
  st_completed_responses :: u64
  st_unknown_correlation_id :: u64
  st_late_response :: u64
  st_active_calls :: "u64 list"
  st_connection_failed :: bool
  st_connection_failure_code :: int
  st_connection_failure_message :: string
  st_controllers :: "nat \<Rightarrow> RpcController"
  st_messages :: "nat \<Rightarrow> 'm"
  st_raw_bodies :: "nat \<Rightarrow> bytes"
  st_dispatched :: "(nat \<times> dispatch) list"
  st_finalized :: "(u64 \<times> int) list"
  st_terminated :: bool

definition empty_slot :: CallSlot where
  "empty_slot = \<lparr>sl_lifecycle = PackSlotLifecycle 0 FREE, sl_task = None, sl_response_msg = None,
     sl_controller = None, sl_raw_resp_body = None, sl_executor = None, sl_next_free = 0, sl_deadline_timer_id = 0\<rparr>"

definition new_SlotTable ::
  "nat \<Rightarrow> (nat \<Rightarrow> RpcController) \<Rightarrow> (nat \<Rightarrow> 'm) \<Rightarrow> (nat \<Rightarrow> bytes) \<Rightarrow> 'm SlotTable" where
  "new_SlotTable capacity controllers messages raw_bodies =
     \<lparr>st_slots = map (\<lambda>i. empty_slot\<lparr>sl_next_free := of_nat (i + 1)\<rparr>) [0..<capacity - 1] @
                 [empty_slot\<lparr>sl_next_free := INVALID_SLOT\<rparr>],
      st_free_head = 0, st_active_slots = 0, st_deadline_timer_keeper = None,
      st_client_metrics = None, st_completed_responses = 0, st_unknown_correlation_id = 0,
      st_late_response = 0, st_active_calls = [], st_connection_failed = False,
      st_connection_failure_code = RPC_ECONN_FAILED, st_connection_failure_message = [],
      st_controllers = controllers, st_messages = messages, st_raw_bodies = raw_bodies,
      st_dispatched = [], st_finalized = [], st_terminated = False\<rparr>"

definition SetDeadlineTimerKeeper :: "TimerKeeper \<Rightarrow> 'm SlotTable \<Rightarrow> 'm SlotTable" where
  "SetDeadlineTimerKeeper keeper s = s\<lparr>st_deadline_timer_keeper := Some keeper\<rparr>"

definition SetClientMetrics :: "ClientMetrics \<Rightarrow> 'm SlotTable \<Rightarrow> 'm SlotTable" where
  "SetClientMetrics m s = s\<lparr>st_client_metrics := Some m\<rparr>"

abbreviation Capacity :: "'m SlotTable \<Rightarrow> nat" where
  "Capacity s \<equiv> length (st_slots s)"

definition upd_slot :: "nat \<Rightarrow> (CallSlot \<Rightarrow> CallSlot) \<Rightarrow> 'm SlotTable \<Rightarrow> 'm SlotTable" where
  "upd_slot i f s = s\<lparr>st_slots := (st_slots s)[i := f (st_slots s ! i)]\<rparr>"

definition upd_controller :: "nat \<Rightarrow> (RpcController \<Rightarrow> RpcController) \<Rightarrow> 'm SlotTable \<Rightarrow> 'm SlotTable" where
  "upd_controller c f s = s\<lparr>st_controllers := (st_controllers s)(c := f (st_controllers s c))\<rparr>"

definition upd_metrics :: "(ClientMetrics \<Rightarrow> ClientMetrics) \<Rightarrow> 'm SlotTable \<Rightarrow> 'm SlotTable" where
  "upd_metrics f s = s\<lparr>st_client_metrics := map_option f (st_client_metrics s)\<rparr>"

text \<open>\<^verbatim>\<open>compare_exchange_strong\<close> on the lifecycle word: success, the value observed, the new state.\<close>

definition cas_lifecycle :: "nat \<Rightarrow> u64 \<Rightarrow> u64 \<Rightarrow> 'm SlotTable \<Rightarrow> bool \<times> u64 \<times> 'm SlotTable" where
  "cas_lifecycle i expected desired s =
     (let observed = sl_lifecycle (st_slots s ! i)
      in if observed = expected then (True, observed, upd_slot i (\<lambda>sl. sl\<lparr>sl_lifecycle := desired\<rparr>) s)
         else (False, observed, s))"

section \<open>Private helpers\<close>

definition SlotAt :: "u64 \<Rightarrow> 'm SlotTable \<Rightarrow> nat option" where
  "SlotAt correlation_id s =
     (let slot_id = unat (GetSlotId correlation_id) in if slot_id \<ge> Capacity s then None else Some slot_id)"

fun TerminalState :: "SlotResolutionKind \<Rightarrow> SlotState" where
  "TerminalState ResCanceled = CANCELED"
| "TerminalState ResTimedOut = TIMED_OUT"
| "TerminalState ResFailed = FAILED"

fun PendingState :: "SlotResolutionKind \<Rightarrow> SlotState option" where
  "PendingState ResCanceled = Some CANCEL_PENDING"
| "PendingState ResTimedOut = Some TIMEOUT_PENDING"
| "PendingState ResFailed = None"

definition PendingResolution :: "SlotState option \<Rightarrow> SlotResolution option" where
  "PendingResolution state =
     (if state = Some CANCEL_PENDING then Some (Resolution_Canceled ''RPC call canceled'')
      else if state = Some TIMEOUT_PENDING then Some (Resolution_TimedOut ''RPC call timed out'')
      else None)"

definition TryAcquireLiveSlot :: "nat \<Rightarrow> 'm SlotTable \<Rightarrow> bool \<times> 'm SlotTable" where
  "TryAcquireLiveSlot limit s =
     (if st_active_slots s < limit then (True, s\<lparr>st_active_slots := add64 (st_active_slots s) 1\<rparr>)
      else (False, s))"

definition ReleaseLiveSlot :: "'m SlotTable \<Rightarrow> 'm SlotTable" where
  "ReleaseLiveSlot s =
     (let s = s\<lparr>st_active_slots := sub64 (st_active_slots s) 1\<rparr>
      in upd_metrics (\<lambda>m. m\<lparr>cm_active_in_flight := Gauge_Add (cm_active_in_flight m) (- 1)\<rparr>) s)"

definition PopFreeSlot :: "'m SlotTable \<Rightarrow> u32 \<times> 'm SlotTable" where
  "PopFreeSlot s =
     (if st_free_head s = INVALID_SLOT then (INVALID_SLOT, s)
      else let index = st_free_head s
           in (index, s\<lparr>st_free_head := sl_next_free (st_slots s ! unat index)\<rparr>))"

definition PushFreeSlot :: "u64 \<Rightarrow> 'm SlotTable \<Rightarrow> 'm SlotTable" where
  "PushFreeSlot correlation_id s =
     (let slot_id = GetSlotId correlation_id; i = unat slot_id;
          s = upd_slot i (\<lambda>sl. sl\<lparr>sl_task := None, sl_response_msg := None, sl_controller := None,
                sl_raw_resp_body := None, sl_executor := None, sl_deadline_timer_id := 0,
                sl_lifecycle := PackSlotLifecycle (GetVersion correlation_id) FREE\<rparr>) s;
          s = ReleaseLiveSlot s;
          s = upd_slot i (\<lambda>sl. sl\<lparr>sl_next_free := st_free_head s\<rparr>) s
      in s\<lparr>st_free_head := slot_id\<rparr>)"

definition CancelDeadlineTimer :: "nat \<Rightarrow> 'm SlotTable \<Rightarrow> 'm SlotTable" where
  "CancelDeadlineTimer i s =
     (let timer_id = sl_deadline_timer_id (st_slots s ! i);
          s = upd_slot i (\<lambda>sl. sl\<lparr>sl_deadline_timer_id := 0\<rparr>) s
      in if timer_id \<noteq> 0
         then s\<lparr>st_deadline_timer_keeper := map_option (CancelTimer timer_id) (st_deadline_timer_keeper s)\<rparr>
         else s)"

definition RegisterPublishedSlot :: "u64 \<Rightarrow> 'm SlotTable \<Rightarrow> (bool \<times> int \<times> string) \<times> 'm SlotTable" where
  "RegisterPublishedSlot correlation_id s =
     (if \<not> st_connection_failed s
      then ((True, RPC_ECONN_FAILED, []), s\<lparr>st_active_calls := List.insert correlation_id (st_active_calls s)\<rparr>)
      else ((False, st_connection_failure_code s, st_connection_failure_message s), s))"

definition TakeConnectionFailure :: "u64 \<Rightarrow> 'm SlotTable \<Rightarrow> (bool \<times> int \<times> string) \<times> 'm SlotTable" where
  "TakeConnectionFailure correlation_id s =
     (if \<not> st_connection_failed s then ((False, RPC_ECONN_FAILED, []), s)
      else ((True, st_connection_failure_code s, st_connection_failure_message s),
            s\<lparr>st_active_calls := removeAll correlation_id (st_active_calls s)\<rparr>))"

definition UnregisterPublishedSlot :: "u64 \<Rightarrow> 'm SlotTable \<Rightarrow> 'm SlotTable" where
  "UnregisterPublishedSlot correlation_id s =
     s\<lparr>st_active_calls := removeAll correlation_id (st_active_calls s)\<rparr>"

definition FinalizeSlotAndDispatch :: "nat \<Rightarrow> u64 \<Rightarrow> int \<Rightarrow> 'm SlotTable \<Rightarrow> 'm SlotTable" where
  "FinalizeSlotAndDispatch i correlation_id error_code s =
     (let slot = st_slots s ! i; tk = sl_task slot; ex = sl_executor slot;
          (notify, s) =
            (case sl_controller slot of
               None \<Rightarrow> (None, s)
             | Some c \<Rightarrow> (fst (TakeNotifyOnCompletion (st_controllers s c)),
                          upd_controller c (\<lambda>k. snd (TakeNotifyOnCompletion k)) s));
          latency_us = (case sl_controller slot of
               None \<Rightarrow> 0 | Some c \<Rightarrow> word_of_int (c_latency_us (st_controllers s c)));
          s = upd_metrics (RecordCompletion error_code latency_us) s;
          s = UnregisterPublishedSlot correlation_id s;
          s = CancelDeadlineTimer i s;
          s = PushFreeSlot correlation_id s;
          s = s\<lparr>st_finalized := st_finalized s @ [(correlation_id, error_code)]\<rparr>
      in if tk = None \<and> notify = None then s
         else case ex of
                None \<Rightarrow> s\<lparr>st_terminated := True\<rparr>
              | Some e \<Rightarrow>
                  s\<lparr>st_dispatched := st_dispatched s @
                     [(e, case notify of Some n \<Rightarrow> ScheduleNotifyThenContinue n tk
                                       | None \<Rightarrow> ScheduleTask (the tk))]\<rparr>)"

definition ApplyFailureAndFinalize :: "int \<Rightarrow> nat \<Rightarrow> u64 \<Rightarrow> SlotResolution \<Rightarrow> 'm SlotTable \<Rightarrow> 'm SlotTable" where
  "ApplyFailureAndFinalize now i correlation_id resolution s =
     (let s = (case sl_controller (st_slots s ! i) of
                 None \<Rightarrow> s
               | Some c \<Rightarrow>
                   upd_controller c (\<lambda>k.
                     let k = ClearActiveSlot correlation_id k;
                         k = SetFailed (res_error_code resolution) (res_error_message resolution) k
                     in set_latency_us (CalculateElapsedUs now k) k) s)
      in FinalizeSlotAndDispatch i correlation_id (res_error_code resolution) s)"

definition TransitionAndFinalize ::
  "int \<Rightarrow> nat \<Rightarrow> u64 \<Rightarrow> SlotState \<Rightarrow> SlotResolution \<Rightarrow> 'm SlotTable \<Rightarrow> bool \<times> 'm SlotTable" where
  "TransitionAndFinalize now i correlation_id expected_state resolution s =
     (case cas_lifecycle i (PackSlotLifecycle (GetVersion correlation_id) expected_state)
             (PackSlotLifecycle (GetVersion correlation_id) (TerminalState (res_kind resolution))) s of
        (False, _, s) \<Rightarrow> (False, s)
      | (True, _, s) \<Rightarrow> (True, ApplyFailureAndFinalize now i correlation_id resolution s))"

definition ResolveTerminal ::
  "int \<Rightarrow> u64 \<Rightarrow> SlotResolution \<Rightarrow> bool \<Rightarrow> 'm SlotTable \<Rightarrow> bool \<times> 'm SlotTable" where
  "ResolveTerminal now correlation_id resolution defer_while_arming s =
     (case SlotAt correlation_id s of
        None \<Rightarrow> (False, s)
      | Some i \<Rightarrow>
          let (deferred, s) =
            (if defer_while_arming
             then case PendingState (res_kind resolution) of
                    None \<Rightarrow> (False, s)
                  | Some p \<Rightarrow>
                      (case cas_lifecycle i (PackSlotLifecycle (GetVersion correlation_id) ARMING)
                              (PackSlotLifecycle (GetVersion correlation_id) p) s of
                         (ok, _, s) \<Rightarrow> (ok, s))
             else (False, s))
          in if deferred then (True, s)
             else TransitionAndFinalize now i correlation_id IN_FLIGHT resolution s)"

section \<open>Public operations\<close>

definition AllocateSlot ::
  "ptr \<Rightarrow> ptr \<Rightarrow> ptr \<Rightarrow> ptr \<Rightarrow> ptr \<Rightarrow> nat \<Rightarrow> 'm SlotTable \<Rightarrow> u64 \<times> 'm SlotTable" where
  "AllocateSlot tk resp ctl target_executor raw max_in_flight s =
     (if target_executor = None \<or> max_in_flight = 0 \<or> max_in_flight > Capacity s then (0, s)
      else case TryAcquireLiveSlot max_in_flight s of
        (False, s) \<Rightarrow> (0, s)
      | (True, s) \<Rightarrow>
          (case PopFreeSlot s of (slot_id, s) \<Rightarrow>
             if slot_id = INVALID_SLOT then (0, s\<lparr>st_active_slots := sub64 (st_active_slots s) 1\<rparr>)
             else let i = unat slot_id;
                      version = SlotLifecycleVersion (sl_lifecycle (st_slots s ! i)) + 1;
                      s = upd_slot i (\<lambda>sl. sl\<lparr>sl_task := tk, sl_response_msg := resp, sl_controller := ctl,
                            sl_raw_resp_body := raw, sl_executor := target_executor, sl_deadline_timer_id := 0,
                            sl_lifecycle := PackSlotLifecycle version ARMING\<rparr>) s;
                      s = upd_metrics (\<lambda>m. m\<lparr>cm_active_in_flight := Gauge_Add (cm_active_in_flight m) 1\<rparr>) s
                  in (MakeCorrelationId version slot_id, s)))"

definition finish_pending :: "int \<Rightarrow> nat \<Rightarrow> u64 \<Rightarrow> u64 \<Rightarrow> 'm SlotTable \<Rightarrow> PublishOutcome \<times> 'm SlotTable" where
  "finish_pending now i correlation_id observed s =
     (if SlotLifecycleVersion observed = GetVersion correlation_id
      then case PendingResolution (SlotLifecycleState observed) of
             None \<Rightarrow> (kInvalid, s)
           | Some pending \<Rightarrow>
               (case TransitionAndFinalize now i correlation_id (the (SlotLifecycleState observed)) pending s of
                  (True, s) \<Rightarrow> (if res_kind pending = ResCanceled then kCanceled else kTimedOut, s)
                | (False, s) \<Rightarrow> (kInvalid, s))
      else (kInvalid, s))"

definition PublishSlot :: "int \<Rightarrow> u64 \<Rightarrow> 'm SlotTable \<Rightarrow> PublishOutcome \<times> 'm SlotTable" where
  "PublishSlot now correlation_id s =
     (case SlotAt correlation_id s of
        None \<Rightarrow> (kInvalid, s)
      | Some i \<Rightarrow>
          let v = GetVersion correlation_id;
              ((registered, failure_code, failure_message), s) = RegisterPublishedSlot correlation_id s
          in if \<not> registered
             then case cas_lifecycle i (PackSlotLifecycle v ARMING) (PackSlotLifecycle v FAILED) s of
                    (True, _, s) \<Rightarrow>
                      (kFailed, ApplyFailureAndFinalize now i correlation_id
                         (Resolution_Failed failure_code failure_message) s)
                  | (False, observed, s) \<Rightarrow> finish_pending now i correlation_id observed s
             else case cas_lifecycle i (PackSlotLifecycle v ARMING) (PackSlotLifecycle v IN_FLIGHT) s of
                    (True, _, s) \<Rightarrow>
                      (case TakeConnectionFailure correlation_id s of
                         ((True, failure_code, failure_message), s) \<Rightarrow>
                           (case cas_lifecycle i (PackSlotLifecycle v IN_FLIGHT) (PackSlotLifecycle v FAILED) s of
                              (True, _, s) \<Rightarrow>
                                (kFailed, ApplyFailureAndFinalize now i correlation_id
                                   (Resolution_Failed failure_code failure_message) s)
                            | (False, _, s) \<Rightarrow> (kInvalid, s))
                       | ((False, _, _), s) \<Rightarrow> (kInFlight, s))
                  | (False, observed, s) \<Rightarrow>
                      finish_pending now i correlation_id observed (UnregisterPublishedSlot correlation_id s))"

definition DiscardArmingSlot :: "u64 \<Rightarrow> 'm SlotTable \<Rightarrow> bool \<times> 'm SlotTable" where
  "DiscardArmingSlot correlation_id s =
     (case SlotAt correlation_id s of
        None \<Rightarrow> (False, s)
      | Some i \<Rightarrow>
          (case cas_lifecycle i (PackSlotLifecycle (GetVersion correlation_id) ARMING)
                  (PackSlotLifecycle (GetVersion correlation_id) TIMED_OUT) s of
             (False, _, s) \<Rightarrow> (False, s)
           | (True, _, s) \<Rightarrow>
               let s = CancelDeadlineTimer i s;
                   s = (case sl_controller (st_slots s ! i) of
                          None \<Rightarrow> s
                        | Some c \<Rightarrow> upd_controller c (ClearActiveSlot correlation_id) s)
               in (True, PushFreeSlot correlation_id s)))"

definition AttachDeadlineTimer :: "u64 \<Rightarrow> u64 \<Rightarrow> 'm SlotTable \<Rightarrow> bool \<times> 'm SlotTable" where
  "AttachDeadlineTimer correlation_id timer_id s =
     (if timer_id = 0 then (False, s)
      else case SlotAt correlation_id s of
             None \<Rightarrow> (False, s)
           | Some i \<Rightarrow>
               let l = sl_lifecycle (st_slots s ! i)
               in if SlotLifecycleVersion l \<noteq> GetVersion correlation_id then (False, s)
                  else let state = SlotLifecycleState l
                  in if state \<noteq> Some ARMING \<and> state \<noteq> Some CANCEL_PENDING \<and> state \<noteq> Some TIMEOUT_PENDING
                     then (False, s)
                     else (True, upd_slot i (\<lambda>sl. sl\<lparr>sl_deadline_timer_id := timer_id\<rparr>) s))"

definition apply_response_meta :: "int \<Rightarrow> u64 \<Rightarrow> RpcMeta \<Rightarrow> bytes \<Rightarrow> RpcController \<Rightarrow> RpcController" where
  "apply_response_meta now correlation_id m attachment k =
     (let k = ClearActiveSlot correlation_id k;
          k = (if m_error_code m \<noteq> RPC_SUCCESS then SetFailed (m_error_code m) (m_error_text m) k else k);
          k = (if m_headers m \<noteq> [] then k\<lparr>c_response_headers := m_headers m\<rparr> else k);
          k = (if attachment \<noteq> [] then k\<lparr>c_response_attachment := attachment\<rparr> else k)
      in set_latency_us (CalculateElapsedUs now k) k)"

definition slot_failed :: "CallSlot \<Rightarrow> 'm SlotTable \<Rightarrow> bool" where
  "slot_failed slot s =
     (case sl_controller slot of None \<Rightarrow> False | Some c \<Rightarrow> c_failed (st_controllers s c))"

text \<open>The protobuf part: parse the body into the response message unless the call already failed.\<close>

definition parse_response_body ::
  "(bytes \<Rightarrow> bool \<times> 'm) \<Rightarrow> bytes \<Rightarrow> CallSlot \<Rightarrow> int \<Rightarrow> 'm SlotTable \<Rightarrow> int \<times> 'm SlotTable" where
  "parse_response_body parse_msg body slot code s =
     (case sl_response_msg slot of
        None \<Rightarrow> (code, s)
      | Some r \<Rightarrow>
          if body \<noteq> [] \<and> \<not> slot_failed slot s
          then let (ok, msg) = parse_msg body; s = s\<lparr>st_messages := (st_messages s)(r := msg)\<rparr>
               in if ok then (code, s)
                  else (RPC_EINVALID_DATA,
                        case sl_controller slot of
                          None \<Rightarrow> s
                        | Some c \<Rightarrow> upd_controller c (SetFailed RPC_EINVALID_DATA
                             ''Failed to deserialize response protobuf'') s)
          else (code, s))"

definition CompleteResponseSlot ::
  "(bytes \<Rightarrow> bool \<times> 'm) \<Rightarrow> int \<Rightarrow> u64 \<Rightarrow> bytes \<Rightarrow> RpcMeta \<Rightarrow> bytes \<Rightarrow> 'm SlotTable
   \<Rightarrow> ResponseCompletionOutcome \<times> 'm SlotTable" where
  "CompleteResponseSlot parse_msg now correlation_id body m attachment s =
     (let slot_id = unat (GetSlotId correlation_id); v = GetVersion correlation_id
      in if slot_id \<ge> Capacity s
         then (kUnknownCorrelationId, s\<lparr>st_unknown_correlation_id := st_unknown_correlation_id s + 1\<rparr>)
         else case cas_lifecycle slot_id (PackSlotLifecycle v IN_FLIGHT) (PackSlotLifecycle v COMPLETED) s of
           (False, _, s) \<Rightarrow> (kLateResponse, s\<lparr>st_late_response := st_late_response s + 1\<rparr>)
         | (True, _, s) \<Rightarrow>
             let slot = st_slots s ! slot_id;
                 s = (case sl_controller slot of
                        None \<Rightarrow> s
                      | Some c \<Rightarrow> upd_controller c (apply_response_meta now correlation_id m attachment) s);
                 (code, s) = parse_response_body parse_msg body slot (m_error_code m) s;
                 s = (case sl_raw_resp_body slot of
                        None \<Rightarrow> s
                      | Some r \<Rightarrow> s\<lparr>st_raw_bodies := (st_raw_bodies s)(r := body)\<rparr>);
                 code = (case sl_controller slot of
                           None \<Rightarrow> code
                         | Some c \<Rightarrow> if slot_failed slot s then c_error_code (st_controllers s c) else code);
                 s = s\<lparr>st_completed_responses := st_completed_responses s + 1\<rparr>
             in (kCompleted, FinalizeSlotAndDispatch slot_id correlation_id code s))"

definition CompleteSlot ::
  "(bytes \<Rightarrow> bool \<times> 'm) \<Rightarrow> int \<Rightarrow> u64 \<Rightarrow> bytes \<Rightarrow> RpcMeta \<Rightarrow> bytes \<Rightarrow> 'm SlotTable \<Rightarrow> bool \<times> 'm SlotTable" where
  "CompleteSlot parse_msg now correlation_id body m attachment s =
     (case CompleteResponseSlot parse_msg now correlation_id body m attachment s of
        (outcome, s) \<Rightarrow> (outcome = kCompleted, s))"

definition CompleteSlotBody ::
  "(bytes \<Rightarrow> bool \<times> 'm) \<Rightarrow> int \<Rightarrow> u64 \<Rightarrow> bytes \<Rightarrow> 'm SlotTable \<Rightarrow> bool \<times> 'm SlotTable" where
  "CompleteSlotBody parse_msg now correlation_id body s =
     CompleteSlot parse_msg now correlation_id body (empty_meta\<lparr>m_correlation_id := correlation_id\<rparr>) [] s"

definition TimeoutSlot :: "int \<Rightarrow> u64 \<Rightarrow> string \<Rightarrow> 'm SlotTable \<Rightarrow> bool \<times> 'm SlotTable" where
  "TimeoutSlot now correlation_id err_msg s =
     ResolveTerminal now correlation_id (Resolution_TimedOut err_msg) True s"

definition CancelSlot :: "int \<Rightarrow> u64 \<Rightarrow> string \<Rightarrow> 'm SlotTable \<Rightarrow> bool \<times> 'm SlotTable" where
  "CancelSlot now correlation_id err_msg s =
     ResolveTerminal now correlation_id (Resolution_Canceled err_msg) True s"

definition FailSlot :: "int \<Rightarrow> u64 \<Rightarrow> int \<Rightarrow> string \<Rightarrow> 'm SlotTable \<Rightarrow> bool \<times> 'm SlotTable" where
  "FailSlot now correlation_id error_code err_msg s =
     ResolveTerminal now correlation_id (Resolution_Failed error_code err_msg) False s"

definition FailAllActiveSlots :: "int \<Rightarrow> int \<Rightarrow> string \<Rightarrow> 'm SlotTable \<Rightarrow> nat \<times> 'm SlotTable" where
  "FailAllActiveSlots now error_code err_msg s =
     (if st_connection_failed s then (0, s)
      else let active_calls = st_active_calls s;
               s = s\<lparr>st_connection_failed := True, st_connection_failure_code := error_code,
                     st_connection_failure_message := err_msg, st_active_calls := []\<rparr>
           in (length active_calls,
               fold (\<lambda>cid s. snd (FailSlot now cid error_code err_msg s)) active_calls s))"

end
