(* ===== verification/Slot_Invariants.thy ===== *)
theory Slot_Invariants
  imports Slot_Table
begin

text \<open>
  The invariant of the slot table and the effect of every operation on it.  A call is seen through
  its phase (\<open>call_phase\<close>), the abstraction used by the refinement lemmas: a correlation id is
  unknown, arming, pending cancellation or timeout, or in flight.
\<close>

section \<open>Words of the life cycle\<close>

lemma SlotState_value_inject [simp]: "SlotState_value a = SlotState_value b \<longleftrightarrow> a = b"
  by (cases a; cases b) simp_all

lemma lifecycle_roundtrip [simp]:
  "SlotLifecycleVersion (PackSlotLifecycle v st) = v"
  "SlotLifecycleState (PackSlotLifecycle v st) = Some st"
proof -
  show "SlotLifecycleVersion (PackSlotLifecycle v st) = v"
    by (simp only: SlotLifecycleVersion_def PackSlotLifecycle_def pack_hi_lo(2,3))
  have "ucast (PackSlotLifecycle v st) = SlotState_value st"
    by (simp add: PackSlotLifecycle_def pack_hi_lo)
  then show "SlotLifecycleState (PackSlotLifecycle v st) = Some st"
    by (cases st) (simp_all add: SlotLifecycleState_def all_SlotStates_def)
qed

lemma PackSlotLifecycle_inject [simp]:
  "PackSlotLifecycle v st = PackSlotLifecycle w st' \<longleftrightarrow> v = w \<and> st = st'"
  by (metis lifecycle_roundtrip option.inject)

lemma ucast_mask32: "ucast (w AND 0xFFFFFFFF :: u64) = (ucast w :: u32)"
proof (rule bit_word_eqI)
  fix n assume "n < LENGTH(32)"
  moreover have mask: "(0xFFFFFFFF :: u64) = mask 32" by (simp add: mask_eq_exp_minus_1)
  ultimately show "bit (ucast (w AND 0xFFFFFFFF) :: u32) n = bit (ucast w :: u32) n"
    unfolding mask by (auto simp: bit_simps)
qed

lemma correlation_id_roundtrip [simp]:
  "GetSlotId (MakeCorrelationId v i) = i" "GetVersion (MakeCorrelationId v i) = v"
  "MakeCorrelationId (GetVersion cid) (GetSlotId cid) = cid"
proof -
  show "GetSlotId (MakeCorrelationId v i) = i" "GetVersion (MakeCorrelationId v i) = v"
    by (simp_all only: GetSlotId_def GetVersion_def MakeCorrelationId_def ucast_mask32 pack_hi_lo(2,3))
  show "MakeCorrelationId (GetVersion cid) (GetSlotId cid) = cid"
    unfolding MakeCorrelationId_def GetVersion_def GetSlotId_def ucast_mask32
    by (rule bit_word_eqI) (auto simp: bit_simps)
qed

lemma MakeCorrelationId_inject [simp]:
  "MakeCorrelationId v i = MakeCorrelationId w j \<longleftrightarrow> v = w \<and> i = j"
  by (metis correlation_id_roundtrip(1,2))

section \<open>The invariant\<close>

definition slot_state :: "CallSlot \<Rightarrow> SlotState" where
  "slot_state sl = (case SlotLifecycleState (sl_lifecycle sl) of Some st \<Rightarrow> st | None \<Rightarrow> FREE)"

definition slot_version :: "CallSlot \<Rightarrow> u32" where
  "slot_version sl = SlotLifecycleVersion (sl_lifecycle sl)"

definition slot_wf :: "CallSlot \<Rightarrow> bool" where
  "slot_wf sl =
     (sl_lifecycle sl = PackSlotLifecycle (slot_version sl) (slot_state sl) \<and>
      slot_state sl \<in> {FREE, ARMING, CANCEL_PENDING, TIMEOUT_PENDING, IN_FLIGHT} \<and>
      (slot_state sl \<noteq> FREE \<longrightarrow> sl_executor sl \<noteq> None))"

fun chain :: "CallSlot list \<Rightarrow> u32 \<Rightarrow> nat list \<Rightarrow> bool" where
  "chain slots h [] = (h = INVALID_SLOT)"
| "chain slots h (i # fl) =
     (h \<noteq> INVALID_SLOT \<and> unat h = i \<and> i < length slots \<and> chain slots (sl_next_free (slots ! i)) fl)"

definition free_slots :: "CallSlot list \<Rightarrow> nat set" where
  "free_slots slots = {i. i < length slots \<and> slot_state (slots ! i) = FREE}"

definition slot_cid :: "CallSlot list \<Rightarrow> nat \<Rightarrow> u64" where
  "slot_cid slots i = MakeCorrelationId (slot_version (slots ! i)) (of_nat i)"

definition in_flight_cids :: "CallSlot list \<Rightarrow> u64 set" where
  "in_flight_cids slots = slot_cid slots ` {i. i < length slots \<and> slot_state (slots ! i) = IN_FLIGHT}"

definition core_inv :: "'m SlotTable \<Rightarrow> bool" where
  "core_inv s =
     (0 < Capacity s \<and> Capacity s \<le> UINT32_MAX \<and> (\<forall>sl \<in> set (st_slots s). slot_wf sl) \<and>
      (\<exists>fl. chain (st_slots s) (st_free_head s) fl \<and> distinct fl \<and> set fl = free_slots (st_slots s) \<and>
         st_active_slots s + length fl = Capacity s) \<and> \<not> st_terminated s)"

text \<open>The set of active calls is exactly the set of calls in flight, empty after a failure.\<close>

definition slot_inv :: "'m SlotTable \<Rightarrow> bool" where
  "slot_inv s =
     (core_inv s \<and> distinct (st_active_calls s) \<and> set (st_active_calls s) = in_flight_cids (st_slots s) \<and>
      (st_connection_failed s \<longrightarrow> st_active_calls s = []))"

lemma slot_inv_core [intro]: "slot_inv s \<Longrightarrow> core_inv s"
  by (simp add: slot_inv_def)

lemmas slot_inv_defs = slot_inv_def core_inv_def

text \<open>The phase of a call.\<close>

datatype phase = Arming | CancelPending | TimeoutPending | InFlight

fun phase_of :: "SlotState \<Rightarrow> phase option" where
  "phase_of ARMING = Some Arming"
| "phase_of CANCEL_PENDING = Some CancelPending"
| "phase_of TIMEOUT_PENDING = Some TimeoutPending"
| "phase_of IN_FLIGHT = Some InFlight"
| "phase_of _ = None"

definition call_phase :: "'m SlotTable \<Rightarrow> u64 \<Rightarrow> phase option" where
  "call_phase s cid =
     (let i = unat (GetSlotId cid)
      in if i < Capacity s \<and> slot_version (st_slots s ! i) = GetVersion cid
         then phase_of (slot_state (st_slots s ! i)) else None)"

section \<open>Lemmas on slots and chains\<close>

lemma slot_state_pack [simp]:
  "slot_state (sl\<lparr>sl_lifecycle := PackSlotLifecycle v st\<rparr>) = st"
  "slot_version (sl\<lparr>sl_lifecycle := PackSlotLifecycle v st\<rparr>) = v"
  by (simp_all add: slot_state_def slot_version_def)

lemma slot_state_other [simp]:
  "slot_state (sl\<lparr>sl_next_free := x\<rparr>) = slot_state sl" "slot_version (sl\<lparr>sl_next_free := x\<rparr>) = slot_version sl"
  "slot_state (sl\<lparr>sl_deadline_timer_id := t\<rparr>) = slot_state sl"
  "slot_version (sl\<lparr>sl_deadline_timer_id := t\<rparr>) = slot_version sl"
  by (simp_all add: slot_state_def slot_version_def)

lemma chain_frame:
  "(\<And>j. j \<in> set fl \<Longrightarrow> sl_next_free (slots' ! j) = sl_next_free (slots ! j)) \<Longrightarrow>
   length slots' = length slots \<Longrightarrow> chain slots' h fl = chain slots h fl"
  by (induction fl arbitrary: h) simp_all

lemma chain_update: "i \<notin> set fl \<Longrightarrow> chain (slots[i := x]) h fl = chain slots h fl"
  by (rule chain_frame) (metis nth_list_update_neq, simp)

lemma free_slots_update:
  "i < length slots \<Longrightarrow> free_slots (slots[i := sl]) =
     (if slot_state sl = FREE then insert i (free_slots slots) else free_slots slots - {i})"
  by (auto simp: free_slots_def nth_list_update)

lemma of_nat_unat_id: "unat (h :: u32) = i \<Longrightarrow> of_nat i = h"
  by auto

lemma unat_GetSlotId: "i < 2 ^ 32 \<Longrightarrow> unat (GetSlotId (MakeCorrelationId v (of_nat i))) = i"
  by (simp add: unat_of_nat)

lemma slot_cid_update:
  "i < length slots \<Longrightarrow> slot_cid (slots[i := sl]) j =
     (if j = i then MakeCorrelationId (slot_version sl) (of_nat i) else slot_cid slots j)"
  by (simp add: slot_cid_def)

lemma in_flight_update:
  assumes "i < length slots" "length slots \<le> UINT32_MAX"
  shows "in_flight_cids (slots[i := sl]) =
    (if slot_state sl = IN_FLIGHT then {MakeCorrelationId (slot_version sl) (of_nat i)} else {}) \<union>
    (in_flight_cids slots - (if slot_state (slots ! i) = IN_FLIGHT then {slot_cid slots i} else {}))"
proof -
  have inj: "slot_cid slots j \<noteq> slot_cid slots i" if "j < length slots" "j \<noteq> i" for j
  proof -
    have "unat (of_nat j :: u32) = j" "unat (of_nat i :: u32) = i"
      using that assms by (simp_all add: unat_of_nat_u32)
    then have "(of_nat j :: u32) \<noteq> of_nat i" using that(2) by metis
    then show ?thesis by (simp add: slot_cid_def)
  qed
  show ?thesis
    using assms(1) inj unfolding in_flight_cids_def
    by (auto simp: slot_cid_update nth_list_update split: if_splits)
qed

lemma call_phase_Some:
  assumes "call_phase s cid = Some p"
  shows "unat (GetSlotId cid) < Capacity s" "SlotAt cid s = Some (unat (GetSlotId cid))"
    "slot_version (st_slots s ! unat (GetSlotId cid)) = GetVersion cid"
    "phase_of (slot_state (st_slots s ! unat (GetSlotId cid))) = Some p"
    "slot_cid (st_slots s) (unat (GetSlotId cid)) = cid"
  using assms by (auto simp: call_phase_def Let_def SlotAt_def slot_cid_def split: if_splits)

lemma phase_of_Some: "phase_of st = Some p \<longleftrightarrow>
    (st, p) \<in> {(ARMING, Arming), (CANCEL_PENDING, CancelPending), (TIMEOUT_PENDING, TimeoutPending), (IN_FLIGHT, InFlight)}"
  by (cases st) auto

lemma slot_inv_wf: "core_inv s \<Longrightarrow> i < Capacity s \<Longrightarrow> slot_wf (st_slots s ! i)"
  by (simp add: core_inv_def)

text \<open>The compare-exchange succeeds exactly for the call's own phase.\<close>

lemma cas_lifecycle_phase:
  assumes inv: "core_inv s" and i: "i = unat (GetSlotId cid)" "i < Capacity s"
    and st: "phase_of st = Some p"
  shows "cas_lifecycle i (PackSlotLifecycle (GetVersion cid) st) l s =
    (call_phase s cid = Some p, sl_lifecycle (st_slots s ! i),
     if call_phase s cid = Some p then upd_slot i (\<lambda>sl. sl\<lparr>sl_lifecycle := l\<rparr>) s else s)"
proof -
  have wf: "sl_lifecycle (st_slots s ! i) =
      PackSlotLifecycle (slot_version (st_slots s ! i)) (slot_state (st_slots s ! i))"
    using slot_inv_wf [OF inv i(2)] by (simp add: slot_wf_def)
  have "(sl_lifecycle (st_slots s ! i) = PackSlotLifecycle (GetVersion cid) st) = (call_phase s cid = Some p)"
    using i st by (subst wf) (auto simp: call_phase_def Let_def phase_of_Some)
  then show ?thesis by (simp add: cas_lifecycle_def Let_def)
qed

section \<open>Recycling a slot\<close>

definition freed :: "u64 \<Rightarrow> u32 \<Rightarrow> CallSlot \<Rightarrow> CallSlot" where
  "freed cid h sl = sl\<lparr>sl_task := None, sl_response_msg := None, sl_controller := None,
     sl_raw_resp_body := None, sl_executor := None, sl_deadline_timer_id := 0,
     sl_lifecycle := PackSlotLifecycle (GetVersion cid) FREE, sl_next_free := h\<rparr>"

lemma freed_simps [simp]:
  "slot_state (freed cid h sl) = FREE" "slot_version (freed cid h sl) = GetVersion cid"
  "sl_next_free (freed cid h sl) = h" "slot_wf (freed cid h sl)"
  "freed cid h (sl\<lparr>sl_lifecycle := x\<rparr>) = freed cid h sl"
  "freed cid h (sl\<lparr>sl_deadline_timer_id := t\<rparr>) = freed cid h sl"
  by (simp_all add: freed_def slot_state_def slot_version_def slot_wf_def)

text \<open>The structural part of releasing the slot of a call.\<close>

definition released :: "u64 \<Rightarrow> 'm SlotTable \<Rightarrow> 'm SlotTable \<Rightarrow> bool" where
  "released cid s s' =
     (let i = unat (GetSlotId cid) in
      st_slots s' = (st_slots s)[i := freed cid (st_free_head s) (st_slots s ! i)] \<and>
      st_free_head s' = GetSlotId cid \<and> st_active_slots s' = sub64 (st_active_slots s) 1 \<and>
      st_active_calls s' = removeAll cid (st_active_calls s) \<and>
      st_connection_failed s' = st_connection_failed s \<and>
      st_connection_failure_code s' = st_connection_failure_code s \<and>
      st_connection_failure_message s' = st_connection_failure_message s)"

lemma PushFreeSlot_simps [simp]:
  "unat (GetSlotId cid) < Capacity s \<Longrightarrow> st_slots (PushFreeSlot cid s) =
     (st_slots s)[unat (GetSlotId cid) := freed cid (st_free_head s) (st_slots s ! unat (GetSlotId cid))]"
  "st_free_head (PushFreeSlot cid s) = GetSlotId cid"
  "st_active_slots (PushFreeSlot cid s) = sub64 (st_active_slots s) 1"
  "st_active_calls (PushFreeSlot cid s) = st_active_calls s"
  "st_connection_failed (PushFreeSlot cid s) = st_connection_failed s"
  "st_connection_failure_code (PushFreeSlot cid s) = st_connection_failure_code s"
  "st_connection_failure_message (PushFreeSlot cid s) = st_connection_failure_message s"
  "st_controllers (PushFreeSlot cid s) = st_controllers s"
  "st_messages (PushFreeSlot cid s) = st_messages s"
  "st_raw_bodies (PushFreeSlot cid s) = st_raw_bodies s"
  "st_dispatched (PushFreeSlot cid s) = st_dispatched s"
  "st_finalized (PushFreeSlot cid s) = st_finalized s"
  "st_terminated (PushFreeSlot cid s) = st_terminated s"
  "st_deadline_timer_keeper (PushFreeSlot cid s) = st_deadline_timer_keeper s"
  "st_completed_responses (PushFreeSlot cid s) = st_completed_responses s"
  "st_unknown_correlation_id (PushFreeSlot cid s) = st_unknown_correlation_id s"
  "st_late_response (PushFreeSlot cid s) = st_late_response s"
  "st_client_metrics (PushFreeSlot cid s) = map_option
     (\<lambda>m. m\<lparr>cm_active_in_flight := cm_active_in_flight m - 1\<rparr>) (st_client_metrics s)"
  by (simp_all add: PushFreeSlot_def Let_def upd_slot_def ReleaseLiveSlot_def upd_metrics_def freed_def
      Gauge_Add_def)

lemma CancelDeadlineTimer_simps [simp]:
  "st_slots (CancelDeadlineTimer i s) =
     (st_slots s)[i := (st_slots s ! i)\<lparr>sl_deadline_timer_id := 0\<rparr>]"
  "st_free_head (CancelDeadlineTimer i s) = st_free_head s"
  "st_active_slots (CancelDeadlineTimer i s) = st_active_slots s"
  "st_active_calls (CancelDeadlineTimer i s) = st_active_calls s"
  "st_connection_failed (CancelDeadlineTimer i s) = st_connection_failed s"
  "st_connection_failure_code (CancelDeadlineTimer i s) = st_connection_failure_code s"
  "st_connection_failure_message (CancelDeadlineTimer i s) = st_connection_failure_message s"
  "st_controllers (CancelDeadlineTimer i s) = st_controllers s"
  "st_messages (CancelDeadlineTimer i s) = st_messages s"
  "st_raw_bodies (CancelDeadlineTimer i s) = st_raw_bodies s"
  "st_dispatched (CancelDeadlineTimer i s) = st_dispatched s"
  "st_finalized (CancelDeadlineTimer i s) = st_finalized s"
  "st_terminated (CancelDeadlineTimer i s) = st_terminated s"
  "st_completed_responses (CancelDeadlineTimer i s) = st_completed_responses s"
  "st_unknown_correlation_id (CancelDeadlineTimer i s) = st_unknown_correlation_id s"
  "st_late_response (CancelDeadlineTimer i s) = st_late_response s"
  "st_client_metrics (CancelDeadlineTimer i s) = st_client_metrics s"
  by (simp_all add: CancelDeadlineTimer_def Let_def upd_slot_def)

text \<open>What the finalizer dispatches for a slot and its controllers.\<close>

definition slot_notify :: "(nat \<Rightarrow> RpcController) \<Rightarrow> CallSlot \<Rightarrow> closure option" where
  "slot_notify ctls sl = (case sl_controller sl of None \<Rightarrow> None | Some c \<Rightarrow> c_notify_on_cancel (ctls c))"

definition dispatch_of :: "(nat \<Rightarrow> RpcController) \<Rightarrow> CallSlot \<Rightarrow> (nat \<times> dispatch) list" where
  "dispatch_of ctls sl =
     (case (sl_executor sl, slot_notify ctls sl, sl_task sl) of
        (Some e, Some n, tk) \<Rightarrow> [(e, ScheduleNotifyThenContinue n tk)]
      | (Some e, None, Some t) \<Rightarrow> [(e, ScheduleTask t)]
      | _ \<Rightarrow> [])"

lemma TakeNotifyOnCompletion_fst: "fst (TakeNotifyOnCompletion k) = c_notify_on_cancel k"
  by (simp add: TakeNotifyOnCompletion_def Let_def split: option.split)

lemma FinalizeSlotAndDispatch_effect:
  fixes s :: "'m SlotTable" and code :: int
  assumes "i = unat (GetSlotId cid)" "i < Capacity s" "sl_executor (st_slots s ! i) \<noteq> None"
  defines "s' \<equiv> FinalizeSlotAndDispatch i cid code s"
  shows "released cid s s'"
    and "st_finalized s' = st_finalized s @ [(cid, code)]"
    and "st_dispatched s' = st_dispatched s @ dispatch_of (st_controllers s) (st_slots s ! i)"
    and "st_terminated s' = st_terminated s"
    and "st_controllers s' = (case sl_controller (st_slots s ! i) of None \<Rightarrow> st_controllers s
      | Some c \<Rightarrow> (st_controllers s)(c := snd (TakeNotifyOnCompletion (st_controllers s c))))"
    and "st_messages s' = st_messages s" "st_raw_bodies s' = st_raw_bodies s"
      "st_completed_responses s' = st_completed_responses s"
      "st_unknown_correlation_id s' = st_unknown_correlation_id s"
      "st_late_response s' = st_late_response s"
    and "\<exists>lat. st_client_metrics s' = map_option
      (\<lambda>m. (RecordCompletion code lat m)\<lparr>cm_active_in_flight := cm_active_in_flight m - 1\<rparr>) (st_client_metrics s)"
proof -
  obtain e where e: "sl_executor (st_slots s ! i) = Some e" using assms(3) by auto
  note unf = s'_def FinalizeSlotAndDispatch_def Let_def UnregisterPublishedSlot_def upd_metrics_def
    upd_controller_def
  show "released cid s s'"
    using assms(1,2) e unfolding unf
    by (simp add: released_def split: option.splits prod.splits)
  show "st_finalized s' = st_finalized s @ [(cid, code)]" "st_terminated s' = st_terminated s"
    "st_messages s' = st_messages s" "st_raw_bodies s' = st_raw_bodies s"
    "st_completed_responses s' = st_completed_responses s"
    "st_unknown_correlation_id s' = st_unknown_correlation_id s"
    "st_late_response s' = st_late_response s"
    using e unfolding unf by (simp_all split: option.splits prod.splits)
  show "st_dispatched s' = st_dispatched s @ dispatch_of (st_controllers s) (st_slots s ! i)"
    using e unfolding unf
    by (auto simp: dispatch_of_def slot_notify_def TakeNotifyOnCompletion_fst split: option.splits prod.splits)
  show "st_controllers s' = (case sl_controller (st_slots s ! i) of None \<Rightarrow> st_controllers s
      | Some c \<Rightarrow> (st_controllers s)(c := snd (TakeNotifyOnCompletion (st_controllers s c))))"
    using e unfolding unf by (simp split: option.splits prod.splits)
  show "\<exists>lat. st_client_metrics s' = map_option
      (\<lambda>m. (RecordCompletion code lat m)\<lparr>cm_active_in_flight := cm_active_in_flight m - 1\<rparr>) (st_client_metrics s)"
    using e unfolding unf
    by (auto simp: option.map_comp comp_def split: option.splits prod.splits)
qed

section \<open>Resolving a call\<close>

text \<open>
  \<open>resolved cid code s s'\<close>: the call was taken out of the table, its completion recorded with
  \<open>code\<close> and its continuation dispatched, once.
\<close>

definition resolved :: "u64 \<Rightarrow> int \<Rightarrow> 'm SlotTable \<Rightarrow> 'm SlotTable \<Rightarrow> bool" where
  "resolved cid code s s' =
     (released cid s s' \<and> st_finalized s' = st_finalized s @ [(cid, code)] \<and>
      st_terminated s' = st_terminated s \<and>
      st_dispatched s' = st_dispatched s @
        dispatch_of (st_controllers s) (st_slots s ! unat (GetSlotId cid)) \<and>
      (\<exists>lat. st_client_metrics s' = map_option
        (\<lambda>m. (RecordCompletion code lat m)\<lparr>cm_active_in_flight := cm_active_in_flight m - 1\<rparr>)
        (st_client_metrics s)))"

lemma FinalizeSlotAndDispatch_resolved:
  "i = unat (GetSlotId cid) \<Longrightarrow> i < Capacity s \<Longrightarrow> sl_executor (st_slots s ! i) \<noteq> None \<Longrightarrow>
   resolved cid code s (FinalizeSlotAndDispatch i cid code s)"
  unfolding resolved_def using FinalizeSlotAndDispatch_effect [of i cid s code] by blast

text \<open>Earlier changes by the resolver that do not matter for the outcome.\<close>

definition prepared :: "u64 \<Rightarrow> 'm SlotTable \<Rightarrow> 'm SlotTable \<Rightarrow> bool" where
  "prepared cid s s1 =
     ((\<exists>l. st_slots s1 = (st_slots s)[unat (GetSlotId cid) := (st_slots s ! unat (GetSlotId cid))\<lparr>sl_lifecycle := l\<rparr>]) \<and>
      st_free_head s1 = st_free_head s \<and> st_active_slots s1 = st_active_slots s \<and>
      removeAll cid (st_active_calls s1) = removeAll cid (st_active_calls s) \<and>
      st_connection_failed s1 = st_connection_failed s \<and>
      st_connection_failure_code s1 = st_connection_failure_code s \<and>
      st_connection_failure_message s1 = st_connection_failure_message s \<and>
      st_finalized s1 = st_finalized s \<and> st_terminated s1 = st_terminated s \<and>
      st_dispatched s1 = st_dispatched s \<and> st_client_metrics s1 = st_client_metrics s \<and>
      (\<forall>c. c_notify_on_cancel (st_controllers s1 c) = c_notify_on_cancel (st_controllers s c)))"

lemma prepared_resolved:
  assumes "prepared cid s s1" "resolved cid code s1 s'" "unat (GetSlotId cid) < Capacity s"
  shows "resolved cid code s s'"
proof -
  let ?i = "unat (GetSlotId cid)"
  obtain l where sl: "st_slots s1 = (st_slots s)[?i := (st_slots s ! ?i)\<lparr>sl_lifecycle := l\<rparr>]"
    using assms(1) by (auto simp: prepared_def)
  have "slot_notify (st_controllers s1) (st_slots s ! ?i) = slot_notify (st_controllers s) (st_slots s ! ?i)"
    using assms(1) by (simp add: slot_notify_def prepared_def split: option.split)
  moreover have "slot_notify ctls (st_slots s1 ! ?i) = slot_notify ctls (st_slots s ! ?i)" for ctls
    using assms(3) by (simp add: sl slot_notify_def)
  moreover have "sl_executor (st_slots s1 ! ?i) = sl_executor (st_slots s ! ?i)"
    "sl_task (st_slots s1 ! ?i) = sl_task (st_slots s ! ?i)"
    using assms(3) by (simp_all add: sl)
  ultimately have "dispatch_of (st_controllers s1) (st_slots s1 ! ?i) =
      dispatch_of (st_controllers s) (st_slots s ! ?i)"
    by (simp only: dispatch_of_def)
  then show ?thesis
    using assms sl by (simp add: resolved_def released_def prepared_def Let_def)
qed

lemma ApplyFailureAndFinalize_resolved:
  assumes "i = unat (GetSlotId cid)" "i < Capacity s" "sl_executor (st_slots s ! i) \<noteq> None"
  shows "resolved cid (res_error_code r) s (ApplyFailureAndFinalize now i cid r s)"
proof -
  define f where "f = (\<lambda>k. let k = ClearActiveSlot cid k;
      k = SetFailed (res_error_code r) (res_error_message r) k in set_latency_us (CalculateElapsedUs now k) k)"
  define s1 where "s1 = (case sl_controller (st_slots s ! i) of None \<Rightarrow> s | Some c \<Rightarrow> upd_controller c f s)"
  have "c_notify_on_cancel (f k) = c_notify_on_cancel k" for k
    by (simp add: f_def Let_def ClearActiveSlot_def SetFailed_def set_latency_us_def split: option.split)
  then have "prepared cid s s1"
    using assms(1) by (auto simp: prepared_def s1_def upd_controller_def list_update_same_conv
        intro!: exI [of _ "sl_lifecycle (st_slots s ! i)"] split: option.split)
  moreover have "st_slots s1 = st_slots s" by (simp add: s1_def upd_controller_def split: option.split)
  then have "resolved cid (res_error_code r) s1 (FinalizeSlotAndDispatch i cid (res_error_code r) s1)"
    using assms by (intro FinalizeSlotAndDispatch_resolved) simp_all
  moreover have "ApplyFailureAndFinalize now i cid r s = FinalizeSlotAndDispatch i cid (res_error_code r) s1"
    unfolding ApplyFailureAndFinalize_def f_def s1_def by (simp add: Let_def)
  ultimately show ?thesis using prepared_resolved assms(1,2) by metis
qed

lemma prepared_cas:
  "i = unat (GetSlotId cid) \<Longrightarrow> prepared cid s (upd_slot i (\<lambda>sl. sl\<lparr>sl_lifecycle := l\<rparr>) s)"
  by (auto simp: prepared_def upd_slot_def)

lemma live_executor:
  assumes "core_inv s" "call_phase s cid = Some p"
  shows "sl_executor (st_slots s ! unat (GetSlotId cid)) \<noteq> None"
  using slot_inv_wf [OF assms(1) call_phase_Some(1) [OF assms(2)]] call_phase_Some(4) [OF assms(2)]
  by (auto simp: slot_wf_def)

lemma ApplyFailure_after_cas:
  assumes inv: "core_inv s" and i: "i = unat (GetSlotId cid)" and live: "call_phase s cid = Some p"
  shows "resolved cid (res_error_code r) s
    (ApplyFailureAndFinalize now i cid r (upd_slot i (\<lambda>sl. sl\<lparr>sl_lifecycle := l\<rparr>) s))"
proof -
  define s1 where "s1 = upd_slot i (\<lambda>sl. sl\<lparr>sl_lifecycle := l\<rparr>) s"
  note ph = call_phase_Some(1) [OF live, folded i]
  have "sl_executor (st_slots s1 ! i) \<noteq> None" "i < Capacity s1"
    using live_executor [OF inv live] i ph by (simp_all add: s1_def upd_slot_def)
  then have "resolved cid (res_error_code r) s1 (ApplyFailureAndFinalize now i cid r s1)"
    using ApplyFailureAndFinalize_resolved i by blast
  moreover have "prepared cid s s1" unfolding s1_def by (rule prepared_cas [OF i])
  ultimately show ?thesis using prepared_resolved ph i unfolding s1_def by blast
qed

lemma TransitionAndFinalize_spec:
  assumes inv: "core_inv s" and i: "i = unat (GetSlotId cid)" "i < Capacity s"
    and st: "phase_of st = Some p"
  shows "fst (TransitionAndFinalize now i cid st r s) = (call_phase s cid = Some p)"
    and "call_phase s cid = Some p \<Longrightarrow>
      resolved cid (res_error_code r) s (snd (TransitionAndFinalize now i cid st r s))"
    and "call_phase s cid \<noteq> Some p \<Longrightarrow> snd (TransitionAndFinalize now i cid st r s) = s"
proof -
  note cas = cas_lifecycle_phase [OF inv i st]
  show "fst (TransitionAndFinalize now i cid st r s) = (call_phase s cid = Some p)"
    "call_phase s cid \<noteq> Some p \<Longrightarrow> snd (TransitionAndFinalize now i cid st r s) = s"
    by (simp_all add: TransitionAndFinalize_def cas split: bool.split)
  assume live: "call_phase s cid = Some p"
  then show "resolved cid (res_error_code r) s (snd (TransitionAndFinalize now i cid st r s))"
    using ApplyFailure_after_cas [OF inv i(1) live] by (simp add: TransitionAndFinalize_def cas)
qed

section \<open>Release and the invariant\<close>

lemma released_core:
  assumes inv: "core_inv s" and live: "call_phase s cid = Some p" and rel: "released cid s s'"
    and nt: "st_terminated s' = st_terminated s"
  shows "core_inv s'" and "call_phase s' = (call_phase s)(cid := None)"
proof -
  define i where "i = unat (GetSlotId cid)"
  define sl where "sl = freed cid (st_free_head s) (st_slots s ! i)"
  note ph = call_phase_Some [OF live, folded i_def]
  have s': "st_slots s' = (st_slots s)[i := sl]" "st_free_head s' = GetSlotId cid"
    "st_active_slots s' = sub64 (st_active_slots s) 1" "st_active_calls s' = removeAll cid (st_active_calls s)"
    "st_connection_failed s' = st_connection_failed s"
    using rel by (simp_all add: released_def i_def sl_def Let_def)
  have cap: "Capacity s \<le> UINT32_MAX" "0 < Capacity s" using inv by (simp_all add: core_inv_def)
  obtain fl where fl: "chain (st_slots s) (st_free_head s) fl" "distinct fl"
    "set fl = free_slots (st_slots s)" "st_active_slots s + length fl = Capacity s"
    using inv by (auto simp: core_inv_def)
  have nf_sl: "sl_next_free sl = st_free_head s" by (simp add: sl_def)
  have nf: "slot_state (st_slots s ! i) \<noteq> FREE" using ph(4) by auto
  then have i_fl: "i \<notin> set fl" by (simp add: fl(3) free_slots_def)
  have head: "GetSlotId cid \<noteq> INVALID_SLOT"
  proof
    assume "GetSlotId cid = INVALID_SLOT"
    then have "i = UINT32_MAX" by (simp add: i_def INVALID_SLOT_def UINT32_MAX_def)
    then show False using ph(1) cap by simp
  qed
  have fl': "set (i # fl) = free_slots (st_slots s')"
    using ph(1) fl(3) by (simp add: s' free_slots_update sl_def)
  have "length (i # fl) = card (free_slots (st_slots s'))"
    using fl' i_fl fl(2) by (metis distinct.simps(2) distinct_card)
  also have "\<dots> \<le> card {..<Capacity s}"
    by (rule card_mono) (auto simp: free_slots_def s'(1))
  finally have room: "length fl < Capacity s" by simp
  have act: "st_active_slots s' = st_active_slots s - 1" "0 < st_active_slots s"
    using room fl(4) cap by (simp_all add: s' sub64_exact UINT32_MAX_def SIZE_MAX_def)
  have "chain (st_slots s') (st_free_head s') (i # fl)"
    using fl(1) ph(1) head nf_sl chain_update [OF i_fl, of "st_slots s" sl] by (simp add: s' flip: i_def)
  then have "\<exists>fl. chain (st_slots s') (st_free_head s') fl \<and> distinct fl \<and>
      set fl = free_slots (st_slots s') \<and> st_active_slots s' + length fl = Capacity s'"
    using fl(2,4) fl' i_fl act ph(1) cap(2) by (intro exI [of _ "i # fl"]) (simp add: s'(1))
  moreover have "\<forall>x \<in> set (st_slots s'). slot_wf x"
    using inv by (auto simp: s' core_inv_def sl_def dest!: set_update_subset_insert [THEN subsetD])
  ultimately show "core_inv s'"
    using inv cap nt by (simp add: core_inv_def s')
  show "call_phase s' = (call_phase s)(cid := None)"
  proof
    fix x
    show "call_phase s' x = ((call_phase s)(cid := None)) x"
    proof (cases "unat (GetSlotId x) = i")
      case True
      then have "GetSlotId x = GetSlotId cid" by (simp add: i_def word_unat_eq_iff)
      then have "x = cid \<longleftrightarrow> GetVersion x = GetVersion cid" by (metis correlation_id_roundtrip(3))
      then show ?thesis using True ph(1,3) by (simp add: call_phase_def Let_def s' sl_def)
    next
      case False
      then show ?thesis by (auto simp: call_phase_def Let_def s' i_def)
    qed
  qed
qed

lemma released_inv:
  assumes inv: "slot_inv s" and live: "call_phase s cid = Some p" and rel: "released cid s s'"
    and nt: "st_terminated s' = st_terminated s"
  shows "slot_inv s'" and "call_phase s' = (call_phase s)(cid := None)"
proof -
  define i where "i = unat (GetSlotId cid)"
  define sl where "sl = freed cid (st_free_head s) (st_slots s ! i)"
  note ph = call_phase_Some [OF live, folded i_def]
  have s': "st_slots s' = (st_slots s)[i := sl]" "st_active_calls s' = removeAll cid (st_active_calls s)"
    "st_connection_failed s' = st_connection_failed s"
    using rel by (simp_all add: released_def i_def sl_def Let_def)
  have cap: "Capacity s \<le> UINT32_MAX" using inv by (simp add: slot_inv_defs)
  note core = released_core [OF slot_inv_core [OF inv] live rel nt]
  show "call_phase s' = (call_phase s)(cid := None)" by (rule core)
  have "set (st_active_calls s') = in_flight_cids (st_slots s')"
  proof -
    have "cid \<notin> in_flight_cids (st_slots s)" if "slot_state (st_slots s ! i) \<noteq> IN_FLIGHT"
    proof
      assume "cid \<in> in_flight_cids (st_slots s)"
      then obtain j where j: "j < Capacity s" "slot_state (st_slots s ! j) = IN_FLIGHT" "cid = slot_cid (st_slots s) j"
        by (auto simp: in_flight_cids_def)
      then have "unat (GetSlotId cid) = j" using cap by (simp add: slot_cid_def unat_of_nat_u32)
      then show False using j(2) that by (simp add: i_def)
    qed
    then show ?thesis
      using inv ph in_flight_update [OF ph(1) cap, of sl] by (auto simp: s' slot_inv_defs sl_def)
  qed
  then show "slot_inv s'"
    using inv core(1) by (auto simp: slot_inv_def s' distinct_removeAll)
qed

lemma resolved_core:
  assumes "core_inv s" "call_phase s cid = Some p" "resolved cid code s s'"
  shows "core_inv s'" "call_phase s' = (call_phase s)(cid := None)"
  using released_core [OF assms(1,2)] assms(3) by (simp_all add: resolved_def)

lemma resolved_inv:
  assumes "slot_inv s" "call_phase s cid = Some p" "resolved cid code s s'"
  shows "slot_inv s'" "call_phase s' = (call_phase s)(cid := None)"
  using released_inv [OF assms(1,2)] assms(3) by (simp_all add: resolved_def)

section \<open>Changing the phase of a call\<close>

text \<open>The state after an arming call moved to another live state.\<close>

definition rephased :: "u64 \<Rightarrow> SlotState \<Rightarrow> 'm SlotTable \<Rightarrow> 'm SlotTable \<Rightarrow> bool" where
  "rephased cid st s s' =
     (\<exists>calls. s' = (upd_slot (unat (GetSlotId cid))
        (\<lambda>sl. sl\<lparr>sl_lifecycle := PackSlotLifecycle (GetVersion cid) st\<rparr>) s)\<lparr>st_active_calls := calls\<rparr> \<and>
        distinct calls \<and>
        set calls = set (st_active_calls s) \<union> (if st = IN_FLIGHT then {cid} else {}) \<and>
        (st_connection_failed s \<longrightarrow> calls = []))"

lemma rephased_inv:
  assumes inv: "slot_inv s" and live: "call_phase s cid = Some Arming" and re: "rephased cid st s s'"
    and st: "phase_of st = Some q"
  shows "slot_inv s'" "call_phase s' = (call_phase s)(cid \<mapsto> q)"
proof -
  have core: "core_inv s" using inv by (rule slot_inv_core)
  define i where "i = unat (GetSlotId cid)"
  note ph = call_phase_Some [OF live, folded i_def]
  define sl where "sl = (st_slots s ! i)\<lparr>sl_lifecycle := PackSlotLifecycle (GetVersion cid) st\<rparr>"
  obtain calls where s': "s' = s\<lparr>st_slots := (st_slots s)[i := sl], st_active_calls := calls\<rparr>"
    and calls: "distinct calls" "set calls = set (st_active_calls s) \<union> (if st = IN_FLIGHT then {cid} else {})"
      "st_connection_failed s \<longrightarrow> calls = []"
    using re by (auto simp: rephased_def upd_slot_def i_def sl_def)
  have cap: "Capacity s \<le> UINT32_MAX" "0 < Capacity s" using inv by (simp_all add: slot_inv_defs)
  have arming: "slot_state (st_slots s ! i) = ARMING" using ph(4) by (auto simp: phase_of_Some)
  have st': "st \<noteq> FREE" "st \<in> {ARMING, CANCEL_PENDING, TIMEOUT_PENDING, IN_FLIGHT}"
    using st by (auto simp: phase_of_Some)
  obtain fl where fl: "chain (st_slots s) (st_free_head s) fl" "distinct fl"
    "set fl = free_slots (st_slots s)" "st_active_slots s + length fl = Capacity s"
    using inv by (auto simp: slot_inv_defs)
  have free: "free_slots ((st_slots s)[i := sl]) = free_slots (st_slots s)"
    using arming st'(1) ph(1) by (auto simp: free_slots_def nth_list_update sl_def split: if_splits)
  have "sl_next_free ((st_slots s)[i := sl] ! j) = sl_next_free (st_slots s ! j)" for j
    using ph(1) by (simp add: nth_list_update sl_def)
  then have "chain ((st_slots s)[i := sl]) (st_free_head s) fl"
    using fl(1) chain_frame [of fl "(st_slots s)[i := sl]" "st_slots s"] by simp
  then have "\<exists>fl. chain (st_slots s') (st_free_head s') fl \<and> distinct fl \<and>
      set fl = free_slots (st_slots s') \<and> st_active_slots s' + length fl = Capacity s'"
    using fl free by (intro exI [of _ fl]) (simp add: s')
  moreover have "slot_wf sl"
    using slot_inv_wf [OF core ph(1)] arming st' by (simp add: sl_def slot_wf_def)
  then have "\<forall>x \<in> set (st_slots s'). slot_wf x"
    using inv by (auto simp: s' slot_inv_defs dest!: set_update_subset_insert [THEN subsetD])
  moreover have "set calls = in_flight_cids (st_slots s')"
  proof -
    have "MakeCorrelationId (GetVersion cid) (of_nat i) = cid" by (simp add: i_def)
    then show ?thesis
      using inv arming in_flight_update [OF ph(1) cap(1), of sl] calls(2)
      by (auto simp: s' slot_inv_defs sl_def)
  qed
  ultimately show "slot_inv s'"
    using inv cap calls by (simp add: slot_inv_defs s')
  show "call_phase s' = (call_phase s)(cid \<mapsto> q)"
  proof
    fix x
    show "call_phase s' x = ((call_phase s)(cid \<mapsto> q)) x"
    proof (cases "unat (GetSlotId x) = i")
      case True
      then have "GetSlotId x = GetSlotId cid" by (simp add: i_def word_unat_eq_iff)
      then have "x = cid \<longleftrightarrow> GetVersion x = GetVersion cid" by (metis correlation_id_roundtrip(3))
      then show ?thesis using True ph(1,3) st by (simp add: call_phase_def Let_def s' sl_def)
    next
      case False
      then show ?thesis by (auto simp: call_phase_def Let_def s' i_def)
    qed
  qed
qed

lemma SlotAt_None_phase: "SlotAt cid s = None \<Longrightarrow> call_phase s cid = None"
  by (auto simp: SlotAt_def call_phase_def Let_def split: if_splits)

lemma SlotAt_Some: "SlotAt cid s = Some i \<longleftrightarrow> i = unat (GetSlotId cid) \<and> i < Capacity s"
  by (auto simp: SlotAt_def Let_def)

lemma in_flight_phase:
  assumes core: "core_inv s"
  shows "in_flight_cids (st_slots s) = {cid. call_phase s cid = Some InFlight}"
proof -
  have "cid \<in> in_flight_cids (st_slots s) \<longleftrightarrow> call_phase s cid = Some InFlight" for cid
  proof
    assume "cid \<in> in_flight_cids (st_slots s)"
    then obtain j where j: "j < Capacity s" "slot_state (st_slots s ! j) = IN_FLIGHT" "cid = slot_cid (st_slots s) j"
      by (auto simp: in_flight_cids_def)
    then have "unat (GetSlotId cid) = j" using core by (simp add: slot_cid_def unat_of_nat_u32 core_inv_def)
    then show "call_phase s cid = Some InFlight" using j by (simp add: call_phase_def Let_def slot_cid_def)
  next
    assume "call_phase s cid = Some InFlight"
    note ph = call_phase_Some [OF this]
    then have "slot_state (st_slots s ! unat (GetSlotId cid)) = IN_FLIGHT" by (auto simp: phase_of_Some)
    then show "cid \<in> in_flight_cids (st_slots s)" using ph(1,5) by (force simp: in_flight_cids_def)
  qed
  then show ?thesis by blast
qed

lemma active_call_phase:
  "slot_inv s \<Longrightarrow> cid \<in> set (st_active_calls s) \<longleftrightarrow> call_phase s cid = Some InFlight"
  using in_flight_phase [of s] by (auto simp: slot_inv_def)

section \<open>Cancel, timeout, failure\<close>

lemma ResolveTerminal_spec:
  assumes inv: "core_inv s"
  shows "ResolveTerminal now cid r d s =
    (case call_phase s cid of
       Some InFlight \<Rightarrow> (True, snd (TransitionAndFinalize now (unat (GetSlotId cid)) cid IN_FLIGHT r s))
     | Some Arming \<Rightarrow>
         (case (d, PendingState (res_kind r)) of
            (True, Some p) \<Rightarrow> (True, upd_slot (unat (GetSlotId cid))
              (\<lambda>sl. sl\<lparr>sl_lifecycle := PackSlotLifecycle (GetVersion cid) p\<rparr>) s)
          | _ \<Rightarrow> (False, s))
     | _ \<Rightarrow> (False, s))"
proof (cases "SlotAt cid s")
  case None
  then show ?thesis using SlotAt_None_phase [OF None] by (simp add: ResolveTerminal_def)
next
  case (Some i)
  then have i: "i = unat (GetSlotId cid)" "i < Capacity s" by (simp_all add: SlotAt_Some)
  note cas = cas_lifecycle_phase [OF inv i, of ARMING Arming]
  have flight: "TransitionAndFinalize now i cid IN_FLIGHT r s =
      (True, snd (TransitionAndFinalize now i cid IN_FLIGHT r s))" if "call_phase s cid = Some InFlight"
    using TransitionAndFinalize_spec(1) [OF inv i, of IN_FLIGHT InFlight now r] that
    by (metis phase_of.simps(4) prod.collapse)
  have other: "TransitionAndFinalize now i cid IN_FLIGHT r s = (False, s)" if "call_phase s cid \<noteq> Some InFlight"
    using TransitionAndFinalize_spec(1,3) [OF inv i, of IN_FLIGHT InFlight now r] that
    by (metis phase_of.simps(4) prod.collapse)
  show ?thesis
  proof (cases "call_phase s cid = Some Arming")
    case True
    then show ?thesis
      using Some cas other by (simp add: ResolveTerminal_def Let_def i(1) split: bool.split option.split)
  next
    case False
    then have rt: "ResolveTerminal now cid r d s = TransitionAndFinalize now i cid IN_FLIGHT r s"
      using Some cas by (simp add: ResolveTerminal_def Let_def split: bool.split option.split)
    show ?thesis
    proof (cases "call_phase s cid = Some InFlight")
      case True
      show ?thesis unfolding rt by (subst flight [OF True]) (simp add: True i(1))
    next
      case no: False
      show ?thesis unfolding rt other [OF no] using no False by (auto split: option.split phase.split)
    qed
  qed
qed

lemma pending_rephased:
  assumes "slot_inv s" "call_phase s cid = Some Arming" "st \<noteq> IN_FLIGHT"
  shows "rephased cid st s (upd_slot (unat (GetSlotId cid))
    (\<lambda>sl. sl\<lparr>sl_lifecycle := PackSlotLifecycle (GetVersion cid) st\<rparr>) s)"
  unfolding rephased_def
  using assms by (intro exI [of _ "st_active_calls s"]) (auto simp: slot_inv_defs upd_slot_def)

section \<open>Publishing\<close>

lemma observed_lifecycle:
  assumes "core_inv s" "i < Capacity s"
  shows "SlotLifecycleVersion (sl_lifecycle (st_slots s ! i)) = slot_version (st_slots s ! i)"
    "SlotLifecycleState (sl_lifecycle (st_slots s ! i)) = Some (slot_state (st_slots s ! i))"
proof -
  have "sl_lifecycle (st_slots s ! i) =
      PackSlotLifecycle (slot_version (st_slots s ! i)) (slot_state (st_slots s ! i))"
    using slot_inv_wf [OF assms] by (simp add: slot_wf_def)
  then show "SlotLifecycleVersion (sl_lifecycle (st_slots s ! i)) = slot_version (st_slots s ! i)"
    "SlotLifecycleState (sl_lifecycle (st_slots s ! i)) = Some (slot_state (st_slots s ! i))"
    by (metis lifecycle_roundtrip(1), metis lifecycle_roundtrip(2))
qed

lemma finish_pending_spec:
  assumes inv: "core_inv s" and i: "i = unat (GetSlotId cid)" "i < Capacity s"
    and ph: "call_phase s cid \<noteq> Some Arming"
    and out: "finish_pending now i cid (sl_lifecycle (st_slots s ! i)) s = (outcome, s')"
  shows "outcome = (case call_phase s cid of Some CancelPending \<Rightarrow> kCanceled
      | Some TimeoutPending \<Rightarrow> kTimedOut | _ \<Rightarrow> kInvalid) \<and>
    (case outcome of kCanceled \<Rightarrow> resolved cid RPC_ECANCELED s s'
      | kTimedOut \<Rightarrow> resolved cid RPC_ETIMEOUT s s' | _ \<Rightarrow> s' = s)"
proof -
  define sl where "sl = st_slots s ! i"
  note obs = observed_lifecycle [OF inv i(2), folded sl_def]
  have phase: "call_phase s cid = (if slot_version sl = GetVersion cid then phase_of (slot_state sl) else None)"
    using i by (simp add: call_phase_def Let_def sl_def)
  have run: "resolved cid (res_error_code r) s (snd (TransitionAndFinalize now i cid (slot_state sl) r s)) \<and>
      fst (TransitionAndFinalize now i cid (slot_state sl) r s)"
    if "call_phase s cid = Some p" "phase_of (slot_state sl) = Some p" for p r
    using TransitionAndFinalize_spec(1,2) [OF inv i that(2)] that(1) by simp
  consider "slot_version sl \<noteq> GetVersion cid" | "slot_version sl = GetVersion cid" "slot_state sl = CANCEL_PENDING"
    | "slot_version sl = GetVersion cid" "slot_state sl = TIMEOUT_PENDING"
    | "slot_version sl = GetVersion cid" "slot_state sl \<notin> {CANCEL_PENDING, TIMEOUT_PENDING, ARMING}"
    using ph phase by fastforce
  then show ?thesis
  proof cases
    case 1
    then have "call_phase s cid = None" using phase by simp
    then show ?thesis using out 1 by (auto simp: finish_pending_def obs simp flip: sl_def)
  next
    case 2
    then show ?thesis
      using out run [of CancelPending "Resolution_Canceled ''RPC call canceled''"] phase
      by (cases "TransitionAndFinalize now i cid (slot_state sl) (Resolution_Canceled ''RPC call canceled'') s")
         (auto simp: finish_pending_def obs PendingResolution_def Resolution_Canceled_def simp flip: sl_def)
  next
    case 3
    then show ?thesis
      using out run [of TimeoutPending "Resolution_TimedOut ''RPC call timed out''"] phase
      by (cases "TransitionAndFinalize now i cid (slot_state sl) (Resolution_TimedOut ''RPC call timed out'') s")
         (auto simp: finish_pending_def obs PendingResolution_def Resolution_TimedOut_def simp flip: sl_def)
  next
    case 4
    then show ?thesis
      using out phase ph
      by (cases "slot_state sl") (auto simp: finish_pending_def obs PendingResolution_def simp flip: sl_def)
  qed
qed

fun publish_outcome :: "phase option \<Rightarrow> bool \<Rightarrow> PublishOutcome" where
  "publish_outcome (Some Arming) failed = (if failed then kFailed else kInFlight)"
| "publish_outcome (Some CancelPending) failed = kCanceled"
| "publish_outcome (Some TimeoutPending) failed = kTimedOut"
| "publish_outcome _ failed = kInvalid"

lemma PublishSlot_spec:
  assumes inv: "slot_inv s" and ph: "call_phase s cid \<noteq> Some InFlight"
    and out: "PublishSlot now cid s = (outcome, s')"
  shows "outcome = publish_outcome (call_phase s cid) (st_connection_failed s)"
    and "case outcome of
        kInFlight \<Rightarrow> rephased cid IN_FLIGHT s s'
      | kCanceled \<Rightarrow> resolved cid RPC_ECANCELED s s'
      | kTimedOut \<Rightarrow> resolved cid RPC_ETIMEOUT s s'
      | kFailed \<Rightarrow> resolved cid (st_connection_failure_code s) s s'
      | kInvalid \<Rightarrow> s' = s"
proof -
  have core: "core_inv s" using inv by (rule slot_inv_core)
  have "outcome = publish_outcome (call_phase s cid) (st_connection_failed s) \<and>
    (case outcome of
        kInFlight \<Rightarrow> rephased cid IN_FLIGHT s s'
      | kCanceled \<Rightarrow> resolved cid RPC_ECANCELED s s'
      | kTimedOut \<Rightarrow> resolved cid RPC_ETIMEOUT s s'
      | kFailed \<Rightarrow> resolved cid (st_connection_failure_code s) s s'
      | kInvalid \<Rightarrow> s' = s)"
  proof (cases "SlotAt cid s")
    case None
    then show ?thesis using out SlotAt_None_phase [OF None] by (simp add: PublishSlot_def)
  next
    case (Some i)
    then have i: "i = unat (GetSlotId cid)" "i < Capacity s" by (simp_all add: SlotAt_Some)
    note cas = cas_lifecycle_phase [OF core i, of ARMING Arming]
    have calls: "cid \<notin> set (st_active_calls s)" "distinct (st_active_calls s)"
      using active_call_phase [OF inv] ph inv by (simp_all add: slot_inv_defs)
    have same: "s\<lparr>st_active_calls := removeAll cid (List.insert cid (st_active_calls s))\<rparr> = s"
      using calls by simp
    show ?thesis
    proof (cases "st_connection_failed s")
      case True
      show ?thesis
      proof (cases "call_phase s cid = Some Arming")
        case arm: True
        from ApplyFailure_after_cas [OF core i(1) arm,
            of "Resolution_Failed (st_connection_failure_code s) (st_connection_failure_message s)"]
        show ?thesis
          using out Some cas arm True
          by (auto simp: PublishSlot_def RegisterPublishedSlot_def Let_def Resolution_Failed_def)
      next
        case False
        have "finish_pending now i cid (sl_lifecycle (st_slots s ! i)) s = (outcome, s')"
          using out Some cas False True by (simp add: PublishSlot_def RegisterPublishedSlot_def Let_def)
        from finish_pending_spec [OF core i False this] show ?thesis
          using False ph by (cases "call_phase s cid" rule: option.exhaust)
            (auto split: phase.splits PublishOutcome.splits)
      qed
    next
      case False
      define s1 where "s1 = s\<lparr>st_active_calls := List.insert cid (st_active_calls s)\<rparr>"
      have cas1: "cas_lifecycle i (PackSlotLifecycle (GetVersion cid) ARMING) l s1 =
          (call_phase s cid = Some Arming, sl_lifecycle (st_slots s ! i),
           if call_phase s cid = Some Arming then upd_slot i (\<lambda>sl. sl\<lparr>sl_lifecycle := l\<rparr>) s1 else s1)" for l
        using cas [of l] by (simp add: cas_lifecycle_def s1_def Let_def split: if_splits)
      show ?thesis
      proof (cases "call_phase s cid = Some Arming")
        case arm: True
        have "outcome = kInFlight" "s' = upd_slot i (\<lambda>sl. sl\<lparr>sl_lifecycle := PackSlotLifecycle (GetVersion cid) IN_FLIGHT\<rparr>) s1"
          using out Some cas1 arm False
          by (simp_all add: PublishSlot_def RegisterPublishedSlot_def Let_def TakeConnectionFailure_def
              upd_slot_def flip: s1_def) (auto simp: s1_def)
        then show ?thesis
          using arm False calls
          by (auto simp: rephased_def s1_def upd_slot_def i(1) intro!: exI [of _ "List.insert cid (st_active_calls s)"])
      next
        case no: False
        have "finish_pending now i cid (sl_lifecycle (st_slots s ! i)) s = (outcome, s')"
          using out Some cas1 no False same
          by (simp add: PublishSlot_def RegisterPublishedSlot_def Let_def UnregisterPublishedSlot_def
              flip: s1_def) (simp add: s1_def)
        from finish_pending_spec [OF core i no this] show ?thesis
          using no ph by (cases "call_phase s cid" rule: option.exhaust)
            (auto split: phase.splits PublishOutcome.splits)
      qed
    qed
  qed
  then show "outcome = publish_outcome (call_phase s cid) (st_connection_failed s)"
    "case outcome of
        kInFlight \<Rightarrow> rephased cid IN_FLIGHT s s'
      | kCanceled \<Rightarrow> resolved cid RPC_ECANCELED s s'
      | kTimedOut \<Rightarrow> resolved cid RPC_ETIMEOUT s s'
      | kFailed \<Rightarrow> resolved cid (st_connection_failure_code s) s s'
      | kInvalid \<Rightarrow> s' = s"
    by blast+
qed

section \<open>Discarding, deadlines\<close>

lemma DiscardArmingSlot_spec:
  assumes inv: "slot_inv s" and out: "DiscardArmingSlot cid s = (ok, s')"
  shows "ok = (call_phase s cid = Some Arming)"
    and "ok \<Longrightarrow> released cid s s' \<and> st_terminated s' = st_terminated s \<and>
      st_finalized s' = st_finalized s \<and> st_dispatched s' = st_dispatched s \<and>
      st_client_metrics s' = map_option (\<lambda>m. m\<lparr>cm_active_in_flight := cm_active_in_flight m - 1\<rparr>) (st_client_metrics s)"
    and "\<not> ok \<Longrightarrow> s' = s"
proof -
  have core: "core_inv s" using inv by (rule slot_inv_core)
  have "ok = (call_phase s cid = Some Arming) \<and> (\<not> ok \<longrightarrow> s' = s) \<and>
     (ok \<longrightarrow> released cid s s' \<and> st_terminated s' = st_terminated s \<and>
      st_finalized s' = st_finalized s \<and> st_dispatched s' = st_dispatched s \<and>
      st_client_metrics s' = map_option (\<lambda>m. m\<lparr>cm_active_in_flight := cm_active_in_flight m - 1\<rparr>) (st_client_metrics s))"
  proof (cases "SlotAt cid s")
    case None
    then show ?thesis using out SlotAt_None_phase [OF None] by (simp add: DiscardArmingSlot_def)
  next
    case (Some i)
    then have i: "i = unat (GetSlotId cid)" "i < Capacity s" by (simp_all add: SlotAt_Some)
    note cas = cas_lifecycle_phase [OF core i, of ARMING Arming]
    have "removeAll cid (st_active_calls s) = st_active_calls s" if "call_phase s cid = Some Arming"
      using active_call_phase [OF inv] that by (simp add: removeAll_id)
    then show ?thesis
      using out Some cas i
      by (auto simp: DiscardArmingSlot_def Let_def released_def upd_controller_def upd_slot_def
          split: bool.splits option.splits)
  qed
  then show "ok = (call_phase s cid = Some Arming)"
    "ok \<Longrightarrow> released cid s s' \<and> st_terminated s' = st_terminated s \<and>
      st_finalized s' = st_finalized s \<and> st_dispatched s' = st_dispatched s \<and>
      st_client_metrics s' = map_option (\<lambda>m. m\<lparr>cm_active_in_flight := cm_active_in_flight m - 1\<rparr>) (st_client_metrics s)"
    "\<not> ok \<Longrightarrow> s' = s" by blast+
qed

lemma slot_inv_same_lifecycle:
  assumes inv: "slot_inv s" and i: "i < Capacity s"
    and sl: "sl_lifecycle sl = sl_lifecycle (st_slots s ! i)" "sl_next_free sl = sl_next_free (st_slots s ! i)"
      "sl_executor sl = sl_executor (st_slots s ! i)"
  shows "slot_inv (s\<lparr>st_slots := (st_slots s)[i := sl]\<rparr>)"
    "call_phase (s\<lparr>st_slots := (st_slots s)[i := sl]\<rparr>) = call_phase s"
proof -
  have core: "core_inv s" using inv by (rule slot_inv_core)
  let ?sl = "(st_slots s)[i := sl]"
  have st: "slot_state (?sl ! j) = slot_state (st_slots s ! j)" "slot_version (?sl ! j) = slot_version (st_slots s ! j)"
    "sl_next_free (?sl ! j) = sl_next_free (st_slots s ! j)" for j
    using sl i by (simp_all add: nth_list_update slot_state_def slot_version_def)
  have "slot_wf sl" using slot_inv_wf [OF core i] sl by (simp add: slot_wf_def slot_state_def slot_version_def)
  then have "\<forall>x \<in> set ?sl. slot_wf x"
    using inv by (auto simp: slot_inv_defs dest!: set_update_subset_insert [THEN subsetD])
  moreover have "free_slots ?sl = free_slots (st_slots s)" "in_flight_cids ?sl = in_flight_cids (st_slots s)"
    by (simp_all add: free_slots_def in_flight_cids_def slot_cid_def st)
  moreover have "chain ?sl h fl = chain (st_slots s) h fl" for h fl
    by (rule chain_frame) (simp_all add: st)
  ultimately show "slot_inv (s\<lparr>st_slots := ?sl\<rparr>)" using inv by (simp add: slot_inv_defs)
  show "call_phase (s\<lparr>st_slots := ?sl\<rparr>) = call_phase s"
    by (rule ext) (simp add: call_phase_def Let_def st)
qed

lemma AttachDeadlineTimer_spec:
  assumes inv: "slot_inv s" and out: "AttachDeadlineTimer cid tid s = (ok, s')"
  shows "ok = (tid \<noteq> 0 \<and> call_phase s cid \<in> {Some Arming, Some CancelPending, Some TimeoutPending})"
    and "\<not> ok \<Longrightarrow> s' = s" and "slot_inv s'" "call_phase s' = call_phase s"
    and "ok \<Longrightarrow> sl_deadline_timer_id (st_slots s' ! unat (GetSlotId cid)) = tid"
    and "st_finalized s' = st_finalized s" "st_dispatched s' = st_dispatched s"
      "st_client_metrics s' = st_client_metrics s" "st_connection_failed s' = st_connection_failed s"
      "st_active_slots s' = st_active_slots s"
proof -
  have core: "core_inv s" using inv by (rule slot_inv_core)
  have "ok = (tid \<noteq> 0 \<and> call_phase s cid \<in> {Some Arming, Some CancelPending, Some TimeoutPending}) \<and>
    (s' = (if ok then upd_slot (unat (GetSlotId cid)) (\<lambda>sl. sl\<lparr>sl_deadline_timer_id := tid\<rparr>) s else s))"
  proof (cases "SlotAt cid s")
    case None
    then show ?thesis
      using out SlotAt_None_phase [OF None] by (auto simp: AttachDeadlineTimer_def split: if_splits)
  next
    case (Some i)
    then have i: "i = unat (GetSlotId cid)" "i < Capacity s" by (simp_all add: SlotAt_Some)
    have phase: "call_phase s cid = (if slot_version (st_slots s ! i) = GetVersion cid
        then phase_of (slot_state (st_slots s ! i)) else None)"
      using i by (simp add: call_phase_def Let_def)
    have "AttachDeadlineTimer cid tid s =
        (if tid = 0 \<or> slot_version (st_slots s ! i) \<noteq> GetVersion cid \<or>
            slot_state (st_slots s ! i) \<notin> {ARMING, CANCEL_PENDING, TIMEOUT_PENDING} then (False, s)
         else (True, upd_slot i (\<lambda>sl. sl\<lparr>sl_deadline_timer_id := tid\<rparr>) s))"
      using Some by (simp add: AttachDeadlineTimer_def Let_def observed_lifecycle [OF core i(2)])
    moreover have "call_phase s cid \<in> {Some Arming, Some CancelPending, Some TimeoutPending} \<longleftrightarrow>
        slot_version (st_slots s ! i) = GetVersion cid \<and>
        slot_state (st_slots s ! i) \<in> {ARMING, CANCEL_PENDING, TIMEOUT_PENDING}"
      unfolding phase by (cases "slot_state (st_slots s ! i)") simp_all
    ultimately show ?thesis using out unfolding i(1) by (simp split: if_splits)
  qed
  then have ok: "ok = (tid \<noteq> 0 \<and> call_phase s cid \<in> {Some Arming, Some CancelPending, Some TimeoutPending})"
    and s': "s' = (if ok then upd_slot (unat (GetSlotId cid)) (\<lambda>sl. sl\<lparr>sl_deadline_timer_id := tid\<rparr>) s else s)"
    by blast+
  then show "ok = (tid \<noteq> 0 \<and> call_phase s cid \<in> {Some Arming, Some CancelPending, Some TimeoutPending})"
    "\<not> ok \<Longrightarrow> s' = s" by auto
  have i: "unat (GetSlotId cid) < Capacity s" if ok
    using that ok call_phase_Some(1) by auto
  show "slot_inv s'" "call_phase s' = call_phase s"
    using slot_inv_same_lifecycle [OF inv i, of "(st_slots s ! unat (GetSlotId cid))\<lparr>sl_deadline_timer_id := tid\<rparr>"] inv
    by (cases ok; simp add: s' upd_slot_def)+
  show "ok \<Longrightarrow> sl_deadline_timer_id (st_slots s' ! unat (GetSlotId cid)) = tid"
    using i by (simp add: s' upd_slot_def)
  show "st_finalized s' = st_finalized s" "st_dispatched s' = st_dispatched s"
    "st_client_metrics s' = st_client_metrics s" "st_connection_failed s' = st_connection_failed s"
    "st_active_slots s' = st_active_slots s"
    by (simp_all add: s' upd_slot_def)
qed

section \<open>Allocation\<close>

lemma AllocateSlot_spec:
  assumes inv: "slot_inv s" and out: "AllocateSlot tk resp ctl ex raw mx s = (cid, s')"
  shows "(ex = None \<or> mx = 0 \<or> mx > Capacity s \<or> st_active_slots s \<ge> mx) \<and> cid = 0 \<and> s' = s \<or>
    ex \<noteq> None \<and> st_active_slots s < mx \<and> mx \<le> Capacity s \<and>
    slot_inv s' \<and> call_phase s cid = None \<and> call_phase s' = (call_phase s)(cid \<mapsto> Arming) \<and>
    st_active_slots s' = st_active_slots s + 1 \<and>
    GetVersion cid = slot_version (st_slots s ! unat (st_free_head s)) + 1 \<and> GetSlotId cid = st_free_head s \<and>
    st_slots s' = (st_slots s)[unat (GetSlotId cid) := (st_slots s ! unat (GetSlotId cid))
      \<lparr>sl_task := tk, sl_response_msg := resp, sl_controller := ctl, sl_raw_resp_body := raw,
       sl_executor := ex, sl_deadline_timer_id := 0, sl_lifecycle := PackSlotLifecycle (GetVersion cid) ARMING\<rparr>] \<and>
    st_finalized s' = st_finalized s \<and> st_dispatched s' = st_dispatched s \<and>
    st_connection_failed s' = st_connection_failed s \<and>
    st_client_metrics s' = map_option (\<lambda>m. m\<lparr>cm_active_in_flight := cm_active_in_flight m + 1\<rparr>) (st_client_metrics s)"
proof (cases "ex = None \<or> mx = 0 \<or> mx > Capacity s \<or> st_active_slots s \<ge> mx")
  case True
  then have "AllocateSlot tk resp ctl ex raw mx s = (0, s)"
    by (auto simp: AllocateSlot_def TryAcquireLiveSlot_def)
  then show ?thesis using out True by simp
next
  case False
  obtain fl where fl: "chain (st_slots s) (st_free_head s) fl" "distinct fl"
    "set fl = free_slots (st_slots s)" "st_active_slots s + length fl = Capacity s"
    using inv by (auto simp: slot_inv_defs)
  have cap: "Capacity s \<le> UINT32_MAX" "0 < Capacity s" using inv by (simp_all add: slot_inv_defs)
  obtain i fl' where fle: "fl = i # fl'" using fl(4) False by (cases fl) auto
  define h where "h = st_free_head s"
  have h: "h \<noteq> INVALID_SLOT" "unat h = i" "i < Capacity s" "of_nat i = h"
    "chain (st_slots s) (sl_next_free (st_slots s ! i)) fl'"
    using fl(1) by (auto simp: fle h_def)
  have free: "slot_state (st_slots s ! i) = FREE" using fl(3) by (auto simp: fle free_slots_def)
  define v where "v = slot_version (st_slots s ! i) + 1"
  define sl where "sl = (st_slots s ! i)\<lparr>sl_task := tk, sl_response_msg := resp, sl_controller := ctl, sl_raw_resp_body := raw,
       sl_executor := ex, sl_deadline_timer_id := 0, sl_lifecycle := PackSlotLifecycle v ARMING\<rparr>"
  have add: "add64 (st_active_slots s) 1 = st_active_slots s + 1"
    using fl(4) cap by (intro add64_exact) (simp add: UINT32_MAX_def SIZE_MAX_def)
  define s1 where "s1 = s\<lparr>st_active_slots := st_active_slots s + 1,
      st_free_head := sl_next_free (st_slots s ! i), st_slots := (st_slots s)[i := sl],
      st_client_metrics := map_option (\<lambda>m. m\<lparr>cm_active_in_flight := cm_active_in_flight m + 1\<rparr>) (st_client_metrics s)\<rparr>"
  obtain e where e: "ex = Some e" using False by auto
  have acq: "TryAcquireLiveSlot mx s = (True, s\<lparr>st_active_slots := st_active_slots s + 1\<rparr>)"
    using False add by (simp add: TryAcquireLiveSlot_def)
  have pop: "PopFreeSlot (s\<lparr>st_active_slots := n\<rparr>) =
      (h, s\<lparr>st_active_slots := n, st_free_head := sl_next_free (st_slots s ! i)\<rparr>)" for n
    using h by (simp add: PopFreeSlot_def Let_def flip: h_def)
  have "AllocateSlot tk resp ctl ex raw mx s = (MakeCorrelationId v h, s1)"
    using False h e
    by (simp add: AllocateSlot_def acq pop Let_def upd_slot_def
        upd_metrics_def Gauge_Add_def s1_def sl_def v_def slot_version_def)
  then have out': "cid = MakeCorrelationId v h" "s' = s1" using out by simp_all
  have sl: "slot_state sl = ARMING" "slot_version sl = v" "slot_wf sl"
    using False by (simp_all add: sl_def slot_state_def slot_version_def slot_wf_def)
  have i_fl': "i \<notin> set fl'" using fl(2) by (simp add: fle)
  have "chain (st_slots s1) (st_free_head s1) fl'"
    using h(5) chain_update [OF i_fl', of "st_slots s" sl] by (simp add: s1_def)
  moreover have "set fl' = free_slots (st_slots s1)"
    using fl(3) h(3) i_fl' sl(1) by (auto simp: s1_def free_slots_update fle)
  ultimately have "\<exists>fl. chain (st_slots s1) (st_free_head s1) fl \<and> distinct fl \<and>
      set fl = free_slots (st_slots s1) \<and> st_active_slots s1 + length fl = Capacity s1"
    using fl(2,4) by (intro exI [of _ fl']) (simp add: fle s1_def)
  moreover have "in_flight_cids (st_slots s1) = in_flight_cids (st_slots s)"
    using in_flight_update [OF h(3) cap(1), of sl] sl(1) free by (simp add: s1_def)
  moreover have "\<forall>x \<in> set (st_slots s1). slot_wf x"
    using inv sl(3) by (auto simp: s1_def slot_inv_defs dest!: set_update_subset_insert [THEN subsetD])
  ultimately have inv1: "slot_inv s1" using inv by (simp add: slot_inv_defs s1_def)
  have none: "call_phase s cid = None" using free h by (simp add: out' call_phase_def Let_def)
  have "call_phase s1 x = ((call_phase s)(cid \<mapsto> Arming)) x" for x
  proof (cases "unat (GetSlotId x) = i")
    case True
    then have "GetSlotId x = h" using h(4) by auto
    then have "x = cid \<longleftrightarrow> GetVersion x = v" by (metis correlation_id_roundtrip out'(1))
    then show ?thesis
      using True h(3) sl free by (auto simp: call_phase_def Let_def s1_def)
  next
    case False
    then have "x \<noteq> cid" using h(2) by (auto simp: out')
    then show ?thesis using False by (simp add: call_phase_def Let_def s1_def)
  qed
  then have ph: "call_phase s1 = (call_phase s)(cid \<mapsto> Arming)" by blast
  have ids: "GetVersion cid = v" "GetSlotId cid = h" by (simp_all add: out')
  have "st_active_slots s1 = st_active_slots s + 1" "st_slots s1 = (st_slots s)[i := sl]"
    "st_finalized s1 = st_finalized s" "st_dispatched s1 = st_dispatched s"
    "st_connection_failed s1 = st_connection_failed s"
    "st_client_metrics s1 = map_option (\<lambda>m. m\<lparr>cm_active_in_flight := cm_active_in_flight m + 1\<rparr>) (st_client_metrics s)"
    by (simp_all add: s1_def)
  then show ?thesis
    using False inv1 none ph ids h(2) unfolding out'(2) sl_def v_def h_def by auto
qed

section \<open>Responses\<close>

text \<open>The code with which a response completes a call.\<close>

definition parse_rejected :: "(bytes \<Rightarrow> bool \<times> 'm) \<Rightarrow> bytes \<Rightarrow> CallSlot \<Rightarrow> bool \<Rightarrow> bool" where
  "parse_rejected parse_msg body sl failed =
     (sl_response_msg sl \<noteq> None \<and> body \<noteq> [] \<and> \<not> failed \<and> \<not> fst (parse_msg body))"

definition completion_code ::
  "(bytes \<Rightarrow> bool \<times> 'm) \<Rightarrow> bytes \<Rightarrow> RpcMeta \<Rightarrow> CallSlot \<Rightarrow> (nat \<Rightarrow> RpcController) \<Rightarrow> int" where
  "completion_code parse_msg body m sl ctls =
     (case sl_controller sl of
        None \<Rightarrow> if parse_rejected parse_msg body sl False then RPC_EINVALID_DATA else m_error_code m
      | Some c \<Rightarrow>
          if m_error_code m \<noteq> RPC_SUCCESS then m_error_code m
          else if c_failed (ctls c) then c_error_code (ctls c)
          else if parse_rejected parse_msg body sl False then RPC_EINVALID_DATA else m_error_code m)"

lemma apply_response_meta_simps [simp]:
  "c_failed (apply_response_meta now cid m att k) = (c_failed k \<or> m_error_code m \<noteq> RPC_SUCCESS)"
  "c_error_code (apply_response_meta now cid m att k) =
     (if m_error_code m \<noteq> RPC_SUCCESS then m_error_code m else c_error_code k)"
  "c_notify_on_cancel (apply_response_meta now cid m att k) = c_notify_on_cancel k"
  by (simp_all add: apply_response_meta_def Let_def ClearActiveSlot_def SetFailed_def set_latency_us_def
      split: option.split)

lemma SetFailed_simps [simp]:
  "c_failed (SetFailed e r k)" "c_error_code (SetFailed e r k) = e"
  "c_notify_on_cancel (SetFailed e r k) = c_notify_on_cancel k"
  by (simp_all add: SetFailed_def)

lemma parse_response_body_prepared:
  assumes "prepared cid s sa" "parse_response_body parse_msg body sl code sa = (code', sb)"
  shows "prepared cid s sb" "st_slots sb = st_slots sa"
proof -
  obtain ok msg where p: "parse_msg body = (ok, msg)" by fastforce
  have "sb = sa\<lparr>st_messages := st_messages sb, st_controllers := st_controllers sb\<rparr> \<and>
      (\<forall>c. c_notify_on_cancel (st_controllers sb c) = c_notify_on_cancel (st_controllers sa c))"
    using assms(2)
    by (auto simp: parse_response_body_def p Let_def upd_controller_def split: option.splits if_splits)
  then obtain msgs ctls where sb: "sb = sa\<lparr>st_messages := msgs, st_controllers := ctls\<rparr>"
    "\<forall>c. c_notify_on_cancel (ctls c) = c_notify_on_cancel (st_controllers sa c)"
    by blast
  then show "prepared cid s sb" "st_slots sb = st_slots sa"
    using assms(1) by (simp_all add: prepared_def)
qed

lemma CompleteResponseSlot_spec:
  assumes inv: "core_inv s"
    and out: "CompleteResponseSlot parse_msg now cid body m att s = (outcome, s')"
  shows "outcome = (if unat (GetSlotId cid) \<ge> Capacity s then kUnknownCorrelationId
      else if call_phase s cid = Some InFlight then kCompleted else kLateResponse)"
    and "outcome = kUnknownCorrelationId \<Longrightarrow> s' = s\<lparr>st_unknown_correlation_id := st_unknown_correlation_id s + 1\<rparr>"
    and "outcome = kLateResponse \<Longrightarrow> s' = s\<lparr>st_late_response := st_late_response s + 1\<rparr>"
    and "outcome = kCompleted \<Longrightarrow>
      resolved cid (completion_code parse_msg body m (st_slots s ! unat (GetSlotId cid)) (st_controllers s)) s s'"
proof -
  define i where "i = unat (GetSlotId cid)"
  have "outcome = (if i \<ge> Capacity s then kUnknownCorrelationId
      else if call_phase s cid = Some InFlight then kCompleted else kLateResponse) \<and>
    (outcome = kUnknownCorrelationId \<longrightarrow> s' = s\<lparr>st_unknown_correlation_id := st_unknown_correlation_id s + 1\<rparr>) \<and>
    (outcome = kLateResponse \<longrightarrow> s' = s\<lparr>st_late_response := st_late_response s + 1\<rparr>) \<and>
    (outcome = kCompleted \<longrightarrow> resolved cid (completion_code parse_msg body m (st_slots s ! i) (st_controllers s)) s s')"
  proof (cases "i \<ge> Capacity s \<or> call_phase s cid \<noteq> Some InFlight")
    case True
    then show ?thesis
      using out cas_lifecycle_phase [OF inv i_def, of IN_FLIGHT InFlight]
      by (auto simp: CompleteResponseSlot_def Let_def simp flip: i_def)
  next
    case False
    then have i: "i < Capacity s" and live: "call_phase s cid = Some InFlight" by simp_all
    define sl where "sl = (st_slots s ! i)\<lparr>sl_lifecycle := PackSlotLifecycle (GetVersion cid) COMPLETED\<rparr>"
    define code where "code = completion_code parse_msg body m (st_slots s ! i) (st_controllers s)"
    have cas: "cas_lifecycle i (PackSlotLifecycle (GetVersion cid) IN_FLIGHT) (PackSlotLifecycle (GetVersion cid) COMPLETED) s =
        (True, sl_lifecycle (st_slots s ! i), s\<lparr>st_slots := (st_slots s)[i := sl]\<rparr>)"
      using cas_lifecycle_phase [OF inv i_def i, of IN_FLIGHT InFlight] live by (simp add: upd_slot_def sl_def)
    define s0 where "s0 = s\<lparr>st_slots := (st_slots s)[i := sl]\<rparr>"
    define sa where "sa = (case sl_controller sl of None \<Rightarrow> s0
        | Some c \<Rightarrow> upd_controller c (apply_response_meta now cid m att) s0)"
    obtain code1 sb where sb: "parse_response_body parse_msg body sl (m_error_code m) sa = (code1, sb)" by fastforce
    define sc where "sc = (case sl_raw_resp_body sl of None \<Rightarrow> sb
        | Some r \<Rightarrow> sb\<lparr>st_raw_bodies := (st_raw_bodies sb)(r := body)\<rparr>)"
    define s1 where "s1 = sc\<lparr>st_completed_responses := st_completed_responses sc + 1\<rparr>"
    have pa: "prepared cid s sa" "st_slots sa = (st_slots s)[i := sl]"
      by (auto simp: prepared_def sa_def s0_def upd_controller_def sl_def i_def split: option.split)
    have pb: "prepared cid s sb" "st_slots sb = st_slots sa"
      using parse_response_body_prepared [OF pa(1) sb] by simp_all
    have pc: "prepared cid s s1" "st_slots s1 = (st_slots s)[i := sl]"
      "st_controllers s1 = st_controllers sb"
      using pa(2) pb by (auto simp: prepared_def s1_def sc_def split: option.split)
    have sl: "s0 = s\<lparr>st_slots := (st_slots s)[i := sl]\<rparr>" "st_slots s0 ! i = sl" using i by (simp_all add: s0_def)
    have ctl: "sl_controller sl = sl_controller (st_slots s ! i)" "sl_response_msg sl = sl_response_msg (st_slots s ! i)"
      by (simp_all add: sl_def)
    have code': "(case sl_controller sl of None \<Rightarrow> code1
        | Some c \<Rightarrow> if slot_failed sl sc then c_error_code (st_controllers sc c) else code1) = code"
      using sb unfolding parse_response_body_def sa_def code_def completion_code_def parse_rejected_def ctl
      by (auto simp: slot_failed_def ctl s0_def upd_controller_def sc_def
          split: option.splits if_splits prod.splits)
    have s1: "outcome = kCompleted" "s' = FinalizeSlotAndDispatch i cid code s1"
      "prepared cid s s1" "st_slots s1 = (st_slots s)[i := sl]"
      using out False pc code'
      unfolding CompleteResponseSlot_def Let_def i_def [symmetric] cas
      by (simp_all add: sl(2) sb cong: option.case_cong if_cong flip: s0_def sa_def sc_def s1_def)
    have "resolved cid code s1 s'"
      unfolding s1(2) using s1(4) i live_executor [OF inv live]
      by (intro FinalizeSlotAndDispatch_resolved) (simp_all add: i_def sl_def)
    then have "resolved cid code s s'" using prepared_resolved [OF s1(3)] i by (simp add: i_def)
    then show ?thesis using False s1(1) by (simp add: code_def)
  qed
  then show "outcome = (if unat (GetSlotId cid) \<ge> Capacity s then kUnknownCorrelationId
      else if call_phase s cid = Some InFlight then kCompleted else kLateResponse)"
    "outcome = kUnknownCorrelationId \<Longrightarrow> s' = s\<lparr>st_unknown_correlation_id := st_unknown_correlation_id s + 1\<rparr>"
    "outcome = kLateResponse \<Longrightarrow> s' = s\<lparr>st_late_response := st_late_response s + 1\<rparr>"
    "outcome = kCompleted \<Longrightarrow>
      resolved cid (completion_code parse_msg body m (st_slots s ! unat (GetSlotId cid)) (st_controllers s)) s s'"
    by (simp_all add: i_def)
qed

lemma slot_inv_counters:
  assumes "slot_inv s"
  shows "slot_inv (s\<lparr>st_unknown_correlation_id := x\<rparr>)" "slot_inv (s\<lparr>st_late_response := y\<rparr>)"
    "call_phase (s\<lparr>st_unknown_correlation_id := x\<rparr>) = call_phase s"
    "call_phase (s\<lparr>st_late_response := y\<rparr>) = call_phase s"
  using assms by (auto simp: slot_inv_defs call_phase_def Let_def)

section \<open>The initial table\<close>

lemma slot_inv_new:
  assumes "0 < capacity" "capacity \<le> UINT32_MAX"
  shows "slot_inv (new_SlotTable capacity ctls msgs raws)" (is "slot_inv ?s")
    and "call_phase (new_SlotTable capacity ctls msgs raws) = Map.empty"
proof -
  let ?slots = "st_slots ?s"
  have len: "length ?slots = capacity" using assms by (simp add: new_SlotTable_def)
  have nth: "?slots ! i = empty_slot\<lparr>sl_next_free := (if i + 1 = capacity then INVALID_SLOT else of_nat (i + 1))\<rparr>"
    if "i < capacity" for i
    using that assms by (auto simp: new_SlotTable_def nth_append)
  have free: "slot_state (?slots ! i) = FREE" "slot_wf (?slots ! i)" if "i < capacity" for i
    using nth [OF that] by (simp_all add: empty_slot_def slot_state_def slot_wf_def slot_version_def)
  have ch: "chain ?slots (if i = capacity then INVALID_SLOT else of_nat i) [i..<capacity]" if "i \<le> capacity" for i
    using that
  proof (induction "capacity - i" arbitrary: i)
    case (Suc n)
    then have i: "i < capacity" by simp
    have "(of_nat i :: u32) \<noteq> INVALID_SLOT" "unat (of_nat i :: u32) = i"
    proof -
      show u: "unat (of_nat i :: u32) = i" using i assms by (simp add: unat_of_nat_u32)
      show "(of_nat i :: u32) \<noteq> INVALID_SLOT"
      proof
        assume "(of_nat i :: u32) = INVALID_SLOT"
        then have "i = UINT32_MAX" using u by (simp add: INVALID_SLOT_def UINT32_MAX_def)
        then show False using i assms by simp
      qed
    qed
    moreover have "chain ?slots (sl_next_free (?slots ! i)) [i + 1..<capacity]"
      using Suc.hyps(1) [of "i + 1"] Suc.hyps(2) i by (simp add: nth [OF i])
    ultimately show ?case using i len by (simp add: upt_conv_Cons)
  qed simp
  have "free_slots ?slots = {0..<capacity}" using free(1) len by (auto simp: free_slots_def)
  then have "\<exists>fl. chain ?slots (st_free_head ?s) fl \<and> distinct fl \<and> set fl = free_slots ?slots \<and>
      st_active_slots ?s + length fl = Capacity ?s"
    using ch [of 0] assms(1) len by (intro exI [of _ "[0..<capacity]"]) (simp add: new_SlotTable_def)
  moreover have "in_flight_cids ?slots = {}" using free(1) len by (auto simp: in_flight_cids_def)
  moreover have "\<forall>x \<in> set ?slots. slot_wf x" using free(2) len by (metis in_set_conv_nth)
  ultimately show "slot_inv ?s"
    using assms len by (simp add: slot_inv_defs) (simp add: new_SlotTable_def)
  show "call_phase ?s = Map.empty"
    using free(1) len by (intro ext) (simp add: call_phase_def Let_def)
qed

section \<open>Failing all active calls\<close>

lemma FailSlot_spec:
  assumes inv: "core_inv s" and out: "FailSlot now cid e msg s = (ok, s')"
  shows "ok = (call_phase s cid = Some InFlight)" "ok \<Longrightarrow> resolved cid e s s'" "\<not> ok \<Longrightarrow> s' = s"
proof -
  have "unat (GetSlotId cid) < Capacity s" if "call_phase s cid = Some InFlight"
    using call_phase_Some(1) [OF that] .
  then have res: "resolved cid e s
      (snd (TransitionAndFinalize now (unat (GetSlotId cid)) cid IN_FLIGHT (Resolution_Failed e msg) s))"
    if "call_phase s cid = Some InFlight"
    using TransitionAndFinalize_spec(2) [OF inv refl, of cid IN_FLIGHT InFlight "Resolution_Failed e msg" now] that
    by (simp add: Resolution_Failed_def)
  show "ok = (call_phase s cid = Some InFlight)" "ok \<Longrightarrow> resolved cid e s s'" "\<not> ok \<Longrightarrow> s' = s"
    using out res unfolding FailSlot_def ResolveTerminal_spec [OF inv]
    by (auto split: option.splits phase.splits)
qed

lemma fold_FailSlot:
  assumes "core_inv s" "distinct calls" "\<forall>c \<in> set calls. call_phase s c = Some InFlight"
    and "s' = fold (\<lambda>cid s. snd (FailSlot now cid e msg s)) calls s"
  shows "core_inv s' \<and> st_finalized s' = st_finalized s @ map (\<lambda>c. (c, e)) calls \<and>
    call_phase s' = (\<lambda>c. if c \<in> set calls then None else call_phase s c) \<and>
    set (st_active_calls s') \<subseteq> set (st_active_calls s) \<and>
    st_connection_failed s' = st_connection_failed s \<and>
    st_connection_failure_code s' = st_connection_failure_code s \<and>
    st_connection_failure_message s' = st_connection_failure_message s"
  using assms(1-3) unfolding assms(4)
proof (induction calls arbitrary: s)
  case (Cons c calls)
  obtain ok s1 where f: "FailSlot now c e msg s = (ok, s1)" by fastforce
  have live: "call_phase s c = Some InFlight" using Cons.prems(3) by simp
  have res: "resolved c e s s1" using FailSlot_spec [OF Cons.prems(1) f] live by simp
  note core = resolved_core [OF Cons.prems(1) live res]
  have rel: "st_finalized s1 = st_finalized s @ [(c, e)]" "set (st_active_calls s1) \<subseteq> set (st_active_calls s)"
    "st_connection_failed s1 = st_connection_failed s"
    "st_connection_failure_code s1 = st_connection_failure_code s"
    "st_connection_failure_message s1 = st_connection_failure_message s"
    using res by (auto simp: resolved_def released_def Let_def)
  have "\<forall>x \<in> set calls. call_phase s1 x = Some InFlight"
    using Cons.prems(2,3) core(2) by auto
  from Cons.IH [OF core(1) _ this] Cons.prems(2) rel show ?case
    by (auto simp: f core(2) fun_eq_iff)
qed auto

lemma FailAllActiveSlots_spec:
  assumes inv: "slot_inv s" and out: "FailAllActiveSlots now e msg s = (n, s')"
  shows "slot_inv s'" and "st_connection_failed s'"
    and "call_phase s' = (\<lambda>c. if call_phase s c = Some InFlight then None else call_phase s c)"
    and "st_finalized s' = st_finalized s @ map (\<lambda>c. (c, e)) (st_active_calls s)"
    and "n = length (st_active_calls s)"
    and "\<not> st_connection_failed s \<Longrightarrow> st_connection_failure_code s' = e"
proof -
  have calls: "set (st_active_calls s) = {c. call_phase s c = Some InFlight}"
    using inv in_flight_phase [OF slot_inv_core [OF inv]] by (simp add: slot_inv_def)
  have "slot_inv s' \<and> st_connection_failed s' \<and>
    call_phase s' = (\<lambda>c. if call_phase s c = Some InFlight then None else call_phase s c) \<and>
    st_finalized s' = st_finalized s @ map (\<lambda>c. (c, e)) (st_active_calls s) \<and>
    n = length (st_active_calls s) \<and> (\<not> st_connection_failed s \<longrightarrow> st_connection_failure_code s' = e)"
  proof (cases "st_connection_failed s")
    case True
    then have "st_active_calls s = []" using inv by (simp add: slot_inv_def)
    then show ?thesis
      using True out inv calls by (auto simp: FailAllActiveSlots_def)
  next
    case False
    define s1 where "s1 = s\<lparr>st_connection_failed := True, st_connection_failure_code := e,
        st_connection_failure_message := msg, st_active_calls := []\<rparr>"
    have s': "s' = fold (\<lambda>cid s. snd (FailSlot now cid e msg s)) (st_active_calls s) s1"
      "n = length (st_active_calls s)"
      using out False by (simp_all add: FailAllActiveSlots_def Let_def s1_def)
    have phase: "call_phase s1 = call_phase s" by (rule ext) (simp add: call_phase_def s1_def Let_def)
    have "core_inv s1" using slot_inv_core [OF inv] by (simp add: core_inv_def s1_def)
    moreover have "distinct (st_active_calls s)" using inv by (simp add: slot_inv_def)
    moreover have "\<forall>c \<in> set (st_active_calls s). call_phase s1 c = Some InFlight" using calls phase by simp
    ultimately have "core_inv s' \<and> st_finalized s' = st_finalized s1 @ map (\<lambda>c. (c, e)) (st_active_calls s) \<and>
      call_phase s' = (\<lambda>c. if c \<in> set (st_active_calls s) then None else call_phase s1 c) \<and>
      set (st_active_calls s') \<subseteq> set (st_active_calls s1) \<and>
      st_connection_failed s' = st_connection_failed s1 \<and>
      st_connection_failure_code s' = st_connection_failure_code s1"
      unfolding s'(1) using fold_FailSlot [OF _ _ _ refl, of s1 "st_active_calls s" now e msg] by blast
    then have res: "core_inv s'" "st_finalized s' = st_finalized s @ map (\<lambda>c. (c, e)) (st_active_calls s)"
      "call_phase s' = (\<lambda>c. if call_phase s c = Some InFlight then None else call_phase s c)"
      "st_active_calls s' = []" "st_connection_failed s'" "st_connection_failure_code s' = e"
      using calls phase by (auto simp: s1_def)
    then have "in_flight_cids (st_slots s') = {}" by (simp add: in_flight_phase)
    then show ?thesis using res s'(2) by (simp add: slot_inv_def)
  qed
  then show "slot_inv s'" "st_connection_failed s'"
    "call_phase s' = (\<lambda>c. if call_phase s c = Some InFlight then None else call_phase s c)"
    "st_finalized s' = st_finalized s @ map (\<lambda>c. (c, e)) (st_active_calls s)"
    "n = length (st_active_calls s)"
    "\<not> st_connection_failed s \<Longrightarrow> st_connection_failure_code s' = e" by blast+
qed

end
