(* ===== verification/Slot_Refinement.thy ===== *)
theory Slot_Refinement
  imports Slot_Invariants "HOL-Library.Multiset"
begin

text \<open>
  The slot table as a call ledger.  The abstract specification keeps, for every correlation id, the
  phase of the call, the failure that was announced for the connection, and the ledger of
  allocations, discards and completions.  Every operation of \<^verbatim>\<open>SlotTable\<close> refines one step of it, for
  runs of any length in which the environment may also write the controllers and the timer keeper;
  the conservation laws (each call completes once, each continuation is scheduled once) follow.
\<close>

section \<open>Abstract specification\<close>

record call_spec =
  cs_phase :: "u64 \<Rightarrow> phase option"
  cs_failed :: "int option"
  cs_completed :: "(u64 \<times> int) multiset"
  cs_allocated :: "u64 multiset"
  cs_discarded :: "u64 multiset"

definition spec_init :: call_spec where
  "spec_init = \<lparr>cs_phase = Map.empty, cs_failed = None, cs_completed = {#}, cs_allocated = {#}, cs_discarded = {#}\<rparr>"

datatype call_event =
  Allocated u64
| Published u64
| Discarded u64
| CancelAsked u64
| DeadlineHit u64
| Answered u64 int
| CallFailed u64 int
| ConnectionLost int
| Idle

definition spec_resolve :: "u64 \<Rightarrow> int \<Rightarrow> call_spec \<Rightarrow> call_spec" where
  "spec_resolve cid code a =
     a\<lparr>cs_phase := (cs_phase a)(cid := None), cs_completed := add_mset (cid, code) (cs_completed a)\<rparr>"

definition spec_defer :: "u64 \<Rightarrow> phase \<Rightarrow> int \<Rightarrow> call_spec \<Rightarrow> call_spec" where
  "spec_defer cid pending code a =
     (case cs_phase a cid of
        Some Arming \<Rightarrow> a\<lparr>cs_phase := (cs_phase a)(cid \<mapsto> pending)\<rparr>
      | Some InFlight \<Rightarrow> spec_resolve cid code a
      | _ \<Rightarrow> a)"

fun spec_step :: "call_event \<Rightarrow> call_spec \<Rightarrow> call_spec" where
  "spec_step (Allocated cid) a =
     a\<lparr>cs_phase := (cs_phase a)(cid \<mapsto> Arming), cs_allocated := add_mset cid (cs_allocated a)\<rparr>"
| "spec_step (Published cid) a =
     (case cs_phase a cid of
        Some Arming \<Rightarrow>
          (case cs_failed a of
             None \<Rightarrow> a\<lparr>cs_phase := (cs_phase a)(cid \<mapsto> InFlight)\<rparr>
           | Some code \<Rightarrow> spec_resolve cid code a)
      | Some CancelPending \<Rightarrow> spec_resolve cid RPC_ECANCELED a
      | Some TimeoutPending \<Rightarrow> spec_resolve cid RPC_ETIMEOUT a
      | _ \<Rightarrow> a)"
| "spec_step (Discarded cid) a =
     (if cs_phase a cid = Some Arming
      then a\<lparr>cs_phase := (cs_phase a)(cid := None), cs_discarded := add_mset cid (cs_discarded a)\<rparr> else a)"
| "spec_step (CancelAsked cid) a = spec_defer cid CancelPending RPC_ECANCELED a"
| "spec_step (DeadlineHit cid) a = spec_defer cid TimeoutPending RPC_ETIMEOUT a"
| "spec_step (Answered cid code) a = (if cs_phase a cid = Some InFlight then spec_resolve cid code a else a)"
| "spec_step (CallFailed cid code) a = (if cs_phase a cid = Some InFlight then spec_resolve cid code a else a)"
| "spec_step (ConnectionLost code) a =
     a\<lparr>cs_phase := (\<lambda>c. if cs_phase a c = Some InFlight then None else cs_phase a c),
       cs_failed := Some (case cs_failed a of None \<Rightarrow> code | Some first \<Rightarrow> first),
       cs_completed := cs_completed a + image_mset (\<lambda>c. (c, code)) (mset_set {c. cs_phase a c = Some InFlight})\<rparr>"
| "spec_step Idle a = a"

section \<open>Operations of the table as steps\<close>

text \<open>
  The calls a client can make.  \<open>OpController\<close> and \<open>OpTimerKeeper\<close> are writes of other threads to
  the objects the table shares with them.
\<close>

datatype table_op =
  OpAllocate ptr ptr ptr ptr ptr nat
| OpPublish int u64
| OpDiscard u64
| OpAttach u64 u64
| OpResponse int u64 bytes RpcMeta bytes
| OpTimeout int u64 string
| OpCancel int u64 string
| OpFail int u64 int string
| OpFailAll int int string
| OpController nat RpcController
| OpTimerKeeper TimerKeeper

fun table_exec :: "(bytes \<Rightarrow> bool \<times> 'm) \<Rightarrow> table_op \<Rightarrow> 'm SlotTable \<Rightarrow> 'm SlotTable" where
  "table_exec parse_msg (OpAllocate tk resp ctl ex raw mx) s = snd (AllocateSlot tk resp ctl ex raw mx s)"
| "table_exec parse_msg (OpPublish now cid) s = snd (PublishSlot now cid s)"
| "table_exec parse_msg (OpDiscard cid) s = snd (DiscardArmingSlot cid s)"
| "table_exec parse_msg (OpAttach cid tid) s = snd (AttachDeadlineTimer cid tid s)"
| "table_exec parse_msg (OpResponse now cid body m att) s = snd (CompleteResponseSlot parse_msg now cid body m att s)"
| "table_exec parse_msg (OpTimeout now cid msg) s = snd (TimeoutSlot now cid msg s)"
| "table_exec parse_msg (OpCancel now cid msg) s = snd (CancelSlot now cid msg s)"
| "table_exec parse_msg (OpFail now cid e msg) s = snd (FailSlot now cid e msg s)"
| "table_exec parse_msg (OpFailAll now e msg) s = snd (FailAllActiveSlots now e msg s)"
| "table_exec parse_msg (OpController c k) s = upd_controller c (\<lambda>_. k) s"
| "table_exec parse_msg (OpTimerKeeper k) s = SetDeadlineTimerKeeper k s"

text \<open>The abstract event of an operation in a state.\<close>

fun event_of :: "(bytes \<Rightarrow> bool \<times> 'm) \<Rightarrow> table_op \<Rightarrow> 'm SlotTable \<Rightarrow> call_event" where
  "event_of parse_msg (OpAllocate tk resp ctl ex raw mx) s =
     (if ex \<noteq> None \<and> st_active_slots s < mx \<and> mx \<le> Capacity s
      then Allocated (fst (AllocateSlot tk resp ctl ex raw mx s)) else Idle)"
| "event_of parse_msg (OpPublish now cid) s = Published cid"
| "event_of parse_msg (OpDiscard cid) s = Discarded cid"
| "event_of parse_msg (OpAttach cid tid) s = Idle"
| "event_of parse_msg (OpResponse now cid body m att) s =
     Answered cid (completion_code parse_msg body m (st_slots s ! unat (GetSlotId cid)) (st_controllers s))"
| "event_of parse_msg (OpTimeout now cid msg) s = DeadlineHit cid"
| "event_of parse_msg (OpCancel now cid msg) s = CancelAsked cid"
| "event_of parse_msg (OpFail now cid e msg) s = CallFailed cid e"
| "event_of parse_msg (OpFailAll now e msg) s = ConnectionLost e"
| "event_of parse_msg (OpController c k) s = Idle"
| "event_of parse_msg (OpTimerKeeper k) s = Idle"

text \<open>A call is published by the code that allocated it, once: never while it is in flight.\<close>

fun legal :: "table_op \<Rightarrow> 'm SlotTable \<Rightarrow> bool" where
  "legal (OpPublish now cid) s = (call_phase s cid \<noteq> Some InFlight)"
| "legal op s = True"

fun table_run :: "(bytes \<Rightarrow> bool \<times> 'm) \<Rightarrow> table_op list \<Rightarrow> 'm SlotTable \<Rightarrow> 'm SlotTable" where
  "table_run parse_msg [] s = s"
| "table_run parse_msg (op # ops) s = table_run parse_msg ops (table_exec parse_msg op s)"

fun run_events :: "(bytes \<Rightarrow> bool \<times> 'm) \<Rightarrow> table_op list \<Rightarrow> 'm SlotTable \<Rightarrow> call_event list" where
  "run_events parse_msg [] s = []"
| "run_events parse_msg (op # ops) s = event_of parse_msg op s # run_events parse_msg ops (table_exec parse_msg op s)"

fun legal_run :: "(bytes \<Rightarrow> bool \<times> 'm) \<Rightarrow> table_op list \<Rightarrow> 'm SlotTable \<Rightarrow> bool" where
  "legal_run parse_msg [] s = True"
| "legal_run parse_msg (op # ops) s = (legal op s \<and> legal_run parse_msg ops (table_exec parse_msg op s))"

section \<open>The refinement\<close>

text \<open>The part of the specification state that the table itself determines.\<close>

definition refines :: "'m SlotTable \<Rightarrow> call_spec \<Rightarrow> bool" where
  "refines s a =
     (cs_phase a = call_phase s \<and> cs_completed a = mset (st_finalized s) \<and>
      cs_failed a = (if st_connection_failed s then Some (st_connection_failure_code s) else None))"

lemma refines_resolve:
  assumes "slot_inv s" "call_phase s cid = Some p" "resolved cid code s s'" "refines s a"
  shows "slot_inv s'" "refines s' (spec_resolve cid code a)"
  using resolved_inv [OF assms(1-3)] assms(3,4)
  by (auto simp: refines_def spec_resolve_def resolved_def released_def Let_def)

lemma refines_rephase:
  assumes "slot_inv s" "call_phase s cid = Some Arming" "rephased cid st s s'" "phase_of st = Some q" "refines s a"
  shows "slot_inv s'" "refines s' (a\<lparr>cs_phase := (cs_phase a)(cid \<mapsto> q)\<rparr>)"
  using rephased_inv [OF assms(1-4)] assms(3,5)
  by (auto simp: refines_def rephased_def upd_slot_def)

lemma resolve_deferred:
  assumes inv: "slot_inv s" and ref: "refines s a"
    and r: "PendingState (res_kind r) = Some st" "phase_of st = Some q" "st \<noteq> IN_FLIGHT"
    and out: "ResolveTerminal now cid r True s = (ok, s')"
  shows "slot_inv s' \<and> refines s' (spec_defer cid q (res_error_code r) a)"
proof (cases "call_phase s cid = Some InFlight")
  case True
  have i: "unat (GetSlotId cid) < Capacity s" using call_phase_Some(1) [OF True] .
  have "resolved cid (res_error_code r) s s'"
    using TransitionAndFinalize_spec(2) [OF slot_inv_core [OF inv] refl i, of IN_FLIGHT InFlight r now] True out
    by (auto simp: ResolveTerminal_spec [OF slot_inv_core [OF inv]])
  then show ?thesis
    using refines_resolve [OF inv True _ ref] True ref by (simp add: spec_defer_def refines_def)
next
  case False
  show ?thesis
  proof (cases "call_phase s cid = Some Arming")
    case True
    then have "rephased cid st s s'"
      using pending_rephased [OF inv True r(3)] out r(1)
      by (auto simp: ResolveTerminal_spec [OF slot_inv_core [OF inv]])
    then show ?thesis
      using refines_rephase [OF inv True _ r(2) ref] True ref by (auto simp: spec_defer_def refines_def)
  next
    case nar: False
    then have "s' = s"
      using out False by (auto simp: ResolveTerminal_spec [OF slot_inv_core [OF inv]] split: option.splits phase.splits)
    then show ?thesis
      using inv ref False nar by (auto simp: spec_defer_def refines_def split: option.split phase.split)
  qed
qed

lemma publish_refines:
  assumes inv: "slot_inv s" and ref: "refines s a" and ph: "call_phase s cid \<noteq> Some InFlight"
    and out: "PublishSlot now cid s = (outcome, s')"
  shows "slot_inv s' \<and> refines s' (spec_step (Published cid) a)"
proof -
  note sp = PublishSlot_spec [OF inv ph out]
  have a: "cs_phase a = call_phase s"
    "cs_failed a = (if st_connection_failed s then Some (st_connection_failure_code s) else None)"
    using ref by (simp_all add: refines_def)
  show ?thesis
  proof (cases "call_phase s cid")
    case None
    then show ?thesis using sp inv ref by (simp add: a)
  next
    case (Some p)
    show ?thesis
    proof (cases p)
      case Arming
      show ?thesis
        using sp refines_resolve [OF inv Some _ ref] refines_rephase [OF inv _ _ _ ref, of cid IN_FLIGHT s' InFlight]
          Arming Some by (cases "st_connection_failed s") (simp_all add: a)
    next
      case CancelPending
      then show ?thesis using sp refines_resolve [OF inv Some _ ref] Some by (simp add: a)
    next
      case TimeoutPending
      then show ?thesis using sp refines_resolve [OF inv Some _ ref] Some by (simp add: a)
    next
      case InFlight
      then show ?thesis using ph Some by simp
    qed
  qed
qed

lemma allocate_refines:
  assumes inv: "slot_inv s" and ref: "refines s a"
  shows "slot_inv (table_exec p (OpAllocate tk resp ctl ex raw mx) s) \<and>
    refines (table_exec p (OpAllocate tk resp ctl ex raw mx) s)
      (spec_step (event_of p (OpAllocate tk resp ctl ex raw mx) s) a)"
proof -
  obtain cid s' where out: "AllocateSlot tk resp ctl ex raw mx s = (cid, s')" by fastforce
  have code: "st_connection_failure_code (snd (AllocateSlot tk resp ctl ex raw mx s)) = st_connection_failure_code s"
    by (simp add: AllocateSlot_def TryAcquireLiveSlot_def PopFreeSlot_def upd_slot_def upd_metrics_def Let_def)
  show ?thesis
  proof (cases "ex \<noteq> None \<and> st_active_slots s < mx \<and> mx \<le> Capacity s")
    case True
    then have ok: "slot_inv s'" "call_phase s' = (call_phase s)(cid \<mapsto> Arming)"
      "st_finalized s' = st_finalized s" "st_connection_failed s' = st_connection_failed s"
      using AllocateSlot_spec [OF inv out] by auto
    then show ?thesis using True ref code by (simp add: out refines_def)
  next
    case False
    then have "s' = s" using AllocateSlot_spec [OF inv out] by blast
    then show ?thesis using False inv ref by (auto simp: out refines_def)
  qed
qed

lemma discard_refines:
  assumes inv: "slot_inv s" and ref: "refines s a" and out: "DiscardArmingSlot cid s = (ok, s')"
  shows "slot_inv s' \<and> refines s' (spec_step (Discarded cid) a)"
proof (cases ok)
  case True
  then have live: "call_phase s cid = Some Arming" using DiscardArmingSlot_spec(1) [OF inv out] by simp
  have rel: "released cid s s'" "st_terminated s' = st_terminated s" "st_finalized s' = st_finalized s"
    using DiscardArmingSlot_spec(2) [OF inv out True] by simp_all
  from released_inv [OF inv live rel(1,2)] show ?thesis
    using live rel(1,3) ref by (auto simp: refines_def released_def Let_def)
next
  case False
  then have "s' = s" "call_phase s cid \<noteq> Some Arming"
    using DiscardArmingSlot_spec(1,3) [OF inv out] by simp_all
  then show ?thesis using inv ref by (simp add: refines_def)
qed

lemma response_refines:
  assumes inv: "slot_inv s" and ref: "refines s a"
    and out: "CompleteResponseSlot p now cid body m att s = (outcome, s')"
    and code: "code = completion_code p body m (st_slots s ! unat (GetSlotId cid)) (st_controllers s)"
  shows "slot_inv s' \<and> refines s' (spec_step (Answered cid code) a)"
proof (cases "call_phase s cid = Some InFlight")
  case True
  then have "outcome = kCompleted"
    using CompleteResponseSlot_spec(1) [OF slot_inv_core [OF inv] out] call_phase_Some(1) [OF True] by simp
  then have "resolved cid code s s'"
    using CompleteResponseSlot_spec(4) [OF slot_inv_core [OF inv] out] code by simp
  then show ?thesis using refines_resolve [OF inv True _ ref] True ref by (simp add: refines_def)
next
  case False
  then have "outcome \<noteq> kCompleted"
    using CompleteResponseSlot_spec(1) [OF slot_inv_core [OF inv] out] by simp
  then have "s' = s\<lparr>st_unknown_correlation_id := st_unknown_correlation_id s + 1\<rparr> \<or>
      s' = s\<lparr>st_late_response := st_late_response s + 1\<rparr>"
    using CompleteResponseSlot_spec(2,3) [OF slot_inv_core [OF inv] out] by (cases outcome) blast+
  then show ?thesis
  proof
    assume s': "s' = s\<lparr>st_unknown_correlation_id := st_unknown_correlation_id s + 1\<rparr>"
    show ?thesis using False ref slot_inv_counters(1,3) [OF inv] by (simp add: refines_def s')
  next
    assume s': "s' = s\<lparr>st_late_response := st_late_response s + 1\<rparr>"
    show ?thesis using False ref slot_inv_counters(2,4) [OF inv] by (simp add: refines_def s')
  qed
qed

lemma fail_refines:
  assumes inv: "slot_inv s" and ref: "refines s a" and out: "FailSlot now cid e msg s = (ok, s')"
  shows "slot_inv s' \<and> refines s' (spec_step (CallFailed cid e) a)"
  using FailSlot_spec [OF slot_inv_core [OF inv] out] refines_resolve [OF inv _ _ ref] inv ref
  by (cases ok) (auto simp: refines_def)

lemma fail_all_refines:
  assumes inv: "slot_inv s" and ref: "refines s a" and out: "FailAllActiveSlots now e msg s = (n, s')"
  shows "slot_inv s' \<and> refines s' (spec_step (ConnectionLost e) a)"
proof -
  note sp = FailAllActiveSlots_spec [OF inv out]
  have "set (st_active_calls s) = {c. call_phase s c = Some InFlight}" "distinct (st_active_calls s)"
    using active_call_phase [OF inv] inv by (auto simp: slot_inv_def)
  then have calls: "mset (st_active_calls s) = mset_set {c. call_phase s c = Some InFlight}"
    by (metis mset_set_set)
  have "st_connection_failure_code s' = (if st_connection_failed s then st_connection_failure_code s else e)"
    using sp(6) out by (auto simp: FailAllActiveSlots_def)
  moreover have "mset (st_finalized s') = mset (st_finalized s) +
      image_mset (\<lambda>c. (c, e)) (mset_set {c. call_phase s c = Some InFlight})"
    using sp(4) by (simp add: calls [symmetric])
  moreover have "cs_phase a = call_phase s" "cs_completed a = mset (st_finalized s)"
    "cs_failed a = (if st_connection_failed s then Some (st_connection_failure_code s) else None)"
    using ref by (simp_all add: refines_def)
  ultimately show ?thesis
    using sp(1-3) by (simp add: refines_def cong: if_cong)
qed

lemma environment_refines:
  assumes "slot_inv s" "refines s a"
  shows "slot_inv (upd_controller c f s) \<and> refines (upd_controller c f s) a"
    "slot_inv (SetDeadlineTimerKeeper k s) \<and> refines (SetDeadlineTimerKeeper k s) a"
  using assms by (auto simp: slot_inv_defs refines_def call_phase_def fun_eq_iff upd_controller_def
      SetDeadlineTimerKeeper_def Let_def)

lemma attach_refines:
  assumes inv: "slot_inv s" and ref: "refines s a" and out: "AttachDeadlineTimer cid tid s = (ok, s')"
  shows "slot_inv s' \<and> refines s' a"
proof -
  have "st_connection_failure_code (snd (AttachDeadlineTimer cid tid s)) = st_connection_failure_code s"
    by (simp add: AttachDeadlineTimer_def Let_def upd_slot_def split: option.split)
  then show ?thesis
    using AttachDeadlineTimer_spec(3,4,6,9) [OF inv out] ref by (simp add: refines_def out)
qed

lemma step_refines:
  assumes inv: "slot_inv s" and ref: "refines s a" and ok: "legal op s"
  shows "slot_inv (table_exec p op s) \<and> refines (table_exec p op s) (spec_step (event_of p op s) a)"
proof (cases op)
  case (OpAllocate tk resp ctl ex raw mx)
  then show ?thesis using allocate_refines [OF inv ref] by (simp del: spec_step.simps)
next
  case (OpPublish now cid)
  then show ?thesis
    using publish_refines [OF inv ref, of cid now] ok
    by (cases "PublishSlot now cid s") (simp del: spec_step.simps)
next
  case (OpDiscard cid)
  then show ?thesis
    using discard_refines [OF inv ref, of cid] by (cases "DiscardArmingSlot cid s") (simp del: spec_step.simps)
next
  case (OpAttach cid tid)
  then show ?thesis
    using attach_refines [OF inv ref, of cid tid] by (cases "AttachDeadlineTimer cid tid s") simp
next
  case (OpResponse now cid body m att)
  then show ?thesis
    using response_refines [OF inv ref _ refl, of p now cid body m att]
    by (cases "CompleteResponseSlot p now cid body m att s") (simp del: spec_step.simps)
next
  case (OpTimeout now cid msg)
  then show ?thesis
    using resolve_deferred [OF inv ref, of "Resolution_TimedOut msg" TIMEOUT_PENDING TimeoutPending now cid]
    by (cases "TimeoutSlot now cid msg s") (simp add: TimeoutSlot_def Resolution_TimedOut_def)
next
  case (OpCancel now cid msg)
  then show ?thesis
    using resolve_deferred [OF inv ref, of "Resolution_Canceled msg" CANCEL_PENDING CancelPending now cid]
    by (cases "CancelSlot now cid msg s") (simp add: CancelSlot_def Resolution_Canceled_def)
next
  case (OpFail now cid e msg)
  then show ?thesis
    using fail_refines [OF inv ref, of now cid e msg] by (cases "FailSlot now cid e msg s") (simp del: spec_step.simps)
next
  case (OpFailAll now e msg)
  then show ?thesis
    using fail_all_refines [OF inv ref, of now e msg]
    by (cases "FailAllActiveSlots now e msg s") (simp del: spec_step.simps)
qed (use environment_refines [OF inv ref] in simp_all)

text \<open>The specification state a table stands for, with empty accounts.\<close>

definition view :: "'m SlotTable \<Rightarrow> call_spec" where
  "view s = \<lparr>cs_phase = call_phase s,
     cs_failed = (if st_connection_failed s then Some (st_connection_failure_code s) else None),
     cs_completed = mset (st_finalized s), cs_allocated = {#}, cs_discarded = {#}\<rparr>"

lemma refines_view [simp]: "refines s (view s)"
  by (simp add: refines_def view_def)

lemma step_inv: "slot_inv s \<Longrightarrow> legal op s \<Longrightarrow> slot_inv (table_exec p op s)"
  using step_refines [of s "view s" op p] by simp

lemma run_refines:
  assumes "slot_inv s" "refines s a" "legal_run p ops s"
  shows "slot_inv (table_run p ops s) \<and> refines (table_run p ops s) (fold spec_step (run_events p ops s) a)"
  using assms
proof (induction ops arbitrary: s a)
  case (Cons op ops)
  have leg: "legal op s" "legal_run p ops (table_exec p op s)" using Cons.prems(3) by simp_all
  note st = step_refines [OF Cons.prems(1,2) leg(1), of p]
  from Cons.IH [OF conjunct1 [OF st] conjunct2 [OF st] leg(2)]
  show ?case by (simp only: table_run.simps run_events.simps fold_Cons comp_apply)
qed simp

section \<open>Conservation in the specification\<close>

definition ledger_balanced :: "call_spec \<Rightarrow> bool" where
  "ledger_balanced a =
     (cs_allocated a = image_mset fst (cs_completed a) + cs_discarded a + mset_set (dom (cs_phase a)))"

text \<open>Ids are handed out only when no live call has them.\<close>

fun fresh_event :: "call_event \<Rightarrow> call_spec \<Rightarrow> bool" where
  "fresh_event (Allocated cid) a = (cs_phase a cid = None)"
| "fresh_event e a = True"


lemma ledger_resolve:
  assumes "ledger_balanced a" "cs_phase a cid \<noteq> None"
  shows "ledger_balanced (spec_resolve cid code a)"
proof -
  have "mset_set (dom (cs_phase a)) = add_mset cid (mset_set (dom (cs_phase a) - {cid}))"
    using assms(2) by (intro mset_set.remove) auto
  then show ?thesis using assms(1) by (simp add: ledger_balanced_def spec_resolve_def)
qed

lemma ledger_rephase:
  assumes "ledger_balanced a" "cs_phase a cid \<noteq> None"
  shows "ledger_balanced (a\<lparr>cs_phase := (cs_phase a)(cid \<mapsto> q)\<rparr>)"
proof -
  have "insert cid (dom (cs_phase a)) = dom (cs_phase a)" using assms(2) by auto
  then show ?thesis using assms(1) by (simp add: ledger_balanced_def)
qed

lemma ledger_discard:
  assumes "ledger_balanced a" "cs_phase a cid \<noteq> None"
  shows "ledger_balanced
    (a\<lparr>cs_phase := (cs_phase a)(cid := None), cs_discarded := add_mset cid (cs_discarded a)\<rparr>)"
proof -
  have "mset_set (dom (cs_phase a)) = add_mset cid (mset_set (dom (cs_phase a) - {cid}))"
    using assms(2) by (intro mset_set.remove) auto
  then show ?thesis using assms(1) by (simp add: ledger_balanced_def)
qed

lemma ledger_connection_lost:
  assumes "ledger_balanced a"
  shows "ledger_balanced (spec_step (ConnectionLost code) a)"
proof -
  let ?F = "{c. cs_phase a c = Some InFlight}"
  let ?R = "dom (\<lambda>c. if cs_phase a c = Some InFlight then None else cs_phase a c)"
  have dom: "dom (cs_phase a) = ?F \<union> ?R" and disj: "?F \<inter> ?R = {}"
    by (auto simp: dom_def split: if_splits)
  have "mset_set (dom (cs_phase a)) = mset_set ?F + mset_set ?R"
    unfolding dom by (rule mset_set_Union [OF finite finite disj])
  then show ?thesis using assms by (simp add: ledger_balanced_def multiset.map_comp comp_def)
qed

lemma ledger_defer:
  assumes "ledger_balanced a"
  shows "ledger_balanced (spec_defer cid q code a)"
proof (cases "cs_phase a cid")
  case (Some p)
  then show ?thesis
    using assms ledger_resolve [OF assms, of cid code] ledger_rephase [OF assms, of cid q]
    by (cases p) (simp_all add: spec_defer_def)
qed (use assms in \<open>simp add: spec_defer_def\<close>)

lemma ledger_published:
  assumes "ledger_balanced a"
  shows "ledger_balanced (spec_step (Published cid) a)"
proof (cases "cs_phase a cid")
  case (Some p)
  then show ?thesis
    using assms ledger_resolve [OF assms, of cid] ledger_rephase [OF assms, of cid InFlight]
    by (cases p; cases "cs_failed a") simp_all
qed (use assms in simp)

lemma ledger_step:
  assumes bal: "ledger_balanced a" and fresh: "fresh_event e a"
  shows "ledger_balanced (spec_step e a)"
proof (cases e)
  case (Allocated cid)
  then have "cid \<notin> dom (cs_phase a)" using fresh by auto
  then show ?thesis using bal Allocated by (simp add: ledger_balanced_def)
next
  case (Published cid)
  then show ?thesis using ledger_published [OF bal] by (simp only:)
next
  case (ConnectionLost code)
  then show ?thesis using ledger_connection_lost [OF bal] by (simp only:)
next
  case (Discarded cid)
  then show ?thesis using bal ledger_discard [OF bal, of cid] by simp
next
  case (Answered cid code)
  then show ?thesis using bal ledger_resolve [OF bal, of cid code] by simp
next
  case (CallFailed cid code)
  then show ?thesis using bal ledger_resolve [OF bal, of cid code] by simp
qed (use bal ledger_defer [OF bal] in simp_all)

lemma event_fresh:
  assumes inv: "slot_inv s" and ref: "refines s a"
  shows "fresh_event (event_of p op s) a"
proof (cases op)
  case (OpAllocate tk resp ctl ex raw mx)
  obtain cid s' where out: "AllocateSlot tk resp ctl ex raw mx s = (cid, s')" by fastforce
  show ?thesis
  proof (cases "ex \<noteq> None \<and> st_active_slots s < mx \<and> mx \<le> Capacity s")
    case True
    then have "call_phase s cid = None" using AllocateSlot_spec [OF inv out] by auto
    then show ?thesis using True ref OpAllocate by (simp add: out refines_def)
  qed (use OpAllocate in auto)
qed simp_all

lemma run_balanced:
  assumes "slot_inv s" "refines s a" "legal_run p ops s" "ledger_balanced a"
  shows "ledger_balanced (fold spec_step (run_events p ops s) a)"
  using assms
proof (induction ops arbitrary: s a)
  case (Cons op ops)
  have leg: "legal op s" "legal_run p ops (table_exec p op s)" using Cons.prems(3) by simp_all
  note st = step_refines [OF Cons.prems(1,2) leg(1), of p]
  have "ledger_balanced (spec_step (event_of p op s) a)"
    using Cons.prems by (intro ledger_step event_fresh)
  from Cons.IH [OF conjunct1 [OF st] conjunct2 [OF st] leg(2) this]
  show ?case by (simp only: run_events.simps fold_Cons comp_apply)
qed simp

end
