(* ===== verification/Slot_Continuations.thy ===== *)
theory Slot_Continuations
  imports Slot_Refinement
begin

text \<open>
  What the slot table owes its callers: every coroutine handed to \<open>AllocateSlot\<close> is either still
  parked in a live slot, or was scheduled once on its executor, or was handed back by a discard.
  The same bookkeeping is followed for the in-flight gauge of the client metrics.
\<close>

section \<open>Parked and scheduled continuations\<close>

fun task_of_dispatch :: "dispatch \<Rightarrow> ptr" where
  "task_of_dispatch (ScheduleTask t) = Some t"
| "task_of_dispatch (ScheduleNotifyThenContinue n tk) = tk"

definition one :: "ptr \<Rightarrow> nat multiset" where
  "one p = (case p of None \<Rightarrow> {#} | Some t \<Rightarrow> {#t#})"

definition parked_in :: "CallSlot \<Rightarrow> nat multiset" where
  "parked_in sl = (if slot_state sl = FREE then {#} else one (sl_task sl))"

definition parked :: "CallSlot list \<Rightarrow> nat multiset" where
  "parked slots = sum_list (map parked_in slots)"

definition scheduled :: "(nat \<times> dispatch) list \<Rightarrow> nat multiset" where
  "scheduled ds = sum_list (map (\<lambda>d. one (task_of_dispatch (snd d))) ds)"

definition owed :: "'m SlotTable \<Rightarrow> nat multiset" where
  "owed s = scheduled (st_dispatched s) + parked (st_slots s)"

lemma one_simps [simp]: "one None = {#}" "one (Some t) = {#t#}"
  by (simp_all add: one_def)

lemma parked_update:
  assumes "i < length slots"
  shows "parked (slots[i := sl]) + parked_in (slots ! i) = parked slots + parked_in sl"
proof -
  have "parked slots = parked (take i slots) + parked_in (slots ! i) + parked (drop (Suc i) slots)"
    using arg_cong [OF id_take_nth_drop [OF assms], of parked] by (simp add: parked_def)
  moreover have "parked (slots[i := sl]) = parked (take i slots) + parked_in sl + parked (drop (Suc i) slots)"
    using assms by (simp add: parked_def upd_conv_take_nth_drop)
  ultimately show ?thesis by simp
qed

lemma parked_update_same:
  "i < length slots \<Longrightarrow> parked_in sl = parked_in (slots ! i) \<Longrightarrow> parked (slots[i := sl]) = parked slots"
  using parked_update [of i slots sl] by simp

lemma parked_freed [simp]: "parked_in (freed cid h sl) = {#}"
  by (simp add: parked_in_def)

lemma live_parked_in:
  "call_phase s cid = Some p \<Longrightarrow>
   parked_in (st_slots s ! unat (GetSlotId cid)) = one (sl_task (st_slots s ! unat (GetSlotId cid)))"
  using call_phase_Some(4) [of s cid p] by (auto simp: parked_in_def)

lemma scheduled_append [simp]: "scheduled (xs @ ys) = scheduled xs + scheduled ys"
  by (simp add: scheduled_def)

lemma scheduled_dispatch_of:
  "sl_executor sl \<noteq> None \<Longrightarrow> scheduled (dispatch_of ctls sl) = one (sl_task sl)"
  by (auto simp: scheduled_def dispatch_of_def split: option.split)

lemma live_has_executor:
  assumes "core_inv s" "call_phase s cid = Some p"
  shows "sl_executor (st_slots s ! unat (GetSlotId cid)) \<noteq> None"
proof -
  note ph = call_phase_Some [OF assms(2)]
  show ?thesis using slot_inv_wf [OF assms(1) ph(1)] ph(4) by (auto simp: slot_wf_def)
qed

lemma released_parked:
  assumes "call_phase s cid = Some p" "released cid s s'"
  shows "parked (st_slots s) = parked (st_slots s') + one (sl_task (st_slots s ! unat (GetSlotId cid)))"
  using parked_update [OF call_phase_Some(1) [OF assms(1)], of "freed cid (st_free_head s) _"] assms(2)
  by (simp add: released_def Let_def live_parked_in [OF assms(1)])

lemma resolved_owed:
  assumes "core_inv s" "call_phase s cid = Some p" "resolved cid code s s'"
  shows "owed s' = owed s"
proof -
  have "released cid s s'" "st_dispatched s' = st_dispatched s @
      dispatch_of (st_controllers s) (st_slots s ! unat (GetSlotId cid))"
    using assms(3) by (simp_all add: resolved_def)
  then show ?thesis
    using released_parked [OF assms(2)] scheduled_dispatch_of [OF live_has_executor [OF assms(1,2)]]
    by (simp add: owed_def)
qed

section \<open>Elementary moves\<close>

text \<open>
  Apart from allocation and discard, every operation is a sequence of moves: a call is resolved, a
  call changes its phase, or nothing that matters for the accounts below changes.
\<close>

definition frame :: "'m SlotTable \<Rightarrow> 'm SlotTable \<Rightarrow> bool" where
  "frame s s' =
     (map parked_in (st_slots s') = map parked_in (st_slots s) \<and> st_dispatched s' = st_dispatched s \<and>
      st_finalized s' = st_finalized s \<and> st_active_slots s' = st_active_slots s \<and>
      st_client_metrics s' = st_client_metrics s)"

inductive move :: "'m SlotTable \<Rightarrow> 'm SlotTable \<Rightarrow> bool" where
  move_resolve: "core_inv s \<Longrightarrow> call_phase s cid = Some p \<Longrightarrow> resolved cid code s s' \<Longrightarrow> move s s'"
| move_rephase: "call_phase s cid = Some p \<Longrightarrow> rephased cid st s s' \<Longrightarrow> phase_of st = Some q \<Longrightarrow> move s s'"
| move_frame: "frame s s' \<Longrightarrow> move s s'"

inductive_cases moveE: "move s s'"

lemma rephased_frame:
  assumes "call_phase s cid = Some p" "rephased cid st s s'" "phase_of st = Some q"
  shows "frame s s'"
proof -
  let ?i = "unat (GetSlotId cid)"
  let ?sl = "(st_slots s ! ?i)\<lparr>sl_lifecycle := PackSlotLifecycle (GetVersion cid) st\<rparr>"
  obtain calls where s': "s' = s\<lparr>st_slots := (st_slots s)[?i := ?sl], st_active_calls := calls\<rparr>"
    using assms(2) by (auto simp: rephased_def upd_slot_def)
  have "st \<noteq> FREE" using assms(3) by auto
  then have "parked_in ?sl = parked_in (st_slots s ! ?i)"
    using live_parked_in [OF assms(1)] by (simp add: parked_in_def)
  then have "map parked_in (st_slots s') = map parked_in (st_slots s)"
    using call_phase_Some(1) [OF assms(1)] by (simp add: s' map_update list_update_same_conv)
  then show ?thesis by (simp add: frame_def s')
qed

lemma move_owed: "move s s' \<Longrightarrow> owed s' = owed s"
proof (erule moveE)
  fix cid p st q assume "call_phase s cid = Some p" "rephased cid st s s'" "phase_of st = Some q"
  then have "frame s s'" by (rule rephased_frame)
  then show "owed s' = owed s" by (simp add: frame_def owed_def parked_def)
next
  assume "frame s s'"
  then show "owed s' = owed s" by (simp add: frame_def owed_def parked_def)
qed (rule resolved_owed)

text \<open>The gauge counts the live slots and the completion counter the finalized calls.\<close>

definition metrics_ok :: "'m SlotTable \<Rightarrow> bool" where
  "metrics_ok s =
     (\<forall>m. st_client_metrics s = Some m \<longrightarrow>
        cm_active_in_flight m = of_nat (st_active_slots s) \<and>
        cm_calls_completed m = of_nat (length (st_finalized s)) \<and> completions_partitioned m)"

lemma live_active:
  assumes inv: "core_inv s" and live: "call_phase s cid = Some p"
  shows "0 < st_active_slots s" "st_active_slots s \<le> UINT32_MAX"
proof -
  obtain fl where fl: "distinct fl" "set fl = free_slots (st_slots s)" "st_active_slots s + length fl = Capacity s"
    and cap: "Capacity s \<le> UINT32_MAX"
    using inv by (auto simp: core_inv_def)
  let ?i = "unat (GetSlotId cid)"
  have nf: "slot_state (st_slots s ! ?i) \<noteq> FREE" using call_phase_Some(4) [OF live] by auto
  have i: "?i < Capacity s" "?i \<notin> set fl"
    using call_phase_Some(1) [OF live] by (simp_all add: fl(2) free_slots_def nf)
  have "insert ?i (set fl) \<subseteq> {..<Capacity s}" using i(1) fl(2) by (simp add: free_slots_def subset_iff)
  from card_mono [OF finite_lessThan this] have "length fl < Capacity s"
    using i(2) by (simp add: distinct_card [OF fl(1)])
  then show "0 < st_active_slots s" using fl(3) by simp
  show "st_active_slots s \<le> UINT32_MAX" using fl(3) cap by simp
qed

lemma sub64_1: "0 < n \<Longrightarrow> n \<le> UINT32_MAX \<Longrightarrow> sub64 n 1 = n - 1"
  by (simp add: sub64_exact UINT32_MAX_def SIZE_MAX_def)

lemma of_nat_pred: "0 < n \<Longrightarrow> (of_nat (n - 1) :: u64) = of_nat n - 1"
  by (simp add: of_nat_diff)

lemma move_metrics:
  assumes ok: "metrics_ok s" and mv: "move s s'"
  shows "metrics_ok s'"
  using mv
proof (rule moveE)
  fix cid p code assume r: "core_inv s" "call_phase s cid = Some p" "resolved cid code s s'"
  then obtain lat where m: "st_client_metrics s' = map_option
      (\<lambda>m. (RecordCompletion code lat m)\<lparr>cm_active_in_flight := cm_active_in_flight m - 1\<rparr>) (st_client_metrics s)"
    and s': "st_finalized s' = st_finalized s @ [(cid, code)]" "st_active_slots s' = sub64 (st_active_slots s) 1"
    by (auto simp: resolved_def released_def Let_def)
  have act: "of_nat (st_active_slots s') = (of_nat (st_active_slots s) - 1 :: u64)"
    unfolding s'(2) using live_active [OF r(1,2)] by (simp only: sub64_1 of_nat_pred)
  have part: "completions_partitioned (x\<lparr>cm_active_in_flight := y\<rparr>) = completions_partitioned x" for x y
    by (simp add: completions_partitioned_def)
  show "metrics_ok s'"
    using ok by (auto simp: metrics_ok_def m act s'(1) part RecordCompletion_partitioned)
next
  fix cid p st q assume "call_phase s cid = Some p" "rephased cid st s s'" "phase_of st = Some q"
  then have "frame s s'" by (rule rephased_frame)
  then show "metrics_ok s'" using ok by (simp add: metrics_ok_def frame_def)
next
  assume "frame s s'"
  then show "metrics_ok s'" using ok by (simp add: metrics_ok_def frame_def)
qed

section \<open>Operations as moves\<close>

lemma resolve_moves:
  assumes inv: "slot_inv s"
    and r: "d \<Longrightarrow> \<exists>st q. PendingState (res_kind r) = Some st \<and> phase_of st = Some q \<and> st \<noteq> IN_FLIGHT"
  shows "move\<^sup>*\<^sup>* s (snd (ResolveTerminal now cid r d s))"
proof (cases "call_phase s cid = Some InFlight")
  case True
  have i: "unat (GetSlotId cid) < Capacity s" using call_phase_Some(1) [OF True] .
  have "resolved cid (res_error_code r) s (snd (ResolveTerminal now cid r d s))"
    using TransitionAndFinalize_spec(2) [OF slot_inv_core [OF inv] refl i, of IN_FLIGHT InFlight r now] True
    by (auto simp: ResolveTerminal_spec [OF slot_inv_core [OF inv]])
  then show ?thesis using move_resolve [OF slot_inv_core [OF inv] True] by blast
next
  case False
  show ?thesis
  proof (cases "call_phase s cid = Some Arming \<and> d")
    case True
    then obtain st q where st: "PendingState (res_kind r) = Some st" "phase_of st = Some q" "st \<noteq> IN_FLIGHT"
      using r by blast
    then have "rephased cid st s (snd (ResolveTerminal now cid r d s))"
      using pending_rephased [OF inv _ st(3), of cid] True
      by (auto simp: ResolveTerminal_spec [OF slot_inv_core [OF inv]])
    then show ?thesis using move_rephase True st(2) by blast
  next
    case nar: False
    then have "snd (ResolveTerminal now cid r d s) = s"
      using False by (auto simp: ResolveTerminal_spec [OF slot_inv_core [OF inv]] split: option.splits phase.splits)
    then show ?thesis by simp
  qed
qed

lemma publish_moves:
  assumes inv: "slot_inv s" and ph: "call_phase s cid \<noteq> Some InFlight"
    and out: "PublishSlot now cid s = (outcome, s')"
  shows "move\<^sup>*\<^sup>* s s'"
proof (cases "call_phase s cid")
  case None
  then show ?thesis using PublishSlot_spec [OF inv ph out] by simp
next
  case (Some p)
  note sp = PublishSlot_spec [OF inv ph out] and res = move_resolve [OF slot_inv_core [OF inv] Some]
  have "move s s'"
    using sp res move_rephase [OF Some, of IN_FLIGHT s' InFlight] Some ph
    by (cases p; cases "st_connection_failed s") simp_all
  then show ?thesis ..
qed

lemma response_moves:
  assumes inv: "slot_inv s" and out: "CompleteResponseSlot pm now cid body m att s = (outcome, s')"
  shows "move\<^sup>*\<^sup>* s s'"
proof -
  note sp = CompleteResponseSlot_spec [OF slot_inv_core [OF inv] out]
  have "move s s'"
  proof (cases outcome)
    case kCompleted
    then have "call_phase s cid = Some InFlight" using sp(1) by (simp split: if_splits)
    with sp(4) [OF kCompleted] show ?thesis using move_resolve [OF slot_inv_core [OF inv]] by blast
  next
    case kUnknownCorrelationId
    then show ?thesis using sp(2) by (auto intro!: move_frame simp: frame_def)
  next
    case kLateResponse
    then show ?thesis using sp(3) by (auto intro!: move_frame simp: frame_def)
  qed
  then show ?thesis ..
qed

lemma fold_fail_moves:
  assumes "core_inv s" "distinct calls" "\<forall>c \<in> set calls. call_phase s c = Some InFlight"
  shows "move\<^sup>*\<^sup>* s (fold (\<lambda>cid s. snd (FailSlot now cid e msg s)) calls s)"
  using assms
proof (induction calls arbitrary: s)
  case (Cons c calls)
  obtain ok s1 where f: "FailSlot now c e msg s = (ok, s1)" by fastforce
  have live: "call_phase s c = Some InFlight" using Cons.prems(3) by simp
  have res: "resolved c e s s1" using FailSlot_spec [OF Cons.prems(1) f] live by simp
  note core = resolved_core [OF Cons.prems(1) live res]
  have "\<forall>x \<in> set calls. call_phase s1 x = Some InFlight" using Cons.prems(2,3) core(2) by auto
  from Cons.IH [OF core(1) _ this] Cons.prems(2)
  show ?case
    using converse_rtranclp_into_rtranclp [of move, OF move_resolve [OF Cons.prems(1) live res]] by (simp add: f)
qed simp

lemma fail_all_moves:
  assumes inv: "slot_inv s"
  shows "move\<^sup>*\<^sup>* s (snd (FailAllActiveSlots now e msg s))"
proof (cases "st_connection_failed s")
  case False
  let ?s = "s\<lparr>st_connection_failed := True, st_connection_failure_code := e,
      st_connection_failure_message := msg, st_active_calls := []\<rparr>"
  have "core_inv ?s" using slot_inv_core [OF inv] by (simp add: core_inv_def)
  moreover have "distinct (st_active_calls s)" using inv by (simp add: slot_inv_def)
  moreover have "\<forall>c \<in> set (st_active_calls s). call_phase ?s c = Some InFlight"
  proof -
    have "call_phase ?s = call_phase s" by (rule ext) (simp add: call_phase_def Let_def)
    then show ?thesis using active_call_phase [OF inv] by simp
  qed
  ultimately have "move\<^sup>*\<^sup>* ?s (snd (FailAllActiveSlots now e msg s))"
    using fold_fail_moves [of ?s "st_active_calls s" now e msg] False
    by (simp only: FailAllActiveSlots_def Let_def if_False snd_conv)
  moreover have "move s ?s" by (rule move_frame) (simp add: frame_def)
  ultimately show ?thesis by (meson converse_rtranclp_into_rtranclp)
qed (simp add: FailAllActiveSlots_def)

section \<open>Accounts over runs\<close>

text \<open>The continuation an operation brings in, and the one it hands back.\<close>

fun task_in :: "table_op \<Rightarrow> 'm SlotTable \<Rightarrow> nat multiset" where
  "task_in (OpAllocate tk resp ctl ex raw mx) s =
     (if ex \<noteq> None \<and> st_active_slots s < mx \<and> mx \<le> Capacity s then one tk else {#})"
| "task_in op s = {#}"

fun task_back :: "table_op \<Rightarrow> 'm SlotTable \<Rightarrow> nat multiset" where
  "task_back (OpDiscard cid) s =
     (if fst (DiscardArmingSlot cid s) then one (sl_task (st_slots s ! unat (GetSlotId cid))) else {#})"
| "task_back op s = {#}"

fun run_sum :: "(table_op \<Rightarrow> 'm SlotTable \<Rightarrow> nat multiset) \<Rightarrow> (bytes \<Rightarrow> bool \<times> 'm) \<Rightarrow> table_op list \<Rightarrow>
    'm SlotTable \<Rightarrow> nat multiset" where
  "run_sum f parse_msg [] s = {#}"
| "run_sum f parse_msg (op # ops) s = f op s + run_sum f parse_msg ops (table_exec parse_msg op s)"

lemma moves_accounts:
  assumes "move\<^sup>*\<^sup>* s s'"
  shows "owed s' = owed s \<and> (metrics_ok s \<longrightarrow> metrics_ok s')"
  using assms by (induction rule: rtranclp_induct) (auto simp: move_owed move_metrics)

lemma allocate_accounts:
  assumes inv: "slot_inv s"
  shows "owed (table_exec p (OpAllocate tk resp ctl ex raw mx) s) =
      owed s + task_in (OpAllocate tk resp ctl ex raw mx) s \<and>
    (metrics_ok s \<longrightarrow> metrics_ok (table_exec p (OpAllocate tk resp ctl ex raw mx) s))"
proof (cases "ex \<noteq> None \<and> st_active_slots s < mx \<and> mx \<le> Capacity s")
  case True
  obtain cid s' where out: "AllocateSlot tk resp ctl ex raw mx s = (cid, s')" by fastforce
  let ?i = "unat (GetSlotId cid)"
  have refused: "\<not> (ex = None \<or> mx = 0 \<or> mx > Capacity s \<or> st_active_slots s \<ge> mx)" using True by auto
  have new: "call_phase s cid = None" "call_phase s' = (call_phase s)(cid \<mapsto> Arming)" "slot_inv s'"
    "st_slots s' = (st_slots s)[?i := (st_slots s ! ?i)
      \<lparr>sl_task := tk, sl_response_msg := resp, sl_controller := ctl, sl_raw_resp_body := raw,
       sl_executor := ex, sl_deadline_timer_id := 0, sl_lifecycle := PackSlotLifecycle (GetVersion cid) ARMING\<rparr>]"
    "st_dispatched s' = st_dispatched s" "st_finalized s' = st_finalized s"
    "st_active_slots s' = st_active_slots s + 1" "GetSlotId cid = st_free_head s"
    "st_client_metrics s' = map_option (\<lambda>m. m\<lparr>cm_active_in_flight := cm_active_in_flight m + 1\<rparr>) (st_client_metrics s)"
    using AllocateSlot_spec [OF inv out] refused by blast+
  have i: "?i < Capacity s"
    using call_phase_Some(1) [of s' cid Arming] new(2) by (simp add: new(4))
  obtain fl where fl: "chain (st_slots s) (st_free_head s) fl" "set fl = free_slots (st_slots s)"
    "st_active_slots s + length fl = Capacity s"
    using inv by (auto simp: slot_inv_defs)
  have "fl \<noteq> []" using fl(3) True by auto
  then have "?i \<in> set fl" using fl(1) new(8) by (cases fl) simp_all
  then have "slot_state (st_slots s ! ?i) = FREE" using fl(2) by (simp add: free_slots_def)
  then have "parked_in (st_slots s ! ?i) = {#}" by (simp add: parked_in_def)
  then have "parked (st_slots s') = parked (st_slots s) + one tk"
    using parked_update [OF i] by (simp add: new(4) parked_in_def)
  moreover have "metrics_ok s \<longrightarrow> metrics_ok s'"
    by (auto simp: metrics_ok_def new completions_partitioned_def)
  ultimately show ?thesis using True by (simp add: out owed_def new(5))
next
  case False
  obtain cid s' where out: "AllocateSlot tk resp ctl ex raw mx s = (cid, s')" by fastforce
  have "s' = s" using AllocateSlot_spec [OF inv out] False by blast
  then show ?thesis using False by (auto simp: out)
qed

lemma discard_accounts:
  assumes inv: "slot_inv s"
  shows "owed s = owed (snd (DiscardArmingSlot cid s)) + task_back (OpDiscard cid) s \<and>
    (metrics_ok s \<longrightarrow> metrics_ok (snd (DiscardArmingSlot cid s)))"
proof -
  obtain won s' where out: "DiscardArmingSlot cid s = (won, s')" by fastforce
  show ?thesis
  proof (cases won)
    case True
    then have live: "call_phase s cid = Some Arming" using DiscardArmingSlot_spec(1) [OF inv out] by simp
    have eff: "released cid s s'" "st_finalized s' = st_finalized s" "st_dispatched s' = st_dispatched s"
      "st_client_metrics s' = map_option (\<lambda>m. m\<lparr>cm_active_in_flight := cm_active_in_flight m - 1\<rparr>) (st_client_metrics s)"
      using DiscardArmingSlot_spec(2) [OF inv out True] by simp_all
    then have "of_nat (st_active_slots s') = (of_nat (st_active_slots s) - 1 :: u64)"
      using live_active [OF slot_inv_core [OF inv] live] by (simp only: released_def Let_def sub64_1 of_nat_pred)
    then have "metrics_ok s \<longrightarrow> metrics_ok s'" by (auto simp: metrics_ok_def eff completions_partitioned_def)
    then show ?thesis using released_parked [OF live eff(1)] True by (simp add: out owed_def eff(3))
  next
    case False
    then have "s' = s" using DiscardArmingSlot_spec(3) [OF inv out] by simp
    then show ?thesis using False by (simp add: out)
  qed
qed

lemma step_moves:
  assumes inv: "slot_inv s" and leg: "legal op s"
    and op: "\<forall>tk resp ctl ex raw mx. op \<noteq> OpAllocate tk resp ctl ex raw mx" "\<forall>cid. op \<noteq> OpDiscard cid"
  shows "move\<^sup>*\<^sup>* s (table_exec p op s)"
proof (cases op)
  case (OpPublish now cid)
  then show ?thesis
    using publish_moves [OF inv, of cid now] leg by (cases "PublishSlot now cid s") simp
next
  case (OpAttach cid tid)
  have "frame s (snd (AttachDeadlineTimer cid tid s))"
    by (auto simp: AttachDeadlineTimer_def Let_def frame_def upd_slot_def map_update parked_in_def SlotAt_Some
        list_update_same_conv split: option.split)
  then show ?thesis using OpAttach move_frame by fastforce
next
  case (OpResponse now cid body m att)
  then show ?thesis
    using response_moves [OF inv, of p now cid body m att]
    by (cases "CompleteResponseSlot p now cid body m att s") simp
next
  case (OpTimeout now cid msg)
  then show ?thesis
    using resolve_moves [OF inv, of True "Resolution_TimedOut msg"]
    by (simp add: TimeoutSlot_def Resolution_TimedOut_def)
next
  case (OpCancel now cid msg)
  then show ?thesis
    using resolve_moves [OF inv, of True "Resolution_Canceled msg"]
    by (simp add: CancelSlot_def Resolution_Canceled_def)
next
  case (OpFail now cid e msg)
  then show ?thesis using resolve_moves [OF inv, of False] by (simp add: FailSlot_def)
next
  case (OpFailAll now e msg)
  then show ?thesis using fail_all_moves [OF inv] by simp
next
  case (OpController c k)
  have "frame s (table_exec p op s)" by (simp add: OpController frame_def upd_controller_def)
  then show ?thesis using move_frame by fastforce
next
  case (OpTimerKeeper k)
  have "frame s (table_exec p op s)" by (simp add: OpTimerKeeper frame_def SetDeadlineTimerKeeper_def)
  then show ?thesis using move_frame by fastforce
qed (use op in blast)+

lemma step_accounts:
  assumes inv: "slot_inv s" and leg: "legal op s" and ok: "metrics_ok s"
  shows "owed s + task_in op s = owed (table_exec p op s) + task_back op s \<and> metrics_ok (table_exec p op s)"
proof -
  consider (alloc) tk resp ctl ex raw mx where "op = OpAllocate tk resp ctl ex raw mx"
    | (disc) cid where "op = OpDiscard cid"
    | (other) "\<forall>tk resp ctl ex raw mx. op \<noteq> OpAllocate tk resp ctl ex raw mx" "\<forall>cid. op \<noteq> OpDiscard cid"
    by blast
  then show ?thesis
  proof cases
    case alloc
    then show ?thesis using allocate_accounts [OF inv, where p = p] ok by simp
  next
    case disc
    then show ?thesis using discard_accounts [OF inv] ok by simp
  next
    case other
    then have "task_in op s = {#}" "task_back op s = {#}" by (cases op; simp)+
    then show ?thesis using moves_accounts [OF step_moves [OF inv leg other]] ok by simp
  qed
qed

lemma run_accounts:
  assumes "slot_inv s" "legal_run p ops s" "metrics_ok s"
  shows "owed s + run_sum task_in p ops s = owed (table_run p ops s) + run_sum task_back p ops s \<and>
    metrics_ok (table_run p ops s)"
  using assms
proof (induction ops arbitrary: s)
  case (Cons op ops)
  have leg: "legal op s" "legal_run p ops (table_exec p op s)" using Cons.prems(2) by simp_all
  have "slot_inv (table_exec p op s)" by (rule step_inv [OF Cons.prems(1) leg(1)])
  note ih = Cons.IH [OF this leg(2)]
  note st = step_accounts [OF Cons.prems(1) leg(1) Cons.prems(3), of p]
  show ?case using ih st by (metis (no_types, lifting) add.assoc add.commute run_sum.simps(2) table_run.simps(2))
qed simp

end
