(* ===== verification/Slot_Contract.thy ===== *)
theory Slot_Contract
  imports Slot_Continuations
begin

text \<open>
  The contract of the slot table with the rest of the client: the interface through which a
  controller cancels a call (\<^verbatim>\<open>RpcCallCancellationTarget\<close>), its interpretation on \<open>CancelSlot\<close>, and
  the properties of runs of the table.
\<close>

section \<open>The cancellation target\<close>

text \<open>Delivery of the calls a controller makes to the target \<open>t\<close>.\<close>

fun deliver :: "nat \<Rightarrow> (u64 \<Rightarrow> 's \<Rightarrow> bool \<times> 's) \<Rightarrow> controller_event list \<Rightarrow> 's \<Rightarrow> 's" where
  "deliver t cancel [] s = s"
| "deliver t cancel (CallCancelRpcSlot t' cid # evs) s =
     deliver t cancel evs (if t' = t then snd (cancel cid s) else s)"
| "deliver t cancel (RunClosure cb # evs) s = deliver t cancel evs s"

fun canceled_phase :: "phase option \<Rightarrow> phase option" where
  "canceled_phase (Some Arming) = Some CancelPending"
| "canceled_phase (Some InFlight) = None"
| "canceled_phase p = p"

locale cancellation_target =
  fixes inv :: "'s \<Rightarrow> bool" and phase :: "'s \<Rightarrow> u64 \<Rightarrow> phase option" and cancel :: "u64 \<Rightarrow> 's \<Rightarrow> bool \<times> 's"
  assumes cancel_inv: "inv s \<Longrightarrow> inv (snd (cancel cid s))"
    and cancel_phase: "inv s \<Longrightarrow> phase (snd (cancel cid s)) = (phase s)(cid := canceled_phase (phase s cid))"
    and cancel_result: "inv s \<Longrightarrow> fst (cancel cid s) = (phase s cid = Some Arming \<or> phase s cid = Some InFlight)"
begin

lemma deliver_inv: "inv s \<Longrightarrow> inv (deliver t cancel evs s)"
proof (induction evs arbitrary: s)
  case (Cons e evs)
  then show ?case by (cases e) (auto simp: cancel_inv)
qed simp

lemma start_cancel_phase:
  assumes "inv s" "alive t" "c_active_slot c = Some \<lparr>as_target = t, as_correlation_id = cid\<rparr>"
  shows "phase (deliver t cancel (snd (StartCancel alive c)) s) =
    (phase s)(cid := canceled_phase (phase s cid))"
  using assms
  by (auto simp: StartCancel_def RequestCancel_def RunNotifyCallback_def TakeNotifyOnCancellation_def Let_def
      cancel_phase split: option.split)

lemma bind_canceled_phase:
  assumes "inv s" "alive t" "c_active_slot c = None" "c_cancel_requested c"
  shows "phase (deliver t cancel (snd (snd (BindActiveSlot alive t cid c))) s) =
    (phase s)(cid := canceled_phase (phase s cid))"
  using assms by (simp add: BindActiveSlot_def RequestCancel_def Let_def cancel_phase)

lemma cancel_idempotent:
  assumes "inv s"
  shows "\<not> fst (cancel cid (snd (cancel cid s))) \<and>
    phase (snd (cancel cid (snd (cancel cid s)))) = phase (snd (cancel cid s))"
  using assms
  by (cases "phase s cid" rule: canceled_phase.cases) (auto simp: cancel_inv cancel_phase cancel_result)

end

lemma CancelSlot_spec:
  assumes inv: "slot_inv s"
  shows "slot_inv (snd (CancelSlot now cid msg s))"
    and "call_phase (snd (CancelSlot now cid msg s)) = (call_phase s)(cid := canceled_phase (call_phase s cid))"
    and "fst (CancelSlot now cid msg s) = (call_phase s cid = Some Arming \<or> call_phase s cid = Some InFlight)"
    and "call_phase s cid = Some InFlight \<Longrightarrow>
      st_finalized (snd (CancelSlot now cid msg s)) = st_finalized s @ [(cid, RPC_ECANCELED)]"
proof -
  let ?s = "snd (CancelSlot now cid msg s)"
  have st: "slot_inv ?s \<and> refines ?s (spec_step (CancelAsked cid) (view s))"
    using step_refines [OF inv refines_view, of "OpCancel now cid msg" undefined] by simp
  then show "slot_inv ?s" by blast
  show "call_phase ?s = (call_phase s)(cid := canceled_phase (call_phase s cid))"
    using st
    by (cases "call_phase s cid" rule: canceled_phase.cases)
       (simp_all add: refines_def spec_defer_def spec_resolve_def view_def fun_upd_idem)
  show "fst (CancelSlot now cid msg s) = (call_phase s cid = Some Arming \<or> call_phase s cid = Some InFlight)"
    by (auto simp: CancelSlot_def ResolveTerminal_spec [OF slot_inv_core [OF inv]] Resolution_Canceled_def
        split: option.splits phase.splits)
  assume live: "call_phase s cid = Some InFlight"
  then have "unat (GetSlotId cid) < Capacity s" by (rule call_phase_Some)
  then have "resolved cid RPC_ECANCELED s ?s"
    using TransitionAndFinalize_spec(2) [OF slot_inv_core [OF inv] refl, of cid IN_FLIGHT InFlight
        "Resolution_Canceled msg" now] live
    by (simp add: CancelSlot_def ResolveTerminal_spec [OF slot_inv_core [OF inv]] Resolution_Canceled_def)
  then show "st_finalized ?s = st_finalized s @ [(cid, RPC_ECANCELED)]" by (simp add: resolved_def)
qed

interpretation slot_target: cancellation_target slot_inv call_phase "\<lambda>cid. CancelSlot now cid msg" for now msg
  by unfold_locales (rule CancelSlot_spec; assumption)+

section \<open>Properties\<close>

text \<open>
  A sample run: two calls are allocated, the first is published, the second is cancelled while it
  arms and then published, and the connection is lost.
\<close>

definition sample_ops :: "table_op list" where
  "sample_ops =
     [OpAllocate (Some 7) None None (Some 1) None 2, OpPublish 0 (MakeCorrelationId 1 0),
      OpAllocate (Some 8) None None (Some 1) None 2, OpCancel 5 (MakeCorrelationId 1 1) ''stop'',
      OpPublish 6 (MakeCorrelationId 1 1), OpFailAll 9 RPC_ECONN_FAILED ''gone'']"

definition sample_table :: "bytes SlotTable" where
  "sample_table = SetClientMetrics new_ClientMetrics (new_SlotTable 2 (\<lambda>_. new_RpcController 0) (\<lambda>_. []) (\<lambda>_. []))"


text \<open>Evaluation of concrete runs by rewriting.\<close>

lemmas slot_eval = new_SlotTable_def SetClientMetrics_def empty_slot_def INVALID_SLOT_def Let_def
  AllocateSlot_def TryAcquireLiveSlot_def PopFreeSlot_def add64_def sub64_def upd_slot_def upd_metrics_def
  PublishSlot_def SlotAt_def cas_lifecycle_def RegisterPublishedSlot_def TakeConnectionFailure_def
  CancelSlot_def ResolveTerminal_def Resolution_Canceled_def TransitionAndFinalize_def finish_pending_def
  PendingResolution_def ApplyFailureAndFinalize_def FinalizeSlotAndDispatch_def UnregisterPublishedSlot_def
  CancelDeadlineTimer_def PushFreeSlot_def ReleaseLiveSlot_def FailAllActiveSlots_def FailSlot_def
  Resolution_Failed_def call_phase_def slot_version_def slot_state_def

lemma sample_legal: "legal_run (\<lambda>b. (True, b)) sample_ops sample_table"
  by (simp add: sample_ops_def sample_table_def slot_eval)

lemma sample_table_ok: "slot_inv sample_table" "metrics_ok sample_table"
proof -
  have "slot_inv (new_SlotTable 2 (\<lambda>_. new_RpcController 0) (\<lambda>_. [] :: bytes) (\<lambda>_. []))"
    by (rule slot_inv_new) (simp_all add: UINT32_MAX_def)
  then show "slot_inv sample_table" by (simp add: sample_table_def SetClientMetrics_def slot_inv_defs)
  show "metrics_ok sample_table"
    by (simp add: metrics_ok_def sample_table_def SetClientMetrics_def new_SlotTable_def new_ClientMetrics_def
        completions_partitioned_def new_LatencyRecorder_def)
qed

lemma fresh_refines:
  "0 < capacity \<Longrightarrow> capacity \<le> UINT32_MAX \<Longrightarrow> refines (new_SlotTable capacity ctls msgs raws) spec_init"
  using slot_inv_new(2) [of capacity ctls msgs raws]
  by (simp add: refines_def spec_init_def) (simp add: new_SlotTable_def)

text \<open>
  C11: refinement.  Any run of table operations, in any order and with any writes of other threads to
  the controllers in between, from a fresh table implements the abstract ledger: the phase of every
  call, the announced connection failure and the completions are those of the specification.
\<close>

theorem slot_run_refines_ledger:
  assumes "0 < capacity" "capacity \<le> UINT32_MAX" "legal_run p ops (new_SlotTable capacity ctls msgs raws)"
  shows "slot_inv (table_run p ops (new_SlotTable capacity ctls msgs raws)) \<and>
    refines (table_run p ops (new_SlotTable capacity ctls msgs raws))
      (fold spec_step (run_events p ops (new_SlotTable capacity ctls msgs raws)) spec_init)"
  by (rule run_refines [OF slot_inv_new(1) [OF assms(1,2)] fresh_refines [OF assms(1,2)] assms(3)])

definition sample_fresh :: "bytes SlotTable" where
  "sample_fresh = new_SlotTable 2 (\<lambda>_. new_RpcController 0) (\<lambda>_. []) (\<lambda>_. [])"

lemma sample_fresh_legal: "legal_run (\<lambda>b. (True, b)) sample_ops sample_fresh"
  by (simp add: sample_ops_def sample_fresh_def slot_eval)

theorem slot_run_refines_ledger_witness:
  "refines (table_run (\<lambda>b. (True, b)) sample_ops sample_fresh)
     (fold spec_step (run_events (\<lambda>b. (True, b)) sample_ops sample_fresh) spec_init)"
  using slot_run_refines_ledger [of 2 "\<lambda>b. (True, b)" sample_ops] sample_fresh_legal
  by (simp add: UINT32_MAX_def sample_fresh_def)

text \<open>
  C12: every allocated call completes at most once and is never lost: after any run the allocated
  correlation ids are, as a multiset, the finalized ones, the discarded ones and the ones still live.
\<close>

theorem calls_complete_once:
  assumes "0 < capacity" "capacity \<le> UINT32_MAX" "legal_run p ops (new_SlotTable capacity ctls msgs raws)"
    and "s = table_run p ops (new_SlotTable capacity ctls msgs raws)"
    and "a = fold spec_step (run_events p ops (new_SlotTable capacity ctls msgs raws)) spec_init"
  shows "cs_allocated a = mset (map fst (st_finalized s)) + cs_discarded a + mset_set {cid. call_phase s cid \<noteq> None}"
proof -
  let ?t = "new_SlotTable capacity ctls msgs raws"
  have inv: "slot_inv ?t" by (rule slot_inv_new [OF assms(1,2)])
  have ref: "refines ?t spec_init" by (rule fresh_refines [OF assms(1,2)])
  have "refines s a" using run_refines [OF inv ref assms(3)] assms(4,5) by simp
  moreover have "ledger_balanced a"
    unfolding assms(5) by (rule run_balanced [OF inv ref assms(3)]) (simp add: ledger_balanced_def spec_init_def)
  ultimately show ?thesis by (simp add: ledger_balanced_def refines_def dom_def)
qed

lemma sample_finalized:
  "st_finalized (table_run (\<lambda>b. (True, b)) sample_ops sample_fresh) =
     [(MakeCorrelationId 1 1, RPC_ECANCELED), (MakeCorrelationId 1 0, RPC_ECONN_FAILED)]"
  by (simp add: sample_ops_def sample_fresh_def slot_eval)

theorem calls_complete_once_witness:
  "let s = table_run (\<lambda>b. (True, b)) sample_ops sample_fresh;
       a = fold spec_step (run_events (\<lambda>b. (True, b)) sample_ops sample_fresh) spec_init
   in cs_allocated a = {#MakeCorrelationId 1 1, MakeCorrelationId 1 0#} + cs_discarded a +
      mset_set {cid. call_phase s cid \<noteq> None}"
  using calls_complete_once [OF _ _ _ refl refl, of 2 "\<lambda>b. (True, b)" sample_ops] sample_fresh_legal sample_finalized
  by (simp add: UINT32_MAX_def sample_fresh_def Let_def)

text \<open>
  C13: every continuation handed to \<open>AllocateSlot\<close> is accounted for: after any legal run it has been
  scheduled once on an executor, or is parked in a live slot, or was handed back by a discard.
\<close>

theorem continuations_scheduled_once:
  assumes "slot_inv s" "metrics_ok s" "legal_run p ops s"
  shows "scheduled (st_dispatched s) + parked (st_slots s) + run_sum task_in p ops s =
    scheduled (st_dispatched (table_run p ops s)) + parked (st_slots (table_run p ops s)) +
    run_sum task_back p ops s"
  using run_accounts [OF assms(1,3,2)] by (simp add: owed_def)

theorem continuations_scheduled_once_witness:
  "scheduled (st_dispatched sample_table) + parked (st_slots sample_table) +
     run_sum task_in (\<lambda>b. (True, b)) sample_ops sample_table =
   scheduled (st_dispatched (table_run (\<lambda>b. (True, b)) sample_ops sample_table)) +
     parked (st_slots (table_run (\<lambda>b. (True, b)) sample_ops sample_table)) +
     run_sum task_back (\<lambda>b. (True, b)) sample_ops sample_table"
  by (rule continuations_scheduled_once [OF sample_table_ok sample_legal])

text \<open>
  C17: the client metrics are exact: after any legal run the in-flight gauge equals the number of
  live slots and the completion counter the number of finalized calls (both modulo \<open>2^64\<close>), and
  completions split into successes and errors.
\<close>

theorem client_metrics_exact:
  assumes "slot_inv s" "metrics_ok s" "legal_run p ops s" "st_client_metrics (table_run p ops s) = Some m"
  shows "cm_active_in_flight m = of_nat (st_active_slots (table_run p ops s)) \<and>
    cm_calls_completed m = of_nat (length (st_finalized (table_run p ops s))) \<and> completions_partitioned m"
  using run_accounts [OF assms(1,3,2)] assms(4) by (simp add: metrics_ok_def)

theorem client_metrics_exact_witness:
  "\<exists>m. st_client_metrics (table_run (\<lambda>b. (True, b)) sample_ops sample_table) = Some m \<and>
     cm_active_in_flight m = 0 \<and> cm_calls_completed m = 2"
proof -
  let ?s = "table_run (\<lambda>b. (True, b)) sample_ops sample_table"
  have "st_client_metrics ?s \<noteq> None" by (simp add: sample_ops_def sample_table_def slot_eval)
  then obtain m where m: "st_client_metrics ?s = Some m" by blast
  have "st_active_slots ?s = 0" "length (st_finalized ?s) = 2"
    by (simp_all add: sample_ops_def sample_table_def slot_eval)
  then show ?thesis
    using client_metrics_exact [OF sample_table_ok sample_legal m] m by auto
qed

text \<open>
  C15: a correlation id that names no live call is inert: cancelling, timing out, failing,
  publishing, discarding it or attaching a timer to it reports failure and changes nothing, and a
  response for it only bumps the counter of unknown or late responses.
\<close>

theorem stale_id_inert:
  assumes inv: "slot_inv s" and stale: "call_phase s cid = None"
  shows "CancelSlot now cid msg s = (False, s) \<and> TimeoutSlot now cid msg s = (False, s) \<and>
    FailSlot now cid e msg s = (False, s) \<and> PublishSlot now cid s = (kInvalid, s) \<and>
    DiscardArmingSlot cid s = (False, s) \<and> AttachDeadlineTimer cid tid s = (False, s) \<and>
    (CompleteResponseSlot p now cid body m att s =
       (kUnknownCorrelationId, s\<lparr>st_unknown_correlation_id := st_unknown_correlation_id s + 1\<rparr>) \<or>
     CompleteResponseSlot p now cid body m att s =
       (kLateResponse, s\<lparr>st_late_response := st_late_response s + 1\<rparr>))"
proof -
  have core: "core_inv s" using inv by (rule slot_inv_core)
  have "CancelSlot now cid msg s = (False, s)" "TimeoutSlot now cid msg s = (False, s)"
    "FailSlot now cid e msg s = (False, s)"
    by (simp_all add: CancelSlot_def TimeoutSlot_def FailSlot_def ResolveTerminal_spec [OF core] stale)
  moreover have "PublishSlot now cid s = (kInvalid, s)"
  proof -
    obtain oc s' where r: "PublishSlot now cid s = (oc, s')" by fastforce
    have "call_phase s cid \<noteq> Some InFlight" using stale by simp
    from PublishSlot_spec [OF inv this r] show ?thesis by (simp add: stale r)
  qed
  moreover have "DiscardArmingSlot cid s = (False, s)"
  proof -
    obtain ok s' where r: "DiscardArmingSlot cid s = (ok, s')" by fastforce
    from DiscardArmingSlot_spec(1,3) [OF inv r] show ?thesis by (simp add: stale r)
  qed
  moreover have "AttachDeadlineTimer cid tid s = (False, s)"
  proof -
    obtain ok s' where r: "AttachDeadlineTimer cid tid s = (ok, s')" by fastforce
    from AttachDeadlineTimer_spec(1,2) [OF inv r] show ?thesis by (simp add: stale r)
  qed
  moreover have "CompleteResponseSlot p now cid body m att s =
       (kUnknownCorrelationId, s\<lparr>st_unknown_correlation_id := st_unknown_correlation_id s + 1\<rparr>) \<or>
     CompleteResponseSlot p now cid body m att s =
       (kLateResponse, s\<lparr>st_late_response := st_late_response s + 1\<rparr>)"
  proof -
    obtain oc s' where r: "CompleteResponseSlot p now cid body m att s = (oc, s')" by fastforce
    have "oc \<noteq> kCompleted" using CompleteResponseSlot_spec(1) [OF core r] stale by simp
    then show ?thesis using CompleteResponseSlot_spec(2,3) [OF core r] r by (cases oc) simp_all
  qed
  ultimately show ?thesis by (intro conjI)
qed

theorem stale_id_inert_witness: "CancelSlot 3 99 ''late'' sample_table = (False, sample_table)"
proof -
  have "call_phase sample_table 99 = None"
    by (simp add: sample_table_def slot_eval GetSlotId_def)
  from stale_id_inert [OF sample_table_ok(1) this] show ?thesis by blast
qed


definition sample_in_flight :: "bytes SlotTable" where
  "sample_in_flight = table_run (\<lambda>b. (True, b)) (take 3 sample_ops) sample_table"

lemma sample_in_flight_ok: "slot_inv sample_in_flight" "\<not> st_connection_failed sample_in_flight"
proof -
  have "legal_run (\<lambda>b. (True, b)) (take 3 sample_ops) sample_table"
    by (simp add: sample_ops_def sample_table_def slot_eval)
  then show "slot_inv sample_in_flight"
    unfolding sample_in_flight_def using run_refines [OF sample_table_ok(1) refines_view] by blast
  show "\<not> st_connection_failed sample_in_flight"
    by (simp add: sample_in_flight_def sample_ops_def sample_table_def slot_eval)
qed


text \<open>
  Cancelling through a controller reaches its call: a call in flight completes with
  \<open>RPC_ECANCELED\<close>, an arming call is marked so that publishing it will; no other call is touched,
  and a controller cancelled before it is bound has the same effect at the bind.
\<close>

theorem cancellation_reaches_call:
  assumes "slot_inv s" "alive t"
    and "if bound then c_active_slot c = Some \<lparr>as_target = t, as_correlation_id = cid\<rparr>
         else c_active_slot c = None \<and> c_cancel_requested c"
    and "s' = deliver t (\<lambda>cid. CancelSlot now cid msg)
           (if bound then snd (StartCancel alive c) else snd (snd (BindActiveSlot alive t cid c))) s"
  shows "slot_inv s' \<and> call_phase s' = (call_phase s)(cid := canceled_phase (call_phase s cid)) \<and>
    (call_phase s cid = Some InFlight \<longrightarrow> st_finalized s' = st_finalized s @ [(cid, RPC_ECANCELED)])"
proof -
  have "s' = snd (CancelSlot now cid msg s)"
    using assms(2-4)
    by (cases bound) (auto simp: StartCancel_def BindActiveSlot_def RequestCancel_def RunNotifyCallback_def
        TakeNotifyOnCancellation_def Let_def split: option.split)
  then show ?thesis
    using slot_target.cancel_inv [OF assms(1)] slot_target.cancel_phase [OF assms(1)] CancelSlot_spec(4) [OF assms(1)]
    by simp
qed

theorem cancellation_reaches_call_witness:
  "let c = (new_RpcController 0)\<lparr>c_active_slot := Some \<lparr>as_target = 4, as_correlation_id = MakeCorrelationId 1 0\<rparr>\<rparr>
   in st_finalized (deliver 4 (\<lambda>cid. CancelSlot 1 cid ''stop'') (snd (StartCancel (\<lambda>_. True) c)) sample_in_flight) =
      [(MakeCorrelationId 1 0, RPC_ECANCELED)]"
proof -
  have "call_phase sample_in_flight (MakeCorrelationId 1 0) = Some InFlight" "st_finalized sample_in_flight = []"
    by (simp_all add: sample_in_flight_def sample_ops_def sample_table_def slot_eval)
  then show ?thesis
    using cancellation_reaches_call [OF sample_in_flight_ok(1), where bound = True and alive = "\<lambda>_. True" and t = 4 and
        cid = "MakeCorrelationId 1 0" and now = 1 and msg = "''stop''", OF _ _ refl]
    by (simp add: Let_def)
qed



text \<open>
  C18: the version of a slot wraps after \<open>2^32\<close> allocations.  For slot 0 the wrapped allocation gets
  the correlation id 0, which \<open>AllocateSlot\<close> also uses for refusal: the caller takes the call as
  refused while the slot stays armed and counted.
\<close>

theorem version_wrap_leaks_slot:
  assumes inv: "slot_inv s" and head: "st_free_head s = 0"
    and ver: "slot_version (st_slots s ! 0) = 0xFFFFFFFF"
    and room: "ex \<noteq> None" "st_active_slots s < mx" "mx \<le> Capacity s"
  shows "fst (AllocateSlot tk resp ctl ex raw mx s) = 0 \<and>
    call_phase (snd (AllocateSlot tk resp ctl ex raw mx s)) 0 = Some Arming \<and>
    st_active_slots (snd (AllocateSlot tk resp ctl ex raw mx s)) = st_active_slots s + 1"
proof -
  obtain cid s' where out: "AllocateSlot tk resp ctl ex raw mx s = (cid, s')" by fastforce
  have "\<not> (ex = None \<or> mx = 0 \<or> mx > Capacity s \<or> st_active_slots s \<ge> mx)" using room by auto
  then have new: "st_active_slots s' = st_active_slots s + 1" "call_phase s' = (call_phase s)(cid \<mapsto> Arming)"
    "GetVersion cid = slot_version (st_slots s ! unat (st_free_head s)) + 1" "GetSlotId cid = st_free_head s"
    using AllocateSlot_spec [OF inv out] by blast+
  have "GetVersion cid = 0" "GetSlotId cid = 0" using new(3,4) head ver by simp_all
  then have "cid = MakeCorrelationId 0 0" using correlation_id_roundtrip(3) [of cid] by simp
  then have "cid = 0" by (simp add: MakeCorrelationId_def)
  then show ?thesis using new(1,2) by (simp add: out)
qed

definition worn_table :: "bytes SlotTable" where
  "worn_table = sample_fresh\<lparr>st_slots :=
     [empty_slot\<lparr>sl_lifecycle := PackSlotLifecycle 0xFFFFFFFF FREE, sl_next_free := 1\<rparr>,
      empty_slot\<lparr>sl_next_free := INVALID_SLOT\<rparr>]\<rparr>"

lemma worn_table_ok: "slot_inv worn_table"
proof -
  let ?slots = "st_slots worn_table"
  have "chain ?slots 0 [0, 1]" by (simp add: worn_table_def INVALID_SLOT_def empty_slot_def)
  moreover have "free_slots ?slots = {0, 1}" "in_flight_cids ?slots = {}"
    by (auto simp: worn_table_def free_slots_def in_flight_cids_def empty_slot_def slot_state_def less_Suc_eq
        nth_Cons')
  moreover have "\<forall>sl \<in> set ?slots. slot_wf sl"
    by (simp add: worn_table_def slot_wf_def empty_slot_def slot_state_def slot_version_def)
  moreover have "length ?slots = 2" "st_free_head worn_table = 0" "st_active_slots worn_table = 0"
    "st_active_calls worn_table = []" "\<not> st_terminated worn_table"
    by (simp_all add: worn_table_def sample_fresh_def new_SlotTable_def)
  ultimately show ?thesis
    unfolding slot_inv_defs by (intro conjI exI [of _ "[0, 1]"]) (simp_all add: UINT32_MAX_def)
qed

theorem version_wrap_leaks_slot_witness:
  "fst (AllocateSlot (Some 9) None None (Some 1) None 2 worn_table) = 0 \<and>
   st_active_slots (snd (AllocateSlot (Some 9) None None (Some 1) None 2 worn_table)) = 1"
proof -
  have "st_free_head worn_table = 0" "slot_version (st_slots worn_table ! 0) = 0xFFFFFFFF"
    "st_active_slots worn_table = 0" "Capacity worn_table = 2"
    by (simp_all add: worn_table_def sample_fresh_def new_SlotTable_def slot_version_def)
  then show ?thesis
    using version_wrap_leaks_slot [OF worn_table_ok, of "Some 1" 2 "Some 9" None None None] by simp
qed

end
