(* ===== verification/Context_Control.thy ===== *)
theory Context_Control
  imports Prelude
begin

text \<open>
  \<^verbatim>\<open>context/io_command.hpp\<close> and \<^verbatim>\<open>context/context_control.hpp\<close>: the mailbox through which any
  thread hands work to the IO thread that owns a connection.

  A command is posted in three atomic steps (enqueue, exchange of \<^verbatim>\<open>notified_\<close>, write of the
  eventfd) and drained in three (read the eventfd, reset \<^verbatim>\<open>notified_\<close>, drain the queues); the
  step relation at the end interleaves any number of posting threads with the IO thread.  The
  underlying MPSC queue is a FIFO list; the eventfd is its counter.
\<close>

section \<open>Commands\<close>

text \<open>Connections, inbound calls and channels are identified by natural numbers (pointers in the code).\<close>

datatype IoCommand =
  ServerStart nat
| ServerCompleteInbound nat nat bytes bool
| ServerClose nat
| ChannelStart nat
| ChannelSendFrame nat u64 bytes
| ChannelClose nat

fun is_server_command :: "IoCommand \<Rightarrow> bool" where
  "is_server_command (ServerStart c) = True"
| "is_server_command (ServerCompleteInbound c k p b) = True"
| "is_server_command (ServerClose c) = True"
| "is_server_command cmd = False"

section \<open>The MPSC queue\<close>

record 'a MpscQueue =
  mq_items :: "'a list"
  mq_size :: nat

definition new_MpscQueue :: "'a MpscQueue" where
  "new_MpscQueue = \<lparr>mq_items = [], mq_size = 0\<rparr>"

definition MpscQueue_Push :: "'a \<Rightarrow> 'a MpscQueue \<Rightarrow> 'a MpscQueue" where
  "MpscQueue_Push x q = q\<lparr>mq_size := add64 (mq_size q) 1, mq_items := mq_items q @ [x]\<rparr>"

definition ApproximateSize :: "'a MpscQueue \<Rightarrow> nat" where
  "ApproximateSize q = mq_size q"

text \<open>\<open>try_dequeue\<close> followed by the decrement of the size, the body of \<^verbatim>\<open>Drain\<close>.\<close>

definition MpscQueue_Pop :: "'a MpscQueue \<Rightarrow> ('a \<times> 'a MpscQueue) option" where
  "MpscQueue_Pop q =
     (case mq_items q of [] \<Rightarrow> None | x # xs \<Rightarrow> Some (x, q\<lparr>mq_items := xs, mq_size := sub64 (mq_size q) 1\<rparr>))"

section \<open>Context control\<close>

record 'b ContextControl =
  cc_commands :: "IoCommand MpscQueue"
  cc_mailboxes :: "'b MpscQueue"
  cc_notified :: bool
  cc_wakeup_fd :: int
  cc_eventfd :: nat

definition new_ContextControl :: "int \<Rightarrow> 'b ContextControl" where
  "new_ContextControl fd = \<lparr>cc_commands = new_MpscQueue, cc_mailboxes = new_MpscQueue, cc_notified = False,
     cc_wakeup_fd = fd, cc_eventfd = 0\<rparr>"

text \<open>The counter of the eventfd saturates; a write that would block leaves it as it is.\<close>

definition EVENTFD_MAX :: nat where "EVENTFD_MAX = 2 ^ 64 - 2"

definition Wakeup :: "'b ContextControl \<Rightarrow> 'b ContextControl" where
  "Wakeup c =
     (if cc_wakeup_fd c < 0 then c
      else c\<lparr>cc_eventfd := (if cc_eventfd c < EVENTFD_MAX then cc_eventfd c + 1 else cc_eventfd c)\<rparr>)"

definition exchange_notified :: "'b ContextControl \<Rightarrow> bool \<times> 'b ContextControl" where
  "exchange_notified c = (cc_notified c, c\<lparr>cc_notified := True\<rparr>)"

definition PostCommand :: "IoCommand \<Rightarrow> 'b ContextControl \<Rightarrow> 'b ContextControl" where
  "PostCommand command c =
     (let c = c\<lparr>cc_commands := MpscQueue_Push command (cc_commands c)\<rparr>;
          (old, c) = exchange_notified c
      in if \<not> old then Wakeup c else c)"

definition Notify :: "'b \<Rightarrow> 'b ContextControl \<Rightarrow> 'b ContextControl" where
  "Notify mailbox c =
     (let c = c\<lparr>cc_mailboxes := MpscQueue_Push mailbox (cc_mailboxes c)\<rparr>;
          (old, c) = exchange_notified c
      in if \<not> old then Wakeup c else c)"

definition PendingCommandCount :: "'b ContextControl \<Rightarrow> nat" where
  "PendingCommandCount c = add64 (ApproximateSize (cc_commands c)) (ApproximateSize (cc_mailboxes c))"

text \<open>
  Each command is sorted to the server or the channel dispatcher; a null dispatcher drops it.
  A handler may post further commands, which the same drain then handles: the loops are partial.
\<close>

type_synonym ('b, 's) handler = "'b ContextControl \<times> 's \<Rightarrow> IoCommand \<Rightarrow> 'b ContextControl \<times> 's"

definition route :: "('b, 's) handler option \<Rightarrow> ('b, 's) handler option \<Rightarrow> ('b, 's) handler" where
  "route server_dispatcher channel_dispatcher cs cmd =
     (if is_server_command cmd
      then case server_dispatcher of Some f \<Rightarrow> f cs cmd | None \<Rightarrow> cs
      else case channel_dispatcher of Some f \<Rightarrow> f cs cmd | None \<Rightarrow> cs)"

partial_function (option) DrainCommandsOnIoThread ::
  "('b, 's) handler \<Rightarrow> 'b ContextControl \<times> 's \<Rightarrow> ('b ContextControl \<times> 's) option" where
  "DrainCommandsOnIoThread handle cs =
     (case MpscQueue_Pop (cc_commands (fst cs)) of
        None \<Rightarrow> Some cs
      | Some (cmd, q) \<Rightarrow> DrainCommandsOnIoThread handle (handle ((fst cs)\<lparr>cc_commands := q\<rparr>, snd cs) cmd))"

partial_function (option) drain_mailbox_queue ::
  "('b ContextControl \<times> 's \<Rightarrow> 'b \<Rightarrow> 'b ContextControl \<times> 's) \<Rightarrow> 'b ContextControl \<times> 's \<Rightarrow> ('b ContextControl \<times> 's) option" where
  "drain_mailbox_queue run_mailbox cs =
     (case MpscQueue_Pop (cc_mailboxes (fst cs)) of
        None \<Rightarrow> Some cs
      | Some (mb, q) \<Rightarrow> drain_mailbox_queue run_mailbox (run_mailbox ((fst cs)\<lparr>cc_mailboxes := q\<rparr>, snd cs) mb))"

definition DrainMailboxesOnIoThread ::
  "('b, 's) handler \<Rightarrow> ('b ContextControl \<times> 's \<Rightarrow> 'b \<Rightarrow> 'b ContextControl \<times> 's) \<Rightarrow> 'b ContextControl \<times> 's \<Rightarrow>
   ('b ContextControl \<times> 's) option" where
  "DrainMailboxesOnIoThread handle run_mailbox = (\<lambda>(c, s).
     Option.bind (DrainCommandsOnIoThread handle (c\<lparr>cc_eventfd := 0, cc_notified := False\<rparr>, s))
       (drain_mailbox_queue run_mailbox))"

section \<open>Sequential behaviour\<close>

definition queue_ok :: "'a MpscQueue \<Rightarrow> bool" where
  "queue_ok q = (mq_size q = length (mq_items q) \<and> length (mq_items q) \<le> SIZE_MAX)"

lemma Push_ok: "queue_ok q \<Longrightarrow> length (mq_items q) < SIZE_MAX \<Longrightarrow> queue_ok (MpscQueue_Push x q)"
  by (simp add: queue_ok_def MpscQueue_Push_def add64_exact)

lemma Pop_ok:
  "queue_ok q \<Longrightarrow> MpscQueue_Pop q = Some (x, q') \<Longrightarrow> queue_ok q' \<and> mq_items q = x # mq_items q'"
  by (auto simp: queue_ok_def MpscQueue_Pop_def sub64_exact split: list.splits)

text \<open>
  A drain whose handler posts nothing ends: it handles the queued commands in order and leaves the
  queue empty with size 0.
\<close>

lemma DrainCommands_returns:
  assumes "queue_ok (cc_commands c)" "mq_items (cc_commands c) = cmds"
  shows "DrainCommandsOnIoThread (\<lambda>(c, s) cmd. (c, f s cmd)) (c, s) =
    Some (c\<lparr>cc_commands := (cc_commands c)\<lparr>mq_items := [], mq_size := 0\<rparr>\<rparr>, foldl f s cmds)"
  using assms
proof (induction cmds arbitrary: c s)
  case Nil
  then have "cc_commands c = (cc_commands c)\<lparr>mq_items := [], mq_size := 0\<rparr>" by (simp add: queue_ok_def)
  then have "c\<lparr>cc_commands := (cc_commands c)\<lparr>mq_items := [], mq_size := 0\<rparr>\<rparr> = c" by simp
  then show ?case using Nil by (subst DrainCommandsOnIoThread.simps) (simp add: MpscQueue_Pop_def)
next
  case (Cons cmd cmds)
  obtain q where pop: "MpscQueue_Pop (cc_commands c) = Some (cmd, q)"
    and q: "q = (cc_commands c)\<lparr>mq_items := cmds, mq_size := sub64 (mq_size (cc_commands c)) 1\<rparr>"
    using Cons.prems(2) by (simp add: MpscQueue_Pop_def)
  have "queue_ok q" "mq_items q = cmds" using Pop_ok [OF Cons.prems(1) pop] by (simp_all add: q)
  then show ?case
    using Cons.IH [of "c\<lparr>cc_commands := q\<rparr>" "f s cmd"]
    by (subst DrainCommandsOnIoThread.simps) (simp add: pop q)
qed

section \<open>Interleaving of posting threads and the IO thread\<close>

text \<open>
  A posting thread is between its steps in one of the states below.  The IO thread wakes when the
  eventfd is readable, and then runs through its drain.
\<close>

datatype poster = Enqueued | MustWake

datatype drainer = Polling | DrainRead | DrainReset

record 'a cc_world =
  cw_queue :: "'a list"
  cw_notified :: bool
  cw_eventfd :: nat
  cw_posters :: "poster list"
  cw_drainer :: drainer
  cw_handled :: "'a list"
  cw_posted :: "'a list"


inductive cc_step :: "'a cc_world \<Rightarrow> 'a cc_world \<Rightarrow> bool" where
  post_push: "cc_step w (w\<lparr>cw_queue := cw_queue w @ [x], cw_posters := cw_posters w @ [Enqueued], cw_posted := cw_posted w @ [x]\<rparr>)"
| post_exchange: "cw_posters w = ps @ Enqueued # ps' \<Longrightarrow>
    cc_step w (w\<lparr>cw_notified := True, cw_posters := ps @ (if cw_notified w then [] else [MustWake]) @ ps'\<rparr>)"
| post_wake: "cw_posters w = ps @ MustWake # ps' \<Longrightarrow>
    cc_step w (w\<lparr>cw_eventfd := cw_eventfd w + 1, cw_posters := ps @ ps'\<rparr>)"
| drain_read: "cw_drainer w = Polling \<Longrightarrow> 0 < cw_eventfd w \<Longrightarrow>
    cc_step w (w\<lparr>cw_eventfd := 0, cw_drainer := DrainRead\<rparr>)"
| drain_reset: "cw_drainer w = DrainRead \<Longrightarrow> cc_step w (w\<lparr>cw_notified := False, cw_drainer := DrainReset\<rparr>)"
| drain_one: "cw_drainer w = DrainReset \<Longrightarrow> cw_queue w = x # q \<Longrightarrow>
    cc_step w (w\<lparr>cw_queue := q, cw_handled := cw_handled w @ [x]\<rparr>)"
| drain_end: "cw_drainer w = DrainReset \<Longrightarrow> cw_queue w = [] \<Longrightarrow> cc_step w (w\<lparr>cw_drainer := Polling\<rparr>)"







text \<open>The operation \<open>PostCommand\<close> is the three steps of a poster run without interruption.\<close>

definition cc_view :: "'b ContextControl \<Rightarrow> drainer \<Rightarrow> IoCommand list \<Rightarrow> IoCommand cc_world" where
  "cc_view c d handled = \<lparr>cw_queue = mq_items (cc_commands c), cw_notified = cc_notified c, cw_eventfd = cc_eventfd c,
     cw_posters = [], cw_drainer = d, cw_handled = handled, cw_posted = handled @ mq_items (cc_commands c)\<rparr>"

lemma PostCommand_steps:
  assumes "0 \<le> cc_wakeup_fd c" "cc_eventfd c < EVENTFD_MAX"
  shows "cc_step\<^sup>*\<^sup>* (cc_view c d h) (cc_view (PostCommand x c) d h)"
proof -
  let ?w = "cc_view c d h"
  let ?w1 = "?w\<lparr>cw_queue := cw_queue ?w @ [x], cw_posters := cw_posters ?w @ [Enqueued], cw_posted := cw_posted ?w @ [x]\<rparr>"
  let ?w2 = "?w1\<lparr>cw_notified := True, cw_posters := [] @ (if cw_notified ?w1 then [] else [MustWake]) @ []\<rparr>"
  have s1: "cc_step ?w ?w1" by (rule post_push)
  have s2: "cc_step ?w1 ?w2" by (rule post_exchange) (simp add: cc_view_def)
  show ?thesis
  proof (cases "cc_notified c")
    case True
    then have "cc_view (PostCommand x c) d h = ?w2"
      by (simp add: cc_view_def PostCommand_def exchange_notified_def MpscQueue_Push_def Let_def)
    then show ?thesis using s1 s2 by simp
  next
    case False
    let ?w3 = "?w2\<lparr>cw_eventfd := cw_eventfd ?w2 + 1, cw_posters := [] @ []\<rparr>"
    have "cc_step ?w2 ?w3" by (rule post_wake) (simp add: cc_view_def False)
    moreover have "cc_view (PostCommand x c) d h = ?w3"
      using False assms
      by (simp add: cc_view_def PostCommand_def exchange_notified_def MpscQueue_Push_def Let_def Wakeup_def)
    ultimately show ?thesis using s1 s2 by simp
  qed
qed

section \<open>Progress\<close>













end
