(* ===== verification/Server_Runtime.thy ===== *)
theory Server_Runtime
  imports Slot_Table
begin

text \<open>
  \<^verbatim>\<open>rpc/server/server_options.hpp\<close>, \<^verbatim>\<open>rpc/service_registry.hpp\<close> and the counters of \<^verbatim>\<open>ServerRuntime\<close>
  (\<^verbatim>\<open>rpc/server/server_connection.hpp\<close>): the options and their validity, the registry of protobuf
  services, and admission of connections, calls and worker tasks under the configured limits.
  The compare-exchange loop of an admission is one atomic step: it retries until it succeeds or the
  limit is reached.  The interface \<open>bounded_counter\<close> is the contract of such a counter; it is
  interpreted on the three counters of the runtime and on the live-slot counter of the slot table.
\<close>

section \<open>Options\<close>

record RpcServerOptions =
  so_io_contexts :: nat
  so_max_connections :: nat
  so_max_in_flight :: nat
  so_max_in_flight_per_connection :: nat
  so_max_pending_worker_tasks :: nat
  so_max_frame_bytes :: nat
  so_max_outbound_bytes_per_connection :: nat
  so_graceful_stop_timeout :: int
  so_idle_timeout :: int

definition default_RpcServerOptions :: RpcServerOptions where
  "default_RpcServerOptions = \<lparr>so_io_contexts = 1, so_max_connections = 65536, so_max_in_flight = 65536,
     so_max_in_flight_per_connection = 4096, so_max_pending_worker_tasks = 8192,
     so_max_frame_bytes = kDefaultMaxRpcFrameBytes, so_max_outbound_bytes_per_connection = 16 * 1024 * 1024,
     so_graceful_stop_timeout = 5000, so_idle_timeout = 0\<rparr>"

definition INT64_MAX :: nat where "INT64_MAX = 2 ^ 63 - 1"

definition RpcServerOptions_IsValid :: "RpcServerOptions \<Rightarrow> bool" where
  "RpcServerOptions_IsValid opt =
     (so_io_contexts opt > 0 \<and> so_max_connections opt > 0 \<and> so_max_in_flight opt > 0 \<and>
      so_max_in_flight_per_connection opt > 0 \<and> so_max_pending_worker_tasks opt > 0 \<and>
      so_max_in_flight_per_connection opt \<le> so_max_in_flight opt \<and>
      so_max_frame_bytes opt \<ge> kRpcHeaderBytes \<and> so_max_outbound_bytes_per_connection opt \<ge> kRpcHeaderBytes \<and>
      so_max_outbound_bytes_per_connection opt \<le> INT64_MAX \<and>
      so_graceful_stop_timeout opt \<ge> 0 \<and> so_idle_timeout opt \<ge> 0)"

text \<open>A \<^verbatim>\<open>size_t\<close> option is at most \<open>SIZE_MAX\<close>.\<close>

definition options_sized :: "RpcServerOptions \<Rightarrow> bool" where
  "options_sized opt =
     (so_io_contexts opt \<le> SIZE_MAX \<and> so_max_connections opt \<le> SIZE_MAX \<and> so_max_in_flight opt \<le> SIZE_MAX \<and>
      so_max_in_flight_per_connection opt \<le> SIZE_MAX \<and> so_max_pending_worker_tasks opt \<le> SIZE_MAX \<and>
      so_max_frame_bytes opt \<le> SIZE_MAX \<and> so_max_outbound_bytes_per_connection opt \<le> SIZE_MAX)"

section \<open>Service registry\<close>

text \<open>
  A service is a protobuf object: a handle, and a descriptor (absent for a broken service) with its
  full name and its methods.  Lookup of a method by name is protobuf's \<^verbatim>\<open>FindMethodByName\<close>: the
  method of that name, if any.
\<close>

record ServiceDescriptor =
  sd_full_name :: string
  sd_methods :: "MethodDescriptor list"

record Service =
  svc_handle :: nat
  svc_descriptor :: "ServiceDescriptor option"

type_synonym ServiceRegistry = "(string \<times> Service) list"

definition RegisterService :: "Service option \<Rightarrow> ServiceRegistry \<Rightarrow> bool \<times> ServiceRegistry" where
  "RegisterService service services =
     (case service of
        None \<Rightarrow> (False, services)
      | Some svc \<Rightarrow>
          (case svc_descriptor svc of
             None \<Rightarrow> (False, services)
           | Some desc \<Rightarrow>
               if map_of services (sd_full_name desc) \<noteq> None then (False, services)
               else (True, (sd_full_name desc, svc) # services)))"

definition FindService :: "string \<Rightarrow> ServiceRegistry \<Rightarrow> Service option" where
  "FindService service_name services = map_of services service_name"

definition FindMethodByName :: "string \<Rightarrow> ServiceDescriptor \<Rightarrow> MethodDescriptor option" where
  "FindMethodByName name desc = find (\<lambda>m. md_name m = name) (sd_methods desc)"

record MethodLookup =
  ml_service :: "Service option"
  ml_method :: "MethodDescriptor option"

definition FindMethod :: "string \<Rightarrow> string \<Rightarrow> ServiceRegistry \<Rightarrow> MethodLookup" where
  "FindMethod service_name method_name services =
     (case FindService service_name services of
        None \<Rightarrow> \<lparr>ml_service = None, ml_method = None\<rparr>
      | Some svc \<Rightarrow> \<lparr>ml_service = Some svc,
          ml_method = (case svc_descriptor svc of Some d \<Rightarrow> FindMethodByName method_name d | None \<Rightarrow> None)\<rparr>)"

section \<open>Runtime counters\<close>

record ServerRuntime =
  rt_options :: RpcServerOptions
  rt_accepting :: bool
  rt_active_connections :: nat
  rt_in_flight :: nat
  rt_pending_worker_tasks :: nat
  rt_graceful_stop_timer_id :: u64
  rt_metrics :: ServerMetrics
  rt_method_metrics :: "(nat \<times> nat) list"
  rt_connections :: "nat list"

definition new_ServerRuntime :: "RpcServerOptions \<Rightarrow> ServerRuntime" where
  "new_ServerRuntime opt = \<lparr>rt_options = opt, rt_accepting = True, rt_active_connections = 0, rt_in_flight = 0,
     rt_pending_worker_tasks = 0, rt_graceful_stop_timer_id = 0, rt_metrics = new_ServerMetrics,
     rt_method_metrics = [], rt_connections = []\<rparr>"

definition upd_rt_metrics :: "(ServerMetrics \<Rightarrow> ServerMetrics) \<Rightarrow> ServerRuntime \<Rightarrow> ServerRuntime" where
  "upd_rt_metrics f rt = rt\<lparr>rt_metrics := f (rt_metrics rt)\<rparr>"

definition TryAcquireConnection :: "ServerRuntime \<Rightarrow> bool \<times> ServerRuntime" where
  "TryAcquireConnection rt =
     (if \<not> rt_accepting rt
      then (False, upd_rt_metrics (\<lambda>m. m\<lparr>sm_rejected_connections := Counter_Add (sm_rejected_connections m) 1\<rparr>) rt)
      else if rt_active_connections rt < so_max_connections (rt_options rt)
      then (True, upd_rt_metrics (\<lambda>m. m\<lparr>sm_accepted_connections := Counter_Add (sm_accepted_connections m) 1,
                    sm_active_connections := Gauge_Add (sm_active_connections m) 1\<rparr>)
                  (rt\<lparr>rt_active_connections := add64 (rt_active_connections rt) 1\<rparr>))
      else (False, upd_rt_metrics (\<lambda>m. m\<lparr>sm_rejected_connections := Counter_Add (sm_rejected_connections m) 1\<rparr>) rt))"

definition TryAcquireInFlight :: "ServerRuntime \<Rightarrow> bool \<times> ServerRuntime" where
  "TryAcquireInFlight rt =
     (if rt_in_flight rt < so_max_in_flight (rt_options rt)
      then (True, upd_rt_metrics (\<lambda>m. m\<lparr>sm_active_in_flight := Gauge_Add (sm_active_in_flight m) 1\<rparr>)
                  (rt\<lparr>rt_in_flight := add64 (rt_in_flight rt) 1\<rparr>))
      else (False, rt))"

text \<open>\<open>NotifyDrained\<close> only wakes waiters of \<open>IsDrained\<close>; it does not change the state.\<close>

definition ReleaseInFlight :: "ServerRuntime \<Rightarrow> ServerRuntime" where
  "ReleaseInFlight rt =
     upd_rt_metrics (\<lambda>m. m\<lparr>sm_active_in_flight := Gauge_Add (sm_active_in_flight m) (- 1)\<rparr>)
       (rt\<lparr>rt_in_flight := sub64 (rt_in_flight rt) 1\<rparr>)"

definition TryAcquireWorkerTask :: "ServerRuntime \<Rightarrow> bool \<times> ServerRuntime" where
  "TryAcquireWorkerTask rt =
     (if rt_pending_worker_tasks rt < so_max_pending_worker_tasks (rt_options rt)
      then (True, upd_rt_metrics (\<lambda>m. m\<lparr>sm_pending_worker_tasks := Gauge_Add (sm_pending_worker_tasks m) 1\<rparr>)
                  (rt\<lparr>rt_pending_worker_tasks := add64 (rt_pending_worker_tasks rt) 1\<rparr>))
      else (False, rt))"

definition ReleaseWorkerTask :: "ServerRuntime \<Rightarrow> ServerRuntime" where
  "ReleaseWorkerTask rt =
     upd_rt_metrics (\<lambda>m. m\<lparr>sm_pending_worker_tasks := Gauge_Add (sm_pending_worker_tasks m) (- 1)\<rparr>)
       (rt\<lparr>rt_pending_worker_tasks := sub64 (rt_pending_worker_tasks rt) 1\<rparr>)"

definition IsAccepting :: "ServerRuntime \<Rightarrow> bool" where
  "IsAccepting rt = rt_accepting rt"

definition IsDrained :: "ServerRuntime \<Rightarrow> bool" where
  "IsDrained rt = (rt_active_connections rt = 0 \<and> rt_in_flight rt = 0)"

definition RegisterServiceMetrics :: "ServiceDescriptor \<Rightarrow> ServerRuntime \<Rightarrow> ServerRuntime" where
  "RegisterServiceMetrics service rt =
     fold (\<lambda>method rt.
       let (entry, metrics) = GetOrCreateMethod method (rt_metrics rt);
           rt = rt\<lparr>rt_metrics := metrics\<rparr>
       in if map_of (rt_method_metrics rt) (md_handle method) = None
          then rt\<lparr>rt_method_metrics := (md_handle method, entry) # rt_method_metrics rt\<rparr> else rt)
       (sd_methods service) rt"

definition FindMethodMetrics :: "MethodDescriptor \<Rightarrow> ServerRuntime \<Rightarrow> nat option" where
  "FindMethodMetrics method rt = map_of (rt_method_metrics rt) (md_handle method)"

text \<open>
  The part of \<open>ReleaseConnection\<close> on the runtime; cancelling the graceful-stop timer is added where
  timers are modelled.
\<close>

definition release_connection_counters :: "nat \<Rightarrow> ConnectionCloseReason \<Rightarrow> ServerRuntime \<Rightarrow> ServerRuntime" where
  "release_connection_counters connection reason rt =
     (let rt = rt\<lparr>rt_connections := removeAll connection (rt_connections rt)\<rparr>;
          rt = rt\<lparr>rt_active_connections := sub64 (rt_active_connections rt) 1\<rparr>
      in upd_rt_metrics (\<lambda>m.
           let m = m\<lparr>sm_active_connections := Gauge_Add (sm_active_connections m) (- 1)\<rparr>;
               m = RecordConnectionClose reason m
           in m\<lparr>sm_closed_connections := Counter_Add (sm_closed_connections m) 1\<rparr>) rt)"

section \<open>Contract of a bounded counter\<close>

text \<open>
  Clients acquire and release; a release is only made for an acquisition that succeeded.  \<open>open_for\<close>
  is the additional condition of an acquisition.
\<close>

locale bounded_counter =
  fixes count :: "'s \<Rightarrow> nat" and limit :: "'s \<Rightarrow> nat" and open_for :: "'s \<Rightarrow> bool"
    and acquire :: "'s \<Rightarrow> bool \<times> 's" and release :: "'s \<Rightarrow> 's"
  assumes acquire_iff: "fst (acquire s) \<longleftrightarrow> open_for s \<and> count s < limit s"
    and acquire_count: "count (snd (acquire s)) = (if fst (acquire s) then add64 (count s) 1 else count s)"
    and acquire_limit: "limit (snd (acquire s)) = limit s"
    and release_count: "count (release s) = sub64 (count s) 1"
    and release_limit: "limit (release s) = limit s"
begin

text \<open>A history of acquisitions (\<open>True\<close>) and releases; \<open>held\<close> counts the grants not yet released.\<close>

fun history :: "bool list \<Rightarrow> nat \<Rightarrow> 's \<Rightarrow> (nat \<times> 's) option" where
  "history [] held s = Some (held, s)"
| "history (True # ops) held s =
     history ops (if fst (acquire s) then held + 1 else held) (snd (acquire s))"
| "history (False # ops) held s = (if held = 0 then None else history ops (held - 1) (release s))"

lemma history_count:
  assumes "history ops held s = Some (held', s')" "count s = held" "held \<le> limit s" "limit s \<le> SIZE_MAX"
  shows "count s' = held' \<and> held' \<le> limit s' \<and> limit s' = limit s"
  using assms
proof (induction ops held s rule: history.induct)
  case (2 ops held s)
  show ?case
  proof (cases "fst (acquire s)")
    case True
    then have "count s < limit s" by (simp add: acquire_iff)
    then have "count (snd (acquire s)) = held + 1" "held + 1 \<le> limit s"
      using 2 True by (simp_all add: acquire_count add64_exact)
    then show ?thesis using 2 True by (simp add: acquire_limit)
  next
    case False
    then show ?thesis using 2 by (simp add: acquire_count acquire_limit)
  qed
next
  case (3 ops held s)
  then have held: "held \<noteq> 0" by (auto split: if_splits)
  then have "count (release s) = held - 1"
    using 3 by (simp add: release_count sub64_exact)
  moreover have "held - 1 \<le> limit s" using 3 by simp
  ultimately show ?case using 3 held by (simp add: release_limit)
qed simp

end

interpretation connections: bounded_counter rt_active_connections "\<lambda>rt. so_max_connections (rt_options rt)" rt_accepting
  TryAcquireConnection "release_connection_counters k reason" for k reason
  by unfold_locales (auto simp: TryAcquireConnection_def release_connection_counters_def upd_rt_metrics_def Let_def)

interpretation in_flight: bounded_counter rt_in_flight "\<lambda>rt. so_max_in_flight (rt_options rt)" "\<lambda>_. True"
  TryAcquireInFlight ReleaseInFlight
  by unfold_locales (auto simp: TryAcquireInFlight_def ReleaseInFlight_def upd_rt_metrics_def)

interpretation worker_tasks: bounded_counter rt_pending_worker_tasks "\<lambda>rt. so_max_pending_worker_tasks (rt_options rt)"
  "\<lambda>_. True" TryAcquireWorkerTask ReleaseWorkerTask
  by unfold_locales (auto simp: TryAcquireWorkerTask_def ReleaseWorkerTask_def upd_rt_metrics_def)

interpretation live_slots: bounded_counter st_active_slots "\<lambda>_. mx" "\<lambda>_. True" "TryAcquireLiveSlot mx" ReleaseLiveSlot
  for mx
  by unfold_locales (auto simp: TryAcquireLiveSlot_def ReleaseLiveSlot_def upd_metrics_def)

text \<open>
  The admission counters are exact and bounded.  After any sequence of admissions and releases
  (each release paired with an admission that succeeded) of connections, calls or worker tasks, the
  counter equals the number of admissions not yet released and is within its configured limit.
\<close>

theorem admission_bounded:
  assumes "options_sized (rt_options rt)" "rt_active_connections rt = 0" "rt_in_flight rt = 0"
    "rt_pending_worker_tasks rt = 0"
  shows "(connections.history k reason ops 0 rt = Some (held, rt') \<longrightarrow>
      rt_active_connections rt' = held \<and> held \<le> so_max_connections (rt_options rt)) \<and>
    (in_flight.history ops 0 rt = Some (held, rt') \<longrightarrow>
      rt_in_flight rt' = held \<and> held \<le> so_max_in_flight (rt_options rt)) \<and>
    (worker_tasks.history ops 0 rt = Some (held, rt') \<longrightarrow>
      rt_pending_worker_tasks rt' = held \<and> held \<le> so_max_pending_worker_tasks (rt_options rt))"
  using assms connections.history_count [of k reason ops 0 rt held rt'] in_flight.history_count [of ops 0 rt held rt']
    worker_tasks.history_count [of ops 0 rt held rt']
  by (auto simp: options_sized_def)

theorem admission_bounded_witness:
  "rt_in_flight (ReleaseInFlight (snd (TryAcquireInFlight (new_ServerRuntime default_RpcServerOptions)))) = 0"
proof -
  let ?rt = "new_ServerRuntime default_RpcServerOptions"
  let ?out = "ReleaseInFlight (snd (TryAcquireInFlight ?rt))"
  have "options_sized (rt_options ?rt)"
    by (simp add: options_sized_def new_ServerRuntime_def default_RpcServerOptions_def SIZE_MAX_def
        kDefaultMaxRpcFrameBytes_def)
  moreover have "in_flight.history [True, False] 0 ?rt = Some (0, ?out)"
    by (simp add: TryAcquireInFlight_def new_ServerRuntime_def default_RpcServerOptions_def)
  ultimately show ?thesis
    using admission_bounded [of ?rt 0 kNone "[True, False]" 0 ?out] by (simp add: new_ServerRuntime_def)
qed

section \<open>Registry properties\<close>

lemma RegisterService_keeps:
  "FindService name services = Some svc \<Longrightarrow> FindService name (snd (RegisterService s services)) = Some svc"
  by (auto simp: RegisterService_def FindService_def split: option.split)

text \<open>
  Registering services keeps the first registration of a name: a service found by its full name
  stays the same through any later registrations, a duplicate is refused, and a registered
  service's methods are found exactly by their names.
\<close>

theorem registry_first_wins:
  assumes "svc_descriptor svc = Some d" "FindService (sd_full_name d) services = None"
  shows "let services' = fold (\<lambda>s r. snd (RegisterService s r)) later (snd (RegisterService (Some svc) services))
    in FindMethod (sd_full_name d) method services' = \<lparr>ml_service = Some svc, ml_method = FindMethodByName method d\<rparr> \<and>
       (\<forall>svc' d'. svc_descriptor svc' = Some d' \<and> sd_full_name d' = sd_full_name d \<longrightarrow>
          RegisterService (Some svc') services' = (False, services'))"
proof -
  let ?r = "snd (RegisterService (Some svc) services)"
  have "FindService (sd_full_name d) ?r = Some svc"
    using assms by (simp add: RegisterService_def FindService_def)
  then have "FindService (sd_full_name d) (fold (\<lambda>s r. snd (RegisterService s r)) later ?r) = Some svc"
    by (induction later arbitrary: services rule: rev_induct) (simp_all add: RegisterService_keeps)
  then show ?thesis
    using assms(1) by (auto simp: Let_def FindMethod_def RegisterService_def FindService_def)
qed

definition echo_method :: MethodDescriptor where
  "echo_method = \<lparr>md_handle = 5, md_service_full_name = ''Echo'', md_name = ''Say''\<rparr>"

definition echo_service :: Service where
  "echo_service = \<lparr>svc_handle = 1, svc_descriptor = Some \<lparr>sd_full_name = ''Echo'', sd_methods = [echo_method]\<rparr>\<rparr>"

theorem registry_first_wins_witness:
  "ml_method (FindMethod ''Echo'' ''Say'' (snd (RegisterService None (snd (RegisterService (Some echo_service) [])))))
     = Some echo_method"
  using registry_first_wins [of echo_service "\<lparr>sd_full_name = ''Echo'', sd_methods = [echo_method]\<rparr>" "[]" "[None]" "''Say''"]
  by (simp add: echo_service_def FindService_def FindMethodByName_def echo_method_def Let_def)

end
