(* ===== verification/Server_Connection.thy ===== *)
theory Server_Connection
  imports Server_Runtime Context_Control
begin

text \<open>
  \<^verbatim>\<open>rpc/server/server_connection.hpp\<close>: the per-connection state machine of the server, the inbound
  call it hands to the workers, and the graceful stop of the runtime.

  \<open>ServerWorld\<close> holds one runtime, its connections and inbound calls (indexed by number, pointers in
  the code), the commands posted to each connection and not yet handled, the queue of the worker
  executor, the armed timers and a log of socket operations.  Every method is a function on it.
  A coroutine is cut at its \<^verbatim>\<open>co_await\<close>: \<open>sc_reading\<close> says that the receive loop is suspended in a
  read, \<open>sc_write_frame\<close> holds the frame whose write is suspended; the functions \<open>ReadResume\<close> and
  \<open>WriteResume\<close> are the continuations with the result the kernel delivers.

  Protobuf is the argument \<open>pb\<close>.  The timer keeper is seen through its contract: a fresh id for a
  timer, cancellation of a timer that is still armed, and expiry, which hands the callback to the
  executor.  Log lines are not modelled.  Service code is arbitrary: it may write the
  controller and the response of its call and run its closure at any time, any number of times.
\<close>

section \<open>State\<close>

record 'm Protobuf =
  pb_ser_meta :: "RpcMeta \<Rightarrow> bytes option"
  pb_par_meta :: "bytes \<Rightarrow> RpcMeta option"
  pb_ser_msg :: "'m \<Rightarrow> bytes option"
  pb_parse_request :: "nat \<Rightarrow> bytes \<Rightarrow> bool \<times> 'm"
  pb_new_request :: "nat \<Rightarrow> 'm"
  pb_new_response :: "nat \<Rightarrow> 'm"

datatype CompletionState = kPending | kFinalizationScheduled | kFinalized

record 'm InboundCallState =
  ic_connection :: nat
  ic_frame :: FrameParseResult
  ic_response_meta :: RpcMeta
  ic_service :: "Service option"
  ic_method :: "MethodDescriptor option"
  ic_request :: "'m option"
  ic_response :: "'m option"
  ic_controller :: "RpcController option"
  ic_done :: bool
  ic_method_metrics :: "nat option"
  ic_max_frame_bytes :: nat
  ic_completion :: CompletionState
  ic_received_at :: int

definition new_InboundCallState :: "nat \<Rightarrow> FrameParseResult \<Rightarrow> nat \<Rightarrow> int \<Rightarrow> 'm InboundCallState" where
  "new_InboundCallState connection frame max_frame_bytes now =
     \<lparr>ic_connection = connection, ic_frame = frame, ic_response_meta = empty_meta, ic_service = None,
      ic_method = None, ic_request = None, ic_response = None, ic_controller = None, ic_done = False,
      ic_method_metrics = None, ic_max_frame_bytes = max_frame_bytes, ic_completion = kPending,
      ic_received_at = now\<rparr>"

record ServerConnection =
  sc_fd :: int
  sc_recv_buffer :: bytes
  sc_inbound_calls :: "nat list"
  sc_outbound :: "bytes list"
  sc_in_flight_calls :: nat
  sc_reserved_outbound_bytes :: nat
  sc_running :: bool
  sc_released :: bool
  sc_close_command_posted :: bool
  sc_idle_generation :: u64
  sc_idle_timer_id :: u64
  sc_close_reason :: ConnectionCloseReason
  sc_receiver_started :: bool
  sc_receiver_exited :: bool
  sc_writing :: bool
  sc_start_command_handled :: bool
  sc_close_command_handled :: bool
  sc_reading :: bool
  sc_write_frame :: "bytes option"

definition new_ServerConnection :: "int \<Rightarrow> ServerConnection" where
  "new_ServerConnection fd = \<lparr>sc_fd = fd, sc_recv_buffer = [], sc_inbound_calls = [], sc_outbound = [],
     sc_in_flight_calls = 0, sc_reserved_outbound_bytes = 0, sc_running = True, sc_released = False,
     sc_close_command_posted = False, sc_idle_generation = 0, sc_idle_timer_id = 0, sc_close_reason = kNone,
     sc_receiver_started = False, sc_receiver_exited = False, sc_writing = False,
     sc_start_command_handled = False, sc_close_command_handled = False, sc_reading = False,
     sc_write_frame = None\<rparr>"

datatype timer_action = IdleExpired nat u64 | ForceCloseAll

datatype worker_task = DispatchTask nat | FinalizeTask nat | TimerTask timer_action

datatype socket_op = ShutdownSocket nat int | CloseSocket nat int

record 'm ServerWorld =
  w_rt :: ServerRuntime
  w_registry :: ServiceRegistry
  w_executor :: bool
  w_conns :: "nat \<Rightarrow> ServerConnection"
  w_calls :: "nat \<Rightarrow> 'm InboundCallState"
  w_next_call :: nat
  w_commands :: "nat \<Rightarrow> IoCommand list"
  w_worker :: "worker_task list"
  w_timers :: "(u64 \<times> timer_action) list"
  w_next_timer :: u64
  w_sockets :: "socket_op list"
  w_next_conn :: nat

definition upd_conn :: "nat \<Rightarrow> (ServerConnection \<Rightarrow> ServerConnection) \<Rightarrow> 'm ServerWorld \<Rightarrow> 'm ServerWorld" where
  "upd_conn k f w = w\<lparr>w_conns := (w_conns w)(k := f (w_conns w k))\<rparr>"

definition upd_call :: "nat \<Rightarrow> ('m InboundCallState \<Rightarrow> 'm InboundCallState) \<Rightarrow> 'm ServerWorld \<Rightarrow> 'm ServerWorld" where
  "upd_call i f w = w\<lparr>w_calls := (w_calls w)(i := f (w_calls w i))\<rparr>"

definition upd_rt :: "(ServerRuntime \<Rightarrow> ServerRuntime) \<Rightarrow> 'm ServerWorld \<Rightarrow> 'm ServerWorld" where
  "upd_rt f w = w\<lparr>w_rt := f (w_rt w)\<rparr>"

definition upd_sm :: "(ServerMetrics \<Rightarrow> ServerMetrics) \<Rightarrow> 'm ServerWorld \<Rightarrow> 'm ServerWorld" where
  "upd_sm f = upd_rt (upd_rt_metrics f)"

abbreviation w_opts :: "'m ServerWorld \<Rightarrow> RpcServerOptions" where
  "w_opts w \<equiv> rt_options (w_rt w)"

text \<open>Posting a command to the context of a connection, with the backlog gauge.\<close>

definition post :: "nat \<Rightarrow> IoCommand \<Rightarrow> 'm ServerWorld \<Rightarrow> 'm ServerWorld" where
  "post k cmd w =
     (let w = upd_sm (\<lambda>m. m\<lparr>sm_io_command_backlog := Gauge_Add (sm_io_command_backlog m) 1\<rparr>) w
      in w\<lparr>w_commands := (w_commands w)(k := w_commands w k @ [cmd])\<rparr>)"

definition shutdown_socket :: "nat \<Rightarrow> 'm ServerWorld \<Rightarrow> 'm ServerWorld" where
  "shutdown_socket k w =
     (let socket = sc_fd (w_conns w k)
      in if socket \<ge> 0 then w\<lparr>w_sockets := w_sockets w @ [ShutdownSocket k socket]\<rparr> else w)"

definition AddTimerTo :: "timer_action \<Rightarrow> 'm ServerWorld \<Rightarrow> u64 \<times> 'm ServerWorld" where
  "AddTimerTo a w =
     (w_next_timer w, w\<lparr>w_timers := (w_next_timer w, a) # w_timers w, w_next_timer := w_next_timer w + 1\<rparr>)"

definition CancelTimerOf :: "u64 \<Rightarrow> 'm ServerWorld \<Rightarrow> 'm ServerWorld" where
  "CancelTimerOf t w = w\<lparr>w_timers := filter (\<lambda>e. fst e \<noteq> t) (w_timers w)\<rparr>"

section \<open>Closing\<close>

definition RecordCloseReason :: "ConnectionCloseReason \<Rightarrow> ServerConnection \<Rightarrow> ServerConnection" where
  "RecordCloseReason reason c = (if sc_close_reason c = kNone then c\<lparr>sc_close_reason := reason\<rparr> else c)"

text \<open>
  \<^verbatim>\<open>RequestClose\<close> is called by any thread; its two atomic accesses are separate steps of a race, so
  they are separate functions: the exchange of \<^verbatim>\<open>running_\<close>, and the post by the winner.
\<close>

definition RequestClose_exchange :: "nat \<Rightarrow> ConnectionCloseReason \<Rightarrow> 'm ServerWorld \<Rightarrow> bool \<times> 'm ServerWorld" where
  "RequestClose_exchange k reason w =
     (let w = upd_conn k (RecordCloseReason reason) w
      in (sc_running (w_conns w k), upd_conn k (\<lambda>c. c\<lparr>sc_running := False\<rparr>) w))"

definition RequestClose_post :: "nat \<Rightarrow> 'm ServerWorld \<Rightarrow> 'm ServerWorld" where
  "RequestClose_post k w =
     (let w = upd_conn k (\<lambda>c. c\<lparr>sc_close_command_posted := True\<rparr>) w in post k (ServerClose k) w)"

definition RequestClose :: "nat \<Rightarrow> ConnectionCloseReason \<Rightarrow> 'm ServerWorld \<Rightarrow> 'm ServerWorld" where
  "RequestClose k reason w =
     (case RequestClose_exchange k reason w of
        (True, w) \<Rightarrow> RequestClose_post k w
      | (False, w) \<Rightarrow> w)"

definition CancelIdleTimer :: "nat \<Rightarrow> 'm ServerWorld \<Rightarrow> 'm ServerWorld" where
  "CancelIdleTimer k w =
     (let timer = sc_idle_timer_id (w_conns w k); w = upd_conn k (\<lambda>c. c\<lparr>sc_idle_timer_id := 0\<rparr>) w
      in if timer \<noteq> 0 then CancelTimerOf timer w else w)"

definition ArmIdleTimerOnIoThread :: "nat \<Rightarrow> 'm ServerWorld \<Rightarrow> 'm ServerWorld" where
  "ArmIdleTimerOnIoThread k w =
     (if so_idle_timeout (w_opts w) \<le> 0 \<or> \<not> sc_running (w_conns w k) then w
      else let generation = sc_idle_generation (w_conns w k) + 1;
               w = upd_conn k (\<lambda>c. c\<lparr>sc_idle_generation := generation\<rparr>) w;
               w = CancelIdleTimer k w;
               (timer, w) = AddTimerTo (IdleExpired k generation) w
           in upd_conn k (\<lambda>c. c\<lparr>sc_idle_timer_id := timer\<rparr>) w)"

definition CancelGracefulStopTimer :: "'m ServerWorld \<Rightarrow> 'm ServerWorld" where
  "CancelGracefulStopTimer w =
     (let timer = rt_graceful_stop_timer_id (w_rt w); w = upd_rt (\<lambda>rt. rt\<lparr>rt_graceful_stop_timer_id := 0\<rparr>) w
      in if timer \<noteq> 0 then CancelTimerOf timer w else w)"

definition ReleaseConnection :: "nat \<Rightarrow> 'm ServerWorld \<Rightarrow> 'm ServerWorld" where
  "ReleaseConnection k w =
     (let w = upd_rt (release_connection_counters k (sc_close_reason (w_conns w k))) w
      in if rt_active_connections (w_rt w) = 0 then CancelGracefulStopTimer w else w)"

definition TryFinishCloseOnIoThread :: "nat \<Rightarrow> 'm ServerWorld \<Rightarrow> 'm ServerWorld" where
  "TryFinishCloseOnIoThread k w =
     (let c = w_conns w k
      in if sc_running c \<or> \<not> sc_receiver_exited c \<or> sc_writing c \<or> \<not> sc_start_command_handled c then w
         else if sc_close_command_posted c \<and> \<not> sc_close_command_handled c then w
         else let w = CancelIdleTimer k w;
                  socket = sc_fd (w_conns w k);
                  w = upd_conn k (\<lambda>c. c\<lparr>sc_fd := - 1\<rparr>) w;
                  w = (if socket \<ge> 0 then w\<lparr>w_sockets := w_sockets w @ [CloseSocket k socket]\<rparr> else w)
              in if sc_inbound_calls (w_conns w k) \<noteq> [] then w
                 else if \<not> sc_released (w_conns w k)
                 then ReleaseConnection k (upd_conn k (\<lambda>c. c\<lparr>sc_released := True\<rparr>) w)
                 else w)"

section \<open>Outbound bytes\<close>

definition TryReserveOutboundBytes :: "nat \<Rightarrow> nat \<Rightarrow> 'm ServerWorld \<Rightarrow> bool \<times> 'm ServerWorld" where
  "TryReserveOutboundBytes k bytes w =
     (if bytes = 0 \<or> \<not> sc_running (w_conns w k) then (bytes = 0, w)
      else let limit = so_max_outbound_bytes_per_connection (w_opts w)
           in if bytes > limit then (False, w)
              else if sc_reserved_outbound_bytes (w_conns w k) \<le> limit - bytes
              then (True, upd_sm (\<lambda>m. m\<lparr>sm_outbound_bytes := Gauge_Add (sm_outbound_bytes m) (int bytes)\<rparr>)
                     (upd_conn k (\<lambda>c. c\<lparr>sc_reserved_outbound_bytes := add64 (sc_reserved_outbound_bytes c) bytes\<rparr>) w))
              else (False, w))"

definition ReleaseOutboundBytes :: "nat \<Rightarrow> nat \<Rightarrow> 'm ServerWorld \<Rightarrow> 'm ServerWorld" where
  "ReleaseOutboundBytes k bytes w =
     (if bytes = 0 then w
      else upd_sm (\<lambda>m. m\<lparr>sm_outbound_bytes := Gauge_Add (sm_outbound_bytes m) (- int bytes)\<rparr>)
             (upd_conn k (\<lambda>c. c\<lparr>sc_reserved_outbound_bytes := sub64 (sc_reserved_outbound_bytes c) bytes\<rparr>) w))"

definition ReleaseFrameReservation :: "nat \<Rightarrow> bytes \<Rightarrow> 'm ServerWorld \<Rightarrow> 'm ServerWorld" where
  "ReleaseFrameReservation k frame w = ReleaseOutboundBytes k (length frame) w"

fun discard_frames :: "nat \<Rightarrow> bytes list \<Rightarrow> 'm ServerWorld \<Rightarrow> 'm ServerWorld" where
  "discard_frames k [] w = w"
| "discard_frames k (f # fs) w =
     discard_frames k fs (upd_conn k (\<lambda>c. c\<lparr>sc_outbound := fs\<rparr>) (ReleaseFrameReservation k f w))"

definition DiscardQueuedOutboundOnIoThread :: "nat \<Rightarrow> 'm ServerWorld \<Rightarrow> 'm ServerWorld" where
  "DiscardQueuedOutboundOnIoThread k w = discard_frames k (sc_outbound (w_conns w k)) w"

definition BeginCloseOnIoThread :: "nat \<Rightarrow> 'm ServerWorld \<Rightarrow> 'm ServerWorld" where
  "BeginCloseOnIoThread k w =
     (let w = upd_conn k (\<lambda>c. c\<lparr>sc_close_command_handled := True\<rparr>) w;
          w = CancelIdleTimer k w;
          w = shutdown_socket k w;
          w = DiscardQueuedOutboundOnIoThread k w;
          w = (if \<not> sc_receiver_started (w_conns w k) then upd_conn k (\<lambda>c. c\<lparr>sc_receiver_exited := True\<rparr>) w else w)
      in TryFinishCloseOnIoThread k w)"

section \<open>Writing\<close>

definition kMaxBatchBytes :: nat where "kMaxBatchBytes = 64 * 1024"

text \<open>Merging of queued frames into the frame at the front, while it is below the batch size.\<close>

fun merge_batch :: "bytes \<Rightarrow> bytes list \<Rightarrow> bytes \<times> bytes list" where
  "merge_batch frame [] = (frame, [])"
| "merge_batch frame (f # fs) =
     (if length frame < kMaxBatchBytes then merge_batch (frame @ f) fs else (frame, f # fs))"

lemma merge_batch_length: "length (snd (merge_batch frame fs)) \<le> length fs"
  by (induction frame fs rule: merge_batch.induct) auto

text \<open>
  \<open>StartNextWriteOnIoThread\<close> with the coroutine \<open>WriteFrame\<close> up to its suspension.  A frame that
  cannot be offered ends the coroutine at once, which starts the next one.
\<close>

function StartNextWriteOnIoThread :: "nat \<Rightarrow> 'm ServerWorld \<Rightarrow> 'm ServerWorld" where
  "StartNextWriteOnIoThread k w =
     (case sc_outbound (w_conns w k) of
        [] \<Rightarrow> w
      | f # fs \<Rightarrow>
          if sc_writing (w_conns w k) \<or> \<not> sc_running (w_conns w k) then w
          else let (frame, rest) = merge_batch f fs;
                   w = upd_conn k (\<lambda>c. c\<lparr>sc_writing := True, sc_outbound := rest\<rparr>) w
               in if frame \<noteq> [] \<and> sc_running (w_conns w k)
                  then upd_conn k (\<lambda>c. c\<lparr>sc_write_frame := Some frame\<rparr>) w
                  else let w = ReleaseFrameReservation k frame w;
                           w = upd_conn k (\<lambda>c. c\<lparr>sc_writing := False\<rparr>) w
                       in TryFinishCloseOnIoThread k (StartNextWriteOnIoThread k w))"
  by pat_completeness auto
termination
proof (relation "measure (\<lambda>(k, w). length (sc_outbound (w_conns w k)))", goal_cases)
  case (2 k w f fs r frame rest x xa xb)
  then have "length rest \<le> length fs" using merge_batch_length [of f fs] by (metis snd_conv)
  then show ?case
    using 2 by (auto simp: upd_conn_def ReleaseFrameReservation_def ReleaseOutboundBytes_def upd_sm_def upd_rt_def)
qed simp

declare StartNextWriteOnIoThread.simps [simp del]

text \<open>The end of \<open>WriteFrame\<close>: what is left of the frame is released, and the next write starts.\<close>

definition WriteFrame_end :: "nat \<Rightarrow> bytes \<Rightarrow> 'm ServerWorld \<Rightarrow> 'm ServerWorld" where
  "WriteFrame_end k frame w =
     (let w = ReleaseFrameReservation k frame w;
          w = upd_conn k (\<lambda>c. c\<lparr>sc_writing := False, sc_write_frame := None\<rparr>) w;
          w = StartNextWriteOnIoThread k w
      in TryFinishCloseOnIoThread k w)"

definition WriteResume :: "nat \<Rightarrow> int \<Rightarrow> 'm ServerWorld \<Rightarrow> 'm ServerWorld" where
  "WriteResume k written w =
     (case sc_write_frame (w_conns w k) of
        None \<Rightarrow> w
      | Some frame \<Rightarrow>
          if \<not> sc_running (w_conns w k) \<or> written \<le> 0
          then let w = upd_sm (\<lambda>m. m\<lparr>sm_write_errors := Counter_Add (sm_write_errors m) 1\<rparr>) w;
                   w = upd_conn k (RecordCloseReason kWriteError) w;
                   w = upd_conn k (\<lambda>c. c\<lparr>sc_running := False\<rparr>) w;
                   w = shutdown_socket k w
               in WriteFrame_end k frame w
          else let n = nat written;
                   w = (if n < length frame
                        then upd_sm (\<lambda>m. m\<lparr>sm_partial_write_completions := Counter_Add (sm_partial_write_completions m) 1\<rparr>) w
                        else w);
                   frame = drop n frame;
                   w = ReleaseOutboundBytes k n w
               in if frame \<noteq> [] \<and> sc_running (w_conns w k)
                  then upd_conn k (\<lambda>c. c\<lparr>sc_write_frame := Some frame\<rparr>) w
                  else WriteFrame_end k frame w)"

section \<open>Requests\<close>

definition PackServerErrorResponse ::
  "'m Protobuf \<Rightarrow> FrameParseResult \<Rightarrow> int \<Rightarrow> string \<Rightarrow> nat \<Rightarrow> bool \<times> bytes" where
  "PackServerErrorResponse pb request error_code error_text max_frame_bytes =
     (let m = empty_meta\<lparr>m_msg_type := RPC_RESPONSE, m_correlation_id := m_correlation_id (meta request),
            m_service_name := m_service_name (meta request), m_method_name := m_method_name (meta request),
            m_error_code := error_code, m_error_text := error_text\<rparr>;
          (ok, _, out) = PackRpcFrame (pb_ser_meta pb) (pb_ser_msg pb) m None None [] max_frame_bytes
      in (ok, out))"

definition EnqueueResponseOnIoThread :: "nat \<Rightarrow> bytes \<Rightarrow> 'm ServerWorld \<Rightarrow> 'm ServerWorld" where
  "EnqueueResponseOnIoThread k response w =
     (if response = [] then w
      else case TryReserveOutboundBytes k (length response) w of
        (False, w) \<Rightarrow> RequestClose k kResourceLimit w
      | (True, w) \<Rightarrow>
          if \<not> sc_running (w_conns w k) then ReleaseFrameReservation k response w
          else let w = upd_conn k (\<lambda>c. c\<lparr>sc_outbound := sc_outbound c @ [response]\<rparr>) w;
                   w = upd_sm (\<lambda>m. m\<lparr>sm_responses_enqueued := Counter_Add (sm_responses_enqueued m) 1\<rparr>) w
               in StartNextWriteOnIoThread k w)"

definition SendErrorResponseOnIoThread ::
  "'m Protobuf \<Rightarrow> nat \<Rightarrow> FrameParseResult \<Rightarrow> int \<Rightarrow> string \<Rightarrow> 'm ServerWorld \<Rightarrow> 'm ServerWorld" where
  "SendErrorResponseOnIoThread pb k request error_code error_text w =
     (case PackServerErrorResponse pb request error_code error_text (so_max_frame_bytes (w_opts w)) of
        (False, _) \<Rightarrow> RequestClose k kResourceLimit w
      | (True, response) \<Rightarrow> EnqueueResponseOnIoThread k response w)"

definition reject_overload ::
  "'m Protobuf \<Rightarrow> nat \<Rightarrow> FrameParseResult \<Rightarrow> string \<Rightarrow> 'm ServerWorld \<Rightarrow> 'm ServerWorld" where
  "reject_overload pb k frame why w =
     SendErrorResponseOnIoThread pb k frame RPC_EOVERLOAD why
       (upd_sm (\<lambda>m. m\<lparr>sm_requests_rejected_overload := Counter_Add (sm_requests_rejected_overload m) 1\<rparr>) w)"

text \<open>The call object, its registration with the connection, and the task for the workers.\<close>

definition AdmitCall :: "int \<Rightarrow> nat \<Rightarrow> FrameParseResult \<Rightarrow> 'm ServerWorld \<Rightarrow> 'm ServerWorld" where
  "AdmitCall now k frame w =
     (let call = w_next_call w;
          w = w\<lparr>w_next_call := call + 1\<rparr>;
          w = upd_call call (\<lambda>_. new_InboundCallState k frame (so_max_frame_bytes (w_opts w)) now) w;
          w = upd_sm (\<lambda>m. m\<lparr>sm_calls_started := Counter_Add (sm_calls_started m) 1\<rparr>) w;
          w = upd_conn k (\<lambda>c. c\<lparr>sc_inbound_calls := sc_inbound_calls c @ [call],
                sc_in_flight_calls := add64 (sc_in_flight_calls c) 1\<rparr>) w
      in w\<lparr>w_worker := w_worker w @ [DispatchTask call]\<rparr>)"

definition HandleRequest ::
  "'m Protobuf \<Rightarrow> int \<Rightarrow> nat \<Rightarrow> FrameParseResult \<Rightarrow> 'm ServerWorld \<Rightarrow> 'm ServerWorld" where
  "HandleRequest pb now k frame w =
     (let w = upd_sm (\<lambda>m. m\<lparr>sm_requests_received := Counter_Add (sm_requests_received m) 1\<rparr>) w
      in if \<not> IsAccepting (w_rt w) then reject_overload pb k frame ''RPC server is stopping'' w
         else if sc_in_flight_calls (w_conns w k) \<ge> so_max_in_flight_per_connection (w_opts w)
         then reject_overload pb k frame ''RPC connection max_in_flight limit reached'' w
         else case TryAcquireInFlight (w_rt w) of
           (False, rt) \<Rightarrow> reject_overload pb k frame ''RPC server max_in_flight limit reached'' (w\<lparr>w_rt := rt\<rparr>)
         | (True, rt) \<Rightarrow>
             (case TryAcquireWorkerTask rt of
                (False, rt) \<Rightarrow>
                  reject_overload pb k frame ''RPC worker queue limit reached'' (w\<lparr>w_rt := ReleaseInFlight rt\<rparr>)
              | (True, rt) \<Rightarrow>
                  let w = w\<lparr>w_rt := rt\<rparr>
                  in if \<not> w_executor w
                     then RequestClose k kInternalError (upd_rt (\<lambda>rt. ReleaseInFlight (ReleaseWorkerTask rt)) w)
                     else AdmitCall now k frame w))"

section \<open>Receiving\<close>

definition protocol_error :: "nat \<Rightarrow> 'm ServerWorld \<Rightarrow> 'm ServerWorld" where
  "protocol_error k w =
     (let w = upd_sm (\<lambda>m. m\<lparr>sm_protocol_errors := Counter_Add (sm_protocol_errors m) 1\<rparr>) w;
          w = upd_conn k (RecordCloseReason kProtocolError) w;
          w = upd_conn k (\<lambda>c. c\<lparr>sc_running := False\<rparr>) w
      in shutdown_socket k w)"

text \<open>Handlers never touch the receive buffer, hence the parse loop ends.\<close>

lemmas world_updates = upd_conn_def upd_call_def upd_rt_def upd_sm_def upd_rt_metrics_def

lemmas close_defs = CancelIdleTimer_def CancelTimerOf_def CancelGracefulStopTimer_def ReleaseConnection_def
  release_connection_counters_def TryFinishCloseOnIoThread_def shutdown_socket_def post_def
  RequestClose_def RequestClose_exchange_def RequestClose_post_def RecordCloseReason_def

lemmas outbound_defs = TryReserveOutboundBytes_def ReleaseOutboundBytes_def ReleaseFrameReservation_def

lemma TryFinishClose_recv_buffer [simp]:
  "sc_recv_buffer (w_conns (TryFinishCloseOnIoThread k w) j) = sc_recv_buffer (w_conns w j)"
  by (simp add: close_defs world_updates Let_def)

lemma RequestClose_recv_buffer [simp]:
  "sc_recv_buffer (w_conns (RequestClose k r w) j) = sc_recv_buffer (w_conns w j)"
  by (simp add: close_defs world_updates Let_def split: bool.split)

lemma StartNextWrite_recv_buffer [simp]:
  "sc_recv_buffer (w_conns (StartNextWriteOnIoThread k w) j) = sc_recv_buffer (w_conns w j)"
  by (induction k w rule: StartNextWriteOnIoThread.induct, subst StartNextWriteOnIoThread.simps)
     (simp add: outbound_defs world_updates Let_def split: list.split prod.split)

lemma EnqueueResponse_recv_buffer [simp]:
  "sc_recv_buffer (w_conns (EnqueueResponseOnIoThread k r w) j) = sc_recv_buffer (w_conns w j)"
  by (simp add: EnqueueResponseOnIoThread_def outbound_defs world_updates Let_def split: bool.split)

lemma HandleRequest_recv_buffer [simp]:
  "sc_recv_buffer (w_conns (HandleRequest pb now k frame w) j) = sc_recv_buffer (w_conns w j)"
  by (simp add: HandleRequest_def AdmitCall_def reject_overload_def SendErrorResponseOnIoThread_def
      world_updates Let_def split: bool.split prod.split)

function parse_loop :: "'m Protobuf \<Rightarrow> int \<Rightarrow> nat \<Rightarrow> 'm ServerWorld \<Rightarrow> 'm ServerWorld" where
  "parse_loop pb now k w =
     (let frame = TryParseRpcFrame (pb_par_meta pb) (sc_recv_buffer (w_conns w k)) (so_max_frame_bytes (w_opts w))
      in if status frame = NEED_MORE_DATA then w
         else if status frame \<noteq> SUCCESS then protocol_error k w
         else if m_msg_type (meta frame) \<noteq> RPC_REQUEST then protocol_error k w
         else let w = upd_conn k (\<lambda>c. c\<lparr>sc_recv_buffer := drop (total_frame_bytes frame) (sc_recv_buffer c)\<rparr>) w
              in parse_loop pb now k (HandleRequest pb now k frame w))"
  by pat_completeness auto
termination
proof (relation "measure (\<lambda>(pb, now, k, w). length (sc_recv_buffer (w_conns w k)))", goal_cases)
  case (2 pb now k w frame x)
  let ?buf = "sc_recv_buffer (w_conns w k)"
  have s: "status (TryParseRpcFrame (pb_par_meta pb) ?buf (so_max_frame_bytes (w_opts w))) = SUCCESS"
    using 2 by simp
  have "0 < total_frame_bytes frame" "total_frame_bytes frame \<le> length ?buf"
    using wire.consumed_pos [OF s] wire.consumed_le [OF s] 2(1) by simp_all
  then show ?case using 2 by (simp add: upd_conn_def)
qed simp

declare parse_loop.simps [simp del]

definition ReceiveLoop_exit :: "nat \<Rightarrow> 'm ServerWorld \<Rightarrow> 'm ServerWorld" where
  "ReceiveLoop_exit k w =
     (let w = upd_conn k (\<lambda>c. c\<lparr>sc_running := False, sc_receiver_exited := True, sc_reading := False\<rparr>) w;
          w = DiscardQueuedOutboundOnIoThread k w
      in TryFinishCloseOnIoThread k w)"

text \<open>One turn of the loop, up to the suspension in the read.\<close>

definition ReceiveLoop_head :: "'m Protobuf \<Rightarrow> int \<Rightarrow> nat \<Rightarrow> 'm ServerWorld \<Rightarrow> 'm ServerWorld" where
  "ReceiveLoop_head pb now k w =
     (if \<not> sc_running (w_conns w k) then ReceiveLoop_exit k w
      else let w = parse_loop pb now k w
           in if \<not> sc_running (w_conns w k) then ReceiveLoop_exit k w
              else upd_conn k (\<lambda>c. c\<lparr>sc_reading := True\<rparr>) w)"

definition ReceiveLoop :: "'m Protobuf \<Rightarrow> int \<Rightarrow> nat \<Rightarrow> 'm ServerWorld \<Rightarrow> 'm ServerWorld" where
  "ReceiveLoop pb now k w = ReceiveLoop_head pb now k (upd_conn k (\<lambda>c. c\<lparr>sc_receiver_started := True\<rparr>) w)"

text \<open>The continuation of the read: \<open>bytes\<close> is its result, \<open>data\<close> what it appended to the buffer.\<close>

definition ReadResume :: "'m Protobuf \<Rightarrow> int \<Rightarrow> nat \<Rightarrow> int \<Rightarrow> bytes \<Rightarrow> 'm ServerWorld \<Rightarrow> 'm ServerWorld" where
  "ReadResume pb now k bytes data w =
     (let w = upd_conn k (\<lambda>c. c\<lparr>sc_reading := False, sc_recv_buffer := sc_recv_buffer c @ data\<rparr>) w
      in if bytes \<le> 0
         then ReceiveLoop_exit k
                (upd_conn k (RecordCloseReason (if bytes = 0 then kPeerEof else kReadError)) w)
         else ReceiveLoop_head pb now k (ArmIdleTimerOnIoThread k w))"

definition StartOnIoThread :: "'m Protobuf \<Rightarrow> int \<Rightarrow> nat \<Rightarrow> 'm ServerWorld \<Rightarrow> 'm ServerWorld" where
  "StartOnIoThread pb now k w =
     (let w = upd_conn k (\<lambda>c. c\<lparr>sc_start_command_handled := True\<rparr>) w
      in if \<not> sc_running (w_conns w k)
         then TryFinishCloseOnIoThread k (upd_conn k (\<lambda>c. c\<lparr>sc_receiver_exited := True\<rparr>) w)
         else ReceiveLoop pb now k (ArmIdleTimerOnIoThread k w))"

section \<open>Inbound calls\<close>

definition CompleteInbound :: "nat \<Rightarrow> nat \<Rightarrow> bytes \<Rightarrow> bool \<Rightarrow> 'm ServerWorld \<Rightarrow> 'm ServerWorld" where
  "CompleteInbound k call response close_after_completion w =
     post k (ServerCompleteInbound k call response close_after_completion) w"

definition CompleteInboundOnIoThread :: "nat \<Rightarrow> nat \<Rightarrow> bytes \<Rightarrow> bool \<Rightarrow> 'm ServerWorld \<Rightarrow> 'm ServerWorld" where
  "CompleteInboundOnIoThread k call response close_after_completion w =
     (let w = upd_conn k (\<lambda>c. c\<lparr>sc_inbound_calls := removeAll call (sc_inbound_calls c),
                sc_in_flight_calls := sub64 (sc_in_flight_calls c) 1\<rparr>) w
      in if close_after_completion
         then let w = ReleaseFrameReservation k response w;
                  w = upd_conn k (RecordCloseReason kResourceLimit) w;
                  w = upd_conn k (\<lambda>c. c\<lparr>sc_running := False\<rparr>) w
              in BeginCloseOnIoThread k w
         else if sc_running (w_conns w k) \<and> response \<noteq> []
         then let w = upd_conn k (\<lambda>c. c\<lparr>sc_outbound := sc_outbound c @ [response]\<rparr>) w;
                  w = upd_sm (\<lambda>m. m\<lparr>sm_responses_enqueued := Counter_Add (sm_responses_enqueued m) 1\<rparr>) w;
                  w = StartNextWriteOnIoThread k w
              in TryFinishCloseOnIoThread k w
         else TryFinishCloseOnIoThread k (ReleaseFrameReservation k response w))"

fun DispatchCommand :: "'m Protobuf \<Rightarrow> int \<Rightarrow> IoCommand \<Rightarrow> 'm ServerWorld \<Rightarrow> 'm ServerWorld" where
  "DispatchCommand pb now (ServerStart k) w =
     StartOnIoThread pb now k (upd_sm (\<lambda>m. m\<lparr>sm_io_command_backlog := Gauge_Add (sm_io_command_backlog m) (- 1)\<rparr>) w)"
| "DispatchCommand pb now (ServerCompleteInbound k call payload close_after) w =
     CompleteInboundOnIoThread k call payload close_after
       (upd_sm (\<lambda>m. m\<lparr>sm_io_command_backlog := Gauge_Add (sm_io_command_backlog m) (- 1)\<rparr>) w)"
| "DispatchCommand pb now (ServerClose k) w =
     BeginCloseOnIoThread k (upd_sm (\<lambda>m. m\<lparr>sm_io_command_backlog := Gauge_Add (sm_io_command_backlog m) (- 1)\<rparr>) w)"
| "DispatchCommand pb now cmd w = w"

definition ScheduleInboundFinalization :: "nat \<Rightarrow> 'm ServerWorld \<Rightarrow> 'm ServerWorld" where
  "ScheduleInboundFinalization call w = w\<lparr>w_worker := w_worker w @ [FinalizeTask call]\<rparr>"

definition upd_method :: "nat \<Rightarrow> (ServerMethodMetrics \<Rightarrow> ServerMethodMetrics) \<Rightarrow> ServerMetrics \<Rightarrow> ServerMetrics" where
  "upd_method h f m =
     m\<lparr>sm_method_metrics := map (\<lambda>(i, mm). if i = h then (i, f mm) else (i, mm)) (sm_method_metrics m)\<rparr>"

definition respond_meta :: "FrameParseResult \<Rightarrow> RpcMeta \<Rightarrow> RpcMeta" where
  "respond_meta frame m = m\<lparr>m_msg_type := RPC_RESPONSE, m_correlation_id := m_correlation_id (meta frame),
     m_service_name := m_service_name (meta frame), m_method_name := m_method_name (meta frame)\<rparr>"

definition request_controller :: "int \<Rightarrow> FrameParseResult \<Rightarrow> RpcController" where
  "request_controller now frame =
     (let k = new_RpcController now;
          k = k\<lparr>c_correlation_id := m_correlation_id (meta frame), c_log_id := m_log_id (meta frame),
                c_timeout_ms := m_timeout_ms (meta frame)\<rparr>;
          k = (if m_headers (meta frame) \<noteq> [] then k\<lparr>c_request_headers := m_headers (meta frame)\<rparr> else k)
      in if attachment_iobuf frame \<noteq> [] then k\<lparr>c_request_attachment := attachment_iobuf frame\<rparr> else k)"

text \<open>
  \<open>RunInboundCall\<close> up to the call of the service method, which is user code: afterwards the call
  has its controller and closure, or its finalization has been scheduled.
\<close>

definition RunInboundCall :: "'m Protobuf \<Rightarrow> int \<Rightarrow> nat \<Rightarrow> 'm ServerWorld \<Rightarrow> 'm ServerWorld" where
  "RunInboundCall pb now i w =
     (let w = upd_call i (\<lambda>c. c\<lparr>ic_response_meta := respond_meta (ic_frame c) (ic_response_meta c)\<rparr>) w;
          frame = ic_frame (w_calls w i);
          lookup = FindMethod (m_service_name (meta frame)) (m_method_name (meta frame)) (w_registry w);
          fail = (\<lambda>code text w. ScheduleInboundFinalization i
            (upd_call i (\<lambda>c. c\<lparr>ic_response_meta := (ic_response_meta c)\<lparr>m_error_code := code, m_error_text := text\<rparr>,
               ic_completion := kFinalizationScheduled\<rparr>) w))
      in case ml_service lookup of
           None \<Rightarrow> fail RPC_ENOSERVICE (''Service not found: '' @ m_service_name (meta frame)) w
         | Some svc \<Rightarrow>
             (case ml_method lookup of
                None \<Rightarrow> fail RPC_ENOMETHOD (''Method not found: '' @ m_method_name (meta frame)) w
              | Some method \<Rightarrow>
                  let (metrics, w) =
                        (case FindMethodMetrics method (w_rt w) of
                           Some h \<Rightarrow> (h, w)
                         | None \<Rightarrow> (fst (GetOrCreateMethod method (rt_metrics (w_rt w))),
                                    upd_sm (\<lambda>m. snd (GetOrCreateMethod method m)) w));
                      w = upd_sm (upd_method metrics (\<lambda>mm. mm\<lparr>mm_calls_started := Counter_Add (mm_calls_started mm) 1,
                            mm_active_in_flight := Gauge_Add (mm_active_in_flight mm) 1\<rparr>)) w;
                      (ok, request) = (if body_iobuf frame \<noteq> [] then pb_parse_request pb (md_handle method) (body_iobuf frame)
                                       else (True, pb_new_request pb (md_handle method)));
                      w = upd_call i (\<lambda>c. c\<lparr>ic_service := Some svc, ic_method := Some method,
                            ic_method_metrics := Some metrics, ic_request := Some request,
                            ic_response := Some (pb_new_response pb (md_handle method))\<rparr>) w
                  in if \<not> ok then fail RPC_EINVALID_DATA ''Failed to parse request protobuf'' w
                     else upd_call i (\<lambda>c. c\<lparr>ic_controller := Some (request_controller now frame), ic_done := True,
                            ic_frame := frame\<lparr>meta := (meta frame)\<lparr>m_headers := []\<rparr>, attachment_iobuf := []\<rparr>\<rparr>) w))"

text \<open>The dispatch task leaves the worker queue before it runs the call.\<close>

definition ServerDispatchTask_execute :: "'m Protobuf \<Rightarrow> int \<Rightarrow> nat \<Rightarrow> 'm ServerWorld \<Rightarrow> 'm ServerWorld" where
  "ServerDispatchTask_execute pb now i w = RunInboundCall pb now i (upd_rt ReleaseWorkerTask w)"

text \<open>\<open>alive\<close> says whether the weak reference of the closure can still be locked.\<close>

definition InboundDoneClosure_Run :: "bool \<Rightarrow> nat \<Rightarrow> 'm ServerWorld \<Rightarrow> 'm ServerWorld" where
  "InboundDoneClosure_Run alive i w =
     (if \<not> alive then w
      else if ic_completion (w_calls w i) \<noteq> kPending then w
      else ScheduleInboundFinalization i (upd_call i (\<lambda>c. c\<lparr>ic_completion := kFinalizationScheduled\<rparr>) w))"

text \<open>The response frame of a call and whether packing it failed.\<close>

definition pack_response :: "'m Protobuf \<Rightarrow> 'm InboundCallState \<Rightarrow> bool \<times> RpcMeta \<times> bytes" where
  "pack_response pb c =
     (case ic_controller c of
        Some k \<Rightarrow>
          let m = (ic_response_meta c)\<lparr>m_error_code := c_error_code k, m_error_text := c_error_text k\<rparr>;
              m = (if c_response_headers k \<noteq> [] then m\<lparr>m_headers := c_response_headers k\<rparr> else m);
              attachment = (if c_response_attachment k \<noteq> [] then Some (c_response_attachment k) else None)
          in PackRpcFrame (pb_ser_meta pb) (pb_ser_msg pb) m (ic_response c) attachment [] (ic_max_frame_bytes c)
      | None \<Rightarrow>
          PackRpcFrame (pb_ser_meta pb) (pb_ser_msg pb) (ic_response_meta c) None None [] (ic_max_frame_bytes c))"

definition record_completion :: "int \<Rightarrow> bool \<Rightarrow> nat option \<Rightarrow> ServerMetrics \<Rightarrow> ServerMetrics" where
  "record_completion latency failed method_metrics m =
     (let m = m\<lparr>sm_calls_completed := Counter_Add (sm_calls_completed m) 1\<rparr>;
          m = (if failed then m\<lparr>sm_call_errors := Counter_Add (sm_call_errors m) 1\<rparr> else m);
          m = m\<lparr>sm_request_latency := Record latency (sm_request_latency m)\<rparr>
      in case method_metrics of
           None \<Rightarrow> m
         | Some h \<Rightarrow> upd_method h (\<lambda>mm.
             let mm = mm\<lparr>mm_calls_completed := Counter_Add (mm_calls_completed mm) 1\<rparr>;
                 mm = (if failed then mm\<lparr>mm_call_errors := Counter_Add (mm_call_errors mm) 1\<rparr> else mm);
                 mm = mm\<lparr>mm_call_latency := Record latency (mm_call_latency mm)\<rparr>
             in mm\<lparr>mm_active_in_flight := Gauge_Add (mm_active_in_flight mm) (- 1)\<rparr>) m)"

definition FinalizeInboundCall :: "'m Protobuf \<Rightarrow> int \<Rightarrow> bool \<Rightarrow> nat \<Rightarrow> 'm ServerWorld \<Rightarrow> 'm ServerWorld" where
  "FinalizeInboundCall pb now connection_alive i w =
     (let c = w_calls w i; k = ic_connection c;
          (packed, m, wire) = pack_response pb c;
          close_after = \<not> packed; wire_response = (if packed then wire else []);
          w = upd_call i (\<lambda>c. c\<lparr>ic_response_meta := m\<rparr>) w;
          (close_after, wire_response, w) =
            (if connection_alive \<and> \<not> close_after \<and> wire_response \<noteq> []
             then if \<not> sc_running (w_conns w k) then (close_after, [], w)
                  else case TryReserveOutboundBytes k (length wire_response) w of
                         (True, w) \<Rightarrow> (close_after, wire_response, w)
                       | (False, w) \<Rightarrow> (True, [], w)
             else (close_after, wire_response, w));
          failed = (m_error_code m \<noteq> RPC_SUCCESS \<or> close_after);
          latency = ns_to_us (now - ic_received_at c);
          w = upd_sm (record_completion latency failed (ic_method_metrics c)) w;
          w = upd_call i (\<lambda>c. c\<lparr>ic_completion := kFinalized\<rparr>) w;
          w = (if connection_alive then CompleteInbound k i wire_response close_after w else w)
      in upd_rt ReleaseInFlight w)"

section \<open>Connections of the runtime\<close>

definition ForceCloseLiveConnections :: "'m ServerWorld \<Rightarrow> 'm ServerWorld" where
  "ForceCloseLiveConnections w = fold (\<lambda>k. RequestClose k kServerStop) (rt_connections (w_rt w)) w"

definition TrackConnection :: "nat \<Rightarrow> 'm ServerWorld \<Rightarrow> 'm ServerWorld" where
  "TrackConnection k w =
     (let stopping = \<not> rt_accepting (w_rt w);
          w = upd_rt (\<lambda>rt. rt\<lparr>rt_connections := rt_connections rt @ [k]\<rparr>) w
      in if stopping \<and> so_graceful_stop_timeout (w_opts w) = 0 then RequestClose k kServerStop w else w)"

definition BeginGracefulStop :: "'m ServerWorld \<Rightarrow> 'm ServerWorld" where
  "BeginGracefulStop w =
     (let w = upd_rt (\<lambda>rt. rt\<lparr>rt_accepting := False\<rparr>) w
      in if so_graceful_stop_timeout (w_opts w) = 0 then ForceCloseLiveConnections w
         else if rt_active_connections (w_rt w) = 0 then w
         else let (timer, w) = AddTimerTo ForceCloseAll w;
                  old = rt_graceful_stop_timer_id (w_rt w);
                  w = upd_rt (\<lambda>rt. rt\<lparr>rt_graceful_stop_timer_id := timer\<rparr>) w
              in if old \<noteq> 0 then CancelTimerOf old w else w)"

definition Start_connection :: "nat \<Rightarrow> 'm ServerWorld \<Rightarrow> 'm ServerWorld" where
  "Start_connection k w = post k (ServerStart k) w"

fun run_timer_action :: "timer_action \<Rightarrow> 'm ServerWorld \<Rightarrow> 'm ServerWorld" where
  "run_timer_action (IdleExpired k generation) w =
     (if sc_idle_generation (w_conns w k) = generation then RequestClose k kIdleTimeout w else w)"
| "run_timer_action ForceCloseAll w = ForceCloseLiveConnections w"

definition handle_rpc_client :: "nat \<Rightarrow> int \<Rightarrow> 'm ServerWorld \<Rightarrow> 'm ServerWorld" where
  "handle_rpc_client k fd w =
     (case TryAcquireConnection (w_rt w) of
        (False, rt) \<Rightarrow> w\<lparr>w_rt := rt, w_sockets := w_sockets w @ [CloseSocket k fd]\<rparr>
      | (True, rt) \<Rightarrow>
          let w = w\<lparr>w_rt := rt\<rparr>;
              w = upd_conn k (\<lambda>_. new_ServerConnection fd) w;
              w = TrackConnection k w
          in Start_connection k w)"

text \<open>An accepted socket on its context: the connection starts before it is tracked.\<close>

definition AcceptConnection :: "int \<Rightarrow> 'm ServerWorld \<Rightarrow> 'm ServerWorld" where
  "AcceptConnection fd w =
     (let k = w_next_conn w
      in case TryAcquireConnection (w_rt w) of
           (False, rt) \<Rightarrow> w\<lparr>w_rt := rt, w_sockets := w_sockets w @ [CloseSocket k fd]\<rparr>
         | (True, rt) \<Rightarrow>
             let w = w\<lparr>w_rt := rt, w_next_conn := k + 1\<rparr>;
                 w = upd_conn k (\<lambda>_. new_ServerConnection fd) w;
                 w = Start_connection k w
             in TrackConnection k w)"

section \<open>Interleavings\<close>

definition new_ServerWorld :: "RpcServerOptions \<Rightarrow> ServiceRegistry \<Rightarrow> bool \<Rightarrow> (nat \<Rightarrow> 'm InboundCallState) \<Rightarrow> 'm ServerWorld" where
  "new_ServerWorld opt registry executor calls = \<lparr>w_rt = new_ServerRuntime opt, w_registry = registry,
     w_executor = executor, w_conns = (\<lambda>_. new_ServerConnection (- 1)), w_calls = calls, w_next_call = 0,
     w_commands = (\<lambda>_. []), w_worker = [], w_timers = [], w_next_timer = 1, w_sockets = [], w_next_conn = 0\<rparr>"

text \<open>
  The steps of the server: the IO threads handle commands and completions, workers run their tasks
  in any order, timers expire, service code writes and completes its calls, and any thread may close
  a connection or stop the server.  The result of a write is at most what was offered, and the
  result of a read is the number of bytes it appended.
\<close>

inductive server_step :: "'m Protobuf \<Rightarrow> 'm ServerWorld \<Rightarrow> 'm ServerWorld \<Rightarrow> bool" for pb where
  step_accept: "server_step pb w (AcceptConnection fd w)"
| step_command: "w_commands w k = cmd # rest \<Longrightarrow>
    server_step pb w (DispatchCommand pb now cmd (w\<lparr>w_commands := (w_commands w)(k := rest)\<rparr>))"
| step_read: "sc_reading (w_conns w k) \<Longrightarrow> bytes \<le> 0 \<and> data = [] \<or> bytes = int (length data) \<Longrightarrow>
    server_step pb w (ReadResume pb now k bytes data w)"
| step_write: "sc_write_frame (w_conns w k) = Some f \<Longrightarrow> written \<le> int (length f) \<Longrightarrow>
    server_step pb w (WriteResume k written w)"
| step_dispatch: "w_worker w = ts @ DispatchTask i # ts' \<Longrightarrow>
    server_step pb w (ServerDispatchTask_execute pb now i (w\<lparr>w_worker := ts @ ts'\<rparr>))"
| step_finalize: "w_worker w = ts @ FinalizeTask i # ts' \<Longrightarrow>
    server_step pb w (FinalizeInboundCall pb now (\<not> sc_released (w_conns w (ic_connection (w_calls w i)))) i
      (w\<lparr>w_worker := ts @ ts'\<rparr>))"
| step_timer: "w_worker w = ts @ TimerTask a # ts' \<Longrightarrow>
    server_step pb w (run_timer_action a (w\<lparr>w_worker := ts @ ts'\<rparr>))"
| step_expire: "(t, a) \<in> set (w_timers w) \<Longrightarrow>
    server_step pb w (CancelTimerOf t (w\<lparr>w_worker := w_worker w @ [TimerTask a]\<rparr>))"
| step_service: "i < w_next_call w \<Longrightarrow> ic_done (w_calls w i) \<Longrightarrow> ic_completion (w_calls w i) = kPending \<Longrightarrow>
    server_step pb w (upd_call i (\<lambda>c. c\<lparr>ic_controller := Some ctl, ic_response := Some resp\<rparr>) w)"
| step_done: "i < w_next_call w \<Longrightarrow> ic_done (w_calls w i) \<Longrightarrow>
    server_step pb w (InboundDoneClosure_Run (i \<in> set (sc_inbound_calls (w_conns w (ic_connection (w_calls w i))))) i w)"
| step_close: "k < w_next_conn w \<Longrightarrow> server_step pb w (RequestClose k reason w)"
| step_stop: "server_step pb w (BeginGracefulStop w)"

inductive_cases server_stepE: "server_step pb w w'"

text \<open>A server starts with any registry and any metrics that the registered services have.\<close>

inductive server_reach :: "'m Protobuf \<Rightarrow> 'm ServerWorld \<Rightarrow> bool" for pb where
  server_init: "options_sized opt \<Longrightarrow> server_reach pb
    (upd_rt (\<lambda>rt. rt\<lparr>rt_metrics := m, rt_method_metrics := mm\<rparr>) (new_ServerWorld opt registry executor calls))"
| server_next: "server_reach pb w \<Longrightarrow> server_step pb w w' \<Longrightarrow> server_reach pb w'"

section \<open>Shared lemmas\<close>

lemma upd_conn_sel [simp]:
  "w_conns (upd_conn k f w) j = (if j = k then f (w_conns w k) else w_conns w j)"
  "w_commands (upd_conn k f w) = w_commands w" "w_rt (upd_conn k f w) = w_rt w" "w_worker (upd_conn k f w) = w_worker w"
  "w_calls (upd_conn k f w) = w_calls w" "w_next_call (upd_conn k f w) = w_next_call w"
  "w_next_conn (upd_conn k f w) = w_next_conn w" "w_timers (upd_conn k f w) = w_timers w"
  "w_sockets (upd_conn k f w) = w_sockets w" "w_executor (upd_conn k f w) = w_executor w"
  by (simp_all add: upd_conn_def)

lemma upd_sm_sel [simp]:
  "w_conns (upd_sm g w) = w_conns w" "w_commands (upd_sm g w) = w_commands w" "w_worker (upd_sm g w) = w_worker w"
  "w_calls (upd_sm g w) = w_calls w" "w_next_call (upd_sm g w) = w_next_call w"
  "w_next_conn (upd_sm g w) = w_next_conn w" "w_timers (upd_sm g w) = w_timers w" "w_sockets (upd_sm g w) = w_sockets w"
  "w_executor (upd_sm g w) = w_executor w"
  "rt_options (w_rt (upd_sm g w)) = rt_options (w_rt w)" "rt_accepting (w_rt (upd_sm g w)) = rt_accepting (w_rt w)"
  "rt_active_connections (w_rt (upd_sm g w)) = rt_active_connections (w_rt w)"
  "rt_in_flight (w_rt (upd_sm g w)) = rt_in_flight (w_rt w)"
  "rt_pending_worker_tasks (w_rt (upd_sm g w)) = rt_pending_worker_tasks (w_rt w)"
  "rt_connections (w_rt (upd_sm g w)) = rt_connections (w_rt w)"
  by (simp_all add: upd_sm_def upd_rt_def upd_rt_metrics_def)

lemma upd_call_sel [simp]:
  "w_conns (upd_call i g w) = w_conns w" "w_commands (upd_call i g w) = w_commands w" "w_worker (upd_call i g w) = w_worker w"
  "w_calls (upd_call i g w) j = (if j = i then g (w_calls w i) else w_calls w j)"
  "w_next_call (upd_call i g w) = w_next_call w" "w_rt (upd_call i g w) = w_rt w"
  "w_next_conn (upd_call i g w) = w_next_conn w" "w_timers (upd_call i g w) = w_timers w"
  by (simp_all add: upd_call_def)

lemma shutdown_socket_sel [simp]:
  "w_conns (shutdown_socket k w) = w_conns w" "w_commands (shutdown_socket k w) = w_commands w"
  "w_worker (shutdown_socket k w) = w_worker w" "w_calls (shutdown_socket k w) = w_calls w"
  "w_next_call (shutdown_socket k w) = w_next_call w" "w_rt (shutdown_socket k w) = w_rt w"
  "w_next_conn (shutdown_socket k w) = w_next_conn w"
  by (simp_all add: shutdown_socket_def Let_def)

text \<open>A runtime that differs in its metrics at most.\<close>

definition same_counters :: "ServerRuntime \<Rightarrow> ServerRuntime \<Rightarrow> bool" where
  "same_counters rt rt' = (\<exists>m. rt' = rt\<lparr>rt_metrics := m\<rparr>)"

lemma same_countersD:
  assumes "same_counters rt rt'"
  shows "rt_options rt' = rt_options rt" "rt_accepting rt' = rt_accepting rt" "rt_in_flight rt' = rt_in_flight rt"
    "rt_active_connections rt' = rt_active_connections rt" "rt_pending_worker_tasks rt' = rt_pending_worker_tasks rt"
    "rt_connections rt' = rt_connections rt" "rt_graceful_stop_timer_id rt' = rt_graceful_stop_timer_id rt"
  using assms by (auto simp: same_counters_def)

text \<open>The outcomes of a request: rejected, the connection closed for want of an executor, or admitted.\<close>

lemma HandleRequest_cases:
  assumes "options_sized (w_opts w)"
  obtains (reject) rt why where "same_counters (w_rt w) rt"
      "HandleRequest pb now k frame w = reject_overload pb k frame why (w\<lparr>w_rt := rt\<rparr>)"
  | (no_executor) rt where "same_counters (w_rt w) rt"
      "HandleRequest pb now k frame w = RequestClose k kInternalError (w\<lparr>w_rt := rt\<rparr>)"
  | (admit) m where "rt_accepting (w_rt w)" "sc_in_flight_calls (w_conns w k) < so_max_in_flight_per_connection (w_opts w)"
      "rt_in_flight (w_rt w) < so_max_in_flight (w_opts w)"
      "rt_pending_worker_tasks (w_rt w) < so_max_pending_worker_tasks (w_opts w)"
      "HandleRequest pb now k frame w = AdmitCall now k frame (w\<lparr>w_rt := (w_rt w)\<lparr>rt_in_flight := rt_in_flight (w_rt w) + 1,
         rt_pending_worker_tasks := rt_pending_worker_tasks (w_rt w) + 1, rt_metrics := m\<rparr>\<rparr>)"
proof -
  have lim: "so_max_in_flight (w_opts w) \<le> SIZE_MAX" "so_max_pending_worker_tasks (w_opts w) \<le> SIZE_MAX"
    using assms by (simp_all add: options_sized_def)
  have rt: "w\<lparr>w_rt := (w_rt w)\<lparr>rt_metrics := m\<rparr>\<rparr> = w\<lparr>w_rt := rt'\<rparr> \<longleftrightarrow> rt' = (w_rt w)\<lparr>rt_metrics := m\<rparr>" for m rt'
    by (cases w) auto
  define w0 where "w0 = upd_sm (\<lambda>m. m\<lparr>sm_requests_received := Counter_Add (sm_requests_received m) 1\<rparr>) w"
  obtain m0 where w0: "w0 = w\<lparr>w_rt := (w_rt w)\<lparr>rt_metrics := m0\<rparr>\<rparr>"
    by (simp add: w0_def upd_sm_def upd_rt_def upd_rt_metrics_def)
  consider (a) "\<not> rt_accepting (w_rt w)"
    | (b) "rt_accepting (w_rt w)" "sc_in_flight_calls (w_conns w k) \<ge> so_max_in_flight_per_connection (w_opts w)"
    | (c) "rt_accepting (w_rt w)" "sc_in_flight_calls (w_conns w k) < so_max_in_flight_per_connection (w_opts w)"
        "\<not> rt_in_flight (w_rt w) < so_max_in_flight (w_opts w)"
    | (d) "rt_accepting (w_rt w)" "sc_in_flight_calls (w_conns w k) < so_max_in_flight_per_connection (w_opts w)"
        "rt_in_flight (w_rt w) < so_max_in_flight (w_opts w)"
        "\<not> rt_pending_worker_tasks (w_rt w) < so_max_pending_worker_tasks (w_opts w)"
    | (e) "rt_accepting (w_rt w)" "sc_in_flight_calls (w_conns w k) < so_max_in_flight_per_connection (w_opts w)"
        "rt_in_flight (w_rt w) < so_max_in_flight (w_opts w)"
        "rt_pending_worker_tasks (w_rt w) < so_max_pending_worker_tasks (w_opts w)"
    by linarith
  then show thesis
  proof cases
    case a
    then show ?thesis
      by (intro reject [of "(w_rt w)\<lparr>rt_metrics := m0\<rparr>" "''RPC server is stopping''"])
         (auto simp: same_counters_def HandleRequest_def IsAccepting_def w0 simp flip: w0_def)
  next
    case b
    then show ?thesis
      by (intro reject [of "(w_rt w)\<lparr>rt_metrics := m0\<rparr>" "''RPC connection max_in_flight limit reached''"])
         (auto simp: same_counters_def HandleRequest_def IsAccepting_def w0 simp flip: w0_def)
  next
    case c
    then show ?thesis
      by (intro reject [of "(w_rt w)\<lparr>rt_metrics := m0\<rparr>" "''RPC server max_in_flight limit reached''"])
         (auto simp: same_counters_def HandleRequest_def IsAccepting_def TryAcquireInFlight_def w0 simp flip: w0_def)
  next
    case d
    then have "sub64 (add64 (rt_in_flight (w_rt w)) 1) 1 = rt_in_flight (w_rt w)"
      using lim by (intro sub64_add64_cancel) simp
    then show ?thesis
      using d
      by (intro reject [of "ReleaseInFlight (snd (TryAcquireInFlight ((w_rt w)\<lparr>rt_metrics := m0\<rparr>)))"
            "''RPC worker queue limit reached''"])
         (auto simp: same_counters_def HandleRequest_def IsAccepting_def TryAcquireInFlight_def TryAcquireWorkerTask_def
           ReleaseInFlight_def upd_rt_metrics_def w0 simp flip: w0_def)
  next
    case e
    have add: "add64 (rt_in_flight (w_rt w)) 1 = rt_in_flight (w_rt w) + 1"
      "add64 (rt_pending_worker_tasks (w_rt w)) 1 = rt_pending_worker_tasks (w_rt w) + 1"
      using e(3,4) lim by (simp_all add: add64_exact)
    have sub: "sub64 (rt_in_flight (w_rt w) + 1) 1 = rt_in_flight (w_rt w)"
      "sub64 (rt_pending_worker_tasks (w_rt w) + 1) 1 = rt_pending_worker_tasks (w_rt w)"
      using e(3,4) lim by (simp_all add: sub64_exact)
    show ?thesis
    proof (cases "w_executor w")
      case True
      show ?thesis
        using e True add
        by (intro admit [of "rt_metrics (snd (TryAcquireWorkerTask (snd (TryAcquireInFlight ((w_rt w)\<lparr>rt_metrics := m0\<rparr>)))))"])
           (simp_all add: HandleRequest_def IsAccepting_def TryAcquireInFlight_def TryAcquireWorkerTask_def upd_rt_metrics_def
             w0 Let_def flip: w0_def)
    next
      case False
      show ?thesis
        using e False add sub
        by (intro no_executor [of "ReleaseInFlight (ReleaseWorkerTask (snd (TryAcquireWorkerTask
              (snd (TryAcquireInFlight ((w_rt w)\<lparr>rt_metrics := m0\<rparr>))))))"])
           (auto simp: same_counters_def HandleRequest_def IsAccepting_def TryAcquireInFlight_def TryAcquireWorkerTask_def
             ReleaseInFlight_def ReleaseWorkerTask_def upd_rt_metrics_def upd_rt_def w0 Let_def simp flip: w0_def)
    qed
  qed
qed

end
