(* ===== verification/Server_Isolation.thy ===== *)
theory Server_Isolation
  imports Server_Connection
begin

text \<open>
  What the IO thread of a connection can change.  Every handler of a connection touches only that
  connection and its mailbox, adds calls of its own and timers of its own, and leaves every other
  connection and every call already admitted as they are.  Hence commands, timers and calls always
  name a connection that exists.
\<close>

section \<open>Touching one connection\<close>

fun command_conn :: "IoCommand \<Rightarrow> nat" where
  "command_conn (ServerStart k) = k"
| "command_conn (ServerCompleteInbound k i p b) = k"
| "command_conn (ServerClose k) = k"
| "command_conn (ChannelStart k) = k"
| "command_conn (ChannelSendFrame k c p) = k"
| "command_conn (ChannelClose k) = k"

definition touch_conns :: "nat \<Rightarrow> 'm ServerWorld \<Rightarrow> 'm ServerWorld \<Rightarrow> bool" where
  "touch_conns k w w' =
     (w_next_conn w' = w_next_conn w \<and> w_opts w' = w_opts w \<and> w_registry w' = w_registry w \<and> w_executor w' = w_executor w \<and>
      (\<forall>j. j \<noteq> k \<longrightarrow> w_conns w' j = w_conns w j \<and> w_commands w' j = w_commands w j) \<and>
      (\<forall>cmd. cmd \<in> set (w_commands w' k) \<longrightarrow> cmd \<in> set (w_commands w k) \<or> command_conn cmd = k) \<and>
      (\<forall>t a. (t, a) \<in> set (w_timers w') \<longrightarrow> (t, a) \<in> set (w_timers w) \<or> (\<exists>g. a = IdleExpired k g)) \<and>
      set (rt_connections (w_rt w')) \<subseteq> set (rt_connections (w_rt w)) \<and> rt_accepting (w_rt w') = rt_accepting (w_rt w))"

definition touch_calls :: "nat \<Rightarrow> 'm ServerWorld \<Rightarrow> 'm ServerWorld \<Rightarrow> bool" where
  "touch_calls k w w' =
     (w_next_call w \<le> w_next_call w' \<and>
      (\<forall>t. t \<in> set (w_worker w') \<longrightarrow> t \<in> set (w_worker w) \<or>
         (\<exists>i. t = DispatchTask i \<and> w_next_call w \<le> i \<and> i < w_next_call w')) \<and>
      (\<forall>i. i < w_next_call w \<longrightarrow> w_calls w' i = w_calls w i) \<and>
      (\<forall>i. w_next_call w \<le> i \<longrightarrow> i < w_next_call w' \<longrightarrow> ic_connection (w_calls w' i) = k))"

definition touch :: "nat \<Rightarrow> 'm ServerWorld \<Rightarrow> 'm ServerWorld \<Rightarrow> bool" where
  "touch k w w' = (touch_conns k w w' \<and> touch_calls k w w')"

named_theorems touches

lemma touch_same: "touch k w w"
  by (simp add: touch_def touch_conns_def touch_calls_def)

lemma touch_conns_trans: "touch_conns k u v \<Longrightarrow> touch_conns k v w \<Longrightarrow> touch_conns k u w"
  unfolding touch_conns_def by (auto, metis+)

lemma touch_calls_trans: "touch_calls k u v \<Longrightarrow> touch_calls k v w \<Longrightarrow> touch_calls k u w"
  unfolding touch_calls_def by (auto, (metis le_trans less_le_trans not_le)+)

lemma touch_trans: "touch k u v \<Longrightarrow> touch k v w \<Longrightarrow> touch k u w"
  unfolding touch_def by (blast intro: touch_conns_trans touch_calls_trans)

text \<open>The elementary changes.\<close>

lemma touch_step: "touch k u v \<Longrightarrow> touch_conns k v w \<Longrightarrow> touch_calls k v w \<Longrightarrow> touch k u w"
  by (rule touch_trans) (simp_all add: touch_def)

lemma touch_upd_conn [touches]: "touch k v w \<Longrightarrow> touch k v (upd_conn k f w)"
  by (erule touch_step) (simp_all add: touch_conns_def touch_calls_def upd_conn_def)

lemma touch_upd_sm [touches]: "touch k v w \<Longrightarrow> touch k v (upd_sm f w)"
  by (erule touch_step) (simp_all add: touch_conns_def touch_calls_def upd_sm_def upd_rt_def upd_rt_metrics_def)

lemma touch_upd_rt [touches]:
  "touch k v w \<Longrightarrow> rt_options (f (w_rt w)) = w_opts w \<Longrightarrow> set (rt_connections (f (w_rt w))) \<subseteq> set (rt_connections (w_rt w)) \<Longrightarrow>
   rt_accepting (f (w_rt w)) = rt_accepting (w_rt w) \<Longrightarrow> touch k v (upd_rt f w)"
  by (erule touch_step) (simp_all add: touch_conns_def touch_calls_def upd_rt_def)

lemma touch_rt [touches]:
  "touch k v w \<Longrightarrow> same_counters (w_rt w) rt \<Longrightarrow> touch k v (w\<lparr>w_rt := rt\<rparr>)"
  by (erule touch_step) (auto simp: touch_conns_def touch_calls_def same_counters_def)

lemma touch_post [touches]: "touch k v w \<Longrightarrow> command_conn cmd = k \<Longrightarrow> touch k v (post k cmd w)"
  by (erule touch_step) (auto simp: touch_conns_def touch_calls_def post_def world_updates Let_def)

lemma touch_sockets [touches]: "touch k v w \<Longrightarrow> touch k v (w\<lparr>w_sockets := s\<rparr>)"
  by (erule touch_step) (simp_all add: touch_conns_def touch_calls_def)

lemma touch_shutdown [touches]: "touch k v w \<Longrightarrow> touch k v (shutdown_socket k w)"
  by (auto simp: shutdown_socket_def Let_def intro: touches)

lemma touch_cancel_timer [touches]: "touch k v w \<Longrightarrow> touch k v (CancelTimerOf t w)"
  by (erule touch_step) (auto simp: touch_conns_def touch_calls_def CancelTimerOf_def)

section \<open>The handlers\<close>

lemma touch_request_close [touches]: "touch k v w \<Longrightarrow> touch k v (RequestClose k r w)"
  by (auto simp: RequestClose_def RequestClose_exchange_def RequestClose_post_def Let_def split: bool.split intro!: touches)

lemma touch_cancel_idle [touches]: "touch k v w \<Longrightarrow> touch k v (CancelIdleTimer k w)"
  by (auto simp: CancelIdleTimer_def Let_def intro!: touches)

lemma touch_add_timer [touches]:
  "touch k v w \<Longrightarrow> touch k v (w\<lparr>w_timers := (t, IdleExpired k g) # w_timers w, w_next_timer := n\<rparr>)"
  by (erule touch_step) (auto simp: touch_conns_def touch_calls_def)

lemma touch_arm_idle [touches]: "touch k v w \<Longrightarrow> touch k v (ArmIdleTimerOnIoThread k w)"
  by (auto simp: ArmIdleTimerOnIoThread_def AddTimerTo_def Let_def intro!: touches)

lemma touch_release_connection [touches]: "touch k v w \<Longrightarrow> touch k v (ReleaseConnection k w)"
  by (auto simp: ReleaseConnection_def CancelGracefulStopTimer_def Let_def release_connection_counters_def
      upd_rt_metrics_def intro!: touches)

lemma touch_finish_close [touches]: "touch k v w \<Longrightarrow> touch k v (TryFinishCloseOnIoThread k w)"
  by (auto simp: TryFinishCloseOnIoThread_def Let_def intro!: touches)

lemma touch_release [touches]: "touch k v w \<Longrightarrow> touch k v (ReleaseOutboundBytes k n w)"
  by (auto simp: ReleaseOutboundBytes_def intro!: touches)

lemma touch_release_frame [touches]: "touch k v w \<Longrightarrow> touch k v (ReleaseFrameReservation k f w)"
  by (auto simp: ReleaseFrameReservation_def intro!: touches)

lemma touch_reserve: "touch k v w \<Longrightarrow> TryReserveOutboundBytes k n w = (ok, w') \<Longrightarrow> touch k v w'"
  by (auto simp: TryReserveOutboundBytes_def Let_def split: if_splits intro!: touches)

lemma touch_discard [touches]: "touch k v w \<Longrightarrow> touch k v (discard_frames k fs w)"
proof (induction fs arbitrary: w)
  case (Cons f fs)
  from Cons.prems show ?case by (auto intro!: Cons.IH touches)
qed simp

lemma touch_discard_queued [touches]: "touch k v w \<Longrightarrow> touch k v (DiscardQueuedOutboundOnIoThread k w)"
  by (auto simp: DiscardQueuedOutboundOnIoThread_def intro!: touches)

lemma touch_begin_close [touches]: "touch k v w \<Longrightarrow> touch k v (BeginCloseOnIoThread k w)"
  by (auto simp: BeginCloseOnIoThread_def Let_def intro!: touches)

lemma touch_start_write [touches]: "touch k v w \<Longrightarrow> touch k v (StartNextWriteOnIoThread k w)"
proof (induction k w rule: StartNextWriteOnIoThread.induct)
  case (1 k w)
  show ?case
    using 1(2) by (subst StartNextWriteOnIoThread.simps)
      (auto simp: Let_def split: list.split prod.split intro!: 1(1) touches)
qed

lemma touch_write_end [touches]: "touch k v w \<Longrightarrow> touch k v (WriteFrame_end k f w)"
  by (auto simp: WriteFrame_end_def Let_def intro!: touches)

lemma touch_write_resume [touches]: "touch k v w \<Longrightarrow> touch k v (WriteResume k n w)"
  by (auto simp: WriteResume_def Let_def split: option.split intro!: touches)

lemma touch_enqueue [touches]: "touch k v w \<Longrightarrow> touch k v (EnqueueResponseOnIoThread k r w)"
  by (auto simp: EnqueueResponseOnIoThread_def Let_def split: prod.split bool.split intro!: touches dest: touch_reserve)

lemma touch_send_error [touches]: "touch k v w \<Longrightarrow> touch k v (SendErrorResponseOnIoThread pb k f e t w)"
  by (auto simp: SendErrorResponseOnIoThread_def split: prod.split bool.split intro!: touches)

lemma touch_reject [touches]: "touch k v w \<Longrightarrow> touch k v (reject_overload pb k f t w)"
  by (auto simp: reject_overload_def intro!: touches)

lemma touch_admit [touches]: "touch k v w \<Longrightarrow> touch k v (AdmitCall now k f w)"
  by (erule touch_step)
     (auto simp: touch_conns_def touch_calls_def AdmitCall_def Let_def world_updates new_InboundCallState_def)

lemma touch_counters [touches]:
  "touch k v w \<Longrightarrow> touch k v (w\<lparr>w_rt := (w_rt w)\<lparr>rt_in_flight := a, rt_pending_worker_tasks := b, rt_metrics := m\<rparr>\<rparr>)"
  by (erule touch_step) (simp_all add: touch_conns_def touch_calls_def)

lemma touch_handle_request [touches]:
  assumes "touch k v w" "options_sized (w_opts w)"
  shows "touch k v (HandleRequest pb now k frame w)"
  using assms(2) by (cases rule: HandleRequest_cases [where pb = pb and now = now and k = k and frame = frame])
    (auto intro!: touches assms(1))

lemma touch_protocol_error [touches]: "touch k v w \<Longrightarrow> touch k v (protocol_error k w)"
  by (auto simp: protocol_error_def Let_def intro!: touches)

lemma touch_opts: "touch k v w \<Longrightarrow> w_opts w = w_opts v"
  by (simp add: touch_def touch_conns_def)

lemma touch_parse_loop [touches]:
  "touch k v w \<Longrightarrow> options_sized (w_opts v) \<Longrightarrow> touch k v (parse_loop pb now k w)"
proof (induction pb now k w rule: parse_loop.induct)
  case (1 pb now k w)
  from 1(2,3) show ?case
    by (subst parse_loop.simps) (auto simp: Let_def touch_opts [OF 1(2)] intro!: 1(1) touches)
qed

lemma touch_receive_exit [touches]: "touch k v w \<Longrightarrow> touch k v (ReceiveLoop_exit k w)"
  by (auto simp: ReceiveLoop_exit_def Let_def intro!: touches)

lemma touch_receive_head [touches]: "touch k v w \<Longrightarrow> options_sized (w_opts v) \<Longrightarrow> touch k v (ReceiveLoop_head pb now k w)"
  by (auto simp: ReceiveLoop_head_def Let_def intro!: touches)

lemma touch_read_resume [touches]: "touch k v w \<Longrightarrow> options_sized (w_opts v) \<Longrightarrow> touch k v (ReadResume pb now k n d w)"
  by (auto simp: ReadResume_def Let_def intro!: touches)

lemma touch_start [touches]: "touch k v w \<Longrightarrow> options_sized (w_opts v) \<Longrightarrow> touch k v (StartOnIoThread pb now k w)"
  by (auto simp: StartOnIoThread_def ReceiveLoop_def Let_def intro!: touches)

lemma touch_complete [touches]: "touch k v w \<Longrightarrow> touch k v (CompleteInboundOnIoThread k i r b w)"
  by (auto simp: CompleteInboundOnIoThread_def Let_def intro!: touches)

section \<open>Everything is addressed to an existing connection\<close>

definition located :: "'m ServerWorld \<Rightarrow> bool" where
  "located w =
     (options_sized (w_opts w) \<and>
      (\<forall>k cmd. cmd \<in> set (w_commands w k) \<longrightarrow> command_conn cmd = k \<and> k < w_next_conn w) \<and>
      (\<forall>t k g. (t, IdleExpired k g) \<in> set (w_timers w) \<longrightarrow> k < w_next_conn w) \<and>
      (\<forall>k g. TimerTask (IdleExpired k g) \<in> set (w_worker w) \<longrightarrow> k < w_next_conn w) \<and>
      (\<forall>k. k \<in> set (rt_connections (w_rt w)) \<longrightarrow> k < w_next_conn w) \<and>
      (\<forall>i. DispatchTask i \<in> set (w_worker w) \<or> FinalizeTask i \<in> set (w_worker w) \<longrightarrow> i < w_next_call w) \<and>
      (\<forall>i. i < w_next_call w \<longrightarrow> ic_connection (w_calls w i) < w_next_conn w) \<and>
      (\<forall>k. w_next_conn w \<le> k \<longrightarrow> w_conns w k = new_ServerConnection (- 1)))"

lemma locatedD:
  assumes "located w"
  shows "options_sized (w_opts w)" "cmd \<in> set (w_commands w k) \<Longrightarrow> command_conn cmd = k"
    "cmd \<in> set (w_commands w k) \<Longrightarrow> k < w_next_conn w"
    "TimerTask (IdleExpired k g) \<in> set (w_worker w) \<Longrightarrow> k < w_next_conn w"
    "k \<in> set (rt_connections (w_rt w)) \<Longrightarrow> k < w_next_conn w"
    "DispatchTask i \<in> set (w_worker w) \<Longrightarrow> i < w_next_call w" "FinalizeTask i \<in> set (w_worker w) \<Longrightarrow> i < w_next_call w"
    "i < w_next_call w \<Longrightarrow> ic_connection (w_calls w i) < w_next_conn w"
    "w_next_conn w \<le> k \<Longrightarrow> w_conns w k = new_ServerConnection (- 1)"
  using assms unfolding located_def by blast+

lemma located_touch:
  assumes l: "located w" and t: "touch k w w'" and k: "k < w_next_conn w"
  shows "located w'"
proof -
  have n: "w_next_conn w' = w_next_conn w" "w_opts w' = w_opts w"
    and other: "\<And>j. j \<noteq> k \<Longrightarrow> w_conns w' j = w_conns w j" "\<And>j. j \<noteq> k \<Longrightarrow> w_commands w' j = w_commands w j"
    and cmd: "\<And>cmd. cmd \<in> set (w_commands w' k) \<Longrightarrow> cmd \<in> set (w_commands w k) \<or> command_conn cmd = k"
    and tm: "\<And>t a. (t, a) \<in> set (w_timers w') \<Longrightarrow> (t, a) \<in> set (w_timers w) \<or> (\<exists>g. a = IdleExpired k g)"
    and rt: "set (rt_connections (w_rt w')) \<subseteq> set (rt_connections (w_rt w))"
    and c: "w_next_call w \<le> w_next_call w'" "\<And>i. i < w_next_call w \<Longrightarrow> w_calls w' i = w_calls w i"
      "\<And>i. w_next_call w \<le> i \<Longrightarrow> i < w_next_call w' \<Longrightarrow> ic_connection (w_calls w' i) = k"
    and wk: "\<And>t. t \<in> set (w_worker w') \<Longrightarrow> t \<in> set (w_worker w) \<or>
         (\<exists>i. t = DispatchTask i \<and> w_next_call w \<le> i \<and> i < w_next_call w')"
    using t unfolding touch_def touch_conns_def touch_calls_def by blast+
  show ?thesis
    unfolding located_def n
  proof (intro conjI allI impI)
    show "options_sized (w_opts w)" using l by (rule locatedD)
  next
    fix j cm assume a: "cm \<in> set (w_commands w' j)"
    then show "command_conn cm = j"
      using locatedD(2) [OF l] cmd other(2) [of j] by (cases "j = k") auto
    from a show "j < w_next_conn w"
      using locatedD(3) [OF l] k other(2) [of j] by (cases "j = k") auto
  next
    fix t j g assume "(t, IdleExpired j g) \<in> set (w_timers w')"
    then show "j < w_next_conn w" using tm l k unfolding located_def by blast
  next
    fix j g assume "TimerTask (IdleExpired j g) \<in> set (w_worker w')"
    then show "j < w_next_conn w" using wk locatedD(4) [OF l] by blast
  next
    fix j assume "j \<in> set (rt_connections (w_rt w'))"
    then show "j < w_next_conn w" using rt locatedD(5) [OF l] by blast
  next
    fix i assume "DispatchTask i \<in> set (w_worker w') \<or> FinalizeTask i \<in> set (w_worker w')"
    then show "i < w_next_call w'" using wk [of "DispatchTask i"] wk [of "FinalizeTask i"] locatedD(6,7) [OF l, of i] c(1) by auto
  next
    fix i assume "i < w_next_call w'"
    then show "ic_connection (w_calls w' i) < w_next_conn w"
      using c(2,3) [of i] locatedD(8) [OF l, of i] k by (cases "i < w_next_call w") auto
  next
    fix j assume "w_next_conn w \<le> j"
    then show "w_conns w' j = new_ServerConnection (- 1)" using other(1) [of j] k locatedD(9) [OF l, of j] by auto
  qed
qed

lemma touch_command:
  assumes "touch k v w" "options_sized (w_opts v)" "command_conn cmd = k"
  shows "touch k v (DispatchCommand pb now cmd w)"
  using assms by (cases cmd) (auto intro!: touches)

section \<open>Steps outside the IO threads\<close>

named_theorems located_intros

lemma located_less:
  assumes "located w" "w_opts w' = w_opts w" "w_next_conn w' = w_next_conn w" "w_next_call w' = w_next_call w" "w_conns w' = w_conns w"
    and sub: "\<And>k. set (w_commands w' k) \<subseteq> set (w_commands w k)" "set (w_timers w') \<subseteq> set (w_timers w)"
      "set (w_worker w') \<subseteq> set (w_worker w)" "set (rt_connections (w_rt w')) \<subseteq> set (rt_connections (w_rt w))"
    and calls: "\<And>i. ic_connection (w_calls w' i) = ic_connection (w_calls w i)"
  shows "located w'"
  unfolding located_def assms(2-5) calls using assms(1) [unfolded located_def] sub by (intro conjI) blast+

lemma located_upd_rt [located_intros]:
  "located w \<Longrightarrow> rt_options (f (w_rt w)) = w_opts w \<Longrightarrow> set (rt_connections (f (w_rt w))) \<subseteq> set (rt_connections (w_rt w)) \<Longrightarrow>
   located (upd_rt f w)"
  by (rule located_less) (simp_all add: upd_rt_def)

lemma located_upd_sm [located_intros]: "located w \<Longrightarrow> located (upd_sm f w)"
  by (auto simp: upd_sm_def upd_rt_metrics_def intro!: located_upd_rt)

lemma located_upd_call [located_intros]:
  "located w \<Longrightarrow> (\<And>c. ic_connection (f c) = ic_connection c) \<Longrightarrow> located (upd_call i f w)"
  by (rule located_less) (auto simp: upd_call_def)

lemma located_cancel [located_intros]: "located w \<Longrightarrow> located (CancelTimerOf t w)"
  by (rule located_less) (auto simp: CancelTimerOf_def)

lemma located_worker [located_intros]: "located w \<Longrightarrow> w_worker w = ts @ t # ts' \<Longrightarrow> located (w\<lparr>w_worker := ts @ ts'\<rparr>)"
  by (rule located_less) auto

lemma located_pop: "located w \<Longrightarrow> w_commands w k = cmd # rest \<Longrightarrow> located (w\<lparr>w_commands := (w_commands w)(k := rest)\<rparr>)"
  by (rule located_less) auto

lemma located_add_worker:
  "located w \<Longrightarrow> (\<And>i. t = DispatchTask i \<or> t = FinalizeTask i \<Longrightarrow> i < w_next_call w) \<Longrightarrow>
   (\<And>k g. t = TimerTask (IdleExpired k g) \<Longrightarrow> k < w_next_conn w) \<Longrightarrow> located (w\<lparr>w_worker := w_worker w @ [t]\<rparr>)"
  unfolding located_def by auto

lemma located_schedule [located_intros]: "located w \<Longrightarrow> i < w_next_call w \<Longrightarrow> located (ScheduleInboundFinalization i w)"
  unfolding ScheduleInboundFinalization_def by (rule located_add_worker) auto

lemma located_close [located_intros]: "located w \<Longrightarrow> k < w_next_conn w \<Longrightarrow> located (RequestClose k r w)"
  by (rule located_touch [OF _ touch_request_close [OF touch_same]])

lemma upd_next [simp]:
  "w_next_call (upd_call i f w) = w_next_call w" "w_next_call (upd_sm g w) = w_next_call w"
  "w_next_call (upd_rt h w) = w_next_call w" "w_next_conn (upd_call i f w) = w_next_conn w"
  "w_next_conn (upd_sm g w) = w_next_conn w" "w_next_conn (upd_rt h w) = w_next_conn w"
  by (simp_all add: world_updates)

lemma located_run [located_intros]: "located w \<Longrightarrow> i < w_next_call w \<Longrightarrow> located (RunInboundCall pb now i w)"
  by (auto simp: RunInboundCall_def Let_def split: option.split prod.split intro!: located_intros)

lemma RequestClose_next [simp]: "w_next_conn (RequestClose k r w) = w_next_conn w"
  using touch_request_close [OF touch_same, of k w r] by (simp add: touch_def touch_conns_def)

lemma located_force_close [located_intros]:
  assumes "located w"
  shows "located (ForceCloseLiveConnections w)"
proof -
  have "located (fold (\<lambda>k. RequestClose k kServerStop) ks v)" if "located v" "\<forall>k \<in> set ks. k < w_next_conn v" for ks and v :: "'a ServerWorld"
    using that
  proof (induction ks arbitrary: v)
    case (Cons k ks)
    from Cons.prems show ?case by (auto intro!: Cons.IH located_intros)
  qed simp
  then show ?thesis using assms locatedD(5) [OF assms] by (auto simp: ForceCloseLiveConnections_def)
qed

lemma located_timer [located_intros]:
  assumes "located w" "w_worker w = ts @ TimerTask a # ts'"
  shows "located (run_timer_action a (w\<lparr>w_worker := ts @ ts'\<rparr>))"
proof (cases a)
  case (IdleExpired k g)
  then have "k < w_next_conn w" using assms locatedD(4) [OF assms(1), of k g] by simp
  then show ?thesis using assms IdleExpired by (auto intro!: located_intros)
qed (use assms in \<open>auto intro!: located_intros\<close>)

lemma located_expire:
  assumes "located w" "(t, a) \<in> set (w_timers w)"
  shows "located (CancelTimerOf t (w\<lparr>w_worker := w_worker w @ [TimerTask a]\<rparr>))"
proof (rule located_cancel, rule located_add_worker [OF assms(1)])
  fix k g assume "TimerTask a = TimerTask (IdleExpired k g)"
  then show "k < w_next_conn w" using assms unfolding located_def by blast
qed simp_all

lemma located_done: "located w \<Longrightarrow> i < w_next_call w \<Longrightarrow> located (InboundDoneClosure_Run b i w)"
  by (auto simp: InboundDoneClosure_Run_def intro!: located_intros)

lemma located_add_timer [located_intros]:
  "located w \<Longrightarrow> located (w\<lparr>w_timers := (t, ForceCloseAll) # w_timers w, w_next_timer := n\<rparr>)"
  unfolding located_def by auto

lemma located_stop: "located w \<Longrightarrow> located (BeginGracefulStop w)"
  by (auto simp: BeginGracefulStop_def AddTimerTo_def Let_def intro!: located_intros)

lemma Release_options [simp]:
  "rt_options (ReleaseInFlight rt) = rt_options rt" "rt_options (ReleaseWorkerTask rt) = rt_options rt"
  by (simp_all add: ReleaseInFlight_def ReleaseWorkerTask_def upd_rt_metrics_def)

text \<open>Finalization in one form: the response that is posted was reserved, or it is empty.\<close>

lemma FinalizeInboundCall_form:
  obtains m v g resp cl where
    "FinalizeInboundCall pb now alive i w = upd_rt ReleaseInFlight
      (if alive then CompleteInbound (ic_connection (w_calls w i)) i resp cl
           (upd_call i (\<lambda>c. c\<lparr>ic_completion := kFinalized\<rparr>) (upd_sm g v))
       else upd_call i (\<lambda>c. c\<lparr>ic_completion := kFinalized\<rparr>) (upd_sm g v))"
    "v = upd_call i (\<lambda>c. c\<lparr>ic_response_meta := m\<rparr>) w \<and> (alive \<longrightarrow> resp = []) \<or>
     alive \<and> TryReserveOutboundBytes (ic_connection (w_calls w i)) (length resp)
       (upd_call i (\<lambda>c. c\<lparr>ic_response_meta := m\<rparr>) w) = (True, v)"
proof -
  let ?c = "w_calls w i"
  let ?k = "ic_connection ?c"
  obtain packed m wire where p: "pack_response pb ?c = (packed, m, wire)" by (metis prod_cases3)
  let ?w0 = "upd_call i (\<lambda>c. c\<lparr>ic_response_meta := m\<rparr>) w"
  obtain ok w' where r: "TryReserveOutboundBytes ?k (length wire) ?w0 = (ok, w')" by fastforce
  have nok: "w' = ?w0" if "\<not> ok"
    using r that by (auto simp: TryReserveOutboundBytes_def Let_def split: if_splits)
  show thesis
  proof (cases "alive \<and> packed \<and> wire \<noteq> [] \<and> sc_running (w_conns w ?k)")
    case True
    show thesis
    proof (cases ok)
      case ok: True
      show thesis by (rule that [of wire _ _ w' m]) (use True ok in \<open>simp_all add: FinalizeInboundCall_def p r Let_def\<close>)
    next
      case False
      show thesis
        by (rule that [of "[]" _ _ ?w0 m]) (use True False nok in \<open>simp_all add: FinalizeInboundCall_def p r Let_def\<close>)
    qed
  next
    case False
    show thesis
      by (rule that [of "if alive then [] else if packed then wire else []" "\<not> packed" "record_completion
            (ns_to_us (now - ic_received_at ?c)) (m_error_code m \<noteq> RPC_SUCCESS \<or> \<not> packed) (ic_method_metrics ?c)" ?w0 m])
         (use False in \<open>auto simp: FinalizeInboundCall_def p Let_def\<close>)
  qed
qed

lemma located_finalize:
  assumes "located w" "i < w_next_call w"
  shows "located (FinalizeInboundCall pb now alive i w)"
proof -
  let ?k = "ic_connection (w_calls w i)"
  obtain m v g resp cl where
    f: "FinalizeInboundCall pb now alive i w = upd_rt ReleaseInFlight
      (if alive then CompleteInbound ?k i resp cl
           (upd_call i (\<lambda>c. c\<lparr>ic_completion := kFinalized\<rparr>) (upd_sm g v))
       else upd_call i (\<lambda>c. c\<lparr>ic_completion := kFinalized\<rparr>) (upd_sm g v))"
    and v: "v = upd_call i (\<lambda>c. c\<lparr>ic_response_meta := m\<rparr>) w \<and> (alive \<longrightarrow> resp = []) \<or>
      alive \<and> TryReserveOutboundBytes ?k (length resp) (upd_call i (\<lambda>c. c\<lparr>ic_response_meta := m\<rparr>) w) = (True, v)"
    by (rule FinalizeInboundCall_form)
  let ?w0 = "upd_call i (\<lambda>c. c\<lparr>ic_response_meta := m\<rparr>) w"
  have k: "?k < w_next_conn w" using assms by (rule locatedD(8))
  have l0: "located ?w0" using assms(1) by (intro located_intros) simp_all
  have t: "touch ?k ?w0 v" using v touch_reserve [OF touch_same] touch_same by blast
  then have n: "w_next_conn v = w_next_conn w" by (simp add: touch_def touch_conns_def)
  have "located v" using located_touch [OF l0 t] k by simp
  then have l1: "located (upd_call i (\<lambda>c. c\<lparr>ic_completion := kFinalized\<rparr>) (upd_sm g v))" (is "located ?v")
    by (intro located_intros) simp_all
  have "located (CompleteInbound ?k i resp cl ?v)"
    unfolding CompleteInbound_def by (rule located_touch [OF l1 touch_post [OF touch_same]]) (use k n in simp_all)
  then show ?thesis
    unfolding f using l1 by (intro located_upd_rt) (auto simp: ReleaseInFlight_def upd_rt_metrics_def)
qed

lemma located_accept:
  assumes l: "located w"
  shows "located (AcceptConnection fd w)"
proof -
  obtain ok rt where r: "TryAcquireConnection (w_rt w) = (ok, rt)" by fastforce
  have o: "rt_options rt = w_opts w" "rt_connections rt = rt_connections (w_rt w)"
    using r by (auto simp: TryAcquireConnection_def upd_rt_metrics_def split: if_splits)
  let ?k = "w_next_conn w"
  let ?w = "upd_conn ?k (\<lambda>_. new_ServerConnection fd) (w\<lparr>w_rt := rt, w_next_conn := ?k + 1\<rparr>)"
  have "located ?w"
    unfolding located_def using l [unfolded located_def] o by (simp add: upd_conn_def less_Suc_eq)
  then have "located (Start_connection ?k ?w)"
    unfolding Start_connection_def by (rule located_touch [OF _ touch_post [OF touch_same]]) (simp_all add: upd_conn_def)
  moreover have "w_next_conn (Start_connection ?k ?w) = ?k + 1" by (simp add: Start_connection_def post_def Let_def upd_conn_def)
  ultimately have "located (upd_rt (\<lambda>rt. rt\<lparr>rt_connections := rt_connections rt @ [?k]\<rparr>) (Start_connection ?k ?w))"
    unfolding located_def upd_rt_def by auto
  then have "located (TrackConnection ?k (Start_connection ?k ?w))"
    by (auto simp: TrackConnection_def Let_def Start_connection_def post_def upd_conn_def intro!: located_intros)
  moreover have "located (w\<lparr>w_rt := rt, w_sockets := s\<rparr>)" for s
    using l by (rule located_less) (simp_all add: o)
  ultimately show ?thesis by (cases ok) (simp_all add: AcceptConnection_def r Let_def)
qed

lemma reading_exists: "located w \<Longrightarrow> sc_reading (w_conns w k) \<Longrightarrow> k < w_next_conn w"
  using locatedD(9) [of w k] by (cases "k < w_next_conn w") (auto simp: new_ServerConnection_def)

lemma writing_exists: "located w \<Longrightarrow> sc_write_frame (w_conns w k) = Some f \<Longrightarrow> k < w_next_conn w"
  using locatedD(9) [of w k] by (cases "k < w_next_conn w") (auto simp: new_ServerConnection_def)

lemma located_step: "located w \<Longrightarrow> server_step pb w w' \<Longrightarrow> located w'"
proof (erule server_stepE)
  fix k cmd rest now
  assume l: "located w" and c: "w_commands w k = cmd # rest"
    and w': "w' = DispatchCommand pb now cmd (w\<lparr>w_commands := (w_commands w)(k := rest)\<rparr>)"
  have "command_conn cmd = k" "k < w_next_conn w" using locatedD(2,3) [OF l, of cmd k] c by auto
  then show "located w'"
    unfolding w' by (intro located_touch [OF located_pop [OF l c] touch_command [OF touch_same]]) (simp_all add: locatedD(1) [OF l])
next
  fix k bytes data now
  assume "located w" "sc_reading (w_conns w k)" "w' = ReadResume pb now k bytes data w"
  then show "located w'"
    using located_touch [OF _ touch_read_resume [OF touch_same]] reading_exists locatedD(1) by metis
next
  fix k f written
  assume "located w" "sc_write_frame (w_conns w k) = Some f" "w' = WriteResume k written w"
  then show "located w'"
    using located_touch [OF _ touch_write_resume [OF touch_same]] writing_exists by metis
next
  fix ts i ts' now
  assume l: "located w" and t: "w_worker w = ts @ DispatchTask i # ts'"
    and w': "w' = ServerDispatchTask_execute pb now i (w\<lparr>w_worker := ts @ ts'\<rparr>)"
  have "i < w_next_call w" using locatedD(6) [OF l, of i] t by simp
  then show "located w'"
    unfolding w' ServerDispatchTask_execute_def
    by (intro located_intros) (auto simp: l t ReleaseWorkerTask_def upd_rt_metrics_def)
next
  fix ts i ts' now
  assume l: "located w" and t: "w_worker w = ts @ FinalizeTask i # ts'"
    and w': "w' = FinalizeInboundCall pb now (\<not> sc_released (w_conns w (ic_connection (w_calls w i)))) i (w\<lparr>w_worker := ts @ ts'\<rparr>)"
  have "i < w_next_call w" using locatedD(7) [OF l, of i] t by simp
  then show "located w'" unfolding w' using located_worker [OF l t] by (intro located_finalize) simp_all
qed (auto intro: located_intros located_expire located_done located_stop located_accept)

lemma server_reach_located: "server_reach pb w \<Longrightarrow> located w"
proof (induction rule: server_reach.induct)
  case (server_init opt mm m registry executor calls)
  then show ?case by (simp add: located_def new_ServerWorld_def new_ServerRuntime_def upd_rt_def)
qed (rule located_step)

end
