(* ===== verification/Server_Bytes.thy ===== *)
theory Server_Bytes
  imports Server_Isolation
begin

text \<open>
  Accounting of the outbound bytes of every connection: the reservation of a connection is exactly
  the bytes held in its outbound queue, in the frame being written and in the completed responses
  still in its mailbox, and never exceeds the configured limit.
\<close>

section \<open>The account\<close>

fun payload_bytes :: "IoCommand \<Rightarrow> nat" where
  "payload_bytes (ServerCompleteInbound k i p b) = length p"
| "payload_bytes cmd = 0"

definition queue_bytes :: "bytes list \<Rightarrow> nat" where
  "queue_bytes fs = sum_list (map length fs)"

definition frame_bytes :: "bytes option \<Rightarrow> nat" where
  "frame_bytes f = (case f of None \<Rightarrow> 0 | Some x \<Rightarrow> length x)"

lemma bytes_simps [simp]:
  "queue_bytes [] = 0" "queue_bytes (f # fs) = length f + queue_bytes fs"
  "queue_bytes (fs @ gs) = queue_bytes fs + queue_bytes gs" "frame_bytes None = 0" "frame_bytes (Some f) = length f"
  by (simp_all add: queue_bytes_def frame_bytes_def)

text \<open>The fields the account depends on.\<close>

record byte_view =
  bv_reserved :: nat
  bv_outbound :: "bytes list"
  bv_frame :: "bytes option"
  bv_writing :: bool
  bv_mail :: nat

definition bv_of :: "ServerConnection \<Rightarrow> nat \<Rightarrow> byte_view" where
  "bv_of c mail = \<lparr>bv_reserved = sc_reserved_outbound_bytes c, bv_outbound = sc_outbound c,
     bv_frame = sc_write_frame c, bv_writing = sc_writing c, bv_mail = mail\<rparr>"

definition bview :: "'m ServerWorld \<Rightarrow> nat \<Rightarrow> byte_view" where
  "bview w k = bv_of (w_conns w k) (sum_list (map payload_bytes (w_commands w k)))"

lemma bview_sel [simp]:
  "bv_reserved (bview w k) = sc_reserved_outbound_bytes (w_conns w k)" "bv_outbound (bview w k) = sc_outbound (w_conns w k)"
  "bv_frame (bview w k) = sc_write_frame (w_conns w k)" "bv_writing (bview w k) = sc_writing (w_conns w k)"
  "bv_mail (bview w k) = sum_list (map payload_bytes (w_commands w k))"
  by (simp_all add: bview_def bv_of_def)

lemma bview_upd_conn: "j \<noteq> k \<Longrightarrow> bview (upd_conn k f w) j = bview w j"
  by (simp add: bview_def)

abbreviation blimit :: "'m ServerWorld \<Rightarrow> nat" where
  "blimit w \<equiv> so_max_outbound_bytes_per_connection (w_opts w)"

text \<open>\<open>h k\<close> is the part of the reservation of \<open>k\<close> held by the activity that is running.\<close>

definition acct1 :: "nat \<Rightarrow> nat \<Rightarrow> byte_view \<Rightarrow> bool" where
  "acct1 lim held v =
     (bv_reserved v = queue_bytes (bv_outbound v) + frame_bytes (bv_frame v) + bv_mail v + held \<and>
      bv_reserved v \<le> lim \<and> (\<not> bv_writing v \<longrightarrow> bv_frame v = None))"

definition acct :: "(nat \<Rightarrow> nat) \<Rightarrow> 'm ServerWorld \<Rightarrow> bool" where
  "acct h w = (options_sized (w_opts w) \<and> (\<forall>k. acct1 (blimit w) (h k) (bview w k)))"

lemma acct_cong: "bview w' = bview w \<Longrightarrow> w_opts w' = w_opts w \<Longrightarrow> acct h w' = acct h w"
  by (simp add: acct_def)

lemma acct_update:
  assumes "acct h w" "w_opts w' = w_opts w" "\<And>j. j \<noteq> k \<Longrightarrow> bview w' j = bview w j"
    "acct1 (blimit w) n (bview w' k)"
  shows "acct (h(k := n)) w'"
  using assms by (simp add: acct_def)

lemma acct_update_same:
  assumes "acct h w" "w_opts w' = w_opts w" "\<And>j. j \<noteq> k \<Longrightarrow> bview w' j = bview w j"
    "acct1 (blimit w) (h k) (bview w' k)"
  shows "acct h w'"
  using acct_update [OF assms] by simp

lemma acct_limit: "acct h w \<Longrightarrow> blimit w \<le> SIZE_MAX"
  by (simp add: acct_def options_sized_def)

lemma acctD: "acct h w \<Longrightarrow> acct1 (blimit w) (h k) (bview w k)"
  by (simp add: acct_def)

section \<open>Operations outside the account\<close>

lemma TryFinishClose_bview [simp]: "bview (TryFinishCloseOnIoThread k w) = bview w" "w_opts (TryFinishCloseOnIoThread k w) = w_opts w"
  by (auto simp: bview_def bv_of_def close_defs world_updates Let_def)

lemma RequestClose_bview [simp]: "bview (RequestClose k r w) = bview w" "w_opts (RequestClose k r w) = w_opts w"
  by (auto simp: bview_def bv_of_def close_defs world_updates Let_def split: bool.split)

lemma CancelIdleTimer_bview [simp]: "bview (CancelIdleTimer k w) = bview w" "w_opts (CancelIdleTimer k w) = w_opts w"
  by (auto simp: bview_def bv_of_def close_defs world_updates Let_def)

lemma ArmIdleTimer_bview [simp]: "bview (ArmIdleTimerOnIoThread k w) = bview w" "w_opts (ArmIdleTimerOnIoThread k w) = w_opts w"
  by (auto simp: bview_def bv_of_def ArmIdleTimerOnIoThread_def AddTimerTo_def close_defs world_updates Let_def)

lemma shutdown_socket_bview [simp]: "bview (shutdown_socket k w) = bview w" "w_opts (shutdown_socket k w) = w_opts w"
  by (auto simp: bview_def bv_of_def close_defs world_updates Let_def)

lemma upd_sm_bview [simp]: "bview (upd_sm f w) = bview w"
  by (auto simp: bview_def bv_of_def world_updates)

lemma upd_call_bview [simp]: "bview (upd_call i f w) = bview w"
  by (auto simp: bview_def bv_of_def world_updates)

text \<open>An update of a connection that leaves the account alone.\<close>

lemma upd_conn_bview:
  "sc_reserved_outbound_bytes (f c) = sc_reserved_outbound_bytes c \<Longrightarrow> sc_outbound (f c) = sc_outbound c \<Longrightarrow>
   sc_write_frame (f c) = sc_write_frame c \<Longrightarrow> sc_writing (f c) = sc_writing c \<Longrightarrow> c = w_conns w k \<Longrightarrow>
   bview (upd_conn k f w) = bview w"
  by (auto simp: bview_def bv_of_def)

lemma protocol_error_bview [simp]: "bview (protocol_error k w) = bview w" "w_opts (protocol_error k w) = w_opts w"
  by (auto simp: protocol_error_def Let_def upd_conn_bview RecordCloseReason_def)

section \<open>Reserving and releasing\<close>

lemma reserve_acct:
  assumes "acct h w" "TryReserveOutboundBytes k n w = (ok, w')"
  shows "if ok then acct (h(k := h k + n)) w' else w' = w"
proof (cases ok)
  case True
  note a = acctD [OF assms(1), of k]
  show ?thesis
  proof (cases "n = 0")
    case True
    then show ?thesis using assms by (auto simp: TryReserveOutboundBytes_def)
  next
    case False
    then have room: "n \<le> blimit w" "sc_reserved_outbound_bytes (w_conns w k) + n \<le> blimit w"
      and w': "w' = upd_sm (\<lambda>m. m\<lparr>sm_outbound_bytes := Gauge_Add (sm_outbound_bytes m) (int n)\<rparr>)
        (upd_conn k (\<lambda>c. c\<lparr>sc_reserved_outbound_bytes := add64 (sc_reserved_outbound_bytes c) n\<rparr>) w)"
      using assms(2) \<open>ok\<close> by (auto simp: TryReserveOutboundBytes_def Let_def split: if_splits)
    have "add64 (sc_reserved_outbound_bytes (w_conns w k)) n = sc_reserved_outbound_bytes (w_conns w k) + n"
      using room(2) acct_limit [OF assms(1)] by (intro add64_exact) linarith
    then have "acct (h(k := h k + n)) w'"
      using a room(2) by (intro acct_update [OF assms(1)]) (simp_all add: w' bview_upd_conn acct1_def)
    then show ?thesis using True by simp
  qed
next
  case False
  then show ?thesis using assms(2) by (auto simp: TryReserveOutboundBytes_def Let_def split: if_splits)
qed

lemma ReleaseOutboundBytes_bview:
  assumes "acct h w" "n \<le> sc_reserved_outbound_bytes (w_conns w k)"
  shows "bview (ReleaseOutboundBytes k n w) = (bview w)(k := (bview w k)\<lparr>bv_reserved := bv_reserved (bview w k) - n\<rparr>)"
    "w_opts (ReleaseOutboundBytes k n w) = w_opts w"
proof -
  have "sc_reserved_outbound_bytes (w_conns w k) \<le> SIZE_MAX"
    using acctD [OF assms(1), of k] acct_limit [OF assms(1)] by (simp add: acct1_def)
  then have "sub64 (sc_reserved_outbound_bytes (w_conns w k)) n = sc_reserved_outbound_bytes (w_conns w k) - n"
    using assms(2) by (simp add: sub64_exact)
  then show "bview (ReleaseOutboundBytes k n w) = (bview w)(k := (bview w k)\<lparr>bv_reserved := bv_reserved (bview w k) - n\<rparr>)"
    by (auto simp: bview_def bv_of_def ReleaseOutboundBytes_def fun_eq_iff)
  show "w_opts (ReleaseOutboundBytes k n w) = w_opts w" by (simp add: ReleaseOutboundBytes_def)
qed

lemma held_le_reserved: "acct h w \<Longrightarrow> n \<le> h k \<Longrightarrow> n \<le> sc_reserved_outbound_bytes (w_conns w k)"
  using acctD [of h w k] by (simp add: acct1_def)

lemma release_acct:
  assumes "acct h w" "n \<le> h k"
  shows "acct (h(k := h k - n)) (ReleaseOutboundBytes k n w)"
proof -
  note b = ReleaseOutboundBytes_bview [OF assms(1) held_le_reserved [OF assms]]
  show ?thesis
    using acctD [OF assms(1), of k] assms(2) by (intro acct_update [OF assms(1) b(2)]) (auto simp: b(1) acct1_def)
qed

lemma discard_acct:
  assumes "acct h w" "sc_outbound (w_conns w k) = fs"
  shows "acct h (discard_frames k fs w)"
  using assms
proof (induction fs arbitrary: w)
  case (Cons f fs)
  let ?w = "ReleaseOutboundBytes k (length f) w"
  let ?w' = "upd_conn k (\<lambda>c. c\<lparr>sc_outbound := fs\<rparr>) ?w"
  note a = acctD [OF Cons.prems(1), of k]
  have "length f \<le> sc_reserved_outbound_bytes (w_conns w k)"
    using a Cons.prems(2) by (simp add: acct1_def)
  note b = ReleaseOutboundBytes_bview [OF Cons.prems(1) this]
  have vk: "bview ?w' k = (bview w k)\<lparr>bv_reserved := bv_reserved (bview w k) - length f, bv_outbound := fs\<rparr>"
    using fun_cong [OF b(1), of k] by (simp add: bview_def bv_of_def)
  have "acct h ?w'"
  proof (rule acct_update_same [OF Cons.prems(1), of _ k])
    show "w_opts ?w' = w_opts w" by (simp add: b(2))
    show "bview ?w' j = bview w j" if "j \<noteq> k" for j using that by (simp add: bview_upd_conn b(1))
    show "acct1 (blimit w) (h k) (bview ?w' k)"
      using a Cons.prems(2) unfolding vk by (simp add: acct1_def)
  qed
  from Cons.IH [OF this] show ?case by (simp add: ReleaseFrameReservation_def)
qed simp

lemma discard_queued_acct: "acct h w \<Longrightarrow> acct h (DiscardQueuedOutboundOnIoThread k w)"
  by (simp add: DiscardQueuedOutboundOnIoThread_def discard_acct)

lemma TryFinishClose_acct [simp]: "acct h (TryFinishCloseOnIoThread k w) = acct h w"
  by (simp add: acct_def)

lemma acct_upd_conn:
  assumes "\<And>c. sc_reserved_outbound_bytes (f c) = sc_reserved_outbound_bytes c" "\<And>c. sc_outbound (f c) = sc_outbound c"
    "\<And>c. sc_write_frame (f c) = sc_write_frame c" "\<And>c. sc_writing (f c) = sc_writing c"
  shows "acct h (upd_conn k f w) = acct h w"
  by (rule acct_cong) (simp_all add: upd_conn_bview assms)

lemma begin_close_acct: "acct h w \<Longrightarrow> acct h (BeginCloseOnIoThread k w)"
proof -
  assume a: "acct h w"
  let ?w = "shutdown_socket k (CancelIdleTimer k (upd_conn k (\<lambda>c. c\<lparr>sc_close_command_handled := True\<rparr>) w))"
  have "acct h ?w"
    using a by (subst acct_cong [of _ w]) (simp_all add: upd_conn_bview)
  from discard_queued_acct [OF this, of k] show ?thesis
    unfolding BeginCloseOnIoThread_def Let_def by (simp add: acct_upd_conn)
qed

section \<open>Writing and queueing\<close>

lemma merge_batch_bytes:
  "length (fst (merge_batch f fs)) + queue_bytes (snd (merge_batch f fs)) = length f + queue_bytes fs"
  by (induction f fs rule: merge_batch.induct) auto

lemma start_write_acct: "acct h w \<Longrightarrow> acct h (StartNextWriteOnIoThread k w)"
proof (induction k w rule: StartNextWriteOnIoThread.induct)
  case (1 k w)
  show ?case
  proof (cases "sc_outbound (w_conns w k) = [] \<or> sc_writing (w_conns w k) \<or> \<not> sc_running (w_conns w k)")
    case True
    then have "StartNextWriteOnIoThread k w = w"
      by (subst StartNextWriteOnIoThread.simps) (auto split: list.split)
    then show ?thesis using 1(2) by simp
  next
    case False
    then obtain f fs where out: "sc_outbound (w_conns w k) = f # fs" by (cases "sc_outbound (w_conns w k)") auto
    obtain frame rest where m: "merge_batch f fs = (frame, rest)" by fastforce
    have sum: "length frame + queue_bytes rest = length f + queue_bytes fs" using merge_batch_bytes [of f fs] m by simp
    note a = acctD [OF 1(2), of k]
    let ?w1 = "upd_conn k (\<lambda>c. c\<lparr>sc_writing := True, sc_outbound := rest\<rparr>) w"
    show ?thesis
    proof (cases "frame = []")
      case False
      have "StartNextWriteOnIoThread k w = upd_conn k (\<lambda>c. c\<lparr>sc_write_frame := Some frame\<rparr>) ?w1"
        using \<open>\<not> (sc_outbound _ = [] \<or> _)\<close> False
        by (subst StartNextWriteOnIoThread.simps) (simp add: out m Let_def)
      moreover have "acct h (upd_conn k (\<lambda>c. c\<lparr>sc_write_frame := Some frame\<rparr>) ?w1)"
        using a \<open>\<not> (sc_outbound _ = [] \<or> _)\<close> out sum
        by (intro acct_update_same [OF 1(2), of _ k]) (simp_all add: acct1_def bview_upd_conn)
      ultimately show ?thesis by simp
    next
      case True
      let ?w2 = "upd_conn k (\<lambda>c. c\<lparr>sc_writing := False\<rparr>) (ReleaseFrameReservation k frame ?w1)"
      have w2: "?w2 = upd_conn k (\<lambda>c. c\<lparr>sc_writing := False\<rparr>) ?w1"
        by (simp add: ReleaseFrameReservation_def ReleaseOutboundBytes_def True)
      have "acct h ?w2"
        using a \<open>\<not> (sc_outbound _ = [] \<or> _)\<close> out sum True unfolding w2
        by (intro acct_update_same [OF 1(2), of _ k]) (simp_all add: acct1_def bview_upd_conn)
      then have "acct h (StartNextWriteOnIoThread k ?w2)"
        using 1(1) [OF out, of "(frame, rest)" frame rest ?w1] False m True by (simp add: Let_def)
      then show ?thesis
        using False by (subst StartNextWriteOnIoThread.simps) (simp add: out m Let_def True)
    qed
  qed
qed

text \<open>Ending a write: the frame to release replaces the one that was offered.\<close>

lemma write_end_acct:
  assumes "acct h (upd_conn k (\<lambda>c. c\<lparr>sc_write_frame := Some frame, sc_writing := True\<rparr>) w)"
  shows "acct h (WriteFrame_end k frame w)"
proof -
  let ?v = "upd_conn k (\<lambda>c. c\<lparr>sc_write_frame := Some frame, sc_writing := True\<rparr>) w"
  let ?w1 = "ReleaseOutboundBytes k (length frame) w"
  let ?w2 = "upd_conn k (\<lambda>c. c\<lparr>sc_writing := False, sc_write_frame := None\<rparr>) ?w1"
  note a = acctD [OF assms, of k]
  have res: "length frame \<le> sc_reserved_outbound_bytes (w_conns w k)"
    "sc_reserved_outbound_bytes (w_conns w k) \<le> SIZE_MAX"
    using a acct_limit [OF assms] by (auto simp: acct1_def)
  have rel: "w_conns ?w1 k = (w_conns w k)\<lparr>sc_reserved_outbound_bytes :=
      sc_reserved_outbound_bytes (w_conns w k) - length frame\<rparr>"
    "j \<noteq> k \<Longrightarrow> w_conns ?w1 j = w_conns w j" "w_commands ?w1 = w_commands w" "w_opts ?w1 = w_opts w" for j
    using res by (simp_all add: ReleaseOutboundBytes_def sub64_exact upd_sm_def upd_rt_def upd_rt_metrics_def
        upd_conn_def)
  have "acct h ?w2"
  proof (rule acct_update_same [OF assms, of _ k])
    show "w_opts ?w2 = w_opts ?v" by (simp add: rel)
    show "bview ?w2 j = bview ?v j" if "j \<noteq> k" for j using that by (simp add: bview_def rel)
    show "acct1 (blimit ?v) (h k) (bview ?w2 k)" using a by (simp add: acct1_def rel)
  qed
  from start_write_acct [OF this, of k] show ?thesis
    by (simp add: WriteFrame_end_def ReleaseFrameReservation_def Let_def)
qed

lemma write_resume_acct:
  assumes a: "acct h w" and f: "sc_write_frame (w_conns w k) = Some f" and n: "written \<le> int (length f)"
  shows "acct h (WriteResume k written w)"
proof (cases "\<not> sc_running (w_conns w k) \<or> written \<le> 0")
  case True
  let ?w = "shutdown_socket k (upd_conn k (\<lambda>c. c\<lparr>sc_running := False\<rparr>) (upd_conn k (RecordCloseReason kWriteError)
      (upd_sm (\<lambda>m. m\<lparr>sm_write_errors := Counter_Add (sm_write_errors m) 1\<rparr>) w)))"
  have b: "bview ?w = bview w" "w_opts ?w = w_opts w" by (simp_all add: upd_conn_bview RecordCloseReason_def)
  have wf: "sc_writing (w_conns w k)" using acctD [OF a, of k] f by (auto simp: acct1_def)
  have "bview (upd_conn k (\<lambda>c. c\<lparr>sc_write_frame := Some f, sc_writing := True\<rparr>) ?w) = bview ?w"
    using f wf by (simp add: bview_def bv_of_def fun_eq_iff RecordCloseReason_def)
  then have "acct h (upd_conn k (\<lambda>c. c\<lparr>sc_write_frame := Some f, sc_writing := True\<rparr>) ?w)"
    using a b by (simp add: acct_def)
  from write_end_acct [OF this] show ?thesis using True f by (auto simp: WriteResume_def Let_def)
next
  case False
  let ?n = "nat written"
  define w0 where "w0 = (if ?n < length f
    then upd_sm (\<lambda>m. m\<lparr>sm_partial_write_completions := Counter_Add (sm_partial_write_completions m) 1\<rparr>) w else w)"
  have b0: "bview w0 = bview w" "w_opts w0 = w_opts w" "acct h w0"
    using a by (simp_all add: w0_def acct_def)
  note ak = acctD [OF a, of k]
  have wf: "sc_writing (w_conns w k)" using ak f by (auto simp: acct1_def)
  have le: "?n \<le> length f" using n by linarith
  have "?n \<le> sc_reserved_outbound_bytes (w_conns w k)" using ak f le by (simp add: acct1_def)
  moreover have "sc_reserved_outbound_bytes (w_conns w0 k) = sc_reserved_outbound_bytes (w_conns w k)"
    using arg_cong [OF fun_cong [OF b0(1), of k], of bv_reserved] by simp
  ultimately have "?n \<le> sc_reserved_outbound_bytes (w_conns w0 k)" by simp
  note b = ReleaseOutboundBytes_bview [OF b0(3) this]
  let ?w1 = "ReleaseOutboundBytes k ?n w0"
  let ?w2 = "upd_conn k (\<lambda>c. c\<lparr>sc_write_frame := Some (drop ?n f), sc_writing := True\<rparr>) ?w1"
  have vk: "bview ?w2 k = (bview w k)\<lparr>bv_reserved := bv_reserved (bview w k) - ?n, bv_frame := Some (drop ?n f),
      bv_writing := True\<rparr>"
    using fun_cong [OF b(1), of k] b0(1) by (simp add: bview_def bv_of_def)
  have ok: "acct h ?w2"
  proof (rule acct_update_same [OF a, of _ k])
    show "w_opts ?w2 = w_opts w" by (simp add: b b0)
    show "bview ?w2 j = bview w j" if "j \<noteq> k" for j using that by (simp add: bview_upd_conn b b0)
    show "acct1 (blimit w) (h k) (bview ?w2 k)" unfolding vk using ak f le by (auto simp: acct1_def)
  qed
  have wr: "sc_writing (w_conns ?w1 k)"
    using wf arg_cong [OF fun_cong [OF b(1), of k], of bv_writing] b0(1) by simp
  have eq: "WriteResume k written w = (if drop ?n f \<noteq> [] \<and> sc_running (w_conns ?w1 k)
      then upd_conn k (\<lambda>c. c\<lparr>sc_write_frame := Some (drop ?n f)\<rparr>) ?w1 else WriteFrame_end k (drop ?n f) ?w1)"
    unfolding w0_def using False by (simp only: WriteResume_def f option.case Let_def if_False)
  show ?thesis
  proof (cases "drop ?n f \<noteq> [] \<and> sc_running (w_conns ?w1 k)")
    case True
    then have "WriteResume k written w = upd_conn k (\<lambda>c. c\<lparr>sc_write_frame := Some (drop ?n f)\<rparr>) ?w1"
      unfolding eq by (rule if_P)
    moreover have "bview (upd_conn k (\<lambda>c. c\<lparr>sc_write_frame := Some (drop ?n f)\<rparr>) ?w1) = bview ?w2"
      using wr by (auto simp: bview_def bv_of_def)
    ultimately show ?thesis using ok by (simp add: acct_def)
  next
    case nr: False
    then have "WriteResume k written w = WriteFrame_end k (drop ?n f) ?w1" unfolding eq by (rule if_not_P)
    then show ?thesis using write_end_acct [OF ok] by simp
  qed
qed

section \<open>Requests and completions\<close>

lemma push_outbound_acct:
  assumes "acct (h(k := h k + length r)) w"
  shows "acct h (upd_conn k (\<lambda>c. c\<lparr>sc_outbound := sc_outbound c @ [r]\<rparr>) w)"
  using acct_update [OF assms, of "upd_conn k (\<lambda>c. c\<lparr>sc_outbound := sc_outbound c @ [r]\<rparr>) w" k "h k"]
    acctD [OF assms, of k]
  by (simp add: bview_upd_conn acct1_def)

lemma enqueue_acct:
  assumes "acct h w"
  shows "acct h (EnqueueResponseOnIoThread k r w)"
proof (cases "r = []")
  case False
  obtain ok w' where res: "TryReserveOutboundBytes k (length r) w = (ok, w')" by fastforce
  note a = reserve_acct [OF assms res]
  show ?thesis
  proof (cases ok)
    case True
    then have aw: "acct (h(k := h k + length r)) w'" using a by simp
    show ?thesis
    proof (cases "sc_running (w_conns w' k)")
      case run: True
      have "acct h (upd_sm (\<lambda>m. m\<lparr>sm_responses_enqueued := Counter_Add (sm_responses_enqueued m) 1\<rparr>)
          (upd_conn k (\<lambda>c. c\<lparr>sc_outbound := sc_outbound c @ [r]\<rparr>) w'))"
        using push_outbound_acct [OF aw] by (simp add: acct_def)
      from start_write_acct [OF this, of k] show ?thesis
        using False True run by (simp add: EnqueueResponseOnIoThread_def res Let_def)
    next
      case nr: False
      then show ?thesis
        using False True release_acct [OF aw, of "length r" k]
        by (simp add: EnqueueResponseOnIoThread_def res ReleaseFrameReservation_def)
    qed
  next
    case nok: False
    then show ?thesis using False a assms by (simp add: EnqueueResponseOnIoThread_def res acct_def)
  qed
qed (use assms in \<open>simp add: EnqueueResponseOnIoThread_def\<close>)

lemma send_error_acct: "acct h w \<Longrightarrow> acct h (SendErrorResponseOnIoThread pb k f e t w)"
  by (auto simp: SendErrorResponseOnIoThread_def acct_def [of h "RequestClose _ _ _"] acct_def [of h w] enqueue_acct
      split: prod.split bool.split)

lemma HandleRequest_acct:
  assumes a: "acct h w"
  shows "acct h (HandleRequest pb now k frame w)"
proof -
  have rt: "acct h (w\<lparr>w_rt := rt\<rparr>)" if "rt_options rt = w_opts w" for rt
    using a that by (simp add: acct_def bview_def)
  have "options_sized (w_opts w)" using a by (simp add: acct_def)
  then show ?thesis
  proof (cases rule: HandleRequest_cases [where pb = pb and now = now and k = k and frame = frame])
    case (reject rt' why)
    have "acct h (upd_sm g (w\<lparr>w_rt := rt'\<rparr>))" for g
      using rt [of rt'] same_countersD(1) [OF reject(1)] by (simp add: acct_def)
    then show ?thesis using reject(2) by (simp add: reject_overload_def send_error_acct)
  next
    case (no_executor rt')
    then show ?thesis using rt [of rt'] same_countersD(1) [OF no_executor(1)] by (simp add: acct_def)
  next
    case (admit m)
    then show ?thesis
      using rt by (simp add: AdmitCall_def Let_def acct_def bview_def bv_of_def)
  qed
qed

lemma parse_loop_acct: "acct h w \<Longrightarrow> acct h (parse_loop pb now k w)"
proof (induction pb now k w rule: parse_loop.induct)
  case (1 pb now k w)
  let ?f = "TryParseRpcFrame (pb_par_meta pb) (sc_recv_buffer (w_conns w k)) (so_max_frame_bytes (w_opts w))"
  let ?w = "upd_conn k (\<lambda>c. c\<lparr>sc_recv_buffer := drop (total_frame_bytes ?f) (sc_recv_buffer c)\<rparr>) w"
  have "acct h (HandleRequest pb now k ?f ?w)" using 1(2) by (intro HandleRequest_acct) (simp add: acct_upd_conn)
  then show ?case
    using 1 by (subst parse_loop.simps) (auto simp: Let_def acct_def [of h "protocol_error _ _"] acct_def [of h w])
qed

lemma receive_exit_acct: "acct h w \<Longrightarrow> acct h (ReceiveLoop_exit k w)"
  by (simp add: ReceiveLoop_exit_def Let_def discard_queued_acct acct_upd_conn)

lemma receive_head_acct: "acct h w \<Longrightarrow> acct h (ReceiveLoop_head pb now k w)"
  by (simp add: ReceiveLoop_head_def Let_def receive_exit_acct parse_loop_acct acct_upd_conn)

lemma arm_idle_acct: "acct h (ArmIdleTimerOnIoThread k w) = acct h w"
  by (simp add: acct_def)

lemma read_resume_acct: "acct h w \<Longrightarrow> acct h (ReadResume pb now k n data w)"
  by (simp add: ReadResume_def Let_def receive_exit_acct receive_head_acct arm_idle_acct acct_upd_conn RecordCloseReason_def)

lemma start_acct: "acct h w \<Longrightarrow> acct h (StartOnIoThread pb now k w)"
  by (simp add: StartOnIoThread_def ReceiveLoop_def Let_def receive_head_acct arm_idle_acct acct_upd_conn)

lemma complete_inbound_acct:
  assumes "acct (h(k := h k + length r)) w"
  shows "acct h (CompleteInboundOnIoThread k i r b w)"
proof -
  let ?w = "upd_conn k (\<lambda>c. c\<lparr>sc_inbound_calls := removeAll i (sc_inbound_calls c),
      sc_in_flight_calls := sub64 (sc_in_flight_calls c) 1\<rparr>) w"
  have a: "acct (h(k := h k + length r)) ?w" using assms by (simp add: acct_upd_conn)
  have rel: "acct h (ReleaseFrameReservation k r ?w)"
    using release_acct [OF a, of "length r" k] by (simp add: ReleaseFrameReservation_def)
  have push: "acct h (upd_sm g (upd_conn k (\<lambda>c. c\<lparr>sc_outbound := sc_outbound c @ [r]\<rparr>) ?w))" for g
    using push_outbound_acct [OF a] by (simp add: acct_def)
  show ?thesis
    using rel push
    by (simp add: CompleteInboundOnIoThread_def Let_def begin_close_acct start_write_acct acct_upd_conn RecordCloseReason_def)
qed

lemma post_acct:
  assumes "acct (h(k := h k + payload_bytes cmd)) w"
  shows "acct h (post k cmd w)"
proof -
  have "w_opts (post k cmd w) = w_opts w" "j \<noteq> k \<Longrightarrow> bview (post k cmd w) j = bview w j" for j
    by (simp_all add: post_def bview_def Let_def)
  moreover have "acct1 (blimit w) (h k) (bview (post k cmd w) k)"
    using acctD [OF assms, of k] by (simp add: acct1_def post_def Let_def)
  ultimately show ?thesis
    using acct_update [OF assms, of "post k cmd w" k "h k"] by simp
qed

lemma post_plain_acct: "acct h w \<Longrightarrow> payload_bytes cmd = 0 \<Longrightarrow> acct h (post k cmd w)"
  by (rule post_acct) simp

lemma acct_rt:
  assumes "acct h w" "rt_options (f (w_rt w)) = w_opts w"
  shows "acct h (upd_rt f w)"
  using assms by (simp add: acct_def bview_def upd_rt_def)

lemma finalize_acct:
  assumes a: "acct h w"
  shows "acct h (FinalizeInboundCall pb now alive i w)"
proof -
  let ?k = "ic_connection (w_calls w i)"
  obtain m v g resp cl where
    f: "FinalizeInboundCall pb now alive i w = upd_rt ReleaseInFlight
      (if alive then CompleteInbound ?k i resp cl
           (upd_call i (\<lambda>c. c\<lparr>ic_completion := kFinalized\<rparr>) (upd_sm g v))
       else upd_call i (\<lambda>c. c\<lparr>ic_completion := kFinalized\<rparr>) (upd_sm g v))"
    and v: "v = upd_call i (\<lambda>c. c\<lparr>ic_response_meta := m\<rparr>) w \<and> (alive \<longrightarrow> resp = []) \<or>
      alive \<and> TryReserveOutboundBytes ?k (length resp) (upd_call i (\<lambda>c. c\<lparr>ic_response_meta := m\<rparr>) w) = (True, v)"
    by (rule FinalizeInboundCall_form)
  have a0: "acct h (upd_call i (\<lambda>c. c\<lparr>ic_response_meta := m\<rparr>) w)" using a by (simp add: acct_def)
  have av: "acct (h(?k := h ?k + (if alive then length resp else 0))) v"
    using v reserve_acct [OF a0, of ?k "length resp" True v] a0 by (cases alive) auto
  then have "acct (h(?k := h ?k + (if alive then length resp else 0)))
      (upd_call i (\<lambda>c. c\<lparr>ic_completion := kFinalized\<rparr>) (upd_sm g v))"
    by (simp add: acct_def)
  then show ?thesis
    unfolding f by (intro acct_rt) (cases alive, simp_all add: CompleteInbound_def post_acct)
qed

section \<open>All steps\<close>

lemma RunInboundCall_acct:
  assumes "acct h w"
  shows "acct h (RunInboundCall pb now i w)"
proof -
  have call: "acct h (upd_call i f v)" if "acct h v" for f v using that by (simp add: acct_def)
  have sm: "acct h (upd_sm f v)" if "acct h v" for f v using that by (simp add: acct_def)
  have sched: "acct h (ScheduleInboundFinalization i v)" if "acct h v" for v
    using that by (simp add: acct_def bview_def ScheduleInboundFinalization_def)
  show ?thesis
    using assms by (auto simp: RunInboundCall_def Let_def split: option.split prod.split intro!: call sm sched)
qed

lemma force_close_acct: "acct h w \<Longrightarrow> acct h (ForceCloseLiveConnections w)"
proof -
  have "acct h (fold (\<lambda>k. RequestClose k kServerStop) ks v)" if "acct h v" for ks v
    using that by (induction ks arbitrary: v) (simp_all add: acct_def)
  then show "acct h w \<Longrightarrow> acct h (ForceCloseLiveConnections w)" by (simp add: ForceCloseLiveConnections_def)
qed

lemma accept_acct:
  assumes "acct (\<lambda>_. 0) w" "w_commands w (w_next_conn w) = []"
  shows "acct (\<lambda>_. 0) (AcceptConnection fd w)"
proof -
  obtain ok rt where r: "TryAcquireConnection (w_rt w) = (ok, rt)" by fastforce
  have o: "rt_options rt = w_opts w" using r by (auto simp: TryAcquireConnection_def upd_rt_metrics_def split: if_splits)
  let ?k = "w_next_conn w"
  let ?w = "upd_conn ?k (\<lambda>_. new_ServerConnection fd) (w\<lparr>w_rt := rt, w_next_conn := ?k + 1\<rparr>)"
  have "acct (\<lambda>_. 0) ?w"
  proof (rule acct_update_same [OF assms(1), of _ ?k])
    show "w_opts ?w = w_opts w" by (simp add: o)
    show "bview ?w j = bview w j" if "j \<noteq> ?k" for j using that by (simp add: bview_def)
    show "acct1 (blimit w) 0 (bview ?w ?k)" using assms(2) by (simp add: acct1_def new_ServerConnection_def)
  qed
  then have "acct (\<lambda>_. 0) (Start_connection ?k ?w)" by (simp add: Start_connection_def post_plain_acct)
  then have "acct (\<lambda>_. 0) (TrackConnection ?k (Start_connection ?k ?w))"
    by (simp add: TrackConnection_def Let_def acct_rt acct_def [of _ "RequestClose _ _ _"])
       (simp add: acct_def bview_def upd_rt_def)
  then show ?thesis
    using assms(1) o by (cases ok) (simp_all add: AcceptConnection_def r Let_def acct_def bview_def)
qed

lemma stop_acct: "acct h w \<Longrightarrow> acct h (BeginGracefulStop w)"
proof -
  assume a: "acct h w"
  have rt: "acct h (upd_rt (\<lambda>rt. rt\<lparr>rt_accepting := b\<rparr>) v)" "acct h (upd_rt (\<lambda>rt. rt\<lparr>rt_graceful_stop_timer_id := t\<rparr>) v)"
    "acct h (CancelTimerOf t v)" "acct h (v\<lparr>w_timers := ts, w_next_timer := n\<rparr>)" if "acct h v" for v b t ts n
    using that by (simp_all add: acct_rt) (simp_all add: acct_def bview_def CancelTimerOf_def)
  show ?thesis
    using a by (auto simp: BeginGracefulStop_def Let_def AddTimerTo_def intro!: force_close_acct rt)
qed

lemma pop_acct:
  assumes "acct (\<lambda>_. 0) w" "w_commands w k = cmd # rest"
  shows "acct ((\<lambda>_. 0)(k := payload_bytes cmd)) (w\<lparr>w_commands := (w_commands w)(k := rest)\<rparr>)"
proof (rule acct_update [OF assms(1)])
  show "acct1 (blimit w) (payload_bytes cmd) (bview (w\<lparr>w_commands := (w_commands w)(k := rest)\<rparr>) k)"
    using acctD [OF assms(1), of k] assms(2) by (simp add: acct1_def)
qed (simp_all add: bview_def)

lemma command_acct:
  assumes "acct (h(k := h k + payload_bytes cmd)) w" "command_conn cmd = k"
  shows "acct h (DispatchCommand pb now cmd w)"
proof -
  have sm: "acct h (upd_sm f v) = acct h v" for h f and v :: "'a ServerWorld" by (simp add: acct_def)
  show ?thesis
    using assms by (cases cmd) (auto simp: sm start_acct begin_close_acct intro!: complete_inbound_acct)
qed

lemma acct_worker: "acct h w \<Longrightarrow> acct h (w\<lparr>w_worker := ts\<rparr>)"
  by (simp add: acct_def bview_def)

lemma acct_cancel_timer: "acct h w \<Longrightarrow> acct h (CancelTimerOf t w)"
  by (simp add: acct_def bview_def CancelTimerOf_def)

lemma acct_upd_call: "acct h w \<Longrightarrow> acct h (upd_call i f w)"
  by (simp add: acct_def)

lemma timer_acct: "acct h w \<Longrightarrow> acct h (run_timer_action a w)"
  by (cases a) (simp_all add: force_close_acct, simp add: acct_def)

lemma done_acct: "acct h w \<Longrightarrow> acct h (InboundDoneClosure_Run b i w)"
  by (simp add: InboundDoneClosure_Run_def ScheduleInboundFinalization_def acct_worker acct_upd_call)

lemma close_acct: "acct h w \<Longrightarrow> acct h (RequestClose k r w)"
  by (simp add: acct_def)

lemma dispatch_acct: "acct h w \<Longrightarrow> acct h (ServerDispatchTask_execute pb now i w)"
  unfolding ServerDispatchTask_execute_def by (intro RunInboundCall_acct acct_rt) simp_all

lemma step_acct:
  assumes "acct (\<lambda>_. 0) w" "located w" "server_step pb w w'"
  shows "acct (\<lambda>_. 0) w'"
  using assms(3)
proof cases
  case (step_accept fd)
  have "w_commands w (w_next_conn w) = []" using locatedD(3) [OF assms(2), of _ "w_next_conn w"] by (metis last_in_set less_irrefl)
  then show ?thesis unfolding step_accept by (rule accept_acct [OF assms(1)])
next
  case (step_command k cmd rest now)
  show ?thesis
    unfolding step_command(1)
    by (rule command_acct [where k = k]) (use pop_acct [OF assms(1) step_command(2)] locatedD(2) [OF assms(2), of cmd k] step_command(2) in simp_all)
qed (use assms(1) in \<open>simp_all add: read_resume_acct write_resume_acct dispatch_acct finalize_acct timer_acct done_acct
    close_acct stop_acct acct_worker acct_cancel_timer acct_upd_call\<close>)

lemma server_reach_acct: "server_reach pb w \<Longrightarrow> acct (\<lambda>_. 0) w"
proof (induction rule: server_reach.induct)
  case (server_init opt mm m registry executor calls)
  then show ?case
    by (simp add: acct_def acct1_def new_ServerWorld_def new_ServerRuntime_def upd_rt_def new_ServerConnection_def)
next
  case (server_next w w')
  then show ?case using step_acct server_reach_located by blast
qed

end
