(* ===== verification/Server_Calls.thy ===== *)
theory Server_Calls
  imports Server_Isolation
begin

text \<open>
  The life of an inbound call.  Every admitted call is at any time in exactly one place: waiting for
  a worker, in the service, waiting for its finalization, or in the mailbox of its connection; it
  leaves the connection exactly once, and the counters of the connection and of the runtime count
  the calls in these places.
\<close>

section \<open>Where a call is\<close>

fun completes :: "nat \<Rightarrow> IoCommand \<Rightarrow> bool" where
  "completes i (ServerCompleteInbound k j p b) = (i = j)"
| "completes i cmd = False"

fun is_dispatch :: "worker_task \<Rightarrow> bool" where
  "is_dispatch (DispatchTask i) = True"
| "is_dispatch t = False"

abbreviation dispatches :: "'m ServerWorld \<Rightarrow> nat \<Rightarrow> nat" where
  "dispatches w i \<equiv> count_list (w_worker w) (DispatchTask i)"

abbreviation finalizes :: "'m ServerWorld \<Rightarrow> nat \<Rightarrow> nat" where
  "finalizes w i \<equiv> count_list (w_worker w) (FinalizeTask i)"

definition completions :: "'m ServerWorld \<Rightarrow> nat \<Rightarrow> nat" where
  "completions w i = length (filter (completes i) (w_commands w (ic_connection (w_calls w i))))"

definition held :: "'m ServerWorld \<Rightarrow> nat \<Rightarrow> bool" where
  "held w i = (i \<in> set (sc_inbound_calls (w_conns w (ic_connection (w_calls w i)))))"

definition phase_fits :: "'m InboundCallState \<Rightarrow> bool \<Rightarrow> nat \<Rightarrow> nat \<Rightarrow> nat \<Rightarrow> bool" where
  "phase_fits c h d f n =
     (case ic_completion c of
        kPending \<Rightarrow> h \<and> d = (if ic_done c then 0 else 1) \<and> f = 0 \<and> n = 0
      | kFinalizationScheduled \<Rightarrow> h \<and> d = 0 \<and> f = 1 \<and> n = 0
      | kFinalized \<Rightarrow> d = 0 \<and> f = 0 \<and> n = (if h then 1 else 0))"

lemma phase_fits_cong:
  "ic_completion c' = ic_completion c \<Longrightarrow> ic_done c' = ic_done c \<Longrightarrow> phase_fits c' h d f n = phase_fits c h d f n"
  by (simp add: phase_fits_def)

definition phase_ok :: "'m ServerWorld \<Rightarrow> nat \<Rightarrow> bool" where
  "phase_ok w i = phase_fits (w_calls w i) (held w i) (dispatches w i) (finalizes w i) (completions w i)"

definition unfinished :: "'m ServerWorld \<Rightarrow> nat set" where
  "unfinished w = {i. i < w_next_call w \<and> ic_completion (w_calls w i) \<noteq> kFinalized}"

text \<open>The invariant of one connection, and of all calls.\<close>

definition conn_calls_ok :: "'m ServerWorld \<Rightarrow> nat \<Rightarrow> bool" where
  "conn_calls_ok w k =
     (let c = w_conns w k
      in distinct (sc_inbound_calls c) \<and> sc_in_flight_calls c = length (sc_inbound_calls c) \<and>
         sc_in_flight_calls c \<le> so_max_in_flight_per_connection (w_opts w) \<and>
         (\<forall>i \<in> set (sc_inbound_calls c). i < w_next_call w \<and> ic_connection (w_calls w i) = k) \<and>
         (\<forall>i. filter (completes i) (w_commands w k) \<noteq> [] \<longrightarrow> i < w_next_call w \<and> ic_connection (w_calls w i) = k) \<and>
         count_list (w_commands w k) (ServerStart k) \<le> (if sc_start_command_handled c then 0 else 1) \<and>
         (sc_reading c \<longrightarrow> \<not> sc_receiver_exited c \<and> sc_receiver_started c \<and> sc_start_command_handled c) \<and>
         (sc_running c \<longrightarrow> \<not> sc_receiver_exited c \<and> ServerClose k \<notin> set (w_commands w k)) \<and>
         (sc_released c \<longrightarrow> sc_receiver_exited c \<and> sc_start_command_handled c \<and> sc_inbound_calls c = []))"

definition calls_inv :: "'m ServerWorld \<Rightarrow> bool" where
  "calls_inv w =
     (options_sized (w_opts w) \<and> (\<forall>k. conn_calls_ok w k) \<and> (\<forall>i < w_next_call w. phase_ok w i) \<and>
      (\<forall>i \<ge> w_next_call w. dispatches w i = 0 \<and> finalizes w i = 0) \<and>
      rt_in_flight (w_rt w) = card (unfinished w) \<and> rt_in_flight (w_rt w) \<le> so_max_in_flight (w_opts w) \<and>
      rt_pending_worker_tasks (w_rt w) = length (filter is_dispatch (w_worker w)) \<and>
      rt_pending_worker_tasks (w_rt w) \<le> so_max_pending_worker_tasks (w_opts w))"

section \<open>Changes that do not move a call\<close>

fun call_command :: "IoCommand \<Rightarrow> bool" where
  "call_command (ServerClose k) = False"
| "call_command cmd = True"

definition quiet_conn :: "ServerConnection \<Rightarrow> ServerConnection \<Rightarrow> bool" where
  "quiet_conn c c' =
     (sc_inbound_calls c' = sc_inbound_calls c \<and> sc_in_flight_calls c' = sc_in_flight_calls c \<and>
      sc_receiver_started c' = sc_receiver_started c \<and> sc_receiver_exited c' = sc_receiver_exited c \<and>
      sc_start_command_handled c' = sc_start_command_handled c \<and> sc_reading c' = sc_reading c \<and> (sc_running c' \<longrightarrow> sc_running c) \<and>
      (sc_released c' \<longrightarrow> sc_released c \<or> sc_receiver_exited c \<and> sc_start_command_handled c \<and> sc_inbound_calls c = []))"

definition quiet :: "'m ServerWorld \<Rightarrow> 'm ServerWorld \<Rightarrow> bool" where
  "quiet w w' =
     (w_calls w' = w_calls w \<and> w_next_call w' = w_next_call w \<and> w_worker w' = w_worker w \<and> w_opts w' = w_opts w \<and>
      rt_in_flight (w_rt w') = rt_in_flight (w_rt w) \<and>
      rt_pending_worker_tasks (w_rt w') = rt_pending_worker_tasks (w_rt w) \<and>
      (\<forall>k. quiet_conn (w_conns w k) (w_conns w' k)) \<and>
      (\<forall>k. filter call_command (w_commands w' k) = filter call_command (w_commands w k)) \<and>
      (\<forall>k. ServerClose k \<in> set (w_commands w' k) \<longrightarrow> ServerClose k \<in> set (w_commands w k) \<or> \<not> sc_running (w_conns w' k)))"

named_theorems quiets

lemma quiet_conn_same [simp]: "quiet_conn c c"
  by (simp add: quiet_conn_def)

lemma quiet_same: "quiet w w"
  by (simp add: quiet_def)

lemma quiet_conn_trans: "quiet_conn a b \<Longrightarrow> quiet_conn b c \<Longrightarrow> quiet_conn a c"
  unfolding quiet_conn_def by auto

lemma quiet_trans: "quiet u v \<Longrightarrow> quiet v w \<Longrightarrow> quiet u w"
proof -
  assume a: "quiet u v" "quiet v w"
  have conn: "quiet_conn (w_conns u k) (w_conns v k)" "quiet_conn (w_conns v k) (w_conns w k)" for k using a by (simp_all add: quiet_def)
  have "ServerClose k \<in> set (w_commands u k) \<or> \<not> sc_running (w_conns w k)" if "ServerClose k \<in> set (w_commands w k)" for k
  proof (cases "ServerClose k \<in> set (w_commands v k)")
    case True
    then have "ServerClose k \<in> set (w_commands u k) \<or> \<not> sc_running (w_conns v k)" using a(1) by (simp add: quiet_def)
    then show ?thesis using conn(2) [of k] by (auto simp: quiet_conn_def)
  qed (use that a(2) in \<open>auto simp: quiet_def\<close>)
  moreover have "quiet_conn (w_conns u k) (w_conns w k)" for k using conn by (rule quiet_conn_trans)
  ultimately show "quiet u w" using a by (simp add: quiet_def)
qed

lemma quiet_step: "quiet u v \<Longrightarrow> quiet v w \<Longrightarrow> quiet u w"
  by (rule quiet_trans)

lemma filter_completes: "filter (completes i) cs = filter (completes i) (filter call_command cs)"
proof -
  have "completes i cmd \<Longrightarrow> call_command cmd" for cmd by (cases cmd) auto
  then show ?thesis by (induction cs) auto
qed

lemma count_call_command: "call_command cmd \<Longrightarrow> count_list cs cmd = count_list (filter call_command cs) cmd"
  by (induction cs) auto

lemma quiet_completions: "quiet w w' \<Longrightarrow> completions w' i = completions w i"
  unfolding completions_def quiet_def by (metis filter_completes)

lemma quiet_held: "quiet w w' \<Longrightarrow> held w' i = held w i"
  by (simp add: held_def quiet_def quiet_conn_def)

lemma quiet_calls_inv:
  assumes "calls_inv w" and q: "quiet w w'"
  shows "calls_inv w'"
proof -
  have same: "w_calls w' = w_calls w" "w_next_call w' = w_next_call w" "w_worker w' = w_worker w" "w_opts w' = w_opts w"
      "rt_in_flight (w_rt w') = rt_in_flight (w_rt w)" "rt_pending_worker_tasks (w_rt w') = rt_pending_worker_tasks (w_rt w)"
    and conn: "\<And>k. quiet_conn (w_conns w k) (w_conns w' k)"
    and cmds: "\<And>k. filter call_command (w_commands w' k) = filter call_command (w_commands w k)"
    and close: "\<And>k. ServerClose k \<in> set (w_commands w' k) \<Longrightarrow> ServerClose k \<in> set (w_commands w k) \<or> \<not> sc_running (w_conns w' k)"
    using q by (simp_all add: quiet_def)
  have mem: "count_list (w_commands w' k) (ServerStart k) = count_list (w_commands w k) (ServerStart k)" for k
    using count_call_command [of "ServerStart k"] cmds [of k] by (metis call_command.simps(2))
  have completes: "filter (completes i) (w_commands w' k) = filter (completes i) (w_commands w k)" for i k
    using filter_completes cmds [of k] by metis
  have "conn_calls_ok w' k" for k
  proof -
    have eq: "sc_inbound_calls (w_conns w' k) = sc_inbound_calls (w_conns w k)" "sc_in_flight_calls (w_conns w' k) = sc_in_flight_calls (w_conns w k)"
      "sc_receiver_started (w_conns w' k) = sc_receiver_started (w_conns w k)" "sc_receiver_exited (w_conns w' k) = sc_receiver_exited (w_conns w k)"
      "sc_start_command_handled (w_conns w' k) = sc_start_command_handled (w_conns w k)" "sc_reading (w_conns w' k) = sc_reading (w_conns w k)"
      and run: "sc_running (w_conns w' k) \<Longrightarrow> sc_running (w_conns w k)"
      and rel: "sc_released (w_conns w' k) \<Longrightarrow> sc_released (w_conns w k) \<or> sc_receiver_exited (w_conns w k) \<and>
        sc_start_command_handled (w_conns w k) \<and> sc_inbound_calls (w_conns w k) = []"
      using conn [of k] unfolding quiet_conn_def by blast+
    have "conn_calls_ok w k" using assms by (simp add: calls_inv_def)
    then show ?thesis
      using run rel close [of k] unfolding conn_calls_ok_def Let_def same mem completes eq by blast
  qed
  moreover have "phase_ok w' i = phase_ok w i" for i
    by (simp add: phase_ok_def same quiet_held [OF q] quiet_completions [OF q])
  ultimately show ?thesis using assms(1) by (simp add: calls_inv_def same unfinished_def)
qed

lemma quiet_upd_conn [quiets]: "quiet v w \<Longrightarrow> quiet_conn (w_conns w k) (f (w_conns w k)) \<Longrightarrow> quiet v (upd_conn k f w)"
  by (erule quiet_trans) (simp add: quiet_def)

lemma quiet_upd_sm [quiets]: "quiet v w \<Longrightarrow> quiet v (upd_sm f w)"
  by (erule quiet_trans) (simp add: quiet_def world_updates)

lemma quiet_upd_rt [quiets]:
  "quiet v w \<Longrightarrow> rt_options (f (w_rt w)) = w_opts w \<Longrightarrow> rt_in_flight (f (w_rt w)) = rt_in_flight (w_rt w) \<Longrightarrow>
   rt_pending_worker_tasks (f (w_rt w)) = rt_pending_worker_tasks (w_rt w) \<Longrightarrow> quiet v (upd_rt f w)"
  by (erule quiet_trans) (simp add: quiet_def upd_rt_def)

lemma quiet_rt [quiets]: "quiet v w \<Longrightarrow> same_counters (w_rt w) rt \<Longrightarrow> quiet v (w\<lparr>w_rt := rt\<rparr>)"
  by (erule quiet_trans) (auto simp: quiet_def same_counters_def)

lemma quiet_sockets [quiets]: "quiet v w \<Longrightarrow> quiet v (w\<lparr>w_sockets := s\<rparr>)"
  by (erule quiet_trans) (simp add: quiet_def)

lemma quiet_timers [quiets]: "quiet v w \<Longrightarrow> quiet v (w\<lparr>w_timers := t, w_next_timer := n\<rparr>)" "quiet v w \<Longrightarrow> quiet v (w\<lparr>w_timers := t\<rparr>)"
  by (erule quiet_trans, simp add: quiet_def)+

lemma quiet_shutdown [quiets]: "quiet v w \<Longrightarrow> quiet v (shutdown_socket k w)"
  by (auto simp: shutdown_socket_def Let_def intro!: quiets)

lemma quiet_cancel_timer [quiets]: "quiet v w \<Longrightarrow> quiet v (CancelTimerOf t w)"
  by (auto simp: CancelTimerOf_def intro!: quiets)

lemma quiet_record_reason [simp]: "quiet_conn c (RecordCloseReason r c)"
  by (simp add: RecordCloseReason_def quiet_conn_def)

lemma quiet_close_command [quiets]:
  "quiet v w \<Longrightarrow> \<not> sc_running (w_conns w k) \<Longrightarrow> cs = (w_commands w)(k := w_commands w k @ [ServerClose k]) \<Longrightarrow>
   quiet v (w\<lparr>w_commands := cs\<rparr>)"
  by (erule quiet_trans) (simp add: quiet_def)

lemma quiet_request_close [quiets]: "quiet v w \<Longrightarrow> quiet v (RequestClose k r w)"
  by (auto simp: RequestClose_def RequestClose_exchange_def RequestClose_post_def post_def Let_def quiet_conn_def RecordCloseReason_def
     split: bool.split intro!: quiets)

lemma quiet_cancel_idle [quiets]: "quiet v w \<Longrightarrow> quiet v (CancelIdleTimer k w)"
  by (auto simp: CancelIdleTimer_def Let_def quiet_conn_def intro!: quiets)

lemma quiet_arm_idle [quiets]: "quiet v w \<Longrightarrow> quiet v (ArmIdleTimerOnIoThread k w)"
  by (auto simp: ArmIdleTimerOnIoThread_def AddTimerTo_def Let_def quiet_conn_def intro!: quiets)

lemma quiet_release_connection [quiets]: "quiet v w \<Longrightarrow> quiet v (ReleaseConnection k w)"
  by (auto simp: ReleaseConnection_def CancelGracefulStopTimer_def Let_def release_connection_counters_def
      upd_rt_metrics_def intro!: quiets)

lemma quiet_finish_close [quiets]: "quiet v w \<Longrightarrow> quiet v (TryFinishCloseOnIoThread k w)"
  by (auto simp: TryFinishCloseOnIoThread_def CancelIdleTimer_def CancelTimerOf_def Let_def quiet_conn_def intro!: quiets)

lemma quiet_release [quiets]: "quiet v w \<Longrightarrow> quiet v (ReleaseOutboundBytes k n w)"
  by (auto simp: ReleaseOutboundBytes_def quiet_conn_def intro!: quiets)

lemma quiet_release_frame [quiets]: "quiet v w \<Longrightarrow> quiet v (ReleaseFrameReservation k f w)"
  by (auto simp: ReleaseFrameReservation_def intro!: quiets)

lemma quiet_reserve: "quiet v w \<Longrightarrow> TryReserveOutboundBytes k n w = (ok, w') \<Longrightarrow> quiet v w'"
  by (auto simp: TryReserveOutboundBytes_def Let_def quiet_conn_def split: if_splits intro!: quiets)

lemma quiet_discard [quiets]: "quiet v w \<Longrightarrow> quiet v (discard_frames k fs w)"
proof (induction fs arbitrary: w)
  case (Cons f fs)
  from Cons.prems show ?case by (auto simp: quiet_conn_def intro!: Cons.IH quiets)
qed simp

lemma quiet_discard_queued [quiets]: "quiet v w \<Longrightarrow> quiet v (DiscardQueuedOutboundOnIoThread k w)"
  by (auto simp: DiscardQueuedOutboundOnIoThread_def intro!: quiets)

lemma quiet_start_write [quiets]: "quiet v w \<Longrightarrow> quiet v (StartNextWriteOnIoThread k w)"
proof (induction k w rule: StartNextWriteOnIoThread.induct)
  case (1 k w)
  show ?case
    using 1(2) by (subst StartNextWriteOnIoThread.simps)
      (auto simp: Let_def quiet_conn_def split: list.split prod.split intro!: 1(1) quiets)
qed

lemma quiet_write_resume [quiets]: "quiet v w \<Longrightarrow> quiet v (WriteResume k n w)"
  by (auto simp: WriteResume_def WriteFrame_end_def Let_def quiet_conn_def RecordCloseReason_def split: option.split intro!: quiets)

lemma quiet_enqueue [quiets]: "quiet v w \<Longrightarrow> quiet v (EnqueueResponseOnIoThread k r w)"
  by (auto simp: EnqueueResponseOnIoThread_def Let_def quiet_conn_def split: prod.split bool.split intro!: quiets dest: quiet_reserve)

lemma quiet_reject [quiets]: "quiet v w \<Longrightarrow> quiet v (reject_overload pb k f t w)"
  by (auto simp: reject_overload_def SendErrorResponseOnIoThread_def split: prod.split bool.split intro!: quiets)

lemma quiet_protocol_error [quiets]: "quiet v w \<Longrightarrow> quiet v (protocol_error k w)"
  by (auto simp: protocol_error_def Let_def quiet_conn_def RecordCloseReason_def intro!: quiets)

section \<open>Admission\<close>

lemma calls_invD:
  assumes "calls_inv w"
  shows "options_sized (w_opts w)" "conn_calls_ok w k" "i < w_next_call w \<Longrightarrow> phase_ok w i"
    "w_next_call w \<le> i \<Longrightarrow> dispatches w i = 0" "w_next_call w \<le> i \<Longrightarrow> finalizes w i = 0"
    "rt_in_flight (w_rt w) = card (unfinished w)" "rt_in_flight (w_rt w) \<le> so_max_in_flight (w_opts w)"
    "rt_pending_worker_tasks (w_rt w) = length (filter is_dispatch (w_worker w))"
    "rt_pending_worker_tasks (w_rt w) \<le> so_max_pending_worker_tasks (w_opts w)"
  using assms unfolding calls_inv_def by blast+

lemma finite_unfinished [simp]: "finite (unfinished w)"
  by (simp add: unfinished_def)

lemma conn_calls_okD:
  assumes "conn_calls_ok w k"
  shows "distinct (sc_inbound_calls (w_conns w k))" "sc_in_flight_calls (w_conns w k) = length (sc_inbound_calls (w_conns w k))"
    "sc_in_flight_calls (w_conns w k) \<le> so_max_in_flight_per_connection (w_opts w)"
    "i \<in> set (sc_inbound_calls (w_conns w k)) \<Longrightarrow> i < w_next_call w" "i \<in> set (sc_inbound_calls (w_conns w k)) \<Longrightarrow> ic_connection (w_calls w i) = k"
    "filter (completes i) (w_commands w k) \<noteq> [] \<Longrightarrow> i < w_next_call w"
    "filter (completes i) (w_commands w k) \<noteq> [] \<Longrightarrow> ic_connection (w_calls w i) = k"
    "count_list (w_commands w k) (ServerStart k) \<le> (if sc_start_command_handled (w_conns w k) then 0 else 1)"
    "sc_reading (w_conns w k) \<Longrightarrow>
      \<not> sc_receiver_exited (w_conns w k) \<and> sc_receiver_started (w_conns w k) \<and> sc_start_command_handled (w_conns w k)"
    "sc_running (w_conns w k) \<Longrightarrow> \<not> sc_receiver_exited (w_conns w k) \<and> ServerClose k \<notin> set (w_commands w k)"
    "sc_released (w_conns w k) \<Longrightarrow> sc_receiver_exited (w_conns w k) \<and> sc_start_command_handled (w_conns w k) \<and> sc_inbound_calls (w_conns w k) = []"
  using assms unfolding conn_calls_ok_def Let_def by blast+

lemma admit_calls_inv:
  assumes inv: "calls_inv w" and lim: "sc_in_flight_calls (w_conns w k) < so_max_in_flight_per_connection (w_opts w)"
      "rt_in_flight (w_rt w) < so_max_in_flight (w_opts w)" "rt_pending_worker_tasks (w_rt w) < so_max_pending_worker_tasks (w_opts w)"
    and live: "\<not> sc_released (w_conns w k)"
  shows "calls_inv (AdmitCall now k frame (w\<lparr>w_rt := (w_rt w)\<lparr>rt_in_flight := rt_in_flight (w_rt w) + 1,
         rt_pending_worker_tasks := rt_pending_worker_tasks (w_rt w) + 1, rt_metrics := m\<rparr>\<rparr>))"
proof -
  define W where "W = AdmitCall now k frame (w\<lparr>w_rt := (w_rt w)\<lparr>rt_in_flight := rt_in_flight (w_rt w) + 1,
         rt_pending_worker_tasks := rt_pending_worker_tasks (w_rt w) + 1, rt_metrics := m\<rparr>\<rparr>)"
  let ?n = "w_next_call w" and ?c = "w_conns w k"
  note conn = conn_calls_okD [OF calls_invD(2) [OF inv]]
  have add: "add64 (sc_in_flight_calls ?c) 1 = sc_in_flight_calls ?c + 1"
    using lim(1) calls_invD(1) [OF inv] by (intro add64_exact) (simp add: options_sized_def)
  have w: "w_next_call W = ?n + 1" "w_commands W = w_commands w" "w_worker W = w_worker w @ [DispatchTask ?n]" "w_opts W = w_opts w"
    "w_calls W = (w_calls w)(?n := new_InboundCallState k frame (so_max_frame_bytes (w_opts w)) now)"
    "w_conns W = (w_conns w)(k := ?c\<lparr>sc_inbound_calls := sc_inbound_calls ?c @ [?n], sc_in_flight_calls := sc_in_flight_calls ?c + 1\<rparr>)"
    "rt_in_flight (w_rt W) = rt_in_flight (w_rt w) + 1" "rt_pending_worker_tasks (w_rt W) = rt_pending_worker_tasks (w_rt w) + 1"
    by (simp_all add: W_def AdmitCall_def Let_def world_updates add [simplified])
  have fresh: "?n \<notin> set (sc_inbound_calls ?c)" "filter (completes ?n) (w_commands w j) = []" for j
    using conn(4) conn(6) [of _ j] by blast+
  have "conn_calls_ok W j" for j
  proof (cases "j = k")
    case True
    have bound: "Suc (length (sc_inbound_calls ?c)) \<le> so_max_in_flight_per_connection (w_opts w)" using conn(2) [of k] lim(1) by simp
    show ?thesis
      unfolding conn_calls_ok_def Let_def w
      using True conn(1) [of k] conn(2) [of k] conn(4,5,6,7) [of _ k] conn(8,9,10) [of k] live fresh bound
      by (auto simp: less_Suc_eq new_InboundCallState_def)
  next
    case False
    then show ?thesis
      unfolding conn_calls_ok_def Let_def w
      using conn(1,2,3) [of j] conn(4,5,6,7) [of _ j] conn(8,9,10,11) [of j] by (auto simp: less_Suc_eq)
  qed
  moreover have "phase_ok W i" if "i < ?n + 1" for i
  proof (cases "i = ?n")
    case True
    have "completions W ?n = 0" using fresh(2) by (simp add: completions_def w new_InboundCallState_def)
    moreover have "held W ?n" by (simp add: held_def w new_InboundCallState_def)
    ultimately show ?thesis
      using calls_invD(4,5) [OF inv order_refl] True by (simp add: phase_ok_def phase_fits_def w new_InboundCallState_def)
  next
    case False
    then have "i < ?n" using that by simp
    then have "held W i = held w i" "completions W i = completions w i" by (simp_all add: held_def completions_def w)
    with calls_invD(3) [OF inv \<open>i < ?n\<close>] False show ?thesis by (simp add: phase_ok_def w)
  qed
  moreover have "unfinished W = insert ?n (unfinished w)"
    unfolding unfinished_def w by (auto simp: new_InboundCallState_def less_Suc_eq)
  moreover have "?n \<notin> unfinished w" by (simp add: unfinished_def)
  moreover have "dispatches W i = 0 \<and> finalizes W i = 0" if "?n + 1 \<le> i" for i
    using calls_invD(4,5) [OF inv, of i] that by (simp add: w)
  ultimately have "calls_inv W"
    unfolding calls_inv_def w(1,4,7,8) using calls_invD(1,6,8) [OF inv] lim by (auto simp: w(3))
  then show ?thesis by (simp add: W_def)
qed

section \<open>The IO thread\<close>

text \<open>While the receive loop of a connection runs, the connection is not released.\<close>

definition receiving :: "nat \<Rightarrow> 'm ServerWorld \<Rightarrow> bool" where
  "receiving k w = (\<not> sc_receiver_exited (w_conns w k) \<and> sc_receiver_started (w_conns w k) \<and> sc_start_command_handled (w_conns w k))"

definition loop_inv :: "nat \<Rightarrow> 'm ServerWorld \<Rightarrow> bool" where
  "loop_inv k w = (calls_inv w \<and> receiving k w)"

lemma loop_inv_quiet: "loop_inv k w \<Longrightarrow> quiet w w' \<Longrightarrow> loop_inv k w'"
  by (auto simp: loop_inv_def receiving_def quiet_calls_inv) (auto simp: quiet_def quiet_conn_def)

lemma loop_inv_request:
  assumes "loop_inv k w"
  shows "loop_inv k (HandleRequest pb now k frame w)"
proof -
  have inv: "calls_inv w" and r: "receiving k w" using assms by (simp_all add: loop_inv_def)
  note size = calls_invD(1) [OF inv]
  show ?thesis
  proof (cases rule: HandleRequest_cases [OF size, of pb now k frame, case_names reject no_executor admit])
    case (reject rt why)
    then have "quiet w (HandleRequest pb now k frame w)" by (auto intro!: quiets quiet_same)
    then show ?thesis by (rule loop_inv_quiet [OF assms])
  next
    case (no_executor rt)
    then have "quiet w (HandleRequest pb now k frame w)" by (auto intro!: quiets quiet_same)
    then show ?thesis by (rule loop_inv_quiet [OF assms])
  next
    case (admit m)
    have "\<not> sc_released (w_conns w k)"
      using r conn_calls_okD(11) [OF calls_invD(2) [OF inv], of k] by (auto simp: receiving_def)
    then have "calls_inv (HandleRequest pb now k frame w)"
      unfolding admit(5) by (rule admit_calls_inv [OF inv admit(2-4)])
    moreover have "receiving k (HandleRequest pb now k frame w)"
      unfolding admit(5) using r by (simp add: receiving_def AdmitCall_def Let_def world_updates)
    ultimately show ?thesis by (simp add: loop_inv_def)
  qed
qed

lemma loop_inv_parse: "loop_inv k w \<Longrightarrow> loop_inv k (parse_loop pb now k w)"
proof (induction pb now k w rule: parse_loop.induct)
  case (1 pb now k w)
  let ?f = "TryParseRpcFrame (pb_par_meta pb) (sc_recv_buffer (w_conns w k)) (so_max_frame_bytes (w_opts w))"
  let ?w = "upd_conn k (\<lambda>c. c\<lparr>sc_recv_buffer := drop (total_frame_bytes ?f) (sc_recv_buffer c)\<rparr>) w"
  have "quiet w ?w" "quiet w (protocol_error k w)" by (auto simp: quiet_conn_def intro!: quiets quiet_same)
  then have "loop_inv k (HandleRequest pb now k ?f ?w)" "loop_inv k (protocol_error k w)"
    using 1(2) by (blast intro: loop_inv_quiet loop_inv_request)+
  then show ?case by (subst parse_loop.simps) (auto simp: Let_def 1(2) intro!: 1(1))
qed

text \<open>The flags of the receive loop.\<close>

lemma calls_inv_flags:
  assumes "calls_inv w" and f: "\<And>c. sc_inbound_calls (f c) = sc_inbound_calls c" "\<And>c. sc_in_flight_calls (f c) = sc_in_flight_calls c"
    "\<And>c. sc_released (f c) = sc_released c"
    and c: "count_list (w_commands w k) (ServerStart k) \<le> (if sc_start_command_handled (f (w_conns w k)) then 0 else 1)"
      "sc_reading (f (w_conns w k)) \<Longrightarrow> \<not> sc_receiver_exited (f (w_conns w k)) \<and> sc_receiver_started (f (w_conns w k)) \<and>
         sc_start_command_handled (f (w_conns w k))"
      "sc_running (f (w_conns w k)) \<Longrightarrow> sc_running (w_conns w k) \<and> \<not> sc_receiver_exited (f (w_conns w k))"
      "sc_released (w_conns w k) \<Longrightarrow> sc_receiver_exited (f (w_conns w k)) \<and> sc_start_command_handled (f (w_conns w k))"
  shows "calls_inv (upd_conn k f w)"
proof -
  have "conn_calls_ok (upd_conn k f w) j" for j
    using calls_invD(2) [OF assms(1), of j] c unfolding conn_calls_ok_def Let_def by (auto simp: upd_conn_def f)
  moreover have "phase_ok (upd_conn k f w) i = phase_ok w i" for i
    by (simp add: phase_ok_def held_def completions_def upd_conn_def f)
  ultimately show ?thesis using assms(1) by (simp add: calls_inv_def unfinished_def upd_conn_def)
qed

lemma calls_inv_exit: "calls_inv w \<Longrightarrow> calls_inv (ReceiveLoop_exit k w)"
proof -
  assume inv: "calls_inv w"
  let ?w = "upd_conn k (\<lambda>c. c\<lparr>sc_running := False, sc_receiver_exited := True, sc_reading := False\<rparr>) w"
  have "calls_inv ?w"
    using inv conn_calls_okD(8,9,10,11) [OF calls_invD(2) [OF inv], of k] by (intro calls_inv_flags) auto
  moreover have "quiet ?w (ReceiveLoop_exit k w)" by (auto simp: ReceiveLoop_exit_def Let_def intro!: quiets quiet_same)
  ultimately show "calls_inv (ReceiveLoop_exit k w)" by (rule quiet_calls_inv)
qed

lemma calls_inv_head:
  assumes "loop_inv k w"
  shows "calls_inv (ReceiveLoop_head pb now k w)"
proof -
  have p: "loop_inv k (parse_loop pb now k w)" using assms by (rule loop_inv_parse)
  have "calls_inv (upd_conn k (\<lambda>c. c\<lparr>sc_reading := True\<rparr>) (parse_loop pb now k w))" (is "calls_inv (upd_conn k _ ?w)")
    using p conn_calls_okD(8,9,10,11) [OF calls_invD(2), of ?w k] by (intro calls_inv_flags) (auto simp: loop_inv_def receiving_def)
  then show ?thesis
    using assms p by (auto simp: ReceiveLoop_head_def Let_def loop_inv_def intro: calls_inv_exit)
qed

lemma calls_inv_read:
  assumes inv: "calls_inv w" and r: "sc_reading (w_conns w k)"
  shows "calls_inv (ReadResume pb now k n data w)"
proof -
  let ?w = "upd_conn k (\<lambda>c. c\<lparr>sc_reading := False, sc_recv_buffer := sc_recv_buffer c @ data\<rparr>) w"
  note ok = conn_calls_okD(8,9,10,11) [OF calls_invD(2) [OF inv], of k]
  have "calls_inv ?w" using inv ok by (intro calls_inv_flags) auto
  moreover have "receiving k ?w" using ok r by (simp add: receiving_def)
  ultimately have l: "loop_inv k ?w" by (simp add: loop_inv_def)
  have "loop_inv k (ArmIdleTimerOnIoThread k ?w)" "loop_inv k (upd_conn k (RecordCloseReason x) ?w)" for x
    by (rule loop_inv_quiet [OF l], auto intro!: quiets quiet_same)+
  then show ?thesis by (auto simp: ReadResume_def Let_def intro!: calls_inv_head calls_inv_exit) (auto simp: loop_inv_def)
qed

text \<open>Commands: the popped command is accounted for by its handler.\<close>

lemma calls_inv_pop:
  assumes inv: "calls_inv w" and w: "w_commands w k = cmd # rest" and no: "\<And>i. \<not> completes i cmd"
  shows "calls_inv (w\<lparr>w_commands := (w_commands w)(k := rest)\<rparr>)" (is "calls_inv ?w")
proof -
  have f: "filter (completes i) rest = filter (completes i) (w_commands w k)" for i using w no by simp
  have st: "count_list rest (ServerStart k) \<le> count_list (w_commands w k) (ServerStart k)" using w by simp
  have "conn_calls_ok ?w j" for j
  proof (cases "j = k")
    case True
    have "ServerClose k \<in> set rest \<Longrightarrow> ServerClose k \<in> set (w_commands w k)" using w by simp
    then show ?thesis
      using calls_invD(2) [OF inv, of k] order_trans [OF st] unfolding conn_calls_ok_def Let_def by (simp add: True f) blast
  next
    case False
    then show ?thesis using calls_invD(2) [OF inv, of j] unfolding conn_calls_ok_def Let_def by simp
  qed
  moreover have "completions ?w i = completions w i" for i by (simp add: completions_def f)
  then have "phase_ok ?w i = phase_ok w i" for i by (simp add: phase_ok_def held_def)
  ultimately show ?thesis using inv by (simp add: calls_inv_def unfinished_def)
qed

lemma calls_inv_start:
  assumes inv: "calls_inv w" and s: "count_list (w_commands w k) (ServerStart k) = 0" "\<not> sc_start_command_handled (w_conns w k)"
  shows "calls_inv (StartOnIoThread pb now k w)"
proof -
  let ?w = "upd_conn k (\<lambda>c. c\<lparr>sc_start_command_handled := True\<rparr>) w"
  note ok = conn_calls_okD(8,9,10,11) [OF calls_invD(2) [OF inv], of k]
  have i1: "calls_inv ?w" by (rule calls_inv_flags [OF inv]) (use ok s in simp_all)
  have "calls_inv (upd_conn k (\<lambda>c. c\<lparr>sc_receiver_exited := True\<rparr>) ?w)" if "\<not> sc_running (w_conns w k)"
    by (rule calls_inv_flags [OF i1]) (use that ok s in auto)
  then have a: "calls_inv (TryFinishCloseOnIoThread k (upd_conn k (\<lambda>c. c\<lparr>sc_receiver_exited := True\<rparr>) ?w))"
    if "\<not> sc_running (w_conns w k)"
    using that quiet_finish_close [OF quiet_same] by (blast intro: quiet_calls_inv)
  have q: "quiet ?w (ArmIdleTimerOnIoThread k ?w)" by (rule quiet_arm_idle [OF quiet_same])
  then have i2: "calls_inv (ArmIdleTimerOnIoThread k ?w)" by (rule quiet_calls_inv [OF i1])
  let ?v = "ArmIdleTimerOnIoThread k ?w"
  have flags: "sc_start_command_handled (w_conns ?v k)" "sc_receiver_exited (w_conns ?v k) = sc_receiver_exited (w_conns w k)"
    using q by (simp_all add: quiet_def quiet_conn_def)
  have "loop_inv k (upd_conn k (\<lambda>c. c\<lparr>sc_receiver_started := True\<rparr>) ?v)" if "sc_running (w_conns w k)"
  proof -
    note ok' = conn_calls_okD(8,9,10,11) [OF calls_invD(2) [OF i2], of k]
    have "\<not> sc_receiver_exited (w_conns w k)" using ok(3) that by blast
    moreover have "calls_inv (upd_conn k (\<lambda>c. c\<lparr>sc_receiver_started := True\<rparr>) ?v)"
      by (rule calls_inv_flags [OF i2]) (use ok' in simp_all)
    ultimately show ?thesis using flags by (simp add: loop_inv_def receiving_def)
  qed
  then show ?thesis using a by (auto simp: StartOnIoThread_def ReceiveLoop_def Let_def intro!: calls_inv_head)
qed

lemma calls_inv_begin_close:
  assumes inv: "calls_inv w" and r: "\<not> sc_running (w_conns w k)"
  shows "calls_inv (BeginCloseOnIoThread k w)"
proof -
  let ?w = "DiscardQueuedOutboundOnIoThread k (shutdown_socket k (CancelIdleTimer k (upd_conn k (\<lambda>c. c\<lparr>sc_close_command_handled := True\<rparr>) w)))"
  have q: "quiet w ?w" by (rule quiets quiet_same)+ (simp add: quiet_conn_def)
  have i1: "calls_inv ?w" by (rule quiet_calls_inv [OF inv q])
  have r1: "\<not> sc_running (w_conns ?w k)" using q r by (auto simp: quiet_def quiet_conn_def)
  have "calls_inv (upd_conn k (\<lambda>c. c\<lparr>sc_receiver_exited := True\<rparr>) ?w)" if "\<not> sc_receiver_started (w_conns ?w k)"
    by (rule calls_inv_flags [OF i1]) (use that r1 conn_calls_okD(8,9,10,11) [OF calls_invD(2) [OF i1], of k] in auto)
  then have "calls_inv (if \<not> sc_receiver_started (w_conns ?w k) then upd_conn k (\<lambda>c. c\<lparr>sc_receiver_exited := True\<rparr>) ?w else ?w)"
    using i1 by simp
  then show ?thesis
    unfolding BeginCloseOnIoThread_def Let_def by (rule quiet_calls_inv [OF _ quiet_finish_close [OF quiet_same]])
qed

lemma length_removeAll_distinct: "distinct xs \<Longrightarrow> x \<in> set xs \<Longrightarrow> length (removeAll x xs) = length xs - 1"
  by (simp add: distinct_remove1_removeAll [symmetric] length_remove1)

text \<open>A completion leaves the mailbox, and its call leaves the connection.\<close>

lemma calls_inv_retire:
  assumes inv: "calls_inv w" and w: "w_commands w k = ServerCompleteInbound k i p b # rest"
  shows "calls_inv (upd_conn k (\<lambda>c. c\<lparr>sc_inbound_calls := removeAll i (sc_inbound_calls c),
      sc_in_flight_calls := sub64 (sc_in_flight_calls c) 1\<rparr>) (w\<lparr>w_commands := (w_commands w)(k := rest)\<rparr>))"
proof -
  define W where "W = upd_conn k (\<lambda>c. c\<lparr>sc_inbound_calls := removeAll i (sc_inbound_calls c),
      sc_in_flight_calls := sub64 (sc_in_flight_calls c) 1\<rparr>) (w\<lparr>w_commands := (w_commands w)(k := rest)\<rparr>)"
  let ?c = "w_conns w k"
  note conn = conn_calls_okD [OF calls_invD(2) [OF inv]]
  have "filter (completes i) (w_commands w k) \<noteq> []" using w by simp
  then have i: "i < w_next_call w" "ic_connection (w_calls w i) = k" using conn(6,7) by blast+
  have "completions w i > 0" using w i by (simp add: completions_def)
  then have fin: "ic_completion (w_calls w i) = kFinalized" "held w i" "completions w i = 1" "dispatches w i = 0" "finalizes w i = 0"
    using calls_invD(3) [OF inv i(1)] by (auto simp: phase_ok_def phase_fits_def split: CompletionState.splits if_splits)
  then have mem: "i \<in> set (sc_inbound_calls ?c)" and none: "filter (completes i) rest = []"
    using i w by (simp_all add: held_def completions_def)
  have len: "length (removeAll i (sc_inbound_calls ?c)) = sc_in_flight_calls ?c - 1"
    using length_removeAll_distinct [OF conn(1) mem] conn(2) [of k] by simp
  have pos: "1 \<le> sc_in_flight_calls ?c" using mem conn(2) [of k] by (cases "sc_inbound_calls ?c") auto
  have sub: "sub64 (sc_in_flight_calls ?c) 1 = sc_in_flight_calls ?c - 1"
    using pos conn(3) [of k] calls_invD(1) [OF inv] by (intro sub64_exact) (simp_all add: options_sized_def)
  have W: "w_next_call W = w_next_call w" "w_commands W = (w_commands w)(k := rest)" "w_worker W = w_worker w" "w_opts W = w_opts w"
    "w_calls W = w_calls w" "w_rt W = w_rt w" "w_conns W = (w_conns w)(k := ?c\<lparr>sc_inbound_calls := removeAll i (sc_inbound_calls ?c),
      sc_in_flight_calls := sc_in_flight_calls ?c - 1\<rparr>)"
    by (simp_all add: W_def upd_conn_def sub [simplified])
  have other: "filter (completes j) rest = filter (completes j) (w_commands w k)" if "j \<noteq> i" for j using w that by simp
  have st: "count_list (w_commands w k) (ServerStart k) = count_list rest (ServerStart k)" using w by simp
  have "conn_calls_ok W j" for j
  proof (cases "j = k")
    case True
    have "filter (completes j) rest \<noteq> [] \<Longrightarrow> j < w_next_call w \<and> ic_connection (w_calls w j) = k" for j
      using conn(6,7) [of j k] other [of j] none by (cases "j = i") auto
    then show ?thesis
      using True conn(1) [of k] conn(3) [of k] conn(4,5) [of _ k] conn(8,9,10,11) [of k] w st
      unfolding conn_calls_ok_def Let_def W by (auto simp: len distinct_removeAll)
  next
    case False
    then show ?thesis using calls_invD(2) [OF inv, of j] unfolding conn_calls_ok_def Let_def W by simp
  qed
  moreover have "phase_ok W j" if "j < w_next_call w" for j
  proof (cases "j = i")
    case True
    have "\<not> held W i" "completions W i = 0" using i none by (simp_all add: held_def completions_def W)
    then show ?thesis using fin True by (simp add: phase_ok_def phase_fits_def W)
  next
    case False
    then have "held W j = held w j" "completions W j = completions w j" using other by (auto simp: held_def completions_def W)
    then show ?thesis using calls_invD(3) [OF inv that] by (simp add: phase_ok_def W)
  qed
  ultimately have "calls_inv W" using inv by (simp add: calls_inv_def W unfinished_def)
  then show ?thesis by (simp add: W_def)
qed

lemma calls_inv_complete:
  assumes inv: "calls_inv w" and w: "w_commands w k = ServerCompleteInbound k i p b # rest"
  shows "calls_inv (CompleteInboundOnIoThread k i p b (upd_sm g (w\<lparr>w_commands := (w_commands w)(k := rest)\<rparr>)))"
proof -
  let ?f = "\<lambda>c. c\<lparr>sc_inbound_calls := removeAll i (sc_inbound_calls c), sc_in_flight_calls := sub64 (sc_in_flight_calls c) 1\<rparr>"
  let ?w = "upd_conn k ?f (upd_sm g (w\<lparr>w_commands := (w_commands w)(k := rest)\<rparr>))"
  have "?w = upd_sm g (upd_conn k ?f (w\<lparr>w_commands := (w_commands w)(k := rest)\<rparr>))" by (simp add: world_updates)
  then have i1: "calls_inv ?w" using quiet_calls_inv [OF calls_inv_retire [OF inv w] quiet_upd_sm [OF quiet_same]] by simp
  let ?v = "upd_conn k (\<lambda>c. c\<lparr>sc_running := False\<rparr>) (upd_conn k (RecordCloseReason kResourceLimit) (ReleaseFrameReservation k p ?w))"
  have "quiet ?w ?v" by (rule quiets quiet_same)+ (simp_all add: quiet_conn_def RecordCloseReason_def)
  then have "calls_inv (BeginCloseOnIoThread k ?v)" using quiet_calls_inv [OF i1] by (intro calls_inv_begin_close) simp_all
  moreover have "quiet ?w (TryFinishCloseOnIoThread k (ReleaseFrameReservation k p ?w))" by (rule quiets quiet_same)+
  moreover have "quiet ?w (TryFinishCloseOnIoThread k (StartNextWriteOnIoThread k (upd_sm h
      (upd_conn k (\<lambda>c. c\<lparr>sc_outbound := sc_outbound c @ [p]\<rparr>) ?w))))" for h
    by (rule quiets quiet_same)+ (simp add: quiet_conn_def)
  ultimately show ?thesis
    using quiet_calls_inv [OF i1] by (simp add: CompleteInboundOnIoThread_def Let_def)
qed

lemma calls_inv_command:
  assumes inv: "calls_inv w" and w: "w_commands w k = cmd # rest" and k: "command_conn cmd = k"
  shows "calls_inv (DispatchCommand pb now cmd (w\<lparr>w_commands := (w_commands w)(k := rest)\<rparr>))"
proof -
  have sm: "calls_inv (upd_sm g v)" if "calls_inv v" for g and v :: "'a ServerWorld"
    using that quiet_calls_inv quiet_upd_sm [OF quiet_same] by blast
  have pop: "calls_inv (w\<lparr>w_commands := (w_commands w)(k := rest)\<rparr>)" if "\<And>i. \<not> completes i cmd"
    using calls_inv_pop [OF inv w that] .
  note ok = conn_calls_okD(8,10) [OF calls_invD(2) [OF inv], of k]
  show ?thesis
  proof (cases cmd)
    case (ServerStart j)
    then have "count_list rest (ServerStart k) = 0" "\<not> sc_start_command_handled (w_conns w k)"
      using ok(1) w k by (simp_all split: if_splits)
    then show ?thesis using ServerStart k pop by (auto intro!: calls_inv_start sm)
  next
    case (ServerClose j)
    then have "\<not> sc_running (w_conns w k)" using ok(2) w k by auto
    then show ?thesis using ServerClose k pop by (auto intro!: calls_inv_begin_close sm)
  next
    case (ServerCompleteInbound j i p b)
    then show ?thesis using calls_inv_complete [OF inv, of k i p b rest] w k by simp
  qed (use pop in simp_all)
qed

section \<open>Workers\<close>

text \<open>A call changes its place among the workers.\<close>

lemma calls_inv_call:
  assumes inv: "calls_inv w" and i: "i < w_next_call w" and w': "w_calls w' = (w_calls w)(i := c)" "ic_connection c = ic_connection (w_calls w i)"
      "w_conns w' = w_conns w" "w_commands w' = w_commands w" "w_next_call w' = w_next_call w" "w_opts w' = w_opts w"
      "rt_in_flight (w_rt w') = rt_in_flight (w_rt w)"
    and other: "\<And>j. j \<noteq> i \<Longrightarrow> dispatches w' j = dispatches w j" "\<And>j. j \<noteq> i \<Longrightarrow> finalizes w' j = finalizes w j"
    and fits: "phase_fits c (held w i) (dispatches w' i) (finalizes w' i) (completions w i)"
      "ic_completion c = kFinalized \<longleftrightarrow> ic_completion (w_calls w i) = kFinalized"
    and pending: "rt_pending_worker_tasks (w_rt w') = length (filter is_dispatch (w_worker w'))"
      "rt_pending_worker_tasks (w_rt w') \<le> so_max_pending_worker_tasks (w_opts w)"
  shows "calls_inv w'"
proof -
  have conn: "ic_connection (w_calls w' j) = ic_connection (w_calls w j)" for j by (simp add: w'(1,2))
  have "conn_calls_ok w' k = conn_calls_ok w k" for k unfolding conn_calls_ok_def conn w'(3-6) ..
  moreover have "phase_ok w' j" if "j < w_next_call w" for j
    using calls_invD(3) [OF inv that] fits(1) other [of j] by (cases "j = i") (simp_all add: phase_ok_def held_def completions_def w')
  moreover have "unfinished w' = unfinished w" using fits(2) by (auto simp: unfinished_def w')
  moreover have "dispatches w' j = 0 \<and> finalizes w' j = 0" if "w_next_call w \<le> j" for j
    using calls_invD(4,5) [OF inv that] other [of j] i that by (cases "j = i") auto
  ultimately show ?thesis using inv pending by (simp add: calls_inv_def w')
qed

lemma calls_inv_worker:
  assumes "calls_inv w" "\<And>j. count_list ts (DispatchTask j) = dispatches w j" "\<And>j. count_list ts (FinalizeTask j) = finalizes w j"
    "length (filter is_dispatch ts) = length (filter is_dispatch (w_worker w))"
  shows "calls_inv (w\<lparr>w_worker := ts\<rparr>)"
proof -
  have "conn_calls_ok (w\<lparr>w_worker := ts\<rparr>) k = conn_calls_ok w k" for k by (simp add: conn_calls_ok_def)
  moreover have "phase_ok (w\<lparr>w_worker := ts\<rparr>) i = phase_ok w i" for i by (simp add: phase_ok_def held_def completions_def assms)
  ultimately show ?thesis using assms by (simp add: calls_inv_def unfinished_def)
qed

text \<open>Work on a call that keeps its place.\<close>

definition works_on :: "nat \<Rightarrow> 'm ServerWorld \<Rightarrow> 'm ServerWorld \<Rightarrow> bool" where
  "works_on i w w' =
     ((\<forall>j. j \<noteq> i \<longrightarrow> w_calls w' j = w_calls w j) \<and> ic_connection (w_calls w' i) = ic_connection (w_calls w i) \<and>
      ic_completion (w_calls w' i) = ic_completion (w_calls w i) \<and> w_conns w' = w_conns w \<and> w_commands w' = w_commands w \<and>
      w_next_call w' = w_next_call w \<and> w_worker w' = w_worker w \<and> same_counters (w_rt w) (w_rt w'))"

lemma works_on_same: "works_on i w w"
  by (auto simp: works_on_def same_counters_def) (metis ServerRuntime.surjective ServerRuntime.update_convs(7))

lemma works_on_call:
  "works_on i w v \<Longrightarrow> ic_connection (f (w_calls v i)) = ic_connection (w_calls v i) \<Longrightarrow>
   ic_completion (f (w_calls v i)) = ic_completion (w_calls v i) \<Longrightarrow> works_on i w (upd_call i f v)"
  by (simp add: works_on_def upd_call_def)

lemma works_on_sm: "works_on i w v \<Longrightarrow> works_on i w (upd_sm g v)"
  by (auto simp: works_on_def world_updates same_counters_def)

lemma RunInboundCall_form:
  obtains (service) "works_on i w (RunInboundCall pb now i w)" "ic_done (w_calls (RunInboundCall pb now i w) i)"
  | (failed) v f where "works_on i w v" "RunInboundCall pb now i w = ScheduleInboundFinalization i (upd_call i f v)"
      "\<And>c. ic_connection (f c) = ic_connection c" "\<And>c. ic_completion (f c) = kFinalizationScheduled"
proof -
  let ?w = "upd_call i (\<lambda>c. c\<lparr>ic_response_meta := respond_meta (ic_frame c) (ic_response_meta c)\<rparr>) w"
  let ?frame = "ic_frame (w_calls ?w i)"
  let ?lookup = "FindMethod (m_service_name (meta ?frame)) (m_method_name (meta ?frame)) (w_registry ?w)"
  have w: "works_on i w ?w" by (rule works_on_call [OF works_on_same]) simp_all
  let ?fail = "\<lambda>code text c. c\<lparr>ic_response_meta := (ic_response_meta c)\<lparr>m_error_code := code, m_error_text := text\<rparr>,
      ic_completion := kFinalizationScheduled\<rparr>"
  show thesis
  proof (cases "ml_service ?lookup")
    case None
    show thesis
      by (rule failed [OF w, of "?fail RPC_ENOSERVICE (''Service not found: '' @ m_service_name (meta ?frame))"])
         (simp_all add: RunInboundCall_def Let_def None [simplified])
  next
    case svc: (Some svc)
    show thesis
    proof (cases "ml_method ?lookup")
      case None
      show thesis
        by (rule failed [OF w, of "?fail RPC_ENOMETHOD (''Method not found: '' @ m_method_name (meta ?frame))"])
           (simp_all add: RunInboundCall_def Let_def svc [simplified] None [simplified])
    next
      case (Some mtd)
      obtain metrics v where v: "(case FindMethodMetrics mtd (w_rt ?w) of Some h \<Rightarrow> (h, ?w)
           | None \<Rightarrow> (fst (GetOrCreateMethod mtd (rt_metrics (w_rt ?w))), upd_sm (\<lambda>m. snd (GetOrCreateMethod mtd m)) ?w)) = (metrics, v)"
        by fastforce
      then have "works_on i w v" using w works_on_sm by (auto split: option.splits)
      let ?v = "upd_sm (upd_method metrics (\<lambda>mm. mm\<lparr>mm_calls_started := Counter_Add (mm_calls_started mm) 1,
                            mm_active_in_flight := Gauge_Add (mm_active_in_flight mm) 1\<rparr>)) v"
      obtain ok request where r: "(if body_iobuf ?frame \<noteq> [] then pb_parse_request pb (md_handle mtd) (body_iobuf ?frame)
          else (True, pb_new_request pb (md_handle mtd))) = (ok, request)" by fastforce
      let ?u = "upd_call i (\<lambda>c. c\<lparr>ic_service := Some svc, ic_method := Some mtd, ic_method_metrics := Some metrics,
          ic_request := Some request, ic_response := Some (pb_new_response pb (md_handle mtd))\<rparr>) ?v"
      have u: "works_on i w ?u" by (rule works_on_call [OF works_on_sm [OF \<open>works_on i w v\<close>]]) simp_all
      let ?r = "upd_call i (\<lambda>c. c\<lparr>ic_controller := Some (request_controller now ?frame), ic_done := True,
          ic_frame := ?frame\<lparr>meta := (meta ?frame)\<lparr>m_headers := []\<rparr>, attachment_iobuf := []\<rparr>\<rparr>) ?u"
      have R: "RunInboundCall pb now i w = (if ok then ?r else
          ScheduleInboundFinalization i (upd_call i (?fail RPC_EINVALID_DATA ''Failed to parse request protobuf'') ?u))"
        unfolding RunInboundCall_def Let_def by (simp only: svc Some option.case v r prod.case if_not_P if_P split: if_split) simp
      show thesis
      proof (cases ok)
        case True
        show thesis by (rule service) (simp_all add: R True works_on_call [OF u])
      next
        case False
        show thesis by (rule failed [OF u, of "?fail RPC_EINVALID_DATA ''Failed to parse request protobuf''"]) (simp_all add: R False)
      qed
    qed
  qed
qed

lemma count_split [simp]: "count_list (ts @ t # ts') x = count_list (ts @ ts') x + (if t = x then 1 else 0)"
  by simp

lemma task_phase:
  assumes inv: "calls_inv w" and t: "t \<in> set (w_worker w)"
  shows "t = DispatchTask i \<Longrightarrow> i < w_next_call w \<and> ic_completion (w_calls w i) = kPending \<and> \<not> ic_done (w_calls w i) \<and> held w i"
    "t = FinalizeTask i \<Longrightarrow> i < w_next_call w \<and> ic_completion (w_calls w i) = kFinalizationScheduled \<and> held w i"
proof -
  have pos: "0 < count_list (w_worker w) t" using t count_list_0_iff [of "w_worker w" t] by blast
  show "i < w_next_call w \<and> ic_completion (w_calls w i) = kPending \<and> \<not> ic_done (w_calls w i) \<and> held w i" if "t = DispatchTask i"
    using pos that calls_invD(3,4) [OF inv, of i]
    by (cases "i < w_next_call w") (auto simp: phase_ok_def phase_fits_def split: CompletionState.splits if_splits)
  show "i < w_next_call w \<and> ic_completion (w_calls w i) = kFinalizationScheduled \<and> held w i" if "t = FinalizeTask i"
    using pos that calls_invD(3,5) [OF inv, of i]
    by (cases "i < w_next_call w") (auto simp: phase_ok_def phase_fits_def split: CompletionState.splits if_splits)
qed

lemma calls_inv_dispatch:
  assumes inv: "calls_inv w" and t: "w_worker w = ts @ DispatchTask i # ts'"
  shows "calls_inv (ServerDispatchTask_execute pb now i (w\<lparr>w_worker := ts @ ts'\<rparr>))"
proof -
  let ?w0 = "upd_rt ReleaseWorkerTask (w\<lparr>w_worker := ts @ ts'\<rparr>)"
  have i: "i < w_next_call w" "ic_completion (w_calls w i) = kPending" "\<not> ic_done (w_calls w i)" "held w i"
    using task_phase(1) [OF inv, of "DispatchTask i" i] t by simp_all
  have ph: "dispatches w i = 1" "finalizes w i = 0" "completions w i = 0"
    using calls_invD(3) [OF inv i(1)] i by (simp_all add: phase_ok_def phase_fits_def)
  have c0: "count_list (ts @ ts') (DispatchTask i) = 0" "count_list (ts @ ts') (FinalizeTask i) = 0" using ph t by simp_all
  have p: "rt_pending_worker_tasks (w_rt w) = length (filter is_dispatch (ts @ ts')) + 1" using calls_invD(8) [OF inv] t by simp
  have "sub64 (rt_pending_worker_tasks (w_rt w)) 1 = length (filter is_dispatch (ts @ ts'))"
    using p calls_invD(1,9) [OF inv] by (subst sub64_exact) (simp_all add: options_sized_def)
  then have rt: "rt_pending_worker_tasks (w_rt ?w0) = length (filter is_dispatch (ts @ ts'))" "rt_in_flight (w_rt ?w0) = rt_in_flight (w_rt w)"
    "w_opts ?w0 = w_opts w" by (simp_all add: upd_rt_def ReleaseWorkerTask_def upd_rt_metrics_def)
  have w0: "w_calls ?w0 = w_calls w" "w_conns ?w0 = w_conns w" "w_commands ?w0 = w_commands w" "w_next_call ?w0 = w_next_call w"
    "w_worker ?w0 = ts @ ts'" by (simp_all add: upd_rt_def)
  have main: "calls_inv w'" if "works_on i ?w0 v" "w_calls w' = (w_calls v)(i := c)" "w_worker w' = ts @ ts' @ us"
      "w_conns w' = w_conns v" "w_commands w' = w_commands v" "w_next_call w' = w_next_call v" "w_rt w' = w_rt v"
      "ic_connection c = ic_connection (w_calls v i)"
      "us = [] \<and> ic_completion c = kPending \<and> ic_done c \<or> us = [FinalizeTask i] \<and> ic_completion c = kFinalizationScheduled" for v w' c us
  proof (rule calls_inv_call [OF inv i(1), of _ c])
    have v: "w_calls v j = w_calls w j" if "j \<noteq> i" for j using that \<open>works_on i ?w0 v\<close> w0 by (simp add: works_on_def)
    show "w_calls w' = (w_calls w)(i := c)" using that(2) v by (auto simp: fun_eq_iff)
    have cnt: "same_counters (w_rt ?w0) (w_rt w')" using that(1,7) by (simp add: works_on_def)
    show "w_opts w' = w_opts w" "rt_in_flight (w_rt w') = rt_in_flight (w_rt w)"
      using same_countersD(1,3) [OF cnt] rt by simp_all
    have "length (filter is_dispatch us) = 0" using that(9) by auto
    then show "rt_pending_worker_tasks (w_rt w') = length (filter is_dispatch (w_worker w'))"
      using same_countersD(5) [OF cnt] rt that(3) by simp
    show "rt_pending_worker_tasks (w_rt w') \<le> so_max_pending_worker_tasks (w_opts w)"
      using same_countersD(5) [OF cnt] rt(1) p calls_invD(9) [OF inv] by simp
    show "phase_fits c (held w i) (dispatches w' i) (finalizes w' i) (completions w i)"
      using that(3,9) i c0 ph by (auto simp: phase_fits_def)
    show "dispatches w' j = dispatches w j" "finalizes w' j = finalizes w j" if "j \<noteq> i" for j
      using \<open>w_worker w' = ts @ ts' @ us\<close> that t \<open>us = [] \<and> _ \<or> _\<close> by auto
    have "w_conns v = w_conns w" "w_commands v = w_commands w" "w_next_call v = w_next_call w"
      "ic_connection (w_calls v i) = ic_connection (w_calls w i)"
      using \<open>works_on i ?w0 v\<close> w0 by (simp_all add: works_on_def)
    then show "w_conns w' = w_conns w" "w_commands w' = w_commands w" "w_next_call w' = w_next_call w" "ic_connection c = ic_connection (w_calls w i)"
      using that(4,5,6,8) by simp_all
    show "(ic_completion c = kFinalized) = (ic_completion (w_calls w i) = kFinalized)" using that(9) i(2) by auto
  qed
  show ?thesis
    unfolding ServerDispatchTask_execute_def
  proof (cases rule: RunInboundCall_form [of i ?w0 pb now, case_names service failed])
    case service
    show "calls_inv (RunInboundCall pb now i ?w0)"
      by (rule main [OF service(1), where us = "[]" and c = "w_calls (RunInboundCall pb now i ?w0) i"])
         (use service i w0 in \<open>simp_all add: works_on_def\<close>)
  next
    case (failed v f)
    show "calls_inv (RunInboundCall pb now i ?w0)"
      by (rule main [OF failed(1), where us = "[FinalizeTask i]" and c = "f (w_calls v i)"])
         (use failed w0 in \<open>simp_all add: works_on_def ScheduleInboundFinalization_def upd_call_def\<close>)
  qed
qed

lemma calls_inv_done:
  assumes inv: "calls_inv w" and i: "i < w_next_call w" "ic_done (w_calls w i)"
  shows "calls_inv (InboundDoneClosure_Run alive i w)"
proof (cases "alive \<and> ic_completion (w_calls w i) = kPending")
  case True
  have ph: "held w i" "dispatches w i = 0" "finalizes w i = 0" "completions w i = 0"
    using calls_invD(3) [OF inv i(1)] i True by (simp_all add: phase_ok_def phase_fits_def)
  let ?c = "(w_calls w i)\<lparr>ic_completion := kFinalizationScheduled\<rparr>"
  have "calls_inv (ScheduleInboundFinalization i (upd_call i (\<lambda>c. c\<lparr>ic_completion := kFinalizationScheduled\<rparr>) w))"
    by (rule calls_inv_call [OF inv i(1), of _ ?c])
       (use ph True calls_invD(8,9) [OF inv] in \<open>simp_all add: ScheduleInboundFinalization_def upd_call_def phase_fits_def\<close>)
  then show ?thesis using True by (simp add: InboundDoneClosure_Run_def)
qed (use inv in \<open>auto simp: InboundDoneClosure_Run_def\<close>)

lemma calls_inv_service:
  assumes inv: "calls_inv w" and i: "i < w_next_call w"
  shows "calls_inv (upd_call i (\<lambda>c. c\<lparr>ic_controller := x, ic_response := y\<rparr>) w)"
proof (rule calls_inv_call [OF inv i])
  let ?w = "upd_call i (\<lambda>c. c\<lparr>ic_controller := x, ic_response := y\<rparr>) w"
  show "phase_fits ((w_calls w i)\<lparr>ic_controller := x, ic_response := y\<rparr>) (held w i) (dispatches ?w i) (finalizes ?w i) (completions w i)"
    using calls_invD(3) [OF inv i] by (subst phase_fits_cong [of _ "w_calls w i"]) (simp_all add: upd_call_def phase_ok_def)
qed (use calls_invD(8,9) [OF inv] in \<open>simp_all add: upd_call_def\<close>)

text \<open>Finalization moves a call from the workers to the mailbox of its connection.\<close>

lemma calls_inv_deliver:
  assumes inv: "calls_inv w" and t: "w_worker w = ts @ FinalizeTask i # ts'" and c: "ic_connection c = ic_connection (w_calls w i)"
      "ic_completion c = kFinalized" and k: "k = ic_connection (w_calls w i)" and cmd: "cmd = ServerCompleteInbound k i resp b"
    and W: "w_worker W = ts @ ts'" "w_calls W = (w_calls w)(i := c)" "w_commands W = (w_commands w)(k := w_commands w k @ [cmd])"
      "w_conns W = w_conns w" "w_next_call W = w_next_call w" "w_opts W = w_opts w" "rt_in_flight (w_rt W) = rt_in_flight (w_rt w) - 1"
      "rt_pending_worker_tasks (w_rt W) = rt_pending_worker_tasks (w_rt w)"
  shows "calls_inv W"
proof -
  have i: "i < w_next_call w" "ic_completion (w_calls w i) = kFinalizationScheduled" "held w i"
    using task_phase(2) [OF inv, of "FinalizeTask i" i] t by simp_all
  have ph: "dispatches w i = 0" "finalizes w i = 1" "completions w i = 0"
    using calls_invD(3) [OF inv i(1)] i by (simp_all add: phase_ok_def phase_fits_def)
  have conn: "ic_connection (w_calls W j) = ic_connection (w_calls w j)" for j by (simp add: c W)
  have comp: "filter (completes x) (w_commands W j) = filter (completes x) (w_commands w j) @ (if j = k \<and> x = i then [cmd] else [])" for x j
    by (simp add: W cmd)
  have "conn_calls_ok W j" for j
  proof -
    have "filter (completes x) (w_commands W j) \<noteq> [] \<Longrightarrow> x < w_next_call w \<and> ic_connection (w_calls w x) = j" for x
      using conn_calls_okD(6,7) [OF calls_invD(2) [OF inv], of x j] i(1) k comp [of x j] by (auto split: if_splits)
    moreover have "count_list (w_commands W j) (ServerStart j) = count_list (w_commands w j) (ServerStart j)"
      "ServerClose j \<in> set (w_commands W j) \<longleftrightarrow> ServerClose j \<in> set (w_commands w j)" by (simp_all add: W cmd)
    ultimately show ?thesis using calls_invD(2) [OF inv, of j] unfolding conn_calls_ok_def Let_def conn W(4,5,6) by simp
  qed
  moreover have "phase_ok W j" if "j < w_next_call w" for j
  proof (cases "j = i")
    case True
    have "completions W i = 1" "held W i" using ph(3) i(3) k by (simp_all add: completions_def held_def conn comp W(4))
    then show ?thesis using ph t c True by (simp add: phase_ok_def phase_fits_def W)
  next
    case False
    then have "completions W j = completions w j" "held W j = held w j" by (simp_all add: completions_def held_def conn comp W(4))
    then show ?thesis using calls_invD(3) [OF inv that] False t by (simp add: phase_ok_def W)
  qed
  moreover have "unfinished W = unfinished w - {i}" using c by (auto simp: unfinished_def W)
  moreover have "i \<in> unfinished w" using i by (simp add: unfinished_def)
  moreover have "dispatches W j = 0 \<and> finalizes W j = 0" if "w_next_call w \<le> j" for j
    using calls_invD(4,5) [OF inv that] t by (simp add: W split: if_splits)
  moreover have "length (filter is_dispatch (w_worker W)) = length (filter is_dispatch (w_worker w))" using t by (simp add: W)
  ultimately show ?thesis
    using calls_invD(1,6,7,8,9) [OF inv] unfolding calls_inv_def W(5-8) by auto
qed

lemma calls_inv_finalize:
  assumes inv: "calls_inv w" and t: "w_worker w = ts @ FinalizeTask i # ts'"
  shows "calls_inv (FinalizeInboundCall pb now (\<not> sc_released (w_conns w (ic_connection (w_calls w i)))) i (w\<lparr>w_worker := ts @ ts'\<rparr>))"
proof -
  let ?k = "ic_connection (w_calls w i)" and ?w0 = "w\<lparr>w_worker := ts @ ts'\<rparr>"
  have i: "i < w_next_call w" "ic_completion (w_calls w i) = kFinalizationScheduled" "held w i"
    using task_phase(2) [OF inv, of "FinalizeTask i" i] t by simp_all
  have alive: "\<not> sc_released (w_conns w ?k)"
    using conn_calls_okD(11) [OF calls_invD(2) [OF inv], of ?k] i(3) by (auto simp: held_def)
  obtain m v g resp cl where
    f: "FinalizeInboundCall pb now True i ?w0 = upd_rt ReleaseInFlight
      (if True then CompleteInbound (ic_connection (w_calls ?w0 i)) i resp cl (upd_call i (\<lambda>c. c\<lparr>ic_completion := kFinalized\<rparr>) (upd_sm g v))
       else upd_call i (\<lambda>c. c\<lparr>ic_completion := kFinalized\<rparr>) (upd_sm g v))"
    and v: "v = upd_call i (\<lambda>c. c\<lparr>ic_response_meta := m\<rparr>) ?w0 \<and> (True \<longrightarrow> resp = []) \<or>
      True \<and> TryReserveOutboundBytes (ic_connection (w_calls ?w0 i)) (length resp) (upd_call i (\<lambda>c. c\<lparr>ic_response_meta := m\<rparr>) ?w0) = (True, v)"
    by (rule FinalizeInboundCall_form)
  let ?c = "(w_calls w i)\<lparr>ic_response_meta := m, ic_completion := kFinalized\<rparr>"
  have "quiet (upd_call i (\<lambda>c. c\<lparr>ic_response_meta := m\<rparr>) ?w0) v" using v quiet_reserve [OF quiet_same] quiet_same by blast
  then have q: "w_calls v = (w_calls w)(i := (w_calls w i)\<lparr>ic_response_meta := m\<rparr>)" "w_worker v = ts @ ts'" "w_next_call v = w_next_call w"
    "w_opts v = w_opts w" "rt_in_flight (w_rt v) = rt_in_flight (w_rt w)" "rt_pending_worker_tasks (w_rt v) = rt_pending_worker_tasks (w_rt w)"
    "\<And>j. quiet_conn (w_conns w j) (w_conns v j)" by (simp_all add: quiet_def upd_call_def)
  have cmds: "w_commands v = w_commands w" using v by (auto simp: TryReserveOutboundBytes_def Let_def upd_call_def upd_sm_def upd_rt_def split: if_splits)
  have pos: "1 \<le> rt_in_flight (w_rt w)"
    using calls_invD(6) [OF inv] i card_gt_0_iff [of "unfinished w"] by (auto simp: unfinished_def Suc_le_eq)
  have sub: "sub64 (rt_in_flight (w_rt w)) 1 = rt_in_flight (w_rt w) - 1"
    using pos calls_invD(1,7) [OF inv] by (intro sub64_exact) (simp_all add: options_sized_def)
  let ?W = "FinalizeInboundCall pb now True i ?w0" and ?cmd = "ServerCompleteInbound ?k i resp cl"
  have W: "w_worker ?W = ts @ ts'" "w_calls ?W = (w_calls w)(i := ?c)" "w_commands ?W = (w_commands w)(?k := w_commands w ?k @ [?cmd])"
      "w_conns ?W = w_conns v" "w_next_call ?W = w_next_call w" "w_opts ?W = w_opts w" "rt_in_flight (w_rt ?W) = rt_in_flight (w_rt w) - 1"
      "rt_pending_worker_tasks (w_rt ?W) = rt_pending_worker_tasks (w_rt w)"
    unfolding f by (simp_all add: CompleteInbound_def post_def Let_def world_updates ReleaseInFlight_def q cmds sub [simplified])
  have "calls_inv (?W\<lparr>w_conns := w_conns w\<rparr>)"
    by (rule calls_inv_deliver [OF inv t, where c = ?c and cmd = ?cmd]) (simp_all add: W)
  moreover have "quiet (?W\<lparr>w_conns := w_conns w\<rparr>) ?W" using q(7) by (simp add: quiet_def W)
  ultimately have "calls_inv ?W" by (rule quiet_calls_inv)
  then show ?thesis using alive by simp
qed

section \<open>Every step\<close>

lemma calls_inv_close: "calls_inv w \<Longrightarrow> calls_inv (RequestClose k r w)"
  by (rule quiet_calls_inv [OF _ quiet_request_close [OF quiet_same]])

lemma quiet_close_all: "quiet v w \<Longrightarrow> quiet v (fold (\<lambda>k. RequestClose k kServerStop) ks w)"
  by (induction ks arbitrary: w) (simp_all add: quiet_request_close)

lemma calls_inv_force_close: "calls_inv w \<Longrightarrow> calls_inv (ForceCloseLiveConnections w)"
  unfolding ForceCloseLiveConnections_def by (rule quiet_calls_inv [OF _ quiet_close_all [OF quiet_same]])

lemma calls_inv_timer: "calls_inv w \<Longrightarrow> calls_inv (run_timer_action a w)"
  by (cases a) (simp_all add: calls_inv_close calls_inv_force_close)

lemma calls_inv_stop: "calls_inv w \<Longrightarrow> calls_inv (BeginGracefulStop w)"
proof -
  assume inv: "calls_inv w"
  have rt: "calls_inv (upd_rt f v)" if "calls_inv v" "rt_options (f (w_rt v)) = w_opts v" "rt_in_flight (f (w_rt v)) = rt_in_flight (w_rt v)"
    "rt_pending_worker_tasks (f (w_rt v)) = rt_pending_worker_tasks (w_rt v)" for f and v :: "'a ServerWorld"
    using that quiet_calls_inv quiet_upd_rt [OF quiet_same] by blast
  have q: "calls_inv (CancelTimerOf t v)" "calls_inv (v\<lparr>w_timers := ts, w_next_timer := n\<rparr>)" if "calls_inv v" for t ts n and v :: "'a ServerWorld"
    using that quiet_calls_inv quiet_cancel_timer [OF quiet_same] quiet_timers(1) [OF quiet_same] by blast+
  show ?thesis
    using inv by (auto simp: BeginGracefulStop_def AddTimerTo_def Let_def intro!: calls_inv_force_close q rt)
qed

lemma calls_inv_accept:
  assumes inv: "calls_inv w" and l: "located w"
  shows "calls_inv (AcceptConnection fd w)"
proof -
  obtain ok rt where r: "TryAcquireConnection (w_rt w) = (ok, rt)" by fastforce
  have o: "rt_options rt = w_opts w" "rt_in_flight rt = rt_in_flight (w_rt w)" "rt_pending_worker_tasks rt = rt_pending_worker_tasks (w_rt w)"
    using r by (auto simp: TryAcquireConnection_def upd_rt_metrics_def split: if_splits)
  let ?k = "w_next_conn w"
  have e: "w_commands w ?k = []" using locatedD(3) [OF l, of _ ?k] by (metis last_in_set less_irrefl)
  have old: "w_conns w ?k = new_ServerConnection (- 1)" using locatedD(9) [OF l] by simp
  define V where "V = Start_connection ?k (upd_conn ?k (\<lambda>_. new_ServerConnection fd) (w\<lparr>w_rt := rt, w_next_conn := ?k + 1\<rparr>))"
  have W: "w_calls V = w_calls w" "w_next_call V = w_next_call w" "w_worker V = w_worker w" "w_opts V = w_opts w"
    "rt_in_flight (w_rt V) = rt_in_flight (w_rt w)" "rt_pending_worker_tasks (w_rt V) = rt_pending_worker_tasks (w_rt w)"
    "w_conns V = (w_conns w)(?k := new_ServerConnection fd)" "w_commands V = (w_commands w)(?k := [ServerStart ?k])"
    by (simp_all add: V_def Start_connection_def post_def Let_def world_updates o e)
  have "conn_calls_ok V j" for j
    using calls_invD(2) [OF inv, of j] unfolding conn_calls_ok_def Let_def W by (cases "j = ?k") (simp_all add: new_ServerConnection_def)
  moreover have "phase_ok V i" if "i < w_next_call w" for i
  proof -
    have "ic_connection (w_calls w i) \<noteq> ?k" using locatedD(8) [OF l that] by simp
    then show ?thesis using calls_invD(3) [OF inv that] by (simp add: phase_ok_def held_def completions_def W)
  qed
  ultimately have "calls_inv V" using inv by (simp add: calls_inv_def W unfinished_def)
  moreover have "quiet V (TrackConnection ?k V)" by (auto simp: TrackConnection_def Let_def intro!: quiets quiet_same)
  ultimately have "calls_inv (TrackConnection ?k V)" by (rule quiet_calls_inv)
  moreover have "quiet w (w\<lparr>w_rt := rt, w_sockets := s\<rparr>)" for s by (simp add: quiet_def o)
  then have "calls_inv (w\<lparr>w_rt := rt, w_sockets := s\<rparr>)" for s by (rule quiet_calls_inv [OF inv])
  ultimately show ?thesis by (cases ok) (simp_all add: AcceptConnection_def r Let_def V_def)
qed

lemma calls_inv_step:
  assumes "calls_inv w" "located w" "server_step pb w w'"
  shows "calls_inv w'"
  using assms(3)
proof cases
  case (step_command k cmd rest now)
  then show ?thesis using calls_inv_command [OF assms(1), of k cmd rest] locatedD(2) [OF assms(2), of cmd k] by simp
next
  case (step_write k f written)
  show ?thesis unfolding step_write(1) by (rule quiet_calls_inv [OF assms(1) quiet_write_resume [OF quiet_same]])
next
  case (step_timer ts a ts')
  have "calls_inv (w\<lparr>w_worker := ts @ ts'\<rparr>)" by (rule calls_inv_worker [OF assms(1)]) (simp_all add: step_timer(2))
  then show ?thesis unfolding step_timer(1) by (rule calls_inv_timer)
next
  case (step_expire t a)
  have "calls_inv (w\<lparr>w_worker := w_worker w @ [TimerTask a]\<rparr>)" by (rule calls_inv_worker [OF assms(1)]) simp_all
  then show ?thesis unfolding step_expire(1) by (rule quiet_calls_inv) (rule quiet_cancel_timer [OF quiet_same])
qed (use assms(1,2) in \<open>simp_all add: calls_inv_accept calls_inv_read calls_inv_dispatch calls_inv_finalize calls_inv_service
    calls_inv_done calls_inv_close calls_inv_stop\<close>)

lemma server_reach_calls: "server_reach pb w \<Longrightarrow> calls_inv w"
proof (induction rule: server_reach.induct)
  case (server_init opt mm m registry executor calls)
  then show ?case
    by (simp add: calls_inv_def conn_calls_ok_def unfinished_def new_ServerWorld_def new_ServerRuntime_def upd_rt_def new_ServerConnection_def)
next
  case (server_next w w')
  then show ?case using calls_inv_step server_reach_located by blast
qed

end
