(* ===== verification/Server_Release.thy ===== *)
theory Server_Release
  imports Server_Isolation
begin

text \<open>
  Connections are counted exactly: a connection is in the list of live connections and in the
  counter of the runtime from its admission until it is released, and it is released once.
\<close>

section \<open>Releases\<close>

definition kept :: "nat \<Rightarrow> 'm ServerWorld \<Rightarrow> 'm ServerWorld \<Rightarrow> bool" where
  "kept k w w' =
     (sc_released (w_conns w' k) = sc_released (w_conns w k) \<and> rt_connections (w_rt w') = rt_connections (w_rt w) \<and>
      rt_active_connections (w_rt w') = rt_active_connections (w_rt w))"

definition dropped :: "nat \<Rightarrow> 'm ServerWorld \<Rightarrow> 'm ServerWorld \<Rightarrow> bool" where
  "dropped k w w' =
     (\<not> sc_released (w_conns w k) \<and> sc_released (w_conns w' k) \<and> rt_connections (w_rt w') = removeAll k (rt_connections (w_rt w)) \<and>
      rt_active_connections (w_rt w') = sub64 (rt_active_connections (w_rt w)) 1)"

definition releases :: "nat \<Rightarrow> 'm ServerWorld \<Rightarrow> 'm ServerWorld \<Rightarrow> bool" where
  "releases k w w' =
     (w_next_conn w' = w_next_conn w \<and> w_opts w' = w_opts w \<and> (\<forall>j. j \<noteq> k \<longrightarrow> sc_released (w_conns w' j) = sc_released (w_conns w j)) \<and>
      (kept k w w' \<or> dropped k w w'))"

named_theorems releasing

lemma releases_same: "releases k w w"
  by (simp add: releases_def kept_def)

lemma releases_trans: "releases k u v \<Longrightarrow> releases k v w \<Longrightarrow> releases k u w"
  unfolding releases_def kept_def dropped_def by auto

lemma releases_upd_conn [releasing]:
  "releases k v w \<Longrightarrow> sc_released (f (w_conns w k)) = sc_released (w_conns w k) \<Longrightarrow> releases k v (upd_conn k f w)"
  by (erule releases_trans) (simp add: releases_def kept_def)

lemma releases_upd_sm [releasing]: "releases k v w \<Longrightarrow> releases k v (upd_sm f w)"
  by (erule releases_trans) (simp add: releases_def kept_def world_updates)

lemma releases_upd_rt [releasing]:
  "releases k v w \<Longrightarrow> rt_options (f (w_rt w)) = w_opts w \<Longrightarrow> rt_connections (f (w_rt w)) = rt_connections (w_rt w) \<Longrightarrow>
   rt_active_connections (f (w_rt w)) = rt_active_connections (w_rt w) \<Longrightarrow> releases k v (upd_rt f w)"
  by (erule releases_trans) (simp add: releases_def kept_def upd_rt_def)

lemma releases_rt [releasing]: "releases k v w \<Longrightarrow> same_counters (w_rt w) rt \<Longrightarrow> releases k v (w\<lparr>w_rt := rt\<rparr>)"
  by (erule releases_trans) (auto simp: releases_def kept_def same_counters_def)

lemma releases_fields [releasing]:
  "releases k v w \<Longrightarrow> releases k v (w\<lparr>w_sockets := s\<rparr>)" "releases k v w \<Longrightarrow> releases k v (w\<lparr>w_timers := t, w_next_timer := n\<rparr>)"
  "releases k v w \<Longrightarrow> releases k v (w\<lparr>w_timers := t\<rparr>)" "releases k v w \<Longrightarrow> releases k v (w\<lparr>w_commands := c\<rparr>)"
  by (erule releases_trans, simp add: releases_def kept_def)+

lemma releases_post [releasing]: "releases k v w \<Longrightarrow> releases k v (post j cmd w)"
  by (auto simp: post_def Let_def intro!: releasing)

lemma releases_shutdown [releasing]: "releases k v w \<Longrightarrow> releases k v (shutdown_socket k w)"
  by (auto simp: shutdown_socket_def Let_def intro!: releasing)

lemma releases_cancel_timer [releasing]: "releases k v w \<Longrightarrow> releases k v (CancelTimerOf t w)"
  by (auto simp: CancelTimerOf_def intro!: releasing)

lemma released_reason [simp]: "sc_released (RecordCloseReason r c) = sc_released c"
  by (simp add: RecordCloseReason_def)

lemma releases_request_close [releasing]: "releases k v w \<Longrightarrow> releases k v (RequestClose k r w)"
  by (auto simp: RequestClose_def RequestClose_exchange_def RequestClose_post_def Let_def split: bool.split intro!: releasing)

lemma releases_cancel_idle [releasing]: "releases k v w \<Longrightarrow> releases k v (CancelIdleTimer k w)"
  by (auto simp: CancelIdleTimer_def Let_def intro!: releasing)

lemma releases_arm_idle [releasing]: "releases k v w \<Longrightarrow> releases k v (ArmIdleTimerOnIoThread k w)"
  by (auto simp: ArmIdleTimerOnIoThread_def AddTimerTo_def Let_def intro!: releasing)

lemma releases_release:
  "releases k v w \<Longrightarrow> \<not> sc_released (w_conns w k) \<Longrightarrow> releases k v (ReleaseConnection k (upd_conn k (\<lambda>c. c\<lparr>sc_released := True\<rparr>) w))"
  by (erule releases_trans) (simp add: releases_def dropped_def ReleaseConnection_def release_connection_counters_def Let_def
     CancelGracefulStopTimer_def CancelTimerOf_def world_updates)

lemma releases_finish_close [releasing]: "releases k v w \<Longrightarrow> releases k v (TryFinishCloseOnIoThread k w)"
  by (auto simp: TryFinishCloseOnIoThread_def Let_def intro!: releasing releases_release)

lemma releases_bytes [releasing]: "releases k v w \<Longrightarrow> releases k v (ReleaseOutboundBytes k n w)"
  by (auto simp: ReleaseOutboundBytes_def intro!: releasing)

lemma releases_frame [releasing]: "releases k v w \<Longrightarrow> releases k v (ReleaseFrameReservation k f w)"
  by (auto simp: ReleaseFrameReservation_def intro!: releasing)

lemma releases_reserve: "releases k v w \<Longrightarrow> TryReserveOutboundBytes k n w = (ok, w') \<Longrightarrow> releases k v w'"
  by (auto simp: TryReserveOutboundBytes_def Let_def split: if_splits intro!: releasing)

lemma releases_discard [releasing]: "releases k v w \<Longrightarrow> releases k v (discard_frames k fs w)"
proof (induction fs arbitrary: w)
  case (Cons f fs)
  from Cons.prems show ?case by (auto intro!: Cons.IH releasing)
qed simp

lemma releases_discard_queued [releasing]: "releases k v w \<Longrightarrow> releases k v (DiscardQueuedOutboundOnIoThread k w)"
  by (auto simp: DiscardQueuedOutboundOnIoThread_def intro!: releasing)

lemma releases_begin_close [releasing]: "releases k v w \<Longrightarrow> releases k v (BeginCloseOnIoThread k w)"
  by (auto simp: BeginCloseOnIoThread_def Let_def intro!: releasing)

lemma releases_start_write [releasing]: "releases k v w \<Longrightarrow> releases k v (StartNextWriteOnIoThread k w)"
proof (induction k w rule: StartNextWriteOnIoThread.induct)
  case (1 k w)
  show ?case
    using 1(2) by (subst StartNextWriteOnIoThread.simps)
      (auto simp: Let_def split: list.split prod.split intro!: 1(1) releasing)
qed

lemma releases_write_resume [releasing]: "releases k v w \<Longrightarrow> releases k v (WriteResume k n w)"
  by (auto simp: WriteResume_def WriteFrame_end_def Let_def split: option.split intro!: releasing)

lemma releases_enqueue [releasing]: "releases k v w \<Longrightarrow> releases k v (EnqueueResponseOnIoThread k r w)"
  by (auto simp: EnqueueResponseOnIoThread_def Let_def split: prod.split bool.split intro!: releasing dest: releases_reserve)

lemma releases_reject [releasing]: "releases k v w \<Longrightarrow> releases k v (reject_overload pb k f t w)"
  by (auto simp: reject_overload_def SendErrorResponseOnIoThread_def split: prod.split bool.split intro!: releasing)

lemma releases_admit [releasing]: "releases k v w \<Longrightarrow> releases k v (AdmitCall now k f w)"
  by (erule releases_trans) (simp add: releases_def kept_def AdmitCall_def Let_def world_updates)

lemma releases_counters [releasing]:
  "releases k v w \<Longrightarrow> releases k v (w\<lparr>w_rt := (w_rt w)\<lparr>rt_in_flight := a, rt_pending_worker_tasks := b, rt_metrics := m\<rparr>\<rparr>)"
  by (erule releases_trans) (simp add: releases_def kept_def)

lemma releases_handle_request [releasing]:
  assumes "releases k v w" "options_sized (w_opts w)"
  shows "releases k v (HandleRequest pb now k frame w)"
  using assms(2) by (cases rule: HandleRequest_cases [where pb = pb and now = now and k = k and frame = frame])
    (auto intro!: releasing assms(1))

lemma releases_protocol_error [releasing]: "releases k v w \<Longrightarrow> releases k v (protocol_error k w)"
  by (auto simp: protocol_error_def Let_def intro!: releasing)

lemma releases_opts: "releases k v w \<Longrightarrow> w_opts w = w_opts v"
  by (simp add: releases_def)

lemma releases_parse_loop [releasing]:
  "releases k v w \<Longrightarrow> options_sized (w_opts v) \<Longrightarrow> releases k v (parse_loop pb now k w)"
proof (induction pb now k w rule: parse_loop.induct)
  case (1 pb now k w)
  from 1(2,3) show ?case
    by (subst parse_loop.simps) (auto simp: Let_def releases_opts [OF 1(2)] intro!: 1(1) releasing)
qed

lemma releases_receive_exit [releasing]: "releases k v w \<Longrightarrow> releases k v (ReceiveLoop_exit k w)"
  by (auto simp: ReceiveLoop_exit_def Let_def intro!: releasing)

lemma releases_receive_head [releasing]: "releases k v w \<Longrightarrow> options_sized (w_opts v) \<Longrightarrow> releases k v (ReceiveLoop_head pb now k w)"
  by (auto simp: ReceiveLoop_head_def Let_def intro!: releasing)

lemma releases_read_resume [releasing]: "releases k v w \<Longrightarrow> options_sized (w_opts v) \<Longrightarrow> releases k v (ReadResume pb now k n d w)"
  by (auto simp: ReadResume_def Let_def intro!: releasing)

lemma releases_command:
  assumes "releases k v w" "options_sized (w_opts v)" "command_conn cmd = k"
  shows "releases k v (DispatchCommand pb now cmd w)"
  using assms by (cases cmd)
    (auto simp: StartOnIoThread_def ReceiveLoop_def CompleteInboundOnIoThread_def Let_def intro!: releasing)

section \<open>The count of live connections\<close>

definition live :: "'m ServerWorld \<Rightarrow> nat set" where
  "live w = {k. k < w_next_conn w \<and> \<not> sc_released (w_conns w k)}"

definition live_inv :: "'m ServerWorld \<Rightarrow> bool" where
  "live_inv w =
     (distinct (rt_connections (w_rt w)) \<and> set (rt_connections (w_rt w)) = live w \<and>
      rt_active_connections (w_rt w) = length (rt_connections (w_rt w)) \<and>
      rt_active_connections (w_rt w) \<le> so_max_connections (w_opts w) \<and> options_sized (w_opts w))"

lemma live_inv_releases:
  assumes inv: "live_inv w" and r: "releases k w w'" and k: "k < w_next_conn w"
  shows "live_inv w'"
proof (cases "kept k w w'")
  case True
  have "sc_released (w_conns w' j) = sc_released (w_conns w j)" for j
    using r True by (cases "j = k") (simp_all add: releases_def kept_def)
  then have "live w' = live w" using r by (simp add: live_def releases_def)
  then show ?thesis using inv r True by (simp add: live_inv_def releases_def kept_def)
next
  case False
  then have d: "\<not> sc_released (w_conns w k)" "sc_released (w_conns w' k)" "rt_connections (w_rt w') = removeAll k (rt_connections (w_rt w))"
    "rt_active_connections (w_rt w') = sub64 (rt_active_connections (w_rt w)) 1"
    and o: "w_next_conn w' = w_next_conn w" "w_opts w' = w_opts w" "\<And>j. j \<noteq> k \<Longrightarrow> sc_released (w_conns w' j) = sc_released (w_conns w j)"
    using r by (auto simp: releases_def dropped_def)
  have mem: "k \<in> set (rt_connections (w_rt w))" using inv d(1) k by (simp add: live_inv_def live_def)
  have dist: "distinct (rt_connections (w_rt w))" using inv by (simp add: live_inv_def)
  have len: "length (removeAll k (rt_connections (w_rt w))) = length (rt_connections (w_rt w)) - 1"
    using dist mem by (simp add: distinct_remove1_removeAll [symmetric] length_remove1)
  have "1 \<le> rt_active_connections (w_rt w)" using inv mem by (cases "rt_connections (w_rt w)") (auto simp: live_inv_def)
  then have "rt_active_connections (w_rt w') = rt_active_connections (w_rt w) - 1"
    unfolding d(4) using inv by (intro sub64_exact) (auto simp: live_inv_def options_sized_def)
  moreover have "live w' = live w - {k}"
    using d(1,2) o by (auto simp: live_def) (metis)+
  ultimately show ?thesis using inv dist by (auto simp: live_inv_def d(3) o len distinct_removeAll)
qed

lemma live_inv_frame:
  "live_inv w \<Longrightarrow> w_conns w' = w_conns w \<Longrightarrow> w_next_conn w' = w_next_conn w \<Longrightarrow> w_opts w' = w_opts w \<Longrightarrow>
   rt_connections (w_rt w') = rt_connections (w_rt w) \<Longrightarrow> rt_active_connections (w_rt w') = rt_active_connections (w_rt w) \<Longrightarrow> live_inv w'"
  by (simp add: live_inv_def live_def)

lemma live_inv_close: "live_inv w \<Longrightarrow> k < w_next_conn w \<Longrightarrow> live_inv (RequestClose k r w)"
  by (rule live_inv_releases [OF _ releases_request_close [OF releases_same]])

lemma live_inv_force_close:
  assumes "live_inv w"
  shows "live_inv (ForceCloseLiveConnections w)"
proof -
  have "live_inv (fold (\<lambda>k. RequestClose k kServerStop) ks v)" if "live_inv v" "\<forall>k \<in> set ks. k < w_next_conn v" for ks and v :: "'a ServerWorld"
    using that
  proof (induction ks arbitrary: v)
    case (Cons k ks)
    from Cons.prems show ?case by (auto intro!: Cons.IH live_inv_close)
  qed simp
  moreover have "\<forall>k \<in> set (rt_connections (w_rt w)). k < w_next_conn w" using assms by (simp add: live_inv_def live_def)
  ultimately show ?thesis using assms by (simp add: ForceCloseLiveConnections_def)
qed

lemma live_inv_stop: "live_inv w \<Longrightarrow> live_inv (BeginGracefulStop w)"
proof -
  assume inv: "live_inv w"
  have f: "live_inv (upd_rt f v)" if "live_inv v" "rt_options (f (w_rt v)) = w_opts v" "rt_connections (f (w_rt v)) = rt_connections (w_rt v)"
    "rt_active_connections (f (w_rt v)) = rt_active_connections (w_rt v)" for f and v :: "'a ServerWorld"
    using that(1) by (rule live_inv_frame) (simp_all add: upd_rt_def that)
  have t: "live_inv (CancelTimerOf t v)" "live_inv (v\<lparr>w_timers := ts, w_next_timer := n\<rparr>)" if "live_inv v" for t ts n and v :: "'a ServerWorld"
    using that by (rule live_inv_frame, simp_all add: CancelTimerOf_def)+
  show ?thesis using inv by (auto simp: BeginGracefulStop_def AddTimerTo_def Let_def intro!: live_inv_force_close f t)
qed

lemma live_inv_accept:
  assumes inv: "live_inv w"
  shows "live_inv (AcceptConnection fd w)"
proof -
  obtain ok rt where r: "TryAcquireConnection (w_rt w) = (ok, rt)" by fastforce
  let ?k = "w_next_conn w"
  define V where "V = TrackConnection ?k (Start_connection ?k (upd_conn ?k (\<lambda>_. new_ServerConnection fd) (w\<lparr>w_rt := rt, w_next_conn := ?k + 1\<rparr>)))"
  define U where "U = upd_rt (\<lambda>rt. rt\<lparr>rt_connections := rt_connections rt @ [?k]\<rparr>)
    (Start_connection ?k (upd_conn ?k (\<lambda>_. new_ServerConnection fd) (w\<lparr>w_rt := rt, w_next_conn := ?k + 1\<rparr>)))"
  have V: "V = U \<or> V = RequestClose ?k kServerStop U" by (simp add: V_def U_def TrackConnection_def Let_def)
  show ?thesis
  proof (cases ok)
    case True
    have acc: "rt_active_connections (w_rt w) < so_max_connections (w_opts w)" using r True by (auto simp: TryAcquireConnection_def split: if_splits)
    then have rt: "rt_active_connections rt = rt_active_connections (w_rt w) + 1" "rt_connections rt = rt_connections (w_rt w)" "rt_options rt = w_opts w"
      using r True inv add64_exact [of "rt_active_connections (w_rt w)" 1]
      by (auto simp: TryAcquireConnection_def upd_rt_metrics_def live_inv_def options_sized_def split: if_splits)
    have U: "w_next_conn U = ?k + 1" "w_conns U = (w_conns w)(?k := new_ServerConnection fd)" "rt_connections (w_rt U) = rt_connections (w_rt w) @ [?k]"
      "rt_active_connections (w_rt U) = rt_active_connections (w_rt w) + 1" "w_opts U = w_opts w"
      by (simp_all add: U_def Start_connection_def post_def Let_def world_updates rt)
    have "live U = insert ?k (live w)" by (auto simp: live_def U new_ServerConnection_def less_Suc_eq)
    moreover have "?k \<notin> live w" by (simp add: live_def)
    ultimately have "live_inv U" using inv acc by (simp add: live_inv_def U)
    then have "live_inv V" using V live_inv_close [of U ?k] U(1) by auto
    then show ?thesis using True by (simp add: AcceptConnection_def r Let_def V_def)
  next
    case False
    then have "rt_active_connections rt = rt_active_connections (w_rt w)" "rt_connections rt = rt_connections (w_rt w)" "rt_options rt = w_opts w"
      using r by (auto simp: TryAcquireConnection_def upd_rt_metrics_def split: if_splits)
    then show ?thesis using False inv by (auto simp: AcceptConnection_def r Let_def intro: live_inv_frame)
  qed
qed

lemma releases_upd_call [releasing]: "releases k v w \<Longrightarrow> releases k v (upd_call i f w)"
  by (erule releases_trans) (simp add: releases_def kept_def upd_call_def)

lemma releases_worker [releasing]: "releases k v w \<Longrightarrow> releases k v (w\<lparr>w_worker := ts\<rparr>)"
  by (erule releases_trans) (simp add: releases_def kept_def)

lemma releases_run: "releases k v w \<Longrightarrow> releases k v (RunInboundCall pb now i w)"
  by (auto simp: RunInboundCall_def ScheduleInboundFinalization_def Let_def split: option.split prod.split intro!: releasing)

lemma releases_dispatch: "releases k v w \<Longrightarrow> releases k v (ServerDispatchTask_execute pb now i w)"
  unfolding ServerDispatchTask_execute_def
  by (intro releases_run releases_upd_rt) (simp_all add: ReleaseWorkerTask_def upd_rt_metrics_def)

lemma releases_finalize:
  assumes "releases (ic_connection (w_calls w i)) v w"
  shows "releases (ic_connection (w_calls w i)) v (FinalizeInboundCall pb now alive i w)"
proof -
  let ?k = "ic_connection (w_calls w i)"
  obtain m u g resp cl where
    f: "FinalizeInboundCall pb now alive i w = upd_rt ReleaseInFlight
      (if alive then CompleteInbound ?k i resp cl
           (upd_call i (\<lambda>c. c\<lparr>ic_completion := kFinalized\<rparr>) (upd_sm g u))
       else upd_call i (\<lambda>c. c\<lparr>ic_completion := kFinalized\<rparr>) (upd_sm g u))"
    and u: "u = upd_call i (\<lambda>c. c\<lparr>ic_response_meta := m\<rparr>) w \<and> (alive \<longrightarrow> resp = []) \<or>
      alive \<and> TryReserveOutboundBytes ?k (length resp) (upd_call i (\<lambda>c. c\<lparr>ic_response_meta := m\<rparr>) w) = (True, u)"
    by (rule FinalizeInboundCall_form)
  have "releases ?k v (upd_call i (\<lambda>c. c\<lparr>ic_response_meta := m\<rparr>) w)" using assms by (rule releases_upd_call)
  then have "releases ?k v u" using u releases_reserve by blast
  then show ?thesis
    unfolding f by (intro releases_upd_rt) (auto simp: CompleteInbound_def ReleaseInFlight_def upd_rt_metrics_def intro!: releasing)
qed

lemma live_inv_step:
  assumes inv: "live_inv w" and l: "located w" and step: "server_step pb w w'"
  shows "live_inv w'"
  using step
proof cases
  case (step_command k cmd rest now)
  have "command_conn cmd = k" "k < w_next_conn w" using locatedD(2,3) [OF l, of cmd k] step_command(2) by auto
  moreover have "releases k w (w\<lparr>w_commands := (w_commands w)(k := rest)\<rparr>)" by (intro releasing releases_same)
  ultimately show ?thesis
    unfolding step_command(1) using locatedD(1) [OF l] by (intro live_inv_releases [OF inv releases_command]) simp_all
next
  case (step_read k bytes data now)
  then show ?thesis using live_inv_releases [OF inv releases_read_resume [OF releases_same]] reading_exists [OF l] locatedD(1) [OF l] by simp
next
  case (step_write k f written)
  then show ?thesis using live_inv_releases [OF inv releases_write_resume [OF releases_same]] writing_exists [OF l] by simp
next
  case (step_dispatch ts i ts' now)
  have i: "ic_connection (w_calls w i) < w_next_conn w" using locatedD(6,8) [OF l, of i] step_dispatch(2) by simp
  show ?thesis unfolding step_dispatch(1) by (rule live_inv_releases [OF inv releases_dispatch [OF releases_worker [OF releases_same]] i])
next
  case (step_finalize ts i ts' now)
  have i: "ic_connection (w_calls w i) < w_next_conn w" using locatedD(7,8) [OF l, of i] step_finalize(2) by simp
  have "releases (ic_connection (w_calls (w\<lparr>w_worker := ts @ ts'\<rparr>) i)) w (w\<lparr>w_worker := ts @ ts'\<rparr>)"
    by (rule releases_worker [OF releases_same])
  then show ?thesis
    unfolding step_finalize(1) by (rule live_inv_releases [OF inv releases_finalize]) (use i in simp)
next
  case (step_timer ts a ts')
  have "live_inv (w\<lparr>w_worker := ts @ ts'\<rparr>)" using inv by (rule live_inv_frame) simp_all
  moreover have "k < w_next_conn w" if "a = IdleExpired k g" for k g using locatedD(4) [OF l, of k g] step_timer(2) that by simp
  ultimately show ?thesis
    unfolding step_timer(1) by (cases a) (simp_all add: live_inv_close live_inv_force_close)
qed (use inv in \<open>auto simp: InboundDoneClosure_Run_def ScheduleInboundFinalization_def upd_call_def CancelTimerOf_def
    intro: live_inv_accept live_inv_close live_inv_stop elim: live_inv_frame\<close>)

lemma server_reach_live: "server_reach pb w \<Longrightarrow> live_inv w"
proof (induction rule: server_reach.induct)
  case (server_init opt mm m registry executor calls)
  then show ?case by (simp add: live_inv_def live_def new_ServerWorld_def new_ServerRuntime_def upd_rt_def)
next
  case (server_next w w')
  then show ?case using live_inv_step server_reach_located by blast
qed

end
