(* ===== verification/Server_Sample.thy ===== *)
theory Server_Sample
  imports Server_Isolation
begin

text \<open>
  A concrete run of a server with one connection, used to instantiate its properties: a request
  arrives for an unknown service.  With \<open>brief_codec\<close> it is answered by an error response; with
  \<open>mute_codec\<close> no answer can be serialised and the connection is closed.
  \<open>scene\<close> is a state of that run; metrics and socket calls are left open.
\<close>

definition sample_request_meta :: RpcMeta where
  "sample_request_meta = empty_meta\<lparr>m_msg_type := RPC_REQUEST, m_correlation_id := 7\<rparr>"

definition codec :: "(RpcMeta \<Rightarrow> bytes option) \<Rightarrow> unit Protobuf" where
  "codec ser = \<lparr>pb_ser_meta = ser, pb_par_meta = (\<lambda>_. Some sample_request_meta), pb_ser_msg = (\<lambda>_. None),
     pb_parse_request = (\<lambda>_ _. (True, ())), pb_new_request = (\<lambda>_. ()), pb_new_response = (\<lambda>_. ())\<rparr>"

definition request_bytes :: bytes where
  "request_bytes = [0x41, 0x4E, 0x54, 0x52, 0, 0, 0, 0, 0, 0, 0, 1, 1, 0, 0, 0, 8]"

definition request_frame :: FrameParseResult where
  "request_frame = \<lparr>status = SUCCESS, total_frame_bytes = 17,
     header = \<lparr>magic = kMagic, body_len = 0, meta_len = 1, flags = 0x01000000\<rparr>,
     meta = sample_request_meta, body_iobuf = [], attachment_iobuf = []\<rparr>"

definition sample_call :: "unit InboundCallState" where
  "sample_call = new_InboundCallState 0 request_frame kDefaultMaxRpcFrameBytes 0"

definition scene ::
  "ServerConnection \<Rightarrow> IoCommand list \<Rightarrow> worker_task list \<Rightarrow> nat \<Rightarrow> unit InboundCallState \<Rightarrow> nat \<Rightarrow> nat \<Rightarrow> nat list \<Rightarrow> nat \<Rightarrow>
   ServerMetrics \<Rightarrow> socket_op list \<Rightarrow> unit ServerWorld" where
  "scene conn cmds tasks calls call in_flight pending conns conn_count m socks =
     \<lparr>w_rt = \<lparr>rt_options = default_RpcServerOptions, rt_accepting = True, rt_active_connections = length conns,
        rt_in_flight = in_flight, rt_pending_worker_tasks = pending, rt_graceful_stop_timer_id = 0, rt_metrics = m,
        rt_method_metrics = [], rt_connections = conns\<rparr>,
      w_registry = [], w_executor = True, w_conns = (\<lambda>_. new_ServerConnection (- 1))(0 := conn),
      w_calls = (\<lambda>_. sample_call)(0 := call), w_next_call = calls, w_commands = (\<lambda>_. [])(0 := cmds), w_worker = tasks,
      w_timers = [], w_next_timer = 1, w_sockets = socks, w_next_conn = conn_count\<rparr>"

abbreviation mute_codec :: "unit Protobuf" where
  "mute_codec \<equiv> codec (\<lambda>_. None)"

abbreviation brief_codec :: "unit Protobuf" where
  "brief_codec \<equiv> codec (\<lambda>_. Some [8])"

lemma parse_request:
  "TryParseRpcFrame (\<lambda>_. Some sample_request_meta) request_bytes kDefaultMaxRpcFrameBytes = request_frame"
  "TryParseRpcFrame (\<lambda>_. Some sample_request_meta) [] kDefaultMaxRpcFrameBytes = parse_result NEED_MORE_DATA 0 default_header"
  "length request_bytes = 17"
  by (simp_all add: TryParseRpcFrame_def request_bytes_def default_RpcServerOptions_def sample_request_meta_def
     empty_meta_def LoadUint32BE_def kMagic_def WireVersion_def WireFeatures_def kRpcWireVersion_def kKnownWireFeatures_def
     kRpcHeaderBytes_def kDefaultMaxRpcFrameBytes_def SIZE_MAX_def kWireVersionShift_def kWireFeatureMask_def Let_def request_frame_def)

declare One_nat_def [simp del]

lemmas scene_eval = scene_def world_updates Let_def default_RpcServerOptions_def post_def fun_upd_twist

lemma scene_init: "new_ServerWorld default_RpcServerOptions [] True (\<lambda>_. sample_call) =
    scene (new_ServerConnection (- 1)) [] [] 0 sample_call 0 0 [] 0 new_ServerMetrics []"
  by (simp add: scene_def new_ServerWorld_def new_ServerRuntime_def fun_eq_iff)

lemma scene_accept: "\<exists>m'. AcceptConnection 5 (scene c [] ts n call i p [] 0 m s) =
    scene (new_ServerConnection 5) [ServerStart 0] ts n call i p [0] 1 m' s"
  by (simp add: AcceptConnection_def TryAcquireConnection_def Start_connection_def TrackConnection_def add64_def scene_eval)

definition conn_reading :: ServerConnection where
  "conn_reading = (new_ServerConnection 5)\<lparr>sc_start_command_handled := True, sc_receiver_started := True, sc_reading := True\<rparr>"

definition conn_serving :: ServerConnection where
  "conn_serving = conn_reading\<lparr>sc_inbound_calls := [0], sc_in_flight_calls := 1\<rparr>"

definition conn_closing :: ServerConnection where
  "conn_closing = conn_serving\<lparr>sc_close_reason := kServerStop, sc_running := False, sc_close_command_posted := True\<rparr>"

definition conn_exited :: ServerConnection where
  "conn_exited = conn_closing\<lparr>sc_receiver_exited := True, sc_reading := False\<rparr>"

definition conn_released :: ServerConnection where
  "conn_released = conn_exited\<lparr>sc_inbound_calls := [], sc_in_flight_calls := 0, sc_close_command_handled := True,
     sc_fd := - 1, sc_released := True\<rparr>"

lemmas conn_defs = conn_released_def conn_exited_def conn_closing_def conn_serving_def conn_reading_def new_ServerConnection_def

definition call_failed :: "unit InboundCallState" where
  "call_failed = sample_call\<lparr>ic_response_meta := empty_meta\<lparr>m_msg_type := RPC_RESPONSE, m_correlation_id := 7,
       m_error_code := RPC_ENOSERVICE, m_error_text := ''Service not found: ''\<rparr>, ic_completion := kFinalizationScheduled\<rparr>"

lemma parse_loop_stop:
  "status (TryParseRpcFrame (pb_par_meta pb) (sc_recv_buffer (w_conns w k)) (so_max_frame_bytes (w_opts w))) = NEED_MORE_DATA \<Longrightarrow>
   parse_loop pb now k w = w"
  by (subst parse_loop.simps) (simp add: Let_def)

lemma parse_loop_request:
  "TryParseRpcFrame (pb_par_meta pb) (sc_recv_buffer (w_conns w k)) (so_max_frame_bytes (w_opts w)) = frame \<Longrightarrow>
   status frame = SUCCESS \<Longrightarrow> m_msg_type (meta frame) = RPC_REQUEST \<Longrightarrow>
   parse_loop pb now k w = parse_loop pb now k (HandleRequest pb now k frame
     (upd_conn k (\<lambda>c. c\<lparr>sc_recv_buffer := drop (total_frame_bytes frame) (sc_recv_buffer c)\<rparr>) w))"
  by (subst parse_loop.simps) (simp add: Let_def)

lemma scene_sel [simp]:
  "w_conns (scene c cs ts n call i p ks kn m s) 0 = c" "w_opts (scene c cs ts n call i p ks kn m s) = default_RpcServerOptions"
  "w_commands (scene c cs ts n call i p ks kn m s) 0 = cs" "w_worker (scene c cs ts n call i p ks kn m s) = ts"
  "w_calls (scene c cs ts n call i p ks kn m s) 0 = call"
  by (simp_all add: scene_def)

lemma scene_upd_conn [simp]: "upd_conn 0 f (scene c cs ts n call i p ks kn m s) = scene (f c) cs ts n call i p ks kn m s"
  by (simp add: scene_def upd_conn_def)

lemma scene_upd_call [simp]: "upd_call 0 f (scene c cs ts n call i p ks kn m s) = scene c cs ts n (f call) i p ks kn m s"
  by (simp add: scene_def upd_call_def)

lemma scene_post: "\<exists>m'. post 0 cmd (scene c cs ts n call i p ks kn m s) = scene c (cs @ [cmd]) ts n call i p ks kn m' s"
  by (simp add: scene_def world_updates post_def Let_def)

lemma scene_upd_sm: "\<exists>m'. upd_sm f (scene c cs ts n call i p ks kn m s) = scene c cs ts n call i p ks kn m' s"
  by (simp add: scene_def world_updates)

lemma scene_parse_empty: "sc_recv_buffer c = [] \<Longrightarrow>
    parse_loop (codec ser) now 0 (scene c cs ts n call i p ks kn m s) = scene c cs ts n call i p ks kn m s"
  by (rule parse_loop_stop) (simp add: codec_def default_RpcServerOptions_def parse_request parse_result_def)

lemma scene_start:
  "\<exists>m'. DispatchCommand (codec ser) 0 (ServerStart 0) (scene (new_ServerConnection 5) [] ts n call i p [0] 1 m s) =
    scene conn_reading [] ts n call i p [0] 1 m' s"
proof -
  obtain m' where m': "upd_sm (\<lambda>m. m\<lparr>sm_io_command_backlog := Gauge_Add (sm_io_command_backlog m) (- 1)\<rparr>)
      (scene (new_ServerConnection 5) [] ts n call i p [0] 1 m s) = scene (new_ServerConnection 5) [] ts n call i p [0] 1 m' s"
    using scene_upd_sm by blast
  show ?thesis
    unfolding DispatchCommand.simps m'
    by (rule exI [of _ m']) (simp add: StartOnIoThread_def ReceiveLoop_def ReceiveLoop_head_def ArmIdleTimerOnIoThread_def Let_def
      default_RpcServerOptions_def scene_parse_empty conn_defs)
qed

lemma scene_admit:
  assumes "sc_in_flight_calls c = 0"
  shows "\<exists>m'. HandleRequest (codec ser) 0 0 request_frame (scene c [] [] 0 call 0 0 [0] 1 m s) =
    scene (c\<lparr>sc_inbound_calls := sc_inbound_calls c @ [0], sc_in_flight_calls := 1\<rparr>) [] [DispatchTask 0] 1 sample_call 1 1 [0] 1 m' s"
  using assms by (simp add: scene_eval HandleRequest_def IsAccepting_def TryAcquireInFlight_def
      TryAcquireWorkerTask_def add64_def AdmitCall_def kDefaultMaxRpcFrameBytes_def sample_call_def)

lemma scene_request:
  "\<exists>m'. ReadResume (codec ser) 0 0 17 request_bytes (scene conn_reading [] [] 0 call 0 0 [0] 1 m s) =
    scene conn_serving [] [DispatchTask 0] 1 sample_call 1 1 [0] 1 m' s"
proof -
  let ?c = "conn_reading\<lparr>sc_reading := False, sc_recv_buffer := request_bytes\<rparr>"
  let ?c' = "conn_reading\<lparr>sc_reading := False, sc_recv_buffer := []\<rparr>"
  let ?c'' = "?c'\<lparr>sc_inbound_calls := [0], sc_in_flight_calls := 1\<rparr>"
  obtain m' where m': "HandleRequest (codec ser) 0 0 request_frame (scene ?c' [] [] 0 call 0 0 [0] 1 m s) =
    scene ?c'' [] [DispatchTask 0] 1 sample_call 1 1 [0] 1 m' s"
    using scene_admit [of ?c' ser call m s] by (auto simp: conn_defs)
  have f: "status request_frame = SUCCESS" "m_msg_type (meta request_frame) = RPC_REQUEST" "total_frame_bytes request_frame = 17"
    by (simp_all add: request_frame_def sample_request_meta_def)
  have "parse_loop (codec ser) 0 0 (scene ?c [] [] 0 call 0 0 [0] 1 m s) =
      parse_loop (codec ser) 0 0 (HandleRequest (codec ser) 0 0 request_frame (scene ?c' [] [] 0 call 0 0 [0] 1 m s))"
    using parse_loop_request [of "codec ser" "scene ?c [] [] 0 call 0 0 [0] 1 m s" 0 request_frame 0]
    by (simp add: f parse_request codec_def default_RpcServerOptions_def)
  then have "parse_loop (codec ser) 0 0 (scene ?c [] [] 0 call 0 0 [0] 1 m s) =
      scene ?c'' [] [DispatchTask 0] 1 sample_call 1 1 [0] 1 m' s"
    by (simp add: m' scene_parse_empty)
  then show ?thesis
    by (intro exI [of _ m']) (simp add: ReadResume_def ReceiveLoop_head_def ArmIdleTimerOnIoThread_def Let_def default_RpcServerOptions_def
      conn_defs)
qed

lemma scene_dispatch:
  "\<exists>m'. ServerDispatchTask_execute (codec ser) 0 0 (scene c cs [] 1 sample_call 1 1 [0] 1 m s) =
    scene c cs [FinalizeTask 0] 1 call_failed 1 0 [0] 1 m' s"
  by (simp add: scene_eval ServerDispatchTask_execute_def ReleaseWorkerTask_def sub64_def RunInboundCall_def FindMethod_def
     FindService_def ScheduleInboundFinalization_def call_failed_def sample_call_def new_InboundCallState_def respond_meta_def request_frame_def
     sample_request_meta_def empty_meta_def)

lemma pack_mute: "pack_response mute_codec call_failed = (False, ic_response_meta call_failed, [])"
  by (simp add: pack_response_def codec_def PackRpcFrame_def PackSerializedFrame_def call_failed_def sample_call_def
     new_InboundCallState_def empty_meta_def)

lemma scene_finalize:
  "\<exists>m'. FinalizeInboundCall mute_codec 0 True 0 (scene c [] [] 1 call_failed 1 0 [0] 1 m s) =
    scene c [ServerCompleteInbound 0 0 [] True] [] 1 (call_failed\<lparr>ic_completion := kFinalized\<rparr>) 0 0 [0] 1 m' s"
proof -
  have k: "ic_connection call_failed = 0" by (simp add: call_failed_def sample_call_def new_InboundCallState_def)
  have same: "call_failed\<lparr>ic_response_meta := ic_response_meta call_failed\<rparr> = call_failed" by simp
  let ?g = "record_completion (ns_to_us (0 - ic_received_at call_failed)) True (ic_method_metrics call_failed)"
  obtain m1 where m1: "upd_sm ?g (scene c [] [] 1 call_failed 1 0 [0] 1 m s) = scene c [] [] 1 call_failed 1 0 [0] 1 m1 s"
    using scene_upd_sm by blast
  obtain m2 where m2: "post 0 (ServerCompleteInbound 0 0 [] True) (scene c [] [] 1 (call_failed\<lparr>ic_completion := kFinalized\<rparr>) 1 0 [0] 1 m1 s) =
    scene c [ServerCompleteInbound 0 0 [] True] [] 1 (call_failed\<lparr>ic_completion := kFinalized\<rparr>) 1 0 [0] 1 m2 s"
    using scene_post [of _ c "[]"] by force
  have "FinalizeInboundCall mute_codec 0 True 0 (scene c [] [] 1 call_failed 1 0 [0] 1 m s) =
    upd_rt ReleaseInFlight (scene c [ServerCompleteInbound 0 0 [] True] [] 1 (call_failed\<lparr>ic_completion := kFinalized\<rparr>) 1 0 [0] 1 m2 s)"
    by (simp only: FinalizeInboundCall_def Let_def scene_sel pack_mute k prod.case simp_thms if_False if_True scene_upd_call same
        CompleteInbound_def m1 m2)
  also have "\<exists>m'. \<dots> = scene c [ServerCompleteInbound 0 0 [] True] [] 1 (call_failed\<lparr>ic_completion := kFinalized\<rparr>) 0 0 [0] 1 m' s"
    by (simp add: scene_def upd_rt_def ReleaseInFlight_def upd_rt_metrics_def sub64_def)
  finally show ?thesis .
qed

lemma scene_close:
  "\<exists>m'. RequestClose 0 kServerStop (scene conn_serving cs ts n call i p ks kn m s) =
    scene conn_closing (cs @ [ServerClose 0]) ts n call i p ks kn m' s"
  by (simp add: RequestClose_def RequestClose_exchange_def RequestClose_post_def RecordCloseReason_def Let_def)
     (simp add: conn_defs scene_eval RequestClose_post_def)

lemma scene_eof:
  "ReadResume mute_codec 0 0 0 [] (scene conn_closing cs ts n call i p ks kn m s) =
    scene conn_exited cs ts n call i p ks kn m s"
  by (simp add: ReadResume_def Let_def RecordCloseReason_def ReceiveLoop_exit_def DiscardQueuedOutboundOnIoThread_def
    TryFinishCloseOnIoThread_def conn_defs)

lemma scene_sockets [simp]:
  "w_sockets_update f (scene c cs ts n call i p ks kn m s) = scene c cs ts n call i p ks kn m (f s)"
  "w_sockets (scene c cs ts n call i p ks kn m s) = s"
  by (simp_all add: scene_def)

lemma scene_release:
  "\<exists>m'. ReleaseConnection 0 (scene c cs ts n call i p [0] kn m s) = scene c cs ts n call i p [] kn m' s"
proof -
  have "\<exists>m'. upd_rt (release_connection_counters 0 r) (scene c cs ts n call i p [0] kn m s) = scene c cs ts n call i p [] kn m' s" for r
    by (simp add: scene_def upd_rt_def release_connection_counters_def upd_rt_metrics_def sub64_def Let_def)
  then obtain m' where m': "upd_rt (release_connection_counters 0 (sc_close_reason c)) (scene c cs ts n call i p [0] kn m s) =
      scene c cs ts n call i p [] kn m' s" by blast
  have "CancelGracefulStopTimer (scene c cs ts n call i p [] kn m' s) = scene c cs ts n call i p [] kn m' s"
    by (simp add: CancelGracefulStopTimer_def scene_def upd_rt_def Let_def)
  then show ?thesis by (simp add: ReleaseConnection_def m' Let_def) blast
qed

lemma scene_complete:
  "\<exists>m' s'. DispatchCommand mute_codec 0 (ServerCompleteInbound 0 0 [] True) (scene conn_exited cs [] 1 call 0 0 [0] 1 m s) =
    scene conn_released cs [] 1 call 0 0 [] 1 m' s'"
proof -
  obtain m1 where m1: "upd_sm (\<lambda>m. m\<lparr>sm_io_command_backlog := Gauge_Add (sm_io_command_backlog m) (- 1)\<rparr>)
      (scene conn_exited cs [] 1 call 0 0 [0] 1 m s) = scene conn_exited cs [] 1 call 0 0 [0] 1 m1 s"
    using scene_upd_sm by blast
  let ?s = "s @ [ShutdownSocket 0 5, CloseSocket 0 5]"
  obtain m2 where m2: "ReleaseConnection 0 (scene conn_released cs [] 1 call 0 0 [0] 1 m1 ?s) =
      scene conn_released cs [] 1 call 0 0 [] 1 m2 ?s"
    using scene_release by blast
  have "DispatchCommand mute_codec 0 (ServerCompleteInbound 0 0 [] True) (scene conn_exited cs [] 1 call 0 0 [0] 1 m s) =
      scene conn_released cs [] 1 call 0 0 [] 1 m2 ?s"
    unfolding DispatchCommand.simps m1
    using m2 by (simp add: CompleteInboundOnIoThread_def Let_def ReleaseFrameReservation_def ReleaseOutboundBytes_def RecordCloseReason_def
     BeginCloseOnIoThread_def DiscardQueuedOutboundOnIoThread_def CancelIdleTimer_def shutdown_socket_def TryFinishCloseOnIoThread_def
     conn_defs sub64_def)
  then show ?thesis by blast
qed

section \<open>The run\<close>

lemma run_reading: "\<exists>m s. server_reach (codec ser) (scene conn_reading [] [] 0 sample_call 0 0 [0] 1 m s)"
proof -
  let ?w = "scene (new_ServerConnection (- 1)) [] [] 0 sample_call 0 0 [] 0 new_ServerMetrics []"
  have "options_sized default_RpcServerOptions"
    by (simp add: options_sized_def default_RpcServerOptions_def SIZE_MAX_def kDefaultMaxRpcFrameBytes_def)
  then have "server_reach (codec ser) ?w" 
    using server_init [of default_RpcServerOptions, where m = new_ServerMetrics and mm = "[]" and registry = "[]" and
      executor = True and calls = "\<lambda>_. sample_call"]
    unfolding scene_init [symmetric] by (simp add: upd_rt_def new_ServerWorld_def new_ServerRuntime_def)
  then have "server_reach (codec ser) (AcceptConnection 5 ?w)" by (rule server_next) (rule step_accept)
  then obtain m where r: "server_reach (codec ser) (scene (new_ServerConnection 5) [ServerStart 0] [] 0 sample_call 0 0 [0] 1 m [])"
    using scene_accept by metis
  have "server_step (codec ser) (scene (new_ServerConnection 5) [ServerStart 0] [] 0 sample_call 0 0 [0] 1 m [])
    (DispatchCommand (codec ser) 0 (ServerStart 0) (scene (new_ServerConnection 5) [] [] 0 sample_call 0 0 [0] 1 m []))"
    using step_command [of "scene (new_ServerConnection 5) [ServerStart 0] [] 0 sample_call 0 0 [0] 1 m []" 0 "ServerStart 0" "[]" "codec ser" 0]
    by (simp add: scene_def)
  from server_next [OF r this] show ?thesis using scene_start by metis
qed

lemma run_serving: "\<exists>m s. server_reach (codec ser) (scene conn_serving [] [DispatchTask 0] 1 sample_call 1 1 [0] 1 m s)"
proof -
  obtain m s where r: "server_reach (codec ser) (scene conn_reading [] [] 0 sample_call 0 0 [0] 1 m s)" using run_reading by blast
  have "server_step (codec ser) (scene conn_reading [] [] 0 sample_call 0 0 [0] 1 m s)
    (ReadResume (codec ser) 0 0 17 request_bytes (scene conn_reading [] [] 0 sample_call 0 0 [0] 1 m s))"
    by (rule step_read) (simp_all add: conn_defs parse_request(3))
  from server_next [OF r this] show ?thesis using scene_request by metis
qed

lemma run_failed: "\<exists>m s. server_reach (codec ser) (scene conn_serving [] [FinalizeTask 0] 1 call_failed 1 0 [0] 1 m s)"
proof -
  obtain m s where r: "server_reach (codec ser) (scene conn_serving [] [DispatchTask 0] 1 sample_call 1 1 [0] 1 m s)"
    using run_serving by blast
  have "server_step (codec ser) (scene conn_serving [] [DispatchTask 0] 1 sample_call 1 1 [0] 1 m s)
    (ServerDispatchTask_execute (codec ser) 0 0 (scene conn_serving [] [] 1 sample_call 1 1 [0] 1 m s))"
    using step_dispatch [of "scene conn_serving [] [DispatchTask 0] 1 sample_call 1 1 [0] 1 m s" "[]" 0 "[]" "codec ser" 0]
    by (simp add: scene_def)
  from server_next [OF r this] show ?thesis using scene_dispatch by metis
qed

lemma run_completed: "\<exists>m s. server_reach mute_codec
    (scene conn_serving [ServerCompleteInbound 0 0 [] True] [] 1 (call_failed\<lparr>ic_completion := kFinalized\<rparr>) 0 0 [0] 1 m s)"
proof -
  obtain m s where r: "server_reach mute_codec (scene conn_serving [] [FinalizeTask 0] 1 call_failed 1 0 [0] 1 m s)"
    using run_failed by blast
  have k: "ic_connection call_failed = 0" "sc_released conn_serving = False"
    by (simp_all add: call_failed_def sample_call_def new_InboundCallState_def conn_defs)
  have "server_step mute_codec (scene conn_serving [] [FinalizeTask 0] 1 call_failed 1 0 [0] 1 m s)
    (FinalizeInboundCall mute_codec 0 True 0 (scene conn_serving [] [] 1 call_failed 1 0 [0] 1 m s))"
    using step_finalize [of "scene conn_serving [] [FinalizeTask 0] 1 call_failed 1 0 [0] 1 m s" "[]" 0 "[]" "mute_codec" 0]
    by (simp add: k) (simp add: scene_def)
  from server_next [OF r this] show ?thesis using scene_finalize by metis
qed

lemma run_released: "\<exists>m s. server_reach mute_codec
    (scene conn_released [ServerClose 0] [] 1 (call_failed\<lparr>ic_completion := kFinalized\<rparr>) 0 0 [] 1 m s)"
proof -
  let ?call = "call_failed\<lparr>ic_completion := kFinalized\<rparr>" and ?c = "ServerCompleteInbound 0 0 [] True"
  obtain m s where r: "server_reach mute_codec (scene conn_serving [?c] [] 1 ?call 0 0 [0] 1 m s)"
    using run_completed by blast
  have "server_step mute_codec (scene conn_serving [?c] [] 1 ?call 0 0 [0] 1 m s)
    (RequestClose 0 kServerStop (scene conn_serving [?c] [] 1 ?call 0 0 [0] 1 m s))"
    by (rule step_close) (simp add: scene_def)
  from server_next [OF r this] obtain m where r: "server_reach mute_codec (scene conn_closing [?c, ServerClose 0] [] 1 ?call 0 0 [0] 1 m s)"
    using scene_close [of "[?c]", unfolded append.simps] by metis
  have "server_step mute_codec (scene conn_closing [?c, ServerClose 0] [] 1 ?call 0 0 [0] 1 m s)
    (ReadResume mute_codec 0 0 0 [] (scene conn_closing [?c, ServerClose 0] [] 1 ?call 0 0 [0] 1 m s))"
    by (rule step_read) (simp_all add: conn_defs)
  from server_next [OF r this] have r: "server_reach mute_codec (scene conn_exited [?c, ServerClose 0] [] 1 ?call 0 0 [0] 1 m s)"
    by (simp add: scene_eof)
  have "server_step mute_codec (scene conn_exited [?c, ServerClose 0] [] 1 ?call 0 0 [0] 1 m s)
    (DispatchCommand mute_codec 0 ?c (scene conn_exited [ServerClose 0] [] 1 ?call 0 0 [0] 1 m s))"
    using step_command [of "scene conn_exited [?c, ServerClose 0] [] 1 ?call 0 0 [0] 1 m s" 0 ?c "[ServerClose 0]" "mute_codec" 0]
    by (simp add: scene_def)
  from server_next [OF r this] show ?thesis using scene_complete by metis
qed

section \<open>The answered request\<close>

definition conn_writing :: ServerConnection where
  "conn_writing = conn_reading\<lparr>sc_reserved_outbound_bytes := 17, sc_writing := True, sc_write_frame := Some request_bytes\<rparr>"

lemma header_bytes:
  "StoreUint32BE (StoreUint32BE (StoreUint32BE (StoreUint32BE (replicate 16 0) 0 1095652434) 4 0) 8 1) 12 16777216 =
   [65, 78, 84, 82, 0, 0, 0, 0, 0, 0, 0, 1, 1, 0, 0, 0]"
  by code_simp

lemma pack_brief: "pack_response brief_codec call_failed = (True, ic_response_meta call_failed, request_bytes)"
  by (simp add: pack_response_def codec_def PackRpcFrame_def PackSerializedFrame_def call_failed_def sample_call_def
     new_InboundCallState_def empty_meta_def FitsUint32_def UINT32_MAX_def kRpcHeaderBytes_def kDefaultMaxRpcFrameBytes_def
     AppendWireHeader_def default_header_def MakeWireFlags_def kMagic_def request_bytes_def kRpcWireVersion_def
     kWireVersionShift_def kWireFeatureMask_def Let_def) (rule header_bytes)

lemma scene_answer:
  "\<exists>m'. FinalizeInboundCall brief_codec 0 True 0 (scene conn_serving [] [] 1 call_failed 1 0 [0] 1 m s) =
    scene (conn_serving\<lparr>sc_reserved_outbound_bytes := 17\<rparr>) [ServerCompleteInbound 0 0 request_bytes False] [] 1
      (call_failed\<lparr>ic_completion := kFinalized\<rparr>) 0 0 [0] 1 m' s"
proof -
  let ?c = "conn_serving\<lparr>sc_reserved_outbound_bytes := 17\<rparr>" and ?call = "call_failed\<lparr>ic_completion := kFinalized\<rparr>"
  have k: "ic_connection call_failed = 0" by (simp add: call_failed_def sample_call_def new_InboundCallState_def)
  have same: "call_failed\<lparr>ic_response_meta := ic_response_meta call_failed\<rparr> = call_failed" by simp
  have conn: "sc_running conn_serving" "sc_reserved_outbound_bytes conn_serving = 0" by (simp_all add: conn_defs)
  obtain m0 where "upd_sm (\<lambda>m. m\<lparr>sm_outbound_bytes := Gauge_Add (sm_outbound_bytes m) 17\<rparr>) (scene ?c [] [] 1 call_failed 1 0 [0] 1 m s) =
      scene ?c [] [] 1 call_failed 1 0 [0] 1 m0 s" using scene_upd_sm by blast
  then have r: "TryReserveOutboundBytes 0 (length request_bytes) (scene conn_serving [] [] 1 call_failed 1 0 [0] 1 m s) =
      (True, scene ?c [] [] 1 call_failed 1 0 [0] 1 m0 s)"
    by (simp add: TryReserveOutboundBytes_def conn parse_request(3) default_RpcServerOptions_def add64_def)
  have code: "(m_error_code (ic_response_meta call_failed) = RPC_SUCCESS) = False"
    by (simp add: call_failed_def RPC_ENOSERVICE_def RPC_SUCCESS_def)
  have ne: "(request_bytes \<noteq> []) = True" by (simp add: request_bytes_def)
  let ?g = "record_completion (ns_to_us (0 - ic_received_at call_failed)) True (ic_method_metrics call_failed)"
  obtain m1 where m1: "upd_sm ?g (scene ?c [] [] 1 call_failed 1 0 [0] 1 m0 s) = scene ?c [] [] 1 call_failed 1 0 [0] 1 m1 s"
    using scene_upd_sm by blast
  obtain m2 where m2: "post 0 (ServerCompleteInbound 0 0 request_bytes False) (scene ?c [] [] 1 ?call 1 0 [0] 1 m1 s) =
    scene ?c [ServerCompleteInbound 0 0 request_bytes False] [] 1 ?call 1 0 [0] 1 m2 s"
    using scene_post [of _ ?c "[]", unfolded append.simps] by blast
  have "FinalizeInboundCall brief_codec 0 True 0 (scene conn_serving [] [] 1 call_failed 1 0 [0] 1 m s) =
    upd_rt ReleaseInFlight (scene ?c [ServerCompleteInbound 0 0 request_bytes False] [] 1 ?call 1 0 [0] 1 m2 s)"
    by (simp only: FinalizeInboundCall_def Let_def scene_sel pack_brief k prod.case simp_thms if_False if_True scene_upd_call same
        CompleteInbound_def r ne conn bool.case code m1 m2)
  also have "\<exists>m'. \<dots> = scene ?c [ServerCompleteInbound 0 0 request_bytes False] [] 1 ?call 0 0 [0] 1 m' s"
    by (simp add: scene_def upd_rt_def ReleaseInFlight_def upd_rt_metrics_def sub64_def)
  finally show ?thesis .
qed

lemma scene_respond:
  "\<exists>m'. DispatchCommand brief_codec 0 (ServerCompleteInbound 0 0 request_bytes False)
      (scene (conn_serving\<lparr>sc_reserved_outbound_bytes := 17\<rparr>) [] [] 1 call 0 0 [0] 1 m s) =
    scene conn_writing [] [] 1 call 0 0 [0] 1 m' s"
proof -
  let ?c = "conn_serving\<lparr>sc_reserved_outbound_bytes := 17\<rparr>"
  obtain m1 where m1: "upd_sm (\<lambda>m. m\<lparr>sm_io_command_backlog := Gauge_Add (sm_io_command_backlog m) (- 1)\<rparr>)
      (scene ?c [] [] 1 call 0 0 [0] 1 m s) = scene ?c [] [] 1 call 0 0 [0] 1 m1 s"
    using scene_upd_sm by blast
  let ?c' = "conn_reading\<lparr>sc_reserved_outbound_bytes := 17, sc_outbound := [request_bytes]\<rparr>"
  obtain m2 where m2: "upd_sm (\<lambda>m. m\<lparr>sm_responses_enqueued := Counter_Add (sm_responses_enqueued m) 1\<rparr>)
      (scene ?c' [] [] 1 call 0 0 [0] 1 m1 s) = scene ?c' [] [] 1 call 0 0 [0] 1 m2 s"
    using scene_upd_sm by blast
  let ?d = "conn_reading\<lparr>sc_reserved_outbound_bytes := 17\<rparr>"
  have c: "?c\<lparr>sc_inbound_calls := removeAll 0 (sc_inbound_calls ?c), sc_in_flight_calls := sub64 (sc_in_flight_calls ?c) 1\<rparr> = ?d"
    "?d\<lparr>sc_outbound := sc_outbound ?d @ [request_bytes]\<rparr> = ?c'" by (simp_all add: conn_defs sub64_def)
  have run: "sc_running ?d = True" "(request_bytes \<noteq> []) = True" by (simp_all add: conn_defs request_bytes_def)
  have "StartNextWriteOnIoThread 0 (scene ?c' [] [] 1 call 0 0 [0] 1 m2 s) = scene conn_writing [] [] 1 call 0 0 [0] 1 m2 s"
    by (subst StartNextWriteOnIoThread.simps) (simp add: conn_defs conn_writing_def Let_def request_bytes_def)
  moreover have "TryFinishCloseOnIoThread 0 (scene conn_writing [] [] 1 call 0 0 [0] 1 m2 s) = scene conn_writing [] [] 1 call 0 0 [0] 1 m2 s"
    by (simp add: TryFinishCloseOnIoThread_def conn_writing_def conn_defs)
  ultimately have "DispatchCommand brief_codec 0 (ServerCompleteInbound 0 0 request_bytes False) (scene ?c [] [] 1 call 0 0 [0] 1 m s) =
      scene conn_writing [] [] 1 call 0 0 [0] 1 m2 s"
    by (simp only: DispatchCommand.simps m1 CompleteInboundOnIoThread_def Let_def scene_upd_conn scene_sel c run simp_thms if_False if_True m2)
  then show ?thesis by blast
qed

lemma run_writing: "\<exists>m s. server_reach brief_codec
    (scene conn_writing [] [] 1 (call_failed\<lparr>ic_completion := kFinalized\<rparr>) 0 0 [0] 1 m s)"
proof -
  let ?c = "conn_serving\<lparr>sc_reserved_outbound_bytes := 17\<rparr>" and ?call = "call_failed\<lparr>ic_completion := kFinalized\<rparr>"
  let ?cmd = "ServerCompleteInbound 0 0 request_bytes False"
  obtain m s where r: "server_reach brief_codec (scene conn_serving [] [FinalizeTask 0] 1 call_failed 1 0 [0] 1 m s)"
    using run_failed by blast
  have k: "ic_connection call_failed = 0" "sc_released conn_serving = False"
    by (simp_all add: call_failed_def sample_call_def new_InboundCallState_def conn_defs)
  have "server_step brief_codec (scene conn_serving [] [FinalizeTask 0] 1 call_failed 1 0 [0] 1 m s)
    (FinalizeInboundCall brief_codec 0 True 0 (scene conn_serving [] [] 1 call_failed 1 0 [0] 1 m s))"
    using step_finalize [of "scene conn_serving [] [FinalizeTask 0] 1 call_failed 1 0 [0] 1 m s" "[]" 0 "[]" "brief_codec" 0]
    by (simp add: k) (simp add: scene_def)
  from server_next [OF r this] obtain m s where r: "server_reach brief_codec (scene ?c [?cmd] [] 1 ?call 0 0 [0] 1 m s)"
    using scene_answer by metis
  have "server_step brief_codec (scene ?c [?cmd] [] 1 ?call 0 0 [0] 1 m s)
    (DispatchCommand brief_codec 0 ?cmd (scene ?c [] [] 1 ?call 0 0 [0] 1 m s))"
    using step_command [of "scene ?c [?cmd] [] 1 ?call 0 0 [0] 1 m s" 0 ?cmd "[]" "brief_codec" 0]
    by (simp add: scene_def)
  from server_next [OF r this] show ?thesis using scene_respond by metis
qed

declare One_nat_def [simp]

end
