(* ===== verification/Server_Contract.thy ===== *)
theory Server_Contract
  imports Server_Bytes Server_Calls Server_Release Server_Sample
begin

text \<open>
  What the server promises, over every interleaving of its IO threads, workers, timers and callers:
  byte accounting, the life of a call, admission counters, draining, isolation of connections and
  the order of responses.  The last property is a reachable state that the code should not allow.
\<close>

section \<open>Outbound bytes\<close>

text \<open>
  C20: in every reachable state the bytes reserved by a connection are exactly the bytes of its queued
  responses, of the frame being written and of the completed responses in its mailbox, and they
  never exceed \<^verbatim>\<open>max_outbound_bytes_per_connection\<close>.
\<close>

theorem outbound_bytes_exact:
  assumes "server_reach pb w"
  shows "sc_reserved_outbound_bytes (w_conns w k) =
      queue_bytes (sc_outbound (w_conns w k)) + frame_bytes (sc_write_frame (w_conns w k)) +
      sum_list (map payload_bytes (w_commands w k)) \<and>
    sc_reserved_outbound_bytes (w_conns w k) \<le> so_max_outbound_bytes_per_connection (w_opts w)"
  using acctD [OF server_reach_acct [OF assms], of k] by (simp add: acct1_def)

theorem outbound_bytes_exact_witness:
  "\<exists>w. server_reach brief_codec w \<and> sc_reserved_outbound_bytes (w_conns w 0) = 17 \<and>
    frame_bytes (sc_write_frame (w_conns w 0)) = 17 \<and> 17 \<le> so_max_outbound_bytes_per_connection (w_opts w)"
proof -
  obtain m s where r: "server_reach brief_codec (scene conn_writing [] [] 1 (call_failed\<lparr>ic_completion := kFinalized\<rparr>) 0 0 [0] 1 m s)"
    (is "server_reach _ ?w") using run_writing by blast
  have "sc_reserved_outbound_bytes (w_conns ?w 0) = 17" by (simp add: conn_writing_def)
  moreover have "frame_bytes (sc_write_frame (w_conns ?w 0)) = 17" by (simp add: conn_writing_def parse_request(3))
  ultimately show ?thesis using r outbound_bytes_exact [OF r, of 0] by metis
qed

section \<open>Calls\<close>

text \<open>
  C21: in every reachable state an admitted call is in exactly one place: in a dispatch task, in the
  service, in a finalization task, in the mailbox of its connection, or retired.  No call is lost
  and none is answered twice.
\<close>

theorem call_in_one_place:
  assumes "server_reach pb w" "i < w_next_call w"
  shows "dispatches w i + of_bool (ic_completion (w_calls w i) = kPending \<and> ic_done (w_calls w i)) + finalizes w i +
    completions w i + of_bool (ic_completion (w_calls w i) = kFinalized \<and> \<not> held w i) = 1"
  using calls_invD(3) [OF server_reach_calls [OF assms(1)] assms(2)]
  by (auto simp: phase_ok_def phase_fits_def split: CompletionState.splits)

theorem call_in_one_place_witness:
  "\<exists>w. server_reach mute_codec w \<and> completions w 0 = 1 \<and> dispatches w 0 = 0 \<and> finalizes w 0 = 0"
proof -
  obtain m s where r: "server_reach mute_codec
      (scene conn_serving [ServerCompleteInbound 0 0 [] True] [] 1 (call_failed\<lparr>ic_completion := kFinalized\<rparr>) 0 0 [0] 1 m s)"
    (is "server_reach _ ?w") using run_completed by blast
  have k: "ic_connection call_failed = 0" by (simp add: call_failed_def sample_call_def new_InboundCallState_def)
  have "completions ?w 0 = 1" by (simp add: completions_def k)
  then show ?thesis using r call_in_one_place [OF r, of 0] by (auto simp: scene_def)
qed

text \<open>
  C22: the counters are exact: a connection's in-flight counter is the number of its inbound calls,
  the runtime's is the number of calls not yet finalized, its pending counter is the number of
  dispatch tasks in the worker queue, and each is within its limit.
\<close>

theorem server_counters_exact:
  assumes "server_reach pb w"
  shows "sc_in_flight_calls (w_conns w k) = length (sc_inbound_calls (w_conns w k)) \<and>
    length (sc_inbound_calls (w_conns w k)) \<le> so_max_in_flight_per_connection (w_opts w) \<and>
    rt_in_flight (w_rt w) = card (unfinished w) \<and> card (unfinished w) \<le> so_max_in_flight (w_opts w) \<and>
    rt_pending_worker_tasks (w_rt w) = length (filter is_dispatch (w_worker w)) \<and>
    length (filter is_dispatch (w_worker w)) \<le> so_max_pending_worker_tasks (w_opts w)"
proof -
  note inv = server_reach_calls [OF assms]
  show ?thesis using conn_calls_okD(2,3) [OF calls_invD(2) [OF inv], of k] calls_invD(6-9) [OF inv] by simp
qed

theorem server_counters_exact_witness:
  "\<exists>w. server_reach mute_codec w \<and> sc_in_flight_calls (w_conns w 0) = 1 \<and> rt_pending_worker_tasks (w_rt w) = 1 \<and>
    length (filter is_dispatch (w_worker w)) = 1"
proof -
  obtain m s where r: "server_reach mute_codec (scene conn_serving [] [DispatchTask 0] 1 sample_call 1 1 [0] 1 m s)"
    (is "server_reach _ ?w") using run_serving by blast
  have "sc_in_flight_calls (w_conns ?w 0) = 1" "rt_pending_worker_tasks (w_rt ?w) = 1" by (simp_all add: conn_defs) (simp add: scene_def)
  then show ?thesis using r server_counters_exact [OF r, of 0] by metis
qed

text \<open>
  C23: when the runtime reports that it is drained, every connection ever admitted has been released
  and every call ever admitted has been finalized, so \<^verbatim>\<open>Join\<close> returns only after all of them.
\<close>

theorem drained_is_finished:
  assumes "server_reach pb w" "IsDrained (w_rt w)"
  shows "(\<forall>k < w_next_conn w. sc_released (w_conns w k)) \<and> (\<forall>i < w_next_call w. ic_completion (w_calls w i) = kFinalized)"
proof -
  have "live w = {}" using server_reach_live [OF assms(1)] assms(2) by (simp add: live_inv_def IsDrained_def)
  moreover have "unfinished w = {}" using calls_invD(6) [OF server_reach_calls [OF assms(1)]] assms(2) by (simp add: IsDrained_def)
  ultimately show ?thesis by (auto simp: live_def unfinished_def)
qed

theorem drained_is_finished_witness:
  "\<exists>w. server_reach mute_codec w \<and> IsDrained (w_rt w) \<and> 0 < w_next_conn w \<and> sc_released (w_conns w 0) \<and>
    0 < w_next_call w \<and> ic_completion (w_calls w 0) = kFinalized"
proof -
  obtain m s where r: "server_reach mute_codec
      (scene conn_released [ServerClose 0] [] 1 (call_failed\<lparr>ic_completion := kFinalized\<rparr>) 0 0 [] 1 m s)"
    (is "server_reach _ ?w") using run_released by blast
  have "IsDrained (w_rt ?w)" "0 < w_next_conn ?w" "0 < w_next_call ?w" by (simp_all add: IsDrained_def scene_def)
  then show ?thesis using r drained_is_finished [OF r] by metis
qed

section \<open>Isolation\<close>

text \<open>
  C25: a command of one connection, whatever it does (parsing requests, closing, writing), leaves
  every other connection, its mailbox and every call admitted before as they are.
\<close>

theorem commands_isolated:
  assumes "server_reach pb w" "w_commands w k = cmd # rest" "j \<noteq> k" "i < w_next_call w"
  shows "let w' = DispatchCommand pb now cmd (w\<lparr>w_commands := (w_commands w)(k := rest)\<rparr>)
    in w_conns w' j = w_conns w j \<and> w_commands w' j = w_commands w j \<and> w_calls w' i = w_calls w i"
proof -
  note l = server_reach_located [OF assms(1)]
  have "command_conn cmd = k" using locatedD(2) [OF l, of cmd k] assms(2) by simp
  then have "touch k (w\<lparr>w_commands := (w_commands w)(k := rest)\<rparr>) (DispatchCommand pb now cmd (w\<lparr>w_commands := (w_commands w)(k := rest)\<rparr>))"
    using locatedD(1) [OF l] by (intro touch_command [OF touch_same]) simp_all
  then show ?thesis using assms(3,4) by (simp add: touch_def touch_conns_def touch_calls_def Let_def)
qed

theorem commands_isolated_witness:
  "\<exists>w. server_reach mute_codec w \<and> w_calls (DispatchCommand mute_codec 0 (ServerCompleteInbound 0 0 [] True)
    (w\<lparr>w_commands := (w_commands w)(0 := [])\<rparr>)) 0 = call_failed\<lparr>ic_completion := kFinalized\<rparr>"
proof -
  obtain m s where r: "server_reach mute_codec
      (scene conn_serving [ServerCompleteInbound 0 0 [] True] [] 1 (call_failed\<lparr>ic_completion := kFinalized\<rparr>) 0 0 [0] 1 m s)"
    (is "server_reach _ ?w") using run_completed by blast
  have "0 < w_next_call ?w" by (simp add: scene_def)
  then show ?thesis
    using r commands_isolated [OF r, of 0 "ServerCompleteInbound 0 0 [] True" "[]" 1 0 0] by (intro exI [of _ ?w]) (simp add: Let_def)
qed

section \<open>Order of responses\<close>

text \<open>The bytes a connection has still to write, in order.\<close>

definition unsent :: "'m ServerWorld \<Rightarrow> nat \<Rightarrow> bytes" where
  "unsent w k = (case sc_write_frame (w_conns w k) of None \<Rightarrow> [] | Some f \<Rightarrow> f) @ concat (sc_outbound (w_conns w k))"

lemma unsent_cong: "bview w' k = bview w k \<Longrightarrow> unsent w' k = unsent w k"
  unfolding unsent_def by (metis bview_sel(2,3))

lemma merge_batch_concat: "fst (merge_batch f fs) @ concat (snd (merge_batch f fs)) = f @ concat fs"
  by (induction f fs rule: merge_batch.induct) auto

lemma ReleaseOutbound_unsent [simp]: "unsent (ReleaseOutboundBytes k n w) k = unsent w k"
  by (simp add: unsent_def ReleaseOutboundBytes_def)

lemma start_write_unsent:
  "(\<not> sc_writing (w_conns w k) \<longrightarrow> sc_write_frame (w_conns w k) = None) \<Longrightarrow> unsent (StartNextWriteOnIoThread k w) k = unsent w k"
proof (induction k w rule: StartNextWriteOnIoThread.induct)
  case (1 k w)
  show ?case
  proof (cases "sc_outbound (w_conns w k)")
    case (Cons f fs)
    obtain frame rest where m: "merge_batch f fs = (frame, rest)" by fastforce
    let ?w = "upd_conn k (\<lambda>c. c\<lparr>sc_writing := True, sc_outbound := rest\<rparr>) w"
    let ?v = "upd_conn k (\<lambda>c. c\<lparr>sc_writing := False\<rparr>) (ReleaseFrameReservation k frame ?w)"
    show ?thesis
    proof (cases "sc_writing (w_conns w k) \<or> \<not> sc_running (w_conns w k)")
      case False
      then have u: "unsent w k = frame @ concat rest"
        using 1(2) merge_batch_concat [of f fs] Cons m by (simp add: unsent_def)
      have e: "unsent (StartNextWriteOnIoThread k ?v) k = unsent ?v k" if "frame = []"
      proof (rule 1(1) [OF Cons False m [symmetric] refl refl])
        show "\<not> (frame \<noteq> [] \<and> sc_running (w_conns ?w k))" using that by simp
      qed (use that False 1(2) in \<open>simp_all add: ReleaseFrameReservation_def ReleaseOutboundBytes_def\<close>)
      have t: "unsent (TryFinishCloseOnIoThread k x) k = unsent x k" for x :: "'a ServerWorld" by (rule unsent_cong) simp
      have "unsent ?v k = concat rest" if "frame = []"
        using that False 1(2) by (simp add: unsent_def ReleaseFrameReservation_def ReleaseOutboundBytes_def)
      then show ?thesis
        using False e u by (subst StartNextWriteOnIoThread.simps) (auto simp: Cons m Let_def t, simp add: unsent_def)
    qed (subst StartNextWriteOnIoThread.simps, simp add: Cons)
  qed (subst StartNextWriteOnIoThread.simps, simp)
qed

lemma write_end_unsent:
  "unsent (WriteFrame_end k f w) k = concat (sc_outbound (w_conns w k))"
proof -
  have t: "unsent (TryFinishCloseOnIoThread k x) k = unsent x k" for x :: "'a ServerWorld" by (rule unsent_cong) simp
  show ?thesis
    by (simp add: WriteFrame_end_def Let_def t start_write_unsent) (simp add: unsent_def ReleaseFrameReservation_def ReleaseOutboundBytes_def)
qed

text \<open>
  C24: responses leave a connection in the order they were completed, byte for byte: on a running
  connection a completed response is appended to the bytes still to be written, and a write of
  \<open>n\<close> bytes removes exactly the first \<open>n\<close>, across partial writes and batching.
\<close>

theorem responses_in_order:
  assumes "server_reach pb w" "sc_running (w_conns w k)"
  shows "unsent (CompleteInboundOnIoThread k i response False w) k = unsent w k @ response \<and>
    (sc_write_frame (w_conns w k) = Some frame \<longrightarrow> 0 < n \<longrightarrow> n \<le> length frame \<longrightarrow>
     unsent (WriteResume k (int n) w) k = drop n (unsent w k))"
proof
  have idle: "\<not> sc_writing (w_conns w k) \<longrightarrow> sc_write_frame (w_conns w k) = None"
    using acctD [OF server_reach_acct [OF assms(1)], of k] by (simp add: acct1_def)
  have t: "unsent (TryFinishCloseOnIoThread k x) k = unsent x k" for x :: "'a ServerWorld" by (rule unsent_cong) simp
  let ?f = "\<lambda>c. c\<lparr>sc_inbound_calls := removeAll i (sc_inbound_calls c), sc_in_flight_calls := sub64 (sc_in_flight_calls c) 1\<rparr>"
  let ?w = "upd_sm (\<lambda>m. m\<lparr>sm_responses_enqueued := Counter_Add (sm_responses_enqueued m) 1\<rparr>)
      (upd_conn k (\<lambda>c. c\<lparr>sc_outbound := sc_outbound c @ [response]\<rparr>) (upd_conn k ?f w))"
  have "unsent (StartNextWriteOnIoThread k ?w) k = unsent ?w k" using idle by (intro start_write_unsent) simp
  then show "unsent (CompleteInboundOnIoThread k i response False w) k = unsent w k @ response"
    using assms(2) by (cases "response = []") (simp_all add: CompleteInboundOnIoThread_def Let_def t ReleaseFrameReservation_def
      ReleaseOutboundBytes_def, simp_all add: unsent_def split: option.split)
  show "sc_write_frame (w_conns w k) = Some frame \<longrightarrow> 0 < n \<longrightarrow> n \<le> length frame \<longrightarrow>
      unsent (WriteResume k (int n) w) k = drop n (unsent w k)"
    using assms(2) by (auto simp: WriteResume_def Let_def write_end_unsent) (auto simp: unsent_def ReleaseOutboundBytes_def)
qed

theorem responses_in_order_witness:
  "\<exists>w. server_reach brief_codec w \<and> unsent w 0 = request_bytes \<and> unsent (WriteResume 0 5 w) 0 = drop 5 request_bytes"
proof -
  obtain m s where r: "server_reach brief_codec (scene conn_writing [] [] 1 (call_failed\<lparr>ic_completion := kFinalized\<rparr>) 0 0 [0] 1 m s)"
    (is "server_reach _ ?w") using run_writing by blast
  have "sc_running (w_conns ?w 0)" "sc_write_frame (w_conns ?w 0) = Some request_bytes" "unsent ?w 0 = request_bytes"
    by (simp_all add: unsent_def conn_writing_def conn_defs)
  then show ?thesis
    using r responses_in_order [OF r, of 0 0 "[]" request_bytes 5] by (intro exI [of _ ?w]) (simp add: parse_request(3))
qed

section \<open>A command that outlives its connection\<close>

text \<open>
  C26: there is an execution after which a connection has been released while a
  \<^verbatim>\<open>ServerClose\<close> command for it is still in the mailbox.  A response that cannot be packed is
  completed with \<^verbatim>\<open>close_after\<close>; before the IO thread sees it, another thread requests the close
  and posts the command; the completion then marks the close as handled and releases the
  connection.  Commands hold a raw pointer, so the remaining command refers to a freed object.
\<close>

theorem close_command_outlives_connection:
  "\<exists>pb :: unit Protobuf. \<exists>w. server_reach pb w \<and> sc_released (w_conns w 0) \<and> 0 < w_next_conn w \<and>
    ServerClose 0 \<in> set (w_commands w 0)"
proof -
  obtain m s where r: "server_reach mute_codec
      (scene conn_released [ServerClose 0] [] 1 (call_failed\<lparr>ic_completion := kFinalized\<rparr>) 0 0 [] 1 m s)"
    (is "server_reach _ ?w") using run_released by blast
  have "sc_released (w_conns ?w 0)" "0 < w_next_conn ?w" "ServerClose 0 \<in> set (w_commands ?w 0)"
    by (simp_all add: conn_released_def) (simp add: scene_def)
  then show ?thesis using r by blast
qed

end
