(* ===== verification/Server_Facade.thy ===== *)
theory Server_Facade
  imports Server_Contract
begin

text \<open>
  \<^verbatim>\<open>rpc/server/rpc_server.hpp\<close>: listening, accepting, stopping and joining.  \<open>RpcServer\<close> holds the fields
  of the class around the \<open>ServerWorld\<close> of its runtime, registry and connections, the threads inside
  \<open>Stop\<close> and \<open>Join\<close>, and the accepted sockets on their way to another context.  The sections of \<open>Stop\<close>
  and \<open>Join\<close> between two locks are separate operations; \<open>Stop\<close> and \<open>Join\<close> compose them.

  The listening socket, the contexts of the scheduler and the lengths of their command queues are
  arguments.  A context is a number; the acceptor runs on \<open>rs_ctx\<close>.
\<close>

section \<open>State\<close>

datatype Status = kCreated | kRunning | kStopping | kStopped | kFailed

datatype stopper = StopClosing | StopRuntime

record 'm RpcServer =
  rs_ctx :: nat
  rs_options :: RpcServerOptions
  rs_status :: Status
  rs_observers :: "nat list"
  rs_server_socket :: int
  rs_owned_services :: "Service list"
  rs_acceptor :: bool
  rs_io_contexts :: "nat list"
  rs_next_io_context :: nat
  rs_world :: "'m ServerWorld"
  rs_handoffs :: "(nat \<times> int) list"
  rs_stoppers :: "stopper list"
  rs_joiners :: nat
  rs_closed_sockets :: "int list"

definition new_RpcServer :: "nat \<Rightarrow> RpcServerOptions \<Rightarrow> bool \<Rightarrow> (nat \<Rightarrow> 'm InboundCallState) \<Rightarrow> 'm RpcServer" where
  "new_RpcServer ctx options executor calls =
     \<lparr>rs_ctx = ctx, rs_options = options, rs_status = kCreated, rs_observers = [], rs_server_socket = - 1,
      rs_owned_services = [], rs_acceptor = False, rs_io_contexts = [], rs_next_io_context = 0,
      rs_world = new_ServerWorld options [] executor calls, rs_handoffs = [], rs_stoppers = [], rs_joiners = 0,
      rs_closed_sockets = []\<rparr>"

section \<open>Services and observers\<close>

definition register_metrics :: "Service \<Rightarrow> ServerRuntime \<Rightarrow> ServerRuntime" where
  "register_metrics service rt =
     (case svc_descriptor service of None \<Rightarrow> rt | Some d \<Rightarrow> RegisterServiceMetrics d rt)"

definition AddService :: "Service option \<Rightarrow> 'm RpcServer \<Rightarrow> bool \<times> 'm RpcServer" where
  "AddService service f =
     (if rs_status f \<noteq> kCreated then (False, f)
      else case RegisterService service (w_registry (rs_world f)) of
             (False, _) \<Rightarrow> (False, f)
           | (True, registry) \<Rightarrow>
               (case service of
                  None \<Rightarrow> (False, f)
                | Some svc \<Rightarrow>
                    (True, f\<lparr>rs_world := upd_rt (register_metrics svc) ((rs_world f)\<lparr>w_registry := registry\<rparr>)\<rparr>)))"

definition AddOwnedService :: "Service option \<Rightarrow> 'm RpcServer \<Rightarrow> bool \<times> 'm RpcServer" where
  "AddOwnedService service f =
     (if rs_status f \<noteq> kCreated \<or> service = None then (False, f)
      else case AddService service f of
             (False, f) \<Rightarrow> (False, f)
           | (True, f) \<Rightarrow> (True, f\<lparr>rs_owned_services := rs_owned_services f @ [the service]\<rparr>))"

text \<open>\<open>expired\<close> says which of the weak pointers have lost their object.\<close>

definition RegisterObserver :: "(nat \<Rightarrow> bool) \<Rightarrow> nat \<Rightarrow> 'm RpcServer \<Rightarrow> 'm RpcServer" where
  "RegisterObserver expired observer f =
     (let observers = filter (\<lambda>o'. \<not> expired o') (rs_observers f)
      in if observer \<in> set observers then f\<lparr>rs_observers := observers\<rparr>
         else f\<lparr>rs_observers := observers @ [observer]\<rparr>)"

section \<open>Starting\<close>

text \<open>The loop over the contexts of the scheduler stops when enough contexts are collected.\<close>

fun collect_contexts :: "nat \<Rightarrow> nat \<Rightarrow> nat list \<Rightarrow> nat list \<Rightarrow> nat list" where
  "collect_contexts ctx requested [] acc = acc"
| "collect_contexts ctx requested (c # cs) acc =
     (if length acc < requested
      then collect_contexts ctx requested cs (if c \<noteq> ctx then acc @ [c] else acc) else acc)"

definition Server_Start :: "nat list \<Rightarrow> int \<Rightarrow> 'm RpcServer \<Rightarrow> bool \<times> 'm RpcServer" where
  "Server_Start contexts listen_fd f =
     (if rs_status f \<noteq> kCreated \<or> \<not> RpcServerOptions_IsValid (rs_options f) then (False, f)
      else let f = f\<lparr>rs_server_socket := listen_fd\<rparr>
           in if listen_fd < 0 then (False, f\<lparr>rs_status := kFailed\<rparr>)
              else (True, f\<lparr>rs_io_contexts := collect_contexts (rs_ctx f)
                      (min (so_io_contexts (rs_options f)) (length contexts)) contexts [rs_ctx f],
                    rs_acceptor := True, rs_status := kRunning\<rparr>))"

section \<open>Accepting\<close>

text \<open>
  \<^verbatim>\<open>DispatchAcceptedSocket\<close>: the less loaded of two neighbouring contexts takes the socket, on the
  acceptor's own context at once, on another one through a mailbox.
\<close>

definition pick_context :: "(nat \<Rightarrow> nat) \<Rightarrow> 'm RpcServer \<Rightarrow> nat" where
  "pick_context pending f =
     (let first = rs_next_io_context f mod length (rs_io_contexts f); second = (first + 1) mod length (rs_io_contexts f)
      in if pending (rs_io_contexts f ! first) \<le> pending (rs_io_contexts f ! second)
         then rs_io_contexts f ! first else rs_io_contexts f ! second)"

definition DispatchAcceptedSocket :: "(nat \<Rightarrow> nat) \<Rightarrow> int \<Rightarrow> 'm RpcServer \<Rightarrow> 'm RpcServer" where
  "DispatchAcceptedSocket pending fd f =
     (let target = pick_context pending f; f = f\<lparr>rs_next_io_context := rs_next_io_context f + 1\<rparr>
      in if target = rs_ctx f then f\<lparr>rs_world := AcceptConnection fd (rs_world f)\<rparr>
         else f\<lparr>rs_handoffs := rs_handoffs f @ [(target, fd)]\<rparr>)"

definition AcceptedConnectionMailbox_Drain :: "int \<Rightarrow> 'm RpcServer \<Rightarrow> 'm RpcServer" where
  "AcceptedConnectionMailbox_Drain fd f = f\<lparr>rs_world := AcceptConnection fd (rs_world f)\<rparr>"

section \<open>Stopping and joining\<close>

definition Stop_begin :: "'m RpcServer \<Rightarrow> bool \<times> 'm RpcServer" where
  "Stop_begin f =
     (if rs_status f = kStopped \<or> rs_status f = kStopping then (False, f)
      else (True, f\<lparr>rs_status := (if rs_status f = kRunning then kStopping else kStopped)\<rparr>))"

definition Stop_close :: "'m RpcServer \<Rightarrow> 'm RpcServer" where
  "Stop_close f =
     (if rs_server_socket f \<ge> 0
      then f\<lparr>rs_closed_sockets := rs_closed_sockets f @ [rs_server_socket f], rs_server_socket := - 1\<rparr> else f)"

definition Stop_runtime :: "'m RpcServer \<Rightarrow> 'm RpcServer" where
  "Stop_runtime f = f\<lparr>rs_world := BeginGracefulStop (rs_world f)\<rparr>"

definition Server_Stop :: "'m RpcServer \<Rightarrow> 'm RpcServer" where
  "Server_Stop f = (case Stop_begin f of (False, f) \<Rightarrow> f | (True, f) \<Rightarrow> Stop_runtime (Stop_close f))"

text \<open>\<open>Some\<close> is a result of \<open>Join\<close>, \<open>None\<close> that it has to wait for the runtime to drain.\<close>

definition Join_begin :: "'m RpcServer \<Rightarrow> bool option" where
  "Join_begin f =
     (case rs_status f of kCreated \<Rightarrow> Some False | kRunning \<Rightarrow> Some False | kFailed \<Rightarrow> Some False
      | kStopped \<Rightarrow> Some True | kStopping \<Rightarrow> None)"

definition Join_end :: "'m RpcServer \<Rightarrow> 'm RpcServer" where
  "Join_end f = f\<lparr>rs_status := kStopped\<rparr>"

definition Join :: "'m RpcServer \<Rightarrow> (bool \<times> 'm RpcServer) option" where
  "Join f =
     (case Join_begin f of
        Some r \<Rightarrow> Some (r, f)
      | None \<Rightarrow> if IsDrained (w_rt (rs_world f)) then Some (True, Join_end f) else None)"

text \<open>The destructor tells the observers that are still alive, then stops and joins.\<close>

definition Destroy :: "(nat \<Rightarrow> bool) \<Rightarrow> 'm RpcServer \<Rightarrow> nat list \<times> (bool \<times> 'm RpcServer) option" where
  "Destroy expired f =
     (filter (\<lambda>o'. \<not> expired o') (rs_observers f), Join (Server_Stop (f\<lparr>rs_observers := []\<rparr>)))"

section \<open>Interleavings\<close>

text \<open>
  A step that neither admits a connection nor stops the runtime.  Every step of the server other
  than an accept and \<open>BeginGracefulStop\<close> is of this kind.
\<close>

definition calm :: "'m ServerWorld \<Rightarrow> 'm ServerWorld \<Rightarrow> bool" where
  "calm w w' =
     (rt_accepting (w_rt w') = rt_accepting (w_rt w) \<and> w_next_conn w' = w_next_conn w \<and> w_registry w' = w_registry w)"

named_theorems calms

lemma calm_same: "calm w w"
  by (simp add: calm_def)

lemma calm_touch: "calm v w \<Longrightarrow> touch k w w' \<Longrightarrow> calm v w'"
  by (simp add: calm_def touch_def touch_conns_def)

lemma calm_updates [calms]:
  "calm v w \<Longrightarrow> calm v (upd_sm g w)" "calm v w \<Longrightarrow> calm v (upd_call i h w)" "calm v w \<Longrightarrow> calm v (CancelTimerOf t w)"
  "calm v w \<Longrightarrow> calm v (w\<lparr>w_worker := ts\<rparr>)" "calm v w \<Longrightarrow> calm v (ScheduleInboundFinalization i w)"
  "calm v w \<Longrightarrow> rt_accepting (f (w_rt w)) = rt_accepting (w_rt w) \<Longrightarrow> calm v (upd_rt f w)"
  by (simp_all add: calm_def upd_sm_def upd_call_def CancelTimerOf_def ScheduleInboundFinalization_def upd_rt_def upd_rt_metrics_def)

lemma calm_close [calms]: "calm v w \<Longrightarrow> calm v (RequestClose k r w)"
  by (rule calm_touch [OF _ touch_request_close [OF touch_same]])

lemma calm_force_close [calms]: "calm v w \<Longrightarrow> calm v (ForceCloseLiveConnections w)"
proof -
  have "calm v (fold (\<lambda>k. RequestClose k kServerStop) ks u)" if "calm v u" for ks u
    using that by (induction ks arbitrary: u) (auto intro: calms)
  then show "calm v w \<Longrightarrow> calm v (ForceCloseLiveConnections w)" by (simp add: ForceCloseLiveConnections_def)
qed

lemma calm_run [calms]: "calm v w \<Longrightarrow> calm v (RunInboundCall pb now i w)"
  by (auto simp: RunInboundCall_def Let_def split: option.split prod.split intro!: calms)

lemma calm_timer [calms]: "calm v w \<Longrightarrow> calm v (run_timer_action a w)"
  by (cases a) (auto intro: calms)

lemma calm_finalize [calms]:
  assumes "calm v w"
  shows "calm v (FinalizeInboundCall pb now alive i w)"
proof -
  let ?k = "ic_connection (w_calls w i)"
  obtain m u g resp cl where
    f: "FinalizeInboundCall pb now alive i w = upd_rt ReleaseInFlight
      (if alive then CompleteInbound ?k i resp cl (upd_call i (\<lambda>c. c\<lparr>ic_completion := kFinalized\<rparr>) (upd_sm g u))
       else upd_call i (\<lambda>c. c\<lparr>ic_completion := kFinalized\<rparr>) (upd_sm g u))"
    and u: "u = upd_call i (\<lambda>c. c\<lparr>ic_response_meta := m\<rparr>) w \<and> (alive \<longrightarrow> resp = []) \<or>
      alive \<and> TryReserveOutboundBytes ?k (length resp) (upd_call i (\<lambda>c. c\<lparr>ic_response_meta := m\<rparr>) w) = (True, u)"
    by (rule FinalizeInboundCall_form)
  let ?w0 = "upd_call i (\<lambda>c. c\<lparr>ic_response_meta := m\<rparr>) w"
  have "touch ?k ?w0 u" using u touch_reserve [OF touch_same] touch_same by blast
  with calm_updates(2) [OF assms] have "calm v u" by (rule calm_touch)
  then have c: "calm v (upd_call i (\<lambda>c. c\<lparr>ic_completion := kFinalized\<rparr>) (upd_sm g u))" by (intro calms)
  then have "calm v (CompleteInbound ?k i resp cl (upd_call i (\<lambda>c. c\<lparr>ic_completion := kFinalized\<rparr>) (upd_sm g u)))"
    unfolding CompleteInbound_def by (rule calm_touch [OF _ touch_post [OF touch_same]]) simp
  then show ?thesis using c unfolding f by (auto simp: ReleaseInFlight_def upd_rt_metrics_def intro!: calms)
qed

lemma server_step_calm:
  assumes l: "located w" and st: "server_step pb w w'"
  shows "calm w w' \<or> w' = BeginGracefulStop w \<or> (\<exists>fd. w' = AcceptConnection fd w)"
  using st
proof (cases rule: server_step.cases)
  case (step_command k cmd rest now)
  have "command_conn cmd = k" using locatedD(2) [OF l, of cmd k] step_command by simp
  moreover have "calm w (w\<lparr>w_commands := (w_commands w)(k := rest)\<rparr>)" by (simp add: calm_def)
  ultimately have "calm w w'"
    unfolding step_command(1) using locatedD(1) [OF l] by (intro calm_touch [OF _ touch_command [OF touch_same]]) simp_all
  then show ?thesis by blast
next
  case (step_read k bytes data now)
  then show ?thesis using calm_touch [OF calm_same touch_read_resume [OF touch_same locatedD(1) [OF l]]] by metis
next
  case (step_write k f written)
  then show ?thesis using calm_touch [OF calm_same touch_write_resume [OF touch_same]] by auto
next
  case (step_dispatch ts i ts' now)
  then show ?thesis
    by (auto simp: ServerDispatchTask_execute_def ReleaseWorkerTask_def upd_rt_metrics_def intro!: calms calm_same)
next
  case (step_done i)
  then show ?thesis by (auto simp: InboundDoneClosure_Run_def intro!: calms calm_same)
qed (auto intro: calms calm_same)

text \<open>
  Threads call the facade, the acceptor delivers sockets while it is armed, the connections make
  their own steps, and the sections of \<open>Stop\<close> and \<open>Join\<close> interleave with all of them.
\<close>

inductive facade_step :: "'m Protobuf \<Rightarrow> 'm RpcServer \<Rightarrow> 'm RpcServer \<Rightarrow> bool" for pb where
  facade_add: "facade_step pb f (snd (AddService service f))"
| facade_add_owned: "facade_step pb f (snd (AddOwnedService service f))"
| facade_observe: "facade_step pb f (RegisterObserver expired observer f)"
| facade_start: "facade_step pb f (snd (Server_Start contexts fd f))"
| facade_accept: "rs_acceptor f \<Longrightarrow> facade_step pb f (DispatchAcceptedSocket pending fd f)"
| facade_handoff: "rs_handoffs f = hs @ (target, fd) # hs' \<Longrightarrow>
    facade_step pb f (AcceptedConnectionMailbox_Drain fd (f\<lparr>rs_handoffs := hs @ hs'\<rparr>))"
| facade_connections: "rs_acceptor f \<Longrightarrow> server_step pb (rs_world f) w \<Longrightarrow> calm (rs_world f) w \<Longrightarrow>
    facade_step pb f (f\<lparr>rs_world := w\<rparr>)"
| facade_stop: "Stop_begin f = (True, g) \<Longrightarrow> facade_step pb f (g\<lparr>rs_stoppers := rs_stoppers f @ [StopClosing]\<rparr>)"
| facade_stop_close: "rs_stoppers f = xs @ StopClosing # ys \<Longrightarrow>
    facade_step pb f (Stop_close (f\<lparr>rs_stoppers := xs @ StopRuntime # ys\<rparr>))"
| facade_stop_runtime: "rs_stoppers f = xs @ StopRuntime # ys \<Longrightarrow>
    facade_step pb f (Stop_runtime (f\<lparr>rs_stoppers := xs @ ys\<rparr>))"
| facade_join: "Join_begin f = None \<Longrightarrow> facade_step pb f (f\<lparr>rs_joiners := rs_joiners f + 1\<rparr>)"
| facade_join_end: "0 < rs_joiners f \<Longrightarrow> IsDrained (w_rt (rs_world f)) \<Longrightarrow>
    facade_step pb f (Join_end (f\<lparr>rs_joiners := rs_joiners f - 1\<rparr>))"

inductive_cases facade_stepE: "facade_step pb f g"

inductive facade_reach :: "'m Protobuf \<Rightarrow> 'm RpcServer \<Rightarrow> bool" for pb where
  facade_new: "options_sized opt \<Longrightarrow> facade_reach pb (new_RpcServer ctx opt executor calls)"
| facade_next: "facade_reach pb f \<Longrightarrow> facade_step pb f g \<Longrightarrow> facade_reach pb g"


section \<open>Lifecycle\<close>







lemma stop_spec [simp]:
  "\<not> rt_accepting (w_rt (BeginGracefulStop w))" "w_next_conn (BeginGracefulStop w) = w_next_conn w"
  "w_registry (BeginGracefulStop w) = w_registry w"
proof -
  let ?w = "upd_rt (\<lambda>rt. rt\<lparr>rt_accepting := False\<rparr>) w"
  have "calm ?w (BeginGracefulStop w)"
    by (auto simp: BeginGracefulStop_def AddTimerTo_def Let_def calm_def upd_rt_def CancelTimerOf_def
        calm_force_close [OF calm_same, unfolded calm_def])
  then show "\<not> rt_accepting (w_rt (BeginGracefulStop w))" "w_next_conn (BeginGracefulStop w) = w_next_conn w"
    "w_registry (BeginGracefulStop w) = w_registry w"
    by (simp_all add: calm_def upd_rt_def)
qed

















text \<open>A server that was started and is being stopped: the status is set, the sections of \<open>Stop\<close> are still to come.\<close>

definition stopping_server :: "unit RpcServer" where
  "stopping_server =
     (snd (Server_Start [0] 5 (new_RpcServer 0 default_RpcServerOptions True (\<lambda>_. sample_call))))
       \<lparr>rs_status := kStopping, rs_stoppers := [StopClosing]\<rparr>"

lemmas sample_options = RpcServerOptions_IsValid_def kRpcHeaderBytes_def kDefaultMaxRpcFrameBytes_def INT64_MAX_def SIZE_MAX_def

lemma stopping_server_facts:
  "rs_status stopping_server = kStopping" "rs_stoppers stopping_server = [StopClosing]" "rs_joiners stopping_server = 0"
  "rs_acceptor stopping_server" "rs_ctx stopping_server = 0" "rs_io_contexts stopping_server = [0]"
  "rs_world stopping_server = new_ServerWorld default_RpcServerOptions [] True (\<lambda>_. sample_call)"
  by (simp_all add: stopping_server_def Server_Start_def new_RpcServer_def default_RpcServerOptions_def
      sample_options)

lemma reach_stopping: "facade_reach mute_codec stopping_server"
proof -
  let ?a = "new_RpcServer 0 default_RpcServerOptions True (\<lambda>_. sample_call)"
  have "facade_reach mute_codec ?a"
    by (rule facade_new) (simp add: options_sized_def default_RpcServerOptions_def sample_options)
  from facade_next [OF this facade_start] have r: "facade_reach mute_codec (snd (Server_Start [0] 5 ?a))" .
  have s: "rs_status (snd (Server_Start [0] 5 ?a)) = kRunning" "rs_stoppers (snd (Server_Start [0] 5 ?a)) = []"
    by (simp_all add: Server_Start_def new_RpcServer_def default_RpcServerOptions_def sample_options)
  then have "Stop_begin (snd (Server_Start [0] 5 ?a)) = (True, (snd (Server_Start [0] 5 ?a))\<lparr>rs_status := kStopping\<rparr>)"
    by (simp add: Stop_begin_def)
  from facade_next [OF r facade_stop [OF this]] show ?thesis using s by (simp add: stopping_server_def)
qed

lemma reach_joining: "facade_reach mute_codec (stopping_server\<lparr>rs_joiners := 1\<rparr>)"
  using facade_next [OF reach_stopping facade_join] by (simp add: Join_begin_def stopping_server_facts)

lemma step_joining:
  "facade_step mute_codec (stopping_server\<lparr>rs_joiners := 1\<rparr>) (stopping_server\<lparr>rs_status := kStopped\<rparr>)"
proof -
  have "IsDrained (w_rt (rs_world (stopping_server\<lparr>rs_joiners := 1\<rparr>)))"
    by (simp add: stopping_server_facts IsDrained_def new_ServerWorld_def new_ServerRuntime_def)
  then have "facade_step mute_codec (stopping_server\<lparr>rs_joiners := 1\<rparr>)
      (Join_end (stopping_server\<lparr>rs_joiners := 1, rs_joiners := 0\<rparr>))"
    using facade_join_end [of "stopping_server\<lparr>rs_joiners := 1\<rparr>"] by simp
  moreover have "stopping_server\<lparr>rs_joiners := 0\<rparr> = stopping_server" using stopping_server_facts(3) by simp
  ultimately show ?thesis by (simp add: Join_end_def)
qed


text \<open>
  C37: \<^verbatim>\<open>Stop\<close> sets the status before it stops the runtime, and \<^verbatim>\<open>Join\<close> waits only for the
  counters to be zero, not for the other thread's \<^verbatim>\<open>Stop\<close>.  There is a run in which \<^verbatim>\<open>Join\<close> has returned
  true and the status is stopped, and the server then admits a connection.
\<close>

theorem join_overtakes_stop:
  "\<exists>f g. facade_reach mute_codec f \<and> rs_status f = kStopped \<and> Join f = Some (True, f) \<and>
    facade_step mute_codec f g \<and> w_next_conn (rs_world f) = 0 \<and> w_next_conn (rs_world g) = 1 \<and>
    rt_active_connections (w_rt (rs_world g)) = 1"
proof -
  let ?f = "stopping_server\<lparr>rs_status := kStopped\<rparr>"
  let ?g = "DispatchAcceptedSocket (\<lambda>_. 0) 5 ?f"
  have g: "facade_step mute_codec ?f ?g" by (rule facade_accept) (simp add: stopping_server_facts)
  have "Join ?f = Some (True, ?f)" by (simp add: Join_def Join_begin_def)
  moreover have "w_next_conn (rs_world ?g) = 1 \<and> rt_active_connections (w_rt (rs_world ?g)) = 1"
    using scene_accept [of "new_ServerConnection (- 1)" "[]" 0 sample_call 0 0 new_ServerMetrics "[]"]
    by (auto simp: DispatchAcceptedSocket_def pick_context_def stopping_server_facts scene_init Let_def) (simp_all add: scene_def)
  moreover have "w_next_conn (rs_world ?f) = 0" by (simp add: stopping_server_facts new_ServerWorld_def)
  ultimately show ?thesis
    using g facade_next [OF reach_joining step_joining] by (intro exI [of _ ?f] exI [of _ ?g] conjI) simp_all
qed

end
