(* ===== verification/Client_Driver.thy ===== *)
theory Client_Driver
  imports Slot_Contract Context_Control
begin

text \<open>
  \<^verbatim>\<open>rpc/core/channel_state.hpp\<close> and \<^verbatim>\<open>rpc/io_driver/\<close>: the state a client channel shares with its IO
  driver, and the driver's connect, receive and write state machines.

  Every method is a function on the record \<open>RpcChannelIoDriver\<close>, which has the fields of the class
  and of its \<^verbatim>\<open>ChannelState\<close>.  A coroutine is cut at its \<^verbatim>\<open>co_await\<close>: \<open>dr_active_connect\<close>,
  \<open>dr_active_read\<close> and \<open>dr_write_frame\<close> say which operation is suspended (the pointer
  \<^verbatim>\<open>active_write_\<close> is non-null while \<open>dr_write_frame\<close> is \<open>Some\<close>), \<open>dr_racing\<close> that
  \<^verbatim>\<open>ConnectOnIoThread\<close> still waits for the first of connect and timeout.  The functions whose names
  end in \<open>Resume\<close> are the continuations, with the result the kernel delivers.  \<open>dr_commands\<close> are the
  commands posted to the driver and not yet handled; \<open>dr_log\<close> lists the socket calls.
  Log lines are not modelled.
\<close>

section \<open>State\<close>

record OutboundFrame =
  of_correlation_id :: u64
  of_buffer :: bytes

text \<open>The client metrics are those of the slot table, which shares them.\<close>

record 'm ChannelState =
  chs_slots :: "'m SlotTable"
  chs_running :: bool
  chs_connect_finished :: bool
  chs_connect_result :: int
  chs_closed :: bool

definition new_ChannelState :: "'m SlotTable \<Rightarrow> ClientMetrics \<Rightarrow> 'm ChannelState" where
  "new_ChannelState slots client_metrics = \<lparr>chs_slots = SetClientMetrics client_metrics slots, chs_running = False,
     chs_connect_finished = False, chs_connect_result = - 1, chs_closed = True\<rparr>"

definition CancelRpcSlot :: "int \<Rightarrow> u64 \<Rightarrow> 'm ChannelState \<Rightarrow> bool \<times> 'm ChannelState" where
  "CancelRpcSlot now correlation_id st =
     (case CancelSlot now correlation_id ''RPC call canceled'' (chs_slots st) of
        (ok, slots) \<Rightarrow> (ok, st\<lparr>chs_slots := slots\<rparr>))"

datatype socket_call = CancelConnect | CancelRead | CancelWrite | ShutdownFd int | CloseFd int

record 'm RpcChannelIoDriver =
  dr_self :: nat
  dr_state :: "'m ChannelState"
  dr_fd :: int
  dr_max_frame_bytes :: nat
  dr_max_outbound_bytes :: nat
  dr_outbound_bytes :: nat
  dr_outbound :: "OutboundFrame list"
  dr_receiver_started :: bool
  dr_receiver_exited :: bool
  dr_writing :: bool
  dr_connect_started :: bool
  dr_connect_operation_exited :: bool
  dr_active_connect :: bool
  dr_active_read :: bool
  dr_close_command_posted :: bool
  dr_close_command_handled :: bool
  dr_racing :: bool
  dr_recv_buffer :: bytes
  dr_write_frame :: "OutboundFrame option"
  dr_commands :: "IoCommand list"
  dr_log :: "socket_call list"

definition new_RpcChannelIoDriver :: "nat \<Rightarrow> 'm ChannelState \<Rightarrow> int \<Rightarrow> nat \<Rightarrow> nat \<Rightarrow> 'm RpcChannelIoDriver" where
  "new_RpcChannelIoDriver self state fd max_frame_bytes max_outbound_bytes =
     \<lparr>dr_self = self, dr_state = state, dr_fd = fd, dr_max_frame_bytes = max_frame_bytes,
      dr_max_outbound_bytes = max_outbound_bytes, dr_outbound_bytes = 0, dr_outbound = [],
      dr_receiver_started = False, dr_receiver_exited = False, dr_writing = False, dr_connect_started = False,
      dr_connect_operation_exited = False, dr_active_connect = False, dr_active_read = False,
      dr_close_command_posted = False, dr_close_command_handled = False, dr_racing = False,
      dr_recv_buffer = [], dr_write_frame = None, dr_commands = [], dr_log = []\<rparr>"

abbreviation dr_slots :: "'m RpcChannelIoDriver \<Rightarrow> 'm SlotTable" where
  "dr_slots d \<equiv> chs_slots (dr_state d)"

abbreviation dr_running :: "'m RpcChannelIoDriver \<Rightarrow> bool" where
  "dr_running d \<equiv> chs_running (dr_state d)"

abbreviation dr_closed :: "'m RpcChannelIoDriver \<Rightarrow> bool" where
  "dr_closed d \<equiv> chs_closed (dr_state d)"

definition upd_state :: "('m ChannelState \<Rightarrow> 'm ChannelState) \<Rightarrow> 'm RpcChannelIoDriver \<Rightarrow> 'm RpcChannelIoDriver" where
  "upd_state f d = d\<lparr>dr_state := f (dr_state d)\<rparr>"

definition upd_slots :: "('m SlotTable \<Rightarrow> 'm SlotTable) \<Rightarrow> 'm RpcChannelIoDriver \<Rightarrow> 'm RpcChannelIoDriver" where
  "upd_slots f = upd_state (\<lambda>st. st\<lparr>chs_slots := f (chs_slots st)\<rparr>)"

text \<open>The posting of a command to the context, as in \<open>PostCommand\<close>.\<close>

definition Driver_post :: "IoCommand \<Rightarrow> 'm RpcChannelIoDriver \<Rightarrow> 'm RpcChannelIoDriver" where
  "Driver_post cmd d = d\<lparr>dr_commands := dr_commands d @ [cmd]\<rparr>"

definition Driver_Start :: "'m RpcChannelIoDriver \<Rightarrow> 'm RpcChannelIoDriver" where
  "Driver_Start d = Driver_post (ChannelStart (dr_self d)) d"

section \<open>Outbound bytes\<close>

text \<open>The compare-exchange loop retries until it succeeds or the limit is reached.\<close>

definition Driver_TryReserveOutboundBytes :: "nat \<Rightarrow> 'm RpcChannelIoDriver \<Rightarrow> bool \<times> 'm RpcChannelIoDriver" where
  "Driver_TryReserveOutboundBytes bytes d =
     (if bytes > dr_max_outbound_bytes d then (False, d)
      else if dr_outbound_bytes d \<le> dr_max_outbound_bytes d - bytes
      then (True, upd_slots (upd_metrics (\<lambda>m. m\<lparr>cm_outbound_bytes := Gauge_Add (cm_outbound_bytes m) (int bytes)\<rparr>))
             (d\<lparr>dr_outbound_bytes := add64 (dr_outbound_bytes d) bytes\<rparr>))
      else (False, d))"

definition ReleaseReservedOutboundBytes :: "nat \<Rightarrow> 'm RpcChannelIoDriver \<Rightarrow> 'm RpcChannelIoDriver" where
  "ReleaseReservedOutboundBytes bytes d =
     upd_slots (upd_metrics (\<lambda>m. m\<lparr>cm_outbound_bytes := Gauge_Add (cm_outbound_bytes m) (- int bytes)\<rparr>))
       (d\<lparr>dr_outbound_bytes := sub64 (dr_outbound_bytes d) bytes\<rparr>)"

definition EnqueueReserved :: "OutboundFrame \<Rightarrow> 'm RpcChannelIoDriver \<Rightarrow> 'm RpcChannelIoDriver" where
  "EnqueueReserved fr d =
     Driver_post (ChannelSendFrame (dr_self d) (of_correlation_id fr) (of_buffer fr)) d"

section \<open>Closing\<close>

text \<open>
  \<^verbatim>\<open>RequestClose\<close> is called by any thread; the exchange of \<^verbatim>\<open>running\<close> and the post by the winner are
  separate steps of a race.
\<close>

definition Driver_RequestClose_exchange :: "'m RpcChannelIoDriver \<Rightarrow> bool \<times> 'm RpcChannelIoDriver" where
  "Driver_RequestClose_exchange d = (dr_running d, upd_state (\<lambda>st. st\<lparr>chs_running := False\<rparr>) d)"

definition Driver_RequestClose_post :: "'m RpcChannelIoDriver \<Rightarrow> 'm RpcChannelIoDriver" where
  "Driver_RequestClose_post d = Driver_post (ChannelClose (dr_self d)) (d\<lparr>dr_close_command_posted := True\<rparr>)"

definition Driver_RequestClose :: "'m RpcChannelIoDriver \<Rightarrow> 'm RpcChannelIoDriver" where
  "Driver_RequestClose d =
     (case Driver_RequestClose_exchange d of
        (True, d) \<Rightarrow> Driver_RequestClose_post d
      | (False, d) \<Rightarrow> d)"

definition close_fd :: "'m RpcChannelIoDriver \<Rightarrow> 'm RpcChannelIoDriver" where
  "close_fd d =
     (let current_fd = dr_fd d; d = d\<lparr>dr_fd := - 1\<rparr>
      in if current_fd \<ge> 0 then d\<lparr>dr_log := dr_log d @ [CloseFd current_fd]\<rparr> else d)"

text \<open>
  \<^verbatim>\<open>WaitClosed\<close> returns at once on the IO thread itself; elsewhere it waits for \<^verbatim>\<open>closed\<close>, and after two
  seconds closes the socket itself.
\<close>

definition WaitClosed :: "bool \<Rightarrow> bool \<Rightarrow> 'm RpcChannelIoDriver \<Rightarrow> 'm RpcChannelIoDriver option" where
  "WaitClosed on_io_thread timed_out d =
     (if on_io_thread then Some d
      else if dr_closed d then Some d
      else if timed_out then Some (upd_state (\<lambda>st. st\<lparr>chs_closed := True\<rparr>) (close_fd d))
      else None)"

definition Driver_TryFinishCloseOnIoThread :: "'m RpcChannelIoDriver \<Rightarrow> 'm RpcChannelIoDriver" where
  "Driver_TryFinishCloseOnIoThread d =
     (if dr_running d \<or> \<not> dr_receiver_exited d \<or> dr_writing d \<or>
         (dr_connect_started d \<and> \<not> dr_connect_operation_exited d) then d
      else if dr_close_command_posted d \<and> \<not> dr_close_command_handled d then d
      else upd_state (\<lambda>st. st\<lparr>chs_closed := True\<rparr>) (close_fd d))"

definition FinishConnectOnIoThread :: "int \<Rightarrow> 'm RpcChannelIoDriver \<Rightarrow> 'm RpcChannelIoDriver" where
  "FinishConnectOnIoThread result =
     upd_state (\<lambda>st. if \<not> chs_connect_finished st
                     then st\<lparr>chs_connect_result := result, chs_connect_finished := True\<rparr> else st)"

definition CancelPendingConnectOnIoThread :: "'m RpcChannelIoDriver \<Rightarrow> 'm RpcChannelIoDriver" where
  "CancelPendingConnectOnIoThread d =
     (if dr_active_connect d then d\<lparr>dr_log := dr_log d @ [CancelConnect]\<rparr> else d)"

fun fail_frames :: "int \<Rightarrow> int \<Rightarrow> string \<Rightarrow> OutboundFrame list \<Rightarrow> 'm RpcChannelIoDriver \<Rightarrow> 'm RpcChannelIoDriver" where
  "fail_frames now error_code error_message [] d = d"
| "fail_frames now error_code error_message (fr # frames) d =
     fail_frames now error_code error_message frames
       (upd_slots (\<lambda>s. snd (FailSlot now (of_correlation_id fr) error_code error_message s))
         (ReleaseReservedOutboundBytes (length (of_buffer fr)) d))"

definition FailAndClearOutboundOnIoThread :: "int \<Rightarrow> int \<Rightarrow> string \<Rightarrow> 'm RpcChannelIoDriver \<Rightarrow> 'm RpcChannelIoDriver" where
  "FailAndClearOutboundOnIoThread now error_code error_message d =
     (fail_frames now error_code error_message (dr_outbound d) d)\<lparr>dr_outbound := []\<rparr>"

text \<open>The cancellations and the shutdown of a failing driver: socket calls only.\<close>

definition interrupt_socket :: "'m RpcChannelIoDriver \<Rightarrow> 'm RpcChannelIoDriver" where
  "interrupt_socket d =
     (let d = CancelPendingConnectOnIoThread d;
          d = (if dr_active_read d then d\<lparr>dr_log := dr_log d @ [CancelRead]\<rparr> else d);
          d = (if dr_write_frame d \<noteq> None then d\<lparr>dr_log := dr_log d @ [CancelWrite]\<rparr> else d)
      in if dr_fd d \<ge> 0 then d\<lparr>dr_log := dr_log d @ [ShutdownFd (dr_fd d)]\<rparr> else d)"

definition HandleTerminalFailureOnIoThread :: "int \<Rightarrow> int \<Rightarrow> string \<Rightarrow> 'm RpcChannelIoDriver \<Rightarrow> 'm RpcChannelIoDriver" where
  "HandleTerminalFailureOnIoThread now error_code error_message d =
     (let d = upd_state (\<lambda>st. st\<lparr>chs_running := False\<rparr>) d;
          d = interrupt_socket d;
          d = (if \<not> dr_receiver_started d then d\<lparr>dr_receiver_exited := True\<rparr> else d);
          d = upd_slots (\<lambda>s. snd (FailAllActiveSlots now error_code error_message s)) d;
          d = FailAndClearOutboundOnIoThread now error_code error_message d
      in Driver_TryFinishCloseOnIoThread d)"

definition Driver_BeginCloseOnIoThread :: "int \<Rightarrow> 'm RpcChannelIoDriver \<Rightarrow> 'm RpcChannelIoDriver" where
  "Driver_BeginCloseOnIoThread now d =
     (let d = HandleTerminalFailureOnIoThread now RPC_ECONN_FAILED ''Connection closed'' d;
          d = d\<lparr>dr_close_command_handled := True\<rparr>
      in Driver_TryFinishCloseOnIoThread d)"

section \<open>Writing\<close>

definition Driver_kMaxBatchBytes :: nat where "Driver_kMaxBatchBytes = 64 * 1024"

text \<open>Queued frames are merged into the frame at the front while it is below the batch size.\<close>

fun merge_frames :: "OutboundFrame \<Rightarrow> OutboundFrame list \<Rightarrow> OutboundFrame \<times> OutboundFrame list" where
  "merge_frames fr [] = (fr, [])"
| "merge_frames fr (f # fs) =
     (if length (of_buffer fr) < Driver_kMaxBatchBytes
      then merge_frames (fr\<lparr>of_buffer := of_buffer fr @ of_buffer f\<rparr>) fs else (fr, f # fs))"

lemma merge_frames_length: "length (snd (merge_frames fr fs)) \<le> length fs"
  by (induction fr fs rule: merge_frames.induct) auto

text \<open>
  \<open>StartNextWriteOnIoThread\<close> with the coroutine \<open>WriteFrame\<close> up to its suspension.  An empty fr
  ends the coroutine at once, which starts the next one.
\<close>

function Driver_StartNextWriteOnIoThread :: "'m RpcChannelIoDriver \<Rightarrow> 'm RpcChannelIoDriver" where
  "Driver_StartNextWriteOnIoThread d =
     (case dr_outbound d of
        [] \<Rightarrow> d
      | f # fs \<Rightarrow>
          if dr_writing d \<or> \<not> dr_running d then d
          else let (fr, rest) = merge_frames f fs;
                   d = d\<lparr>dr_writing := True, dr_outbound := rest\<rparr>
               in if of_buffer fr \<noteq> [] \<and> dr_running d then d\<lparr>dr_write_frame := Some fr\<rparr>
                  else Driver_TryFinishCloseOnIoThread (Driver_StartNextWriteOnIoThread (d\<lparr>dr_writing := False\<rparr>)))"
  by pat_completeness auto
termination
proof (relation "measure (\<lambda>d. length (dr_outbound d))", goal_cases)
  case (2 d f fs r fr rest x)
  then have "length rest \<le> length fs" using merge_frames_length [of f fs] by (metis snd_conv)
  then show ?case using 2 by auto
qed simp

declare Driver_StartNextWriteOnIoThread.simps [simp del]

definition Driver_WriteFrame_end :: "'m RpcChannelIoDriver \<Rightarrow> 'm RpcChannelIoDriver" where
  "Driver_WriteFrame_end d =
     Driver_TryFinishCloseOnIoThread (Driver_StartNextWriteOnIoThread (d\<lparr>dr_writing := False\<rparr>))"

definition Driver_WriteResume :: "int \<Rightarrow> int \<Rightarrow> 'm RpcChannelIoDriver \<Rightarrow> 'm RpcChannelIoDriver" where
  "Driver_WriteResume now written d =
     (case dr_write_frame d of
        None \<Rightarrow> d
      | Some fr \<Rightarrow>
          let d = d\<lparr>dr_write_frame := None\<rparr>
          in if \<not> dr_running d then Driver_WriteFrame_end d
             else if written \<le> 0
             then Driver_WriteFrame_end
                    (HandleTerminalFailureOnIoThread now RPC_ECONN_FAILED ''Failed to write RPC request'' d)
             else let consumed = nat written;
                      fr = fr\<lparr>of_buffer := drop consumed (of_buffer fr)\<rparr>;
                      d = ReleaseReservedOutboundBytes consumed d
                  in if of_buffer fr \<noteq> [] \<and> dr_running d then d\<lparr>dr_write_frame := Some fr\<rparr>
                     else Driver_WriteFrame_end d)"

definition SendFrameOnIoThread :: "int \<Rightarrow> u64 \<Rightarrow> bytes \<Rightarrow> 'm RpcChannelIoDriver \<Rightarrow> 'm RpcChannelIoDriver" where
  "SendFrameOnIoThread now correlation_id buffer d =
     (if \<not> dr_running d
      then upd_slots (\<lambda>s. snd (FailSlot now correlation_id RPC_ECONN_FAILED ''Connection closed'' s))
             (ReleaseReservedOutboundBytes (length buffer) d)
      else Driver_StartNextWriteOnIoThread
             (d\<lparr>dr_outbound := dr_outbound d @ [\<lparr>of_correlation_id = correlation_id, of_buffer = buffer\<rparr>]\<rparr>))"

section \<open>Receiving\<close>

text \<open>Protobuf, as the client uses it.\<close>

record 'm ClientCodec =
  cx_ser_meta :: "RpcMeta \<Rightarrow> bytes option"
  cx_par_meta :: "bytes \<Rightarrow> RpcMeta option"
  cx_ser_msg :: "'m \<Rightarrow> bytes option"
  cx_parse_msg :: "bytes \<Rightarrow> bool \<times> 'm"

definition complete_response ::
  "'m ClientCodec \<Rightarrow> int \<Rightarrow> FrameParseResult \<Rightarrow> 'm SlotTable \<Rightarrow> 'm SlotTable" where
  "complete_response cx now result s =
     snd (CompleteResponseSlot (cx_parse_msg cx) now (m_correlation_id (meta result)) (body_iobuf result)
       (meta result) (attachment_iobuf result) s)"

text \<open>The loop over the frames of the buffer; the result says whether the coroutine returned.\<close>

function response_loop :: "'m ClientCodec \<Rightarrow> int \<Rightarrow> 'm RpcChannelIoDriver \<Rightarrow> bool \<times> 'm RpcChannelIoDriver" where
  "response_loop cx now d =
     (let result = TryParseRpcFrame (cx_par_meta cx) (dr_recv_buffer d) (dr_max_frame_bytes d)
      in if status result = NEED_MORE_DATA then (False, d)
         else if status result \<noteq> SUCCESS
         then (True, HandleTerminalFailureOnIoThread now RPC_ECONN_FAILED ''Invalid RPC response frame''
                 (d\<lparr>dr_receiver_exited := True\<rparr>))
         else if m_msg_type (meta result) \<noteq> RPC_RESPONSE
         then (True, HandleTerminalFailureOnIoThread now RPC_ECONN_FAILED
                 ''Received a non-response RPC frame on client channel'' (d\<lparr>dr_receiver_exited := True\<rparr>))
         else response_loop cx now (upd_slots (complete_response cx now result)
                (d\<lparr>dr_recv_buffer := drop (total_frame_bytes result) (dr_recv_buffer d)\<rparr>)))"
  by pat_completeness auto
termination
proof (relation "measure (\<lambda>(cx, now, d). length (dr_recv_buffer d))", goal_cases)
  case (2 cx now d result)
  have s: "status (TryParseRpcFrame (cx_par_meta cx) (dr_recv_buffer d) (dr_max_frame_bytes d)) = SUCCESS"
    using 2 by simp
  have "0 < total_frame_bytes result" "total_frame_bytes result \<le> length (dr_recv_buffer d)"
    using wire.consumed_pos [OF s] wire.consumed_le [OF s] 2(1) by simp_all
  then show ?case by (simp add: upd_slots_def upd_state_def)
qed simp

declare response_loop.simps [simp del]

text \<open>The head of the outer loop, up to the suspension in the read, and the code after the loop.\<close>

definition Driver_ReceiveLoop :: "int \<Rightarrow> 'm RpcChannelIoDriver \<Rightarrow> 'm RpcChannelIoDriver" where
  "Driver_ReceiveLoop now d =
     (if dr_running d then d\<lparr>dr_active_read := True\<rparr>
      else let d = d\<lparr>dr_receiver_exited := True\<rparr>
           in if dr_running d
              then HandleTerminalFailureOnIoThread now RPC_ECONN_FAILED ''Connection closed while receiving response'' d
              else Driver_TryFinishCloseOnIoThread d)"

definition Driver_ReadResume :: "'m ClientCodec \<Rightarrow> int \<Rightarrow> int \<Rightarrow> bytes \<Rightarrow> 'm RpcChannelIoDriver \<Rightarrow> 'm RpcChannelIoDriver" where
  "Driver_ReadResume cx now bytes_read data d =
     (let d = d\<lparr>dr_active_read := False, dr_recv_buffer := dr_recv_buffer d @ data\<rparr>
      in if bytes_read \<le> 0
         then let d = d\<lparr>dr_receiver_exited := True\<rparr>
              in if dr_running d
                 then HandleTerminalFailureOnIoThread now RPC_ECONN_FAILED
                        (if bytes_read = 0 then ''RPC peer closed connection'' else ''Failed to read RPC response'') d
                 else Driver_TryFinishCloseOnIoThread d
         else case response_loop cx now d of
                (True, d) \<Rightarrow> d
              | (False, d) \<Rightarrow> Driver_ReceiveLoop now d)"

section \<open>Connecting\<close>

definition ECANCELED :: int where "ECANCELED = 125"
definition ETIMEDOUT :: int where "ETIMEDOUT = 110"

text \<open>
  \<open>StartOnIoThread\<close> runs \<^verbatim>\<open>ConnectOnIoThread\<close> up to the race of the connect operation with the
  timeout.  \<open>ConnectOnIoThread_resume\<close> is its continuation with the result of the race, which
  \<^verbatim>\<open>when_any\<close> delivers once, from the operation that completes first.
\<close>

definition Driver_StartOnIoThread :: "'m RpcChannelIoDriver \<Rightarrow> 'm RpcChannelIoDriver" where
  "Driver_StartOnIoThread d =
     (if \<not> dr_running d
      then Driver_TryFinishCloseOnIoThread
             ((FinishConnectOnIoThread (- ECANCELED) d)\<lparr>dr_receiver_exited := True\<rparr>)
      else d\<lparr>dr_connect_started := True, dr_active_connect := True, dr_racing := True\<rparr>)"

definition ConnectOnIoThread_resume :: "int \<Rightarrow> int \<Rightarrow> 'm RpcChannelIoDriver \<Rightarrow> 'm RpcChannelIoDriver" where
  "ConnectOnIoThread_resume now connect_result d =
     (let d = d\<lparr>dr_racing := False\<rparr>
      in if connect_result \<noteq> 0 \<or> \<not> dr_running d
         then let d = HandleTerminalFailureOnIoThread now RPC_ECONN_FAILED ''Failed to connect RPC channel'' d;
                  d = FinishConnectOnIoThread (if connect_result = 0 then - ECANCELED else connect_result) d;
                  d = d\<lparr>dr_receiver_exited := True\<rparr>
              in Driver_TryFinishCloseOnIoThread d
         else Driver_ReceiveLoop now ((FinishConnectOnIoThread 0 d)\<lparr>dr_receiver_started := True\<rparr>))"

definition ConnectResume :: "int \<Rightarrow> int \<Rightarrow> 'm RpcChannelIoDriver \<Rightarrow> 'm RpcChannelIoDriver" where
  "ConnectResume now result d =
     (let d = Driver_TryFinishCloseOnIoThread (d\<lparr>dr_active_connect := False, dr_connect_operation_exited := True\<rparr>)
      in if dr_racing d then ConnectOnIoThread_resume now result d else d)"

definition ConnectTimeoutResume :: "int \<Rightarrow> 'm RpcChannelIoDriver \<Rightarrow> 'm RpcChannelIoDriver" where
  "ConnectTimeoutResume now d = (if dr_racing d then ConnectOnIoThread_resume now (- ETIMEDOUT) d else d)"

fun Driver_DispatchCommand :: "int \<Rightarrow> IoCommand \<Rightarrow> 'm RpcChannelIoDriver \<Rightarrow> 'm RpcChannelIoDriver" where
  "Driver_DispatchCommand now (ChannelStart k) d = Driver_StartOnIoThread d"
| "Driver_DispatchCommand now (ChannelSendFrame k correlation_id payload) d = SendFrameOnIoThread now correlation_id payload d"
| "Driver_DispatchCommand now (ChannelClose k) d = Driver_BeginCloseOnIoThread now d"
| "Driver_DispatchCommand now cmd d = d"

end
