(* ===== verification/Client_Channel.thy ===== *)
theory Client_Channel
  imports Client_Driver
begin

text \<open>
  \<^verbatim>\<open>rpc/core/channel_core.hpp\<close> and \<^verbatim>\<open>rpc/core/channel_async.hpp\<close>: the facade of a client channel.

  \<open>ChannelWorld\<close> holds the fields of \<^verbatim>\<open>RpcChannel\<close>, the state and driver of its last \<open>Init\<close>, and the
  threads that are inside one of its methods: \<open>ch_callers\<close> between the sections of \<open>StartUnaryCall\<close>,
  \<open>ch_closers\<close> between those of \<open>Close\<close>.  \<open>StartUnaryCall\<close> is the composition of four sections; the
  step relation at the end schedules them separately, so that other threads run between the
  allocation of the slot, the reservation of its bytes, its publication and the post of its frame.
  The driver of an earlier \<open>Init\<close> is taken to be finished when the next one starts.

  Protobuf is the argument \<open>cx\<close>; the default runtime, the new socket and the capacity of the slot
  table (65536 in the code) are arguments of \<open>Init\<close>.
\<close>

section \<open>Options and facade\<close>

record RpcChannelOptions =
  co_connect_timeout :: int
  co_default_rpc_timeout :: int
  co_max_frame_bytes :: nat
  co_max_in_flight :: nat
  co_max_outbound_bytes :: nat
  co_tcp_no_delay :: bool

definition default_RpcChannelOptions :: RpcChannelOptions where
  "default_RpcChannelOptions = \<lparr>co_connect_timeout = 1000, co_default_rpc_timeout = 5000,
     co_max_frame_bytes = kDefaultMaxRpcFrameBytes, co_max_in_flight = 65536,
     co_max_outbound_bytes = 16 * 1024 * 1024, co_tcp_no_delay = True\<rparr>"

definition INT_MAX :: int where "INT_MAX = 2 ^ 31 - 1"

definition RpcChannelOptions_IsValid :: "RpcChannelOptions \<Rightarrow> bool" where
  "RpcChannelOptions_IsValid opt =
     (co_connect_timeout opt > 0 \<and> co_connect_timeout opt \<le> INT_MAX \<and> co_default_rpc_timeout opt > 0 \<and>
      co_max_frame_bytes opt \<ge> kRpcHeaderBytes \<and> co_max_in_flight opt > 0 \<and> co_max_in_flight opt \<le> 65536 \<and>
      co_max_outbound_bytes opt \<ge> kRpcHeaderBytes)"

datatype StartOutcome = StartInFlight | FailedInline | ResolvedBySlot

record StartResult =
  sr_correlation_id :: u64
  sr_outcome :: StartOutcome

definition default_StartResult :: StartResult where
  "default_StartResult = \<lparr>sr_correlation_id = 0, sr_outcome = FailedInline\<rparr>"

text \<open>A context, as the channel sees it: is its scheduler running, its executor, its timer keeper.\<close>

record ChannelContext =
  ctx_running :: bool
  ctx_executor :: ptr
  ctx_timer_keeper :: TimerKeeper

text \<open>The arguments of one unary call.\<close>

record 'm UnaryCall =
  uc_service_name :: string
  uc_method_name :: string
  uc_controller :: ptr
  uc_request :: "'m option"
  uc_response :: ptr
  uc_task :: ptr
  uc_target :: ptr
  uc_raw_request_body :: "bytes option"
  uc_raw_response_body :: ptr

datatype 'm caller =
  CallAdmitted "'m UnaryCall" u64
| CallReserved "'m UnaryCall" u64 bytes
| CallPublished u64 bytes

datatype closer = ClosePosting | CloseWaiting

record 'm ChannelWorld =
  ch_options :: RpcChannelOptions
  ch_ctx :: "ChannelContext option"
  ch_timer_keeper :: bool
  ch_runtime :: bool
  ch_driver :: bool
  ch_io :: "'m RpcChannelIoDriver"
  ch_callers :: "'m caller list"
  ch_closers :: "closer list"
  ch_events :: "controller_event list"

abbreviation ch_slots :: "'m ChannelWorld \<Rightarrow> 'm SlotTable" where
  "ch_slots w \<equiv> dr_slots (ch_io w)"

definition upd_io :: "('m RpcChannelIoDriver \<Rightarrow> 'm RpcChannelIoDriver) \<Rightarrow> 'm ChannelWorld \<Rightarrow> 'm ChannelWorld" where
  "upd_io f w = w\<lparr>ch_io := f (ch_io w)\<rparr>"

definition on_slots :: "('m SlotTable \<Rightarrow> 'm SlotTable) \<Rightarrow> 'm ChannelWorld \<Rightarrow> 'm ChannelWorld" where
  "on_slots f = upd_io (upd_slots f)"

definition new_RpcChannel ::
  "nat \<Rightarrow> (nat \<Rightarrow> RpcController) \<Rightarrow> (nat \<Rightarrow> 'm) \<Rightarrow> (nat \<Rightarrow> bytes) \<Rightarrow> 'm ChannelWorld" where
  "new_RpcChannel capacity controllers messages raw_bodies =
     \<lparr>ch_options = default_RpcChannelOptions, ch_ctx = None, ch_timer_keeper = False, ch_runtime = False,
      ch_driver = False,
      ch_io = new_RpcChannelIoDriver 0
        (new_ChannelState (new_SlotTable capacity controllers messages raw_bodies) new_ClientMetrics) (- 1) 0 0,
      ch_callers = [], ch_closers = [], ch_events = []\<rparr>"

section \<open>Runtime binding, closing, initialisation\<close>

text \<open>\<open>runtime\<close> is the context that the running default runtime offers, if there is one.\<close>

definition BindDefaultRuntime :: "ChannelContext option \<Rightarrow> 'm ChannelWorld \<Rightarrow> bool \<times> 'm ChannelWorld" where
  "BindDefaultRuntime runtime w =
     (if ch_ctx w \<noteq> None then (True, w)
      else case runtime of
             None \<Rightarrow> (False, w\<lparr>ch_runtime := False\<rparr>)
           | Some c \<Rightarrow> (True, w\<lparr>ch_runtime := True, ch_ctx := Some c, ch_timer_keeper := True\<rparr>))"

definition ReleaseDefaultRuntimeBinding :: "'m ChannelWorld \<Rightarrow> 'm ChannelWorld" where
  "ReleaseDefaultRuntimeBinding w =
     (if ch_runtime w then w\<lparr>ch_runtime := False, ch_ctx := None, ch_timer_keeper := False\<rparr> else w)"

definition Close_reset :: "'m ChannelWorld \<Rightarrow> 'm ChannelWorld" where
  "Close_reset w = ReleaseDefaultRuntimeBinding (w\<lparr>ch_driver := False\<rparr>)"

text \<open>\<open>Close\<close> without interruption; \<open>None\<close> while it still waits.\<close>

definition Close :: "bool \<Rightarrow> bool \<Rightarrow> 'm ChannelWorld \<Rightarrow> 'm ChannelWorld option" where
  "Close on_io_thread timed_out w =
     (if ch_driver w
      then case WaitClosed on_io_thread timed_out (Driver_RequestClose (ch_io w)) of
             None \<Rightarrow> None
           | Some d \<Rightarrow> Some (Close_reset (w\<lparr>ch_io := d\<rparr>))
      else Some (Close_reset w))"

definition fd_of :: "'m ChannelWorld \<Rightarrow> int" where
  "fd_of w = (if ch_driver w then dr_fd (ch_io w) else - 1)"

text \<open>The state of a fresh connection: a new slot table over the same objects and metrics.\<close>

definition fresh_state :: "nat \<Rightarrow> TimerKeeper \<Rightarrow> 'm SlotTable \<Rightarrow> 'm ChannelState" where
  "fresh_state capacity keeper s =
     (let st = new_ChannelState (SetDeadlineTimerKeeper keeper
                 (new_SlotTable capacity (st_controllers s) (st_messages s) (st_raw_bodies s)))
               (case st_client_metrics s of Some m \<Rightarrow> m | None \<Rightarrow> new_ClientMetrics)
      in st\<lparr>chs_closed := False, chs_running := True\<rparr>)"

text \<open>\<open>Init\<close> after its \<open>Close\<close>, up to the wait for the connect result; \<open>fd\<close> is the new socket.\<close>

definition Init_open ::
  "nat \<Rightarrow> nat \<Rightarrow> RpcChannelOptions \<Rightarrow> ChannelContext option \<Rightarrow> int \<Rightarrow> 'm ChannelWorld \<Rightarrow> bool \<times> 'm ChannelWorld" where
  "Init_open capacity self requested_options runtime fd w =
     (case BindDefaultRuntime runtime w of
        (False, w) \<Rightarrow> (False, w)
      | (True, w) \<Rightarrow>
          (case ch_ctx w of
             None \<Rightarrow> (False, w)
           | Some c \<Rightarrow>
               if \<not> ctx_running c then (False, ReleaseDefaultRuntimeBinding w)
               else let w = w\<lparr>ch_options := requested_options\<rparr>
                    in if fd < 0 then (False, ReleaseDefaultRuntimeBinding w)
                       else let state = fresh_state capacity (ctx_timer_keeper c) (ch_slots w);
                                driver = new_RpcChannelIoDriver self state fd
                                  (co_max_frame_bytes requested_options) (co_max_outbound_bytes requested_options)
                            in (True, w\<lparr>ch_io := Driver_Start driver, ch_driver := True\<rparr>)))"

definition Init ::
  "nat \<Rightarrow> nat \<Rightarrow> RpcChannelOptions option \<Rightarrow> ChannelContext option \<Rightarrow> int \<Rightarrow> 'm ChannelWorld \<Rightarrow>
   (bool \<times> 'm ChannelWorld) option" where
  "Init capacity self options runtime fd w =
     (let requested_options = (case options of Some opt \<Rightarrow> opt | None \<Rightarrow> default_RpcChannelOptions)
      in if \<not> RpcChannelOptions_IsValid requested_options then Some (False, w)
         else map_option (Init_open capacity self requested_options runtime fd) (Close False True w))"

text \<open>The end of the wait: \<open>timed_out\<close> says that the grace period elapsed first.\<close>

definition Init_wait :: "bool \<Rightarrow> 'm ChannelState \<Rightarrow> (int \<times> 'm ChannelState) option" where
  "Init_wait timed_out st =
     (if chs_connect_finished st then Some (if chs_connect_result st = 0 then 0 else - 1, st)
      else if timed_out then Some (- 1, st\<lparr>chs_connect_result := - ETIMEDOUT, chs_connect_finished := True\<rparr>)
      else None)"

section \<open>Unary calls\<close>

definition SetInlineFailure :: "int \<Rightarrow> ptr \<Rightarrow> string \<Rightarrow> int \<Rightarrow> 'm ChannelWorld \<Rightarrow> 'm ChannelWorld" where
  "SetInlineFailure now controller message error_code w =
     (let (latency_us, w) =
        (case controller of
           None \<Rightarrow> (0, w)
         | Some c \<Rightarrow>
             let k = SetFailed error_code message (st_controllers (ch_slots w) c);
                 k = set_latency_us (CalculateElapsedUs now k) k;
                 (cb, k') = TakeNotifyOnCompletion k
             in (word_of_int (c_latency_us k),
                 (on_slots (upd_controller c (\<lambda>_. k')) w)\<lparr>ch_events := ch_events w @ RunNotifyCallback cb\<rparr>))
      in on_slots (upd_metrics (RecordCompletion error_code latency_us)) w)"

definition ResolveArmingFailure :: "int \<Rightarrow> u64 \<Rightarrow> int \<Rightarrow> string \<Rightarrow> 'm ChannelWorld \<Rightarrow> StartResult \<times> 'm ChannelWorld" where
  "ResolveArmingFailure now correlation_id error_code message w =
     (case PublishSlot now correlation_id (ch_slots w) of
        (publish, s) \<Rightarrow>
          let w = on_slots (\<lambda>_. s) w;
              w = (if publish = kInFlight then on_slots (\<lambda>s. snd (FailSlot now correlation_id error_code message s)) w else w)
          in (\<lparr>sr_correlation_id = correlation_id, sr_outcome = ResolvedBySlot\<rparr>, w))"

text \<open>
  The first section: checks, allocation of the slot, binding of the controller.  \<open>Inl\<close> is a return;
  a controller that was cancelled before the binding cancels the slot through the channel state.
\<close>

definition bind_controller :: "int \<Rightarrow> ptr \<Rightarrow> u64 \<Rightarrow> 'm ChannelWorld \<Rightarrow> bool \<times> 'm ChannelWorld" where
  "bind_controller now controller correlation_id w =
     (case controller of
        None \<Rightarrow> (True, w)
      | Some c \<Rightarrow>
          let k = (st_controllers (ch_slots w) c)\<lparr>c_correlation_id := correlation_id\<rparr>
          in case BindActiveSlot (\<lambda>_. True) (dr_self (ch_io w)) correlation_id k of
               (ok, k, events) \<Rightarrow>
                 let w = on_slots (upd_controller c (\<lambda>_. k)) w
                 in (ok, upd_io (upd_state (deliver (dr_self (ch_io w)) (CancelRpcSlot now) events)) w))"

definition start_admit :: "int \<Rightarrow> 'm UnaryCall \<Rightarrow> 'm ChannelWorld \<Rightarrow> (StartResult + u64) \<times> 'm ChannelWorld" where
  "start_admit now call w =
     (let w = on_slots (upd_metrics (\<lambda>m. m\<lparr>cm_calls_started := Counter_Add (cm_calls_started m) 1\<rparr>)) w;
          w = (case uc_controller call of None \<Rightarrow> w | Some c \<Rightarrow> on_slots (upd_controller c (RecordStart now)) w);
          failed = (\<lambda>message code w. (Inl default_StartResult, SetInlineFailure now (uc_controller call) message code w))
      in if (case uc_controller call of None \<Rightarrow> False | Some c \<Rightarrow> IsCanceled (st_controllers (ch_slots w) c))
         then failed ''RPC call canceled before send'' RPC_ECANCELED w
         else if \<not> ch_driver w \<or> \<not> dr_running (ch_io w) then failed ''Connection closed'' RPC_ECONN_FAILED w
         else case AllocateSlot (uc_task call) (uc_response call) (uc_controller call) (uc_target call)
                     (uc_raw_response_body call) (co_max_in_flight (ch_options w)) (ch_slots w) of
           (correlation_id, s) \<Rightarrow>
             let w = on_slots (\<lambda>_. s) w
             in if correlation_id = 0 then failed ''RPC max_in_flight limit reached'' RPC_EOVERLOAD w
                else case bind_controller now (uc_controller call) correlation_id w of
                  (False, w) \<Rightarrow>
                    failed ''RpcController is already bound to an active RPC'' RPC_EINTERNAL
                      (on_slots (\<lambda>s. snd (DiscardArmingSlot correlation_id s)) w)
                | (True, w) \<Rightarrow> (Inr correlation_id, w))"

text \<open>The second section: the deadline timer, the frame and the reservation of its bytes.\<close>

definition call_timeout_ms :: "'m UnaryCall \<Rightarrow> 'm ChannelWorld \<Rightarrow> int" where
  "call_timeout_ms call w =
     (case uc_controller call of
        None \<Rightarrow> co_default_rpc_timeout (ch_options w)
      | Some c \<Rightarrow> if c_timeout_ms (st_controllers (ch_slots w) c) > 0 then c_timeout_ms (st_controllers (ch_slots w) c)
                  else co_default_rpc_timeout (ch_options w))"

definition call_meta :: "'m UnaryCall \<Rightarrow> u64 \<Rightarrow> 'm ChannelWorld \<Rightarrow> RpcMeta" where
  "call_meta call correlation_id w =
     (let m = empty_meta\<lparr>m_msg_type := RPC_REQUEST, m_correlation_id := correlation_id,
            m_service_name := uc_service_name call, m_method_name := uc_method_name call,
            m_timeout_ms := call_timeout_ms call w\<rparr>
      in case uc_controller call of
           None \<Rightarrow> m
         | Some c \<Rightarrow>
             let k = st_controllers (ch_slots w) c; m = m\<lparr>m_log_id := c_log_id k\<rparr>
             in if c_request_headers k \<noteq> [] then m\<lparr>m_headers := c_request_headers k\<rparr> else m)"

definition pack_call :: "'m ClientCodec \<Rightarrow> 'm UnaryCall \<Rightarrow> u64 \<Rightarrow> 'm ChannelWorld \<Rightarrow> bool \<times> bytes" where
  "pack_call cx call correlation_id w =
     (let m = call_meta call correlation_id w;
          attachment = map_option (\<lambda>c. c_request_attachment (st_controllers (ch_slots w) c)) (uc_controller call);
          limit = co_max_frame_bytes (ch_options w);
          (packed, _, out) =
            (case uc_request call of
               Some request \<Rightarrow> PackRpcFrame (cx_ser_meta cx) (cx_ser_msg cx) m (Some request) attachment [] limit
             | None \<Rightarrow>
                 (case uc_raw_request_body call of
                    Some body \<Rightarrow> PackRpcFrameRaw (cx_ser_meta cx) m body attachment [] limit
                  | None \<Rightarrow> PackRpcFrameRaw (cx_ser_meta cx) m [] attachment [] limit))
      in (packed, out))"

definition add_deadline :: "int \<Rightarrow> u64 \<Rightarrow> 'm UnaryCall \<Rightarrow> u64 \<Rightarrow> 'm ChannelWorld \<Rightarrow> u64 \<times> 'm ChannelWorld" where
  "add_deadline now rnd call correlation_id w =
     (case st_deadline_timer_keeper (ch_slots w) of
        None \<Rightarrow> (0, w)
      | Some keeper \<Rightarrow>
          (case AddTimerCallback now rnd (call_timeout_ms call w * 1000) (unat correlation_id) keeper of
             (timer_id, keeper) \<Rightarrow> (timer_id, on_slots (SetDeadlineTimerKeeper keeper) w)))"

definition start_arm ::
  "'m ClientCodec \<Rightarrow> int \<Rightarrow> u64 \<Rightarrow> 'm UnaryCall \<Rightarrow> u64 \<Rightarrow> 'm ChannelWorld \<Rightarrow> (StartResult + bytes) \<times> 'm ChannelWorld" where
  "start_arm cx now rnd call correlation_id w =
     (let fail = (\<lambda>code message w. case ResolveArmingFailure now correlation_id code message w of (r, w) \<Rightarrow> (Inl r, w))
      in if \<not> ch_timer_keeper w then fail RPC_EINTERNAL ''RPC deadline timer is unavailable'' w
         else case add_deadline now rnd call correlation_id w of (deadline_timer_id, w) \<Rightarrow>
           (case AttachDeadlineTimer correlation_id deadline_timer_id (ch_slots w) of
              (False, s) \<Rightarrow>
                fail RPC_EINTERNAL ''Failed to install RPC deadline timer''
                  (on_slots (\<lambda>_. s\<lparr>st_deadline_timer_keeper :=
                     map_option (CancelTimer deadline_timer_id) (st_deadline_timer_keeper s)\<rparr>) w)
            | (True, s) \<Rightarrow>
                let w = on_slots (\<lambda>_. s) w
                in case pack_call cx call correlation_id w of
                     (False, _) \<Rightarrow> fail RPC_EINVALID_DATA ''RPC request frame exceeds max_frame_bytes'' w
                   | (True, fr) \<Rightarrow>
                       (case Driver_TryReserveOutboundBytes (length fr) (ch_io w) of
                          (False, d) \<Rightarrow> fail RPC_EOVERLOAD ''RPC max_outbound_bytes limit reached'' (w\<lparr>ch_io := d\<rparr>)
                        | (True, d) \<Rightarrow> (Inr fr, w\<lparr>ch_io := d\<rparr>))))"

text \<open>The third section publishes the slot, the fourth hands the frame to the IO thread.\<close>

definition start_publish ::
  "int \<Rightarrow> 'm UnaryCall \<Rightarrow> u64 \<Rightarrow> bytes \<Rightarrow> 'm ChannelWorld \<Rightarrow> (StartResult + unit) \<times> 'm ChannelWorld" where
  "start_publish now call correlation_id fr w =
     (case PublishSlot now correlation_id (ch_slots w) of
        (publish, s) \<Rightarrow>
          let w = on_slots (\<lambda>_. s) w
          in if publish = kInvalid
             then let w = upd_io (ReleaseReservedOutboundBytes (length fr)) w;
                      w = on_slots (\<lambda>s. snd (DiscardArmingSlot correlation_id s)) w
                  in (Inl default_StartResult,
                      SetInlineFailure now (uc_controller call) ''Failed to publish RPC slot'' RPC_EINTERNAL w)
             else if publish \<noteq> kInFlight
             then (Inl \<lparr>sr_correlation_id = correlation_id, sr_outcome = ResolvedBySlot\<rparr>,
                   upd_io (ReleaseReservedOutboundBytes (length fr)) w)
             else (Inr (), w))"

definition start_enqueue :: "u64 \<Rightarrow> bytes \<Rightarrow> 'm ChannelWorld \<Rightarrow> StartResult \<times> 'm ChannelWorld" where
  "start_enqueue correlation_id fr w =
     (\<lparr>sr_correlation_id = correlation_id, sr_outcome = StartInFlight\<rparr>,
      upd_io (EnqueueReserved \<lparr>of_correlation_id = correlation_id, of_buffer = fr\<rparr>) w)"

definition StartUnaryCall ::
  "'m ClientCodec \<Rightarrow> int \<Rightarrow> u64 \<Rightarrow> 'm UnaryCall \<Rightarrow> 'm ChannelWorld \<Rightarrow> StartResult \<times> 'm ChannelWorld" where
  "StartUnaryCall cx now rnd call w =
     (case start_admit now call w of
        (Inl r, w) \<Rightarrow> (r, w)
      | (Inr correlation_id, w) \<Rightarrow>
          (case start_arm cx now rnd call correlation_id w of
             (Inl r, w) \<Rightarrow> (r, w)
           | (Inr fr, w) \<Rightarrow>
               (case start_publish now call correlation_id fr w of
                  (Inl r, w) \<Rightarrow> (r, w)
                | (Inr _, w) \<Rightarrow> start_enqueue correlation_id fr w)))"

definition CurrentCallContinuationTarget :: "'m ChannelWorld \<Rightarrow> ptr" where
  "CurrentCallContinuationTarget w = (case ch_ctx w of None \<Rightarrow> None | Some c \<Rightarrow> ctx_executor c)"

text \<open>The task that runs a protobuf closure, and what running it does.\<close>

datatype closure_event = ClosureRun nat | TaskDeleted

record ClosureTask =
  ct_done :: ptr
  ct_heap_allocated :: bool

definition ClosureTask_execute :: "ClosureTask \<Rightarrow> closure_event list" where
  "ClosureTask_execute node =
     (case ct_done node of None \<Rightarrow> [] | Some closure \<Rightarrow> [ClosureRun closure]) @
     (if ct_heap_allocated node then [TaskDeleted] else [])"

text \<open>
  \<^verbatim>\<open>CallMethod\<close> of the protobuf interface and its raw overload.  \<open>foreign\<close> says that the controller is
  not an \<^verbatim>\<open>RpcController\<close>.  The caller returns after running some closures itself, or blocks until the
  closure \<open>sync\<close> on its stack is run.
\<close>

datatype call_return = CallReturned "closure_event list" | AwaitBlockingCall

definition CallMethod ::
  "'m ClientCodec \<Rightarrow> int \<Rightarrow> u64 \<Rightarrow> bool \<Rightarrow> ptr \<Rightarrow> nat \<Rightarrow> 'm UnaryCall \<Rightarrow> 'm ChannelWorld \<Rightarrow>
   call_return \<times> 'm ChannelWorld" where
  "CallMethod cx now rnd foreign done_closure sync call w =
     (if foreign
      then (CallReturned (case done_closure of None \<Rightarrow> [] | Some closure \<Rightarrow> [ClosureRun closure]), w)
      else case done_closure of
             Some closure \<Rightarrow>
               (case StartUnaryCall cx now rnd call w of
                  (r, w) \<Rightarrow>
                    (CallReturned (if sr_outcome r = FailedInline
                       then ClosureTask_execute \<lparr>ct_done = Some closure, ct_heap_allocated = True\<rparr> else []), w))
           | None \<Rightarrow>
               (case StartUnaryCall cx now rnd call w of
                  (r, w) \<Rightarrow>
                    (if sr_outcome r = FailedInline
                     then CallReturned (ClosureTask_execute \<lparr>ct_done = Some sync, ct_heap_allocated = False\<rparr>)
                     else AwaitBlockingCall, w)))"

definition CallMethodRaw ::
  "'m ClientCodec \<Rightarrow> int \<Rightarrow> u64 \<Rightarrow> nat \<Rightarrow> string \<Rightarrow> string \<Rightarrow> nat \<Rightarrow> bytes \<Rightarrow> nat \<Rightarrow> ptr \<Rightarrow> ptr \<Rightarrow> 'm ChannelWorld \<Rightarrow>
   call_return \<times> 'm ChannelWorld" where
  "CallMethodRaw cx now rnd sync service_name method_name controller request_body response_body task target w =
     (case StartUnaryCall cx now rnd \<lparr>uc_service_name = service_name, uc_method_name = method_name,
             uc_controller = Some controller, uc_request = None, uc_response = None, uc_task = task, uc_target = target,
             uc_raw_request_body = Some request_body, uc_raw_response_body = Some response_body\<rparr> w of
        (r, w) \<Rightarrow>
          (if sr_outcome r = FailedInline
           then CallReturned (ClosureTask_execute \<lparr>ct_done = Some sync, ct_heap_allocated = False\<rparr>)
           else AwaitBlockingCall, w))"

text \<open>\<^verbatim>\<open>RpcCallAwaiter::await_suspend\<close>: whether the coroutine stays suspended.\<close>

definition await_suspend ::
  "'m ClientCodec \<Rightarrow> int \<Rightarrow> u64 \<Rightarrow> 'm UnaryCall \<Rightarrow> 'm ChannelWorld \<Rightarrow> bool \<times> 'm ChannelWorld" where
  "await_suspend cx now rnd call w =
     (case StartUnaryCall cx now rnd call w of (r, w) \<Rightarrow> (sr_outcome r \<noteq> FailedInline, w))"

section \<open>Interleavings\<close>

text \<open>
  Who still holds a \<^verbatim>\<open>shared_ptr\<close> to the driver: the facade, the threads inside its methods, and the
  suspended coroutines.  A posted command holds a raw pointer only.
\<close>

definition driver_owned :: "'m ChannelWorld \<Rightarrow> bool" where
  "driver_owned w =
     (ch_driver w \<or> ch_callers w \<noteq> [] \<or> ch_closers w \<noteq> [] \<or> dr_racing (ch_io w) \<or> dr_active_connect (ch_io w) \<or>
      dr_active_read (ch_io w) \<or> dr_write_frame (ch_io w) \<noteq> None)"

text \<open>The slot that the next allocation takes does not get the correlation id 0.\<close>

definition version_left :: "'m SlotTable \<Rightarrow> bool" where
  "version_left s = (st_free_head s = 0 \<longrightarrow> slot_version (st_slots s ! 0) \<noteq> 0xFFFFFFFF)"

fun admit_caller :: "'m UnaryCall \<Rightarrow> (StartResult + u64) \<times> 'm ChannelWorld \<Rightarrow> 'm ChannelWorld" where
  "admit_caller call (Inl r, w) = w"
| "admit_caller call (Inr cid, w) = w\<lparr>ch_callers := ch_callers w @ [CallAdmitted call cid]\<rparr>"

fun arm_caller :: "'m UnaryCall \<Rightarrow> u64 \<Rightarrow> (StartResult + bytes) \<times> 'm ChannelWorld \<Rightarrow> 'm ChannelWorld" where
  "arm_caller call cid (Inl r, w) = w"
| "arm_caller call cid (Inr fr, w) = w\<lparr>ch_callers := ch_callers w @ [CallReserved call cid fr]\<rparr>"

fun publish_caller :: "u64 \<Rightarrow> bytes \<Rightarrow> (StartResult + unit) \<times> 'm ChannelWorld \<Rightarrow> 'm ChannelWorld" where
  "publish_caller cid fr (Inl r, w) = w"
| "publish_caller cid fr (Inr u, w) = w\<lparr>ch_callers := ch_callers w @ [CallPublished cid fr]\<rparr>"

definition begin_close :: "'m ChannelWorld \<Rightarrow> 'm ChannelWorld" where
  "begin_close w =
     (case Driver_RequestClose_exchange (ch_io w) of
        (won, d) \<Rightarrow> w\<lparr>ch_io := d, ch_closers := ch_closers w @ [if won then ClosePosting else CloseWaiting]\<rparr>)"

definition cancel_controller :: "int \<Rightarrow> nat \<Rightarrow> 'm ChannelWorld \<Rightarrow> 'm ChannelWorld" where
  "cancel_controller now c w =
     (case StartCancel (\<lambda>_. True) (st_controllers (ch_slots w) c) of
        (k, events) \<Rightarrow>
          let w = on_slots (upd_controller c (\<lambda>_. k)) w
          in (upd_io (upd_state (deliver (dr_self (ch_io w)) (CancelRpcSlot now) events)) w)
               \<lparr>ch_events := ch_events w @ filter (\<lambda>e. case e of RunClosure _ \<Rightarrow> True | _ \<Rightarrow> False) events\<rparr>)"

text \<open>
  The steps of a channel: callers run their sections, the IO thread handles commands and completions
  while somebody owns the driver, deadlines expire, controllers are cancelled or written by their
  users, threads close the channel.  The result of a write is at most what was offered, and the
  result of a read is the number of bytes it appended.
\<close>

inductive channel_step :: "'m ClientCodec \<Rightarrow> 'm ChannelWorld \<Rightarrow> 'm ChannelWorld \<Rightarrow> bool" for cx where
  call_admit: "version_left (ch_slots w) \<Longrightarrow> channel_step cx w (admit_caller call (start_admit now call w))"
| call_arm: "ch_callers w = cs @ CallAdmitted call cid # cs' \<Longrightarrow>
    channel_step cx w (arm_caller call cid (start_arm cx now rnd call cid (w\<lparr>ch_callers := cs @ cs'\<rparr>)))"
| call_publish: "ch_callers w = cs @ CallReserved call cid fr # cs' \<Longrightarrow>
    channel_step cx w (publish_caller cid fr (start_publish now call cid fr (w\<lparr>ch_callers := cs @ cs'\<rparr>)))"
| call_enqueue: "ch_callers w = cs @ CallPublished cid fr # cs' \<Longrightarrow>
    channel_step cx w (snd (start_enqueue cid fr (w\<lparr>ch_callers := cs @ cs'\<rparr>)))"
| io_command: "dr_commands (ch_io w) = cmd # rest \<Longrightarrow> driver_owned w \<Longrightarrow>
    channel_step cx w (upd_io (\<lambda>d. Driver_DispatchCommand now cmd (d\<lparr>dr_commands := rest\<rparr>)) w)"
| io_connect: "dr_active_connect (ch_io w) \<Longrightarrow> channel_step cx w (upd_io (ConnectResume now result) w)"
| io_connect_timeout: "channel_step cx w (upd_io (ConnectTimeoutResume now) w)"
| io_read: "dr_active_read (ch_io w) \<Longrightarrow> bytes \<le> 0 \<and> data = [] \<or> bytes = int (length data) \<Longrightarrow>
    channel_step cx w (upd_io (Driver_ReadResume cx now bytes data) w)"
| io_write: "dr_write_frame (ch_io w) = Some f \<Longrightarrow> written \<le> int (length (of_buffer f)) \<Longrightarrow>
    channel_step cx w (upd_io (Driver_WriteResume now written) w)"
| deadline: "channel_step cx w (on_slots (\<lambda>s. snd (TimeoutSlot now cid ''RPC call timed out'' s)) w)"
| user_cancel: "channel_step cx w (cancel_controller now c w)"
| user_controller: "channel_step cx w (on_slots (upd_controller c (\<lambda>_. k)) w)"
| timer_thread: "channel_step cx w (on_slots (SetDeadlineTimerKeeper keeper) w)"
| close_begin: "ch_driver w \<Longrightarrow> channel_step cx w (begin_close w)"
| close_post: "ch_closers w = xs @ ClosePosting # ys \<Longrightarrow>
    channel_step cx w (upd_io Driver_RequestClose_post (w\<lparr>ch_closers := xs @ CloseWaiting # ys\<rparr>))"
| close_end: "ch_closers w = xs @ CloseWaiting # ys \<Longrightarrow> WaitClosed on_io timed_out (ch_io w) = Some d \<Longrightarrow>
    channel_step cx w (Close_reset (w\<lparr>ch_io := d, ch_closers := xs @ ys\<rparr>))"
| init_wait: "Init_wait timed_out (dr_state (ch_io w)) = Some (r, st) \<Longrightarrow>
    channel_step cx w (upd_io (upd_state (\<lambda>_. st)) w)"

inductive_cases channel_stepE: "channel_step cx w w'"

inductive channel_reach :: "'m ClientCodec \<Rightarrow> 'm ChannelWorld \<Rightarrow> bool" for cx where
  channel_opened: "0 < capacity \<Longrightarrow> capacity \<le> UINT32_MAX \<Longrightarrow> RpcChannelOptions_IsValid opt \<Longrightarrow>
    co_max_outbound_bytes opt \<le> SIZE_MAX \<Longrightarrow>
    Init_open capacity self opt runtime fd (new_RpcChannel capacity ctls msgs raws) = (True, w) \<Longrightarrow>
    channel_reach cx w"
| channel_next: "channel_reach cx w \<Longrightarrow> channel_step cx w w' \<Longrightarrow> channel_reach cx w'"

end
