(* ===== verification/Client_Relations.thy ===== *)
theory Client_Relations
  imports Client_Channel
begin

text \<open>
  What every operation of the IO driver preserves.  The locale \<open>driver_relation\<close> is the interface
  of a reflexive and transitive relation that the elementary updates of a driver respect; all of
  the driver's handlers then respect it.  It is interpreted on \<open>flow\<close> (the slot table keeps its
  invariant and its accounts, the gauge follows the byte counter) and on \<open>latched\<close> (a channel
  never runs again, never reopens, and keeps its configuration and its connect result).
\<close>

section \<open>Elementary updates\<close>

text \<open>Drivers that differ in the IO thread's own bookkeeping at most.\<close>

definition same_core :: "'m RpcChannelIoDriver \<Rightarrow> 'm RpcChannelIoDriver \<Rightarrow> bool" where
  "same_core d d' =
     (dr_self d' = dr_self d \<and> dr_state d' = dr_state d \<and> dr_outbound_bytes d' = dr_outbound_bytes d \<and>
      dr_max_frame_bytes d' = dr_max_frame_bytes d \<and> dr_max_outbound_bytes d' = dr_max_outbound_bytes d)"

text \<open>The operations of the slot table that the driver uses, and writes of other threads.\<close>

fun quiet_op :: "table_op \<Rightarrow> bool" where
  "quiet_op (OpAllocate tk resp ctl ex raw mx) = False"
| "quiet_op (OpPublish now cid) = False"
| "quiet_op (OpDiscard cid) = False"
| "quiet_op op = True"

lemma same_core_close_fd: "same_core d (close_fd d)"
  by (simp add: close_fd_def same_core_def Let_def)

lemma same_core_interrupt: "same_core d (interrupt_socket d)"
  by (simp add: interrupt_socket_def CancelPendingConnectOnIoThread_def same_core_def Let_def)

lemma table_exec_eta:
  "table_exec p (OpFail now cid e msg) = (\<lambda>s. snd (FailSlot now cid e msg s))"
  "table_exec p (OpFailAll now e msg) = (\<lambda>s. snd (FailAllActiveSlots now e msg s))"
  "table_exec p (OpResponse now cid body m att) = (\<lambda>s. snd (CompleteResponseSlot p now cid body m att s))"
  "table_exec p (OpTimeout now cid msg) = (\<lambda>s. snd (TimeoutSlot now cid msg s))"
  "table_exec p (OpCancel now cid msg) = (\<lambda>s. snd (CancelSlot now cid msg s))"
  "table_exec p (OpController c k) = upd_controller c (\<lambda>_. k)"
  "table_exec p (OpTimerKeeper keeper) = SetDeadlineTimerKeeper keeper"
  by (rule ext, simp)+

section \<open>Relations\<close>

locale driver_relation =
  fixes R :: "'m RpcChannelIoDriver \<Rightarrow> 'm RpcChannelIoDriver \<Rightarrow> bool"
  assumes trans: "R u v \<Longrightarrow> R v d \<Longrightarrow> R u d"
    and core: "same_core v d \<Longrightarrow> R v d"
    and stopped: "R d (upd_state (\<lambda>st. st\<lparr>chs_running := False\<rparr>) d)"
    and closed: "R d (upd_state (\<lambda>st. st\<lparr>chs_closed := True\<rparr>) d)"
    and connected: "R d (FinishConnectOnIoThread r d)"
    and freed: "R d (ReleaseReservedOutboundBytes n d)"
    and quiet: "quiet_op op \<Longrightarrow> R d (upd_slots (table_exec p op) d)"
begin

lemma after_core: "R v d \<Longrightarrow> same_core d d' \<Longrightarrow> R v d'"
  by (rule trans [OF _ core])

lemma after_field:
  "R v d \<Longrightarrow> R v (d\<lparr>dr_outbound := a\<rparr>)" "R v d \<Longrightarrow> R v (d\<lparr>dr_receiver_started := b\<rparr>)"
  "R v d \<Longrightarrow> R v (d\<lparr>dr_receiver_exited := b\<rparr>)" "R v d \<Longrightarrow> R v (d\<lparr>dr_writing := b\<rparr>)"
  "R v d \<Longrightarrow> R v (d\<lparr>dr_writing := b, dr_outbound := a\<rparr>)" "R v d \<Longrightarrow> R v (d\<lparr>dr_write_frame := c\<rparr>)"
  "R v d \<Longrightarrow> R v (d\<lparr>dr_close_command_handled := b\<rparr>)" "R v d \<Longrightarrow> R v (d\<lparr>dr_close_command_posted := b\<rparr>)"
  "R v d \<Longrightarrow> R v (d\<lparr>dr_active_read := b\<rparr>)" "R v d \<Longrightarrow> R v (d\<lparr>dr_recv_buffer := e\<rparr>)"
  "R v d \<Longrightarrow> R v (d\<lparr>dr_active_read := b, dr_recv_buffer := e\<rparr>)" "R v d \<Longrightarrow> R v (d\<lparr>dr_racing := b\<rparr>)"
  "R v d \<Longrightarrow> R v (d\<lparr>dr_connect_started := b, dr_active_connect := b', dr_racing := b''\<rparr>)"
  "R v d \<Longrightarrow> R v (d\<lparr>dr_active_connect := b, dr_connect_operation_exited := b'\<rparr>)"
  "R v d \<Longrightarrow> R v (d\<lparr>dr_commands := f\<rparr>)" "R v d \<Longrightarrow> R v (d\<lparr>dr_outbound := a, dr_writing := b\<rparr>)"
  by (erule after_core, simp add: same_core_def)+

lemma after_quiet: "R v d \<Longrightarrow> quiet_op op \<Longrightarrow> R v (upd_slots (table_exec p op) d)"
  by (rule trans [OF _ quiet])

lemma after_fail: "R v d \<Longrightarrow> R v (upd_slots (\<lambda>s. snd (FailSlot now cid e msg s)) d)"
  using after_quiet [of v d "OpFail now cid e msg"] by (simp add: table_exec_eta)

lemma after_fail_all: "R v d \<Longrightarrow> R v (upd_slots (\<lambda>s. snd (FailAllActiveSlots now e msg s)) d)"
  using after_quiet [of v d "OpFailAll now e msg"] by (simp add: table_exec_eta)

lemma after_response: "R v d \<Longrightarrow> R v (upd_slots (complete_response cx now result) d)"
  using after_quiet [of v d "OpResponse now (m_correlation_id (meta result)) (body_iobuf result) (meta result)
      (attachment_iobuf result)" "cx_parse_msg cx"]
  by (simp add: table_exec_eta complete_response_def [abs_def])

lemma after_elementary:
  "R v d \<Longrightarrow> R v (upd_state (\<lambda>st. st\<lparr>chs_running := False\<rparr>) d)"
  "R v d \<Longrightarrow> R v (upd_state (\<lambda>st. st\<lparr>chs_closed := True\<rparr>) d)"
  "R v d \<Longrightarrow> R v (FinishConnectOnIoThread r d)"
  "R v d \<Longrightarrow> R v (ReleaseReservedOutboundBytes n d)"
  by (erule trans, rule stopped closed connected freed)+

lemmas after = after_field after_elementary after_fail after_fail_all after_response

lemma after_finish: "R v d \<Longrightarrow> R v (Driver_TryFinishCloseOnIoThread d)"
  by (auto simp: Driver_TryFinishCloseOnIoThread_def intro!: after after_core [OF _ same_core_close_fd])

lemma after_fail_frames: "R v d \<Longrightarrow> R v (fail_frames now e msg fs d)"
  by (induction fs arbitrary: d) (simp_all add: after)

lemma after_terminal: "R v d \<Longrightarrow> R v (HandleTerminalFailureOnIoThread now e msg d)"
  by (auto simp: HandleTerminalFailureOnIoThread_def FailAndClearOutboundOnIoThread_def Let_def
      intro!: after after_finish after_fail_frames after_core [OF _ same_core_interrupt])

lemma after_start_next: "R v d \<Longrightarrow> R v (Driver_StartNextWriteOnIoThread d)"
proof (induction d rule: Driver_StartNextWriteOnIoThread.induct)
  case (1 d)
  have "R v (d\<lparr>dr_outbound := rest, dr_writing := False\<rparr>)" for rest by (intro after 1)
  with 1 show ?case
    by (subst Driver_StartNextWriteOnIoThread.simps)
       (auto simp: Let_def split: list.split prod.split intro!: after_field after_finish)
qed

lemma after_write_end: "R v d \<Longrightarrow> R v (Driver_WriteFrame_end d)"
  by (auto simp: Driver_WriteFrame_end_def intro!: after after_finish after_start_next)

lemma write_resume: "R d (Driver_WriteResume now n d)"
  by (auto simp: Driver_WriteResume_def Let_def core same_core_def split: option.split
      intro!: after after_write_end after_terminal)

lemma response_loop_keeps: "R v d \<Longrightarrow> R v (snd (response_loop cx now d))"
proof (induction cx now d rule: response_loop.induct)
  case (1 cx now d)
  show ?case
    using 1 by (subst response_loop.simps) (auto simp: Let_def intro!: after after_terminal)
qed

lemma after_receive: "R v d \<Longrightarrow> R v (Driver_ReceiveLoop now d)"
  by (auto simp: Driver_ReceiveLoop_def Let_def intro!: after after_finish after_terminal)

lemma read_resume: "R d (Driver_ReadResume cx now n data d)"
proof -
  have "R d (d\<lparr>dr_active_read := False, dr_recv_buffer := dr_recv_buffer d @ data\<rparr>)"
    by (rule core) (simp add: same_core_def)
  from response_loop_keeps [OF this, of cx now] show ?thesis
    by (auto simp: Driver_ReadResume_def Let_def core same_core_def split: prod.split bool.split
        intro!: after after_finish after_terminal after_receive)
qed

lemma after_connect_resume: "R v d \<Longrightarrow> R v (ConnectOnIoThread_resume now r d)"
  by (auto simp: ConnectOnIoThread_resume_def Let_def intro!: after after_finish after_terminal after_receive)

lemma connect_resume: "R d (ConnectResume now r d)" "R d (ConnectTimeoutResume now d)"
  by (auto simp: ConnectResume_def ConnectTimeoutResume_def Let_def core same_core_def
      intro!: after after_finish after_connect_resume)

lemma dispatch: "R d (Driver_DispatchCommand now cmd (d\<lparr>dr_commands := rest\<rparr>))"
proof -
  have "R d (d\<lparr>dr_commands := rest\<rparr>)" by (rule core) (simp add: same_core_def)
  then show ?thesis
    by (cases cmd)
       (auto simp: Driver_StartOnIoThread_def SendFrameOnIoThread_def Driver_BeginCloseOnIoThread_def Let_def
        intro!: after after_finish after_terminal after_start_next)
qed

end

section \<open>Accounts of the slot table\<close>

text \<open>A call that its caller has not published yet.\<close>

definition unpublished :: "'m SlotTable \<Rightarrow> u64 \<Rightarrow> bool" where
  "unpublished s cid = (\<exists>p. call_phase s cid = Some p \<and> p \<noteq> InFlight)"

text \<open>Every started call is completed or holds a slot, but for \<open>k\<close> calls that are being admitted.\<close>

definition calls_owing :: "u64 \<Rightarrow> 'm SlotTable \<Rightarrow> bool" where
  "calls_owing k s =
     (\<exists>m. st_client_metrics s = Some m \<and> cm_active_in_flight m = of_nat (st_active_slots s) \<and>
        cm_calls_started m = cm_calls_completed m + cm_active_in_flight m + k)"

definition outbound_gauge :: "'m SlotTable \<Rightarrow> u64 option" where
  "outbound_gauge s = map_option cm_outbound_bytes (st_client_metrics s)"

lemma RecordCompletion_sel [simp]:
  "cm_calls_completed (RecordCompletion e l m) = cm_calls_completed m + 1"
  "cm_calls_started (RecordCompletion e l m) = cm_calls_started m"
  "cm_active_in_flight (RecordCompletion e l m) = cm_active_in_flight m"
  "cm_outbound_bytes (RecordCompletion e l m) = cm_outbound_bytes m"
  by (simp_all add: RecordCompletion_def Counter_Add_def Let_def)

lemma move_balance:
  assumes "move s s'"
  shows "(calls_owing k s \<longrightarrow> calls_owing k s') \<and> outbound_gauge s' = outbound_gauge s"
  using assms
proof (rule moveE)
  fix cid p code assume r: "core_inv s" "call_phase s cid = Some p" "resolved cid code s s'"
  then obtain lat where m: "st_client_metrics s' = map_option
      (\<lambda>m. (RecordCompletion code lat m)\<lparr>cm_active_in_flight := cm_active_in_flight m - 1\<rparr>) (st_client_metrics s)"
    and s': "st_active_slots s' = sub64 (st_active_slots s) 1"
    by (auto simp: resolved_def released_def Let_def)
  have act: "of_nat (st_active_slots s') = (of_nat (st_active_slots s) - 1 :: u64)"
    unfolding s' using live_active [OF r(1,2)] by (simp only: sub64_1 of_nat_pred)
  then show ?thesis
    by (auto simp: calls_owing_def outbound_gauge_def m act option.map_comp comp_def)
next
  fix cid p st q assume "call_phase s cid = Some p" "rephased cid st s s'" "phase_of st = Some q"
  then have "frame s s'" by (rule rephased_frame)
  then show ?thesis by (simp add: calls_owing_def outbound_gauge_def frame_def)
next
  assume "frame s s'"
  then show ?thesis by (simp add: calls_owing_def outbound_gauge_def frame_def)
qed

lemma moves_balance:
  "move\<^sup>*\<^sup>* s s' \<Longrightarrow> (calls_owing k s \<longrightarrow> calls_owing k s') \<and> outbound_gauge s' = outbound_gauge s"
  by (induction rule: rtranclp_induct) (auto dest: move_balance)

lemma quiet_unpublished:
  assumes "slot_inv s" "quiet_op op" "unpublished s cid"
  shows "unpublished (table_exec p op s) cid"
proof -
  have "legal op s" using assms(2) by (cases op) simp_all
  then have "call_phase (table_exec p op s) = cs_phase (spec_step (event_of p op s) (view s))"
    using step_refines [OF assms(1) refines_view, of op p] by (simp add: refines_def)
  then show ?thesis
    using assms(2,3)
    by (cases op) (auto simp: unpublished_def view_def spec_defer_def spec_resolve_def split: option.splits phase.splits)
qed

text \<open>What a table keeps when the calls in \<open>X\<close> may be published or recycled.\<close>

definition slots_kept :: "u64 set \<Rightarrow> 'm SlotTable \<Rightarrow> 'm SlotTable \<Rightarrow> bool" where
  "slots_kept X s s' =
     (slot_inv s \<longrightarrow> slot_inv s' \<and> (\<forall>k. calls_owing k s \<longrightarrow> calls_owing k s') \<and>
        (\<forall>cid. cid \<notin> X \<longrightarrow> unpublished s cid \<longrightarrow> unpublished s' cid) \<and> outbound_gauge s' = outbound_gauge s \<and>
        owed s' = owed s)"

lemma slots_kept_same [simp]: "slots_kept X s s"
  by (simp add: slots_kept_def)

lemma slots_kept_trans: "slots_kept X r s \<Longrightarrow> slots_kept X s t \<Longrightarrow> slots_kept X r t"
  by (simp add: slots_kept_def)

lemma slots_kept_quiet:
  assumes "quiet_op op"
  shows "slots_kept X s (table_exec p op s)"
proof (unfold slots_kept_def, intro impI)
  assume inv: "slot_inv s"
  have leg: "legal op s" using assms by (cases op) simp_all
  have "\<forall>tk resp ctl ex raw mx. op \<noteq> OpAllocate tk resp ctl ex raw mx" "\<forall>cid. op \<noteq> OpDiscard cid"
    using assms by auto
  note mv = moves_balance [OF step_moves [OF inv leg this, where p = p]] moves_accounts [OF step_moves [OF inv leg this, where p = p]]
  show "slot_inv (table_exec p op s) \<and> (\<forall>k. calls_owing k s \<longrightarrow> calls_owing k (table_exec p op s)) \<and>
    (\<forall>cid. cid \<notin> X \<longrightarrow> unpublished s cid \<longrightarrow> unpublished (table_exec p op s) cid) \<and>
    outbound_gauge (table_exec p op s) = outbound_gauge s \<and> owed (table_exec p op s) = owed s"
    using step_inv [OF inv leg, of p] quiet_unpublished [OF inv assms, where p = p] mv by simp
qed

section \<open>Flow\<close>

lemma of_nat_sub64 [simp]: "(of_nat (sub64 x y) :: u64) = of_nat x - of_nat y"
proof -
  have le: "y mod 2 ^ 64 \<le> x + 2 ^ 64" by (rule trans_le_add2, rule less_imp_le, rule mod_less_divisor) simp
  have m: "(of_nat (z mod 2 ^ 64) :: u64) = of_nat z" for z
    using word_of_nat_eq_iff [of "z mod 2 ^ 64" z, where 'a = 64] by (simp add: take_bit_eq_mod)
  show ?thesis unfolding sub64_def m of_nat_diff [OF le] by simp
qed

lemma of_nat_add64 [simp]: "(of_nat (add64 x y) :: u64) = of_nat x + of_nat y"
proof -
  have "(of_nat ((x + y) mod 2 ^ 64) :: u64) = of_nat (x + y)"
    using word_of_nat_eq_iff [of "(x + y) mod 2 ^ 64" "x + y", where 'a = 64] by (simp add: take_bit_eq_mod)
  then show ?thesis by (simp add: add64_def)
qed

text \<open>The gauge of outbound bytes, relative to the counter of the driver.\<close>

definition gauge_offset :: "'m RpcChannelIoDriver \<Rightarrow> u64 option" where
  "gauge_offset d = map_option (\<lambda>g. g - of_nat (dr_outbound_bytes d)) (outbound_gauge (dr_slots d))"

definition flow :: "'m RpcChannelIoDriver \<Rightarrow> 'm RpcChannelIoDriver \<Rightarrow> bool" where
  "flow d d' =
     (slot_inv (dr_slots d) \<longrightarrow>
        slot_inv (dr_slots d') \<and> (\<forall>k. calls_owing k (dr_slots d) \<longrightarrow> calls_owing k (dr_slots d')) \<and>
        (\<forall>cid. unpublished (dr_slots d) cid \<longrightarrow> unpublished (dr_slots d') cid) \<and> gauge_offset d' = gauge_offset d)"

lemma dr_slots_upd [simp]:
  "dr_slots (upd_slots f d) = f (dr_slots d)" "dr_outbound_bytes (upd_slots f d) = dr_outbound_bytes d"
  "dr_state (upd_state g d) = g (dr_state d)" "dr_outbound_bytes (upd_state g d) = dr_outbound_bytes d"
  by (simp_all add: upd_slots_def upd_state_def)

text \<open>A write to the client metrics leaves the table as it is.\<close>

lemma upd_metrics_slots [simp]:
  "slot_inv (upd_metrics f s) = slot_inv s" "unpublished (upd_metrics f s) cid = unpublished s cid"
  "call_phase (upd_metrics f s) = call_phase s" "Capacity (upd_metrics f s) = Capacity s"
  "st_client_metrics (upd_metrics f s) = map_option f (st_client_metrics s)"
  "st_active_slots (upd_metrics f s) = st_active_slots s" "st_finalized (upd_metrics f s) = st_finalized s"
  by (auto simp: upd_metrics_def slot_inv_defs unpublished_def call_phase_def Let_def intro!: ext)

lemma flow_quiet: "quiet_op op \<Longrightarrow> flow d (upd_slots (table_exec p op) d)"
  using slots_kept_quiet [of op "{}" "dr_slots d" p] by (simp add: flow_def slots_kept_def gauge_offset_def)

lemma flow_release: "flow d (ReleaseReservedOutboundBytes n d)"
  by (auto simp: flow_def ReleaseReservedOutboundBytes_def calls_owing_def gauge_offset_def outbound_gauge_def
      option.map_comp comp_def Gauge_Add_def)

lemma flow_reserve: "flow d (snd (Driver_TryReserveOutboundBytes n d))"
  by (auto simp: flow_def Driver_TryReserveOutboundBytes_def calls_owing_def gauge_offset_def outbound_gauge_def
      option.map_comp comp_def Gauge_Add_def)

interpretation flow: driver_relation flow
proof unfold_locales
  fix u v d :: "'m RpcChannelIoDriver" assume "flow u v" "flow v d"
  then show "flow u d" by (simp add: flow_def)
qed (auto simp: flow_quiet flow_release, auto simp: flow_def same_core_def gauge_offset_def FinishConnectOnIoThread_def)

section \<open>Latches\<close>

definition latched :: "'m RpcChannelIoDriver \<Rightarrow> 'm RpcChannelIoDriver \<Rightarrow> bool" where
  "latched d d' =
     ((dr_running d' \<longrightarrow> dr_running d) \<and> (dr_closed d \<longrightarrow> dr_closed d') \<and>
      (chs_connect_finished (dr_state d) \<longrightarrow>
         chs_connect_finished (dr_state d') \<and> chs_connect_result (dr_state d') = chs_connect_result (dr_state d)) \<and>
      dr_self d' = dr_self d \<and> dr_max_outbound_bytes d' = dr_max_outbound_bytes d \<and>
      dr_max_frame_bytes d' = dr_max_frame_bytes d)"

interpretation latch: driver_relation latched
  by unfold_locales
     (auto simp: latched_def same_core_def FinishConnectOnIoThread_def ReleaseReservedOutboundBytes_def upd_slots_def
       upd_state_def)

end
