(* ===== verification/Client_Calls.thy ===== *)
theory Client_Calls
  imports Client_Relations
begin

text \<open>
  The calls of a channel: between the sections of \<open>StartUnaryCall\<close> a caller holds a slot that nobody
  else publishes or recycles, and every started call is completed or holds a slot.
\<close>

section \<open>Slot operations of a caller\<close>

lemma owed_upd [simp]: "owed (upd_metrics f s) = owed s" "owed (upd_controller c g s) = owed s"
  by (simp_all add: owed_def upd_metrics_def upd_controller_def)

lemma publish_kept:
  assumes "unpublished s cid" "PublishSlot now cid s = (outcome, s')"
  shows "slots_kept {cid} s s'" "slot_inv s \<Longrightarrow> outcome \<noteq> kInvalid"
proof -
  have ph: "call_phase s cid \<noteq> Some InFlight" using assms(1) by (auto simp: unpublished_def)
  show "slots_kept {cid} s s'"
  proof (unfold slots_kept_def, intro impI)
    assume inv: "slot_inv s"
    have leg: "legal (OpPublish now cid) s" using ph by simp
    note mv = moves_balance [OF publish_moves [OF inv ph assms(2)]] moves_accounts [OF publish_moves [OF inv ph assms(2)]]
    have "call_phase s' = cs_phase (spec_step (Published cid) (view s))"
      using step_refines [OF inv refines_view leg] assms(2) by (simp add: refines_def del: spec_step.simps)
    then have "unpublished s c \<Longrightarrow> unpublished s' c" if "c \<noteq> cid" for c
      using that by (auto simp: unpublished_def view_def spec_resolve_def split: option.splits phase.splits if_splits)
    then show "slot_inv s' \<and> (\<forall>k. calls_owing k s \<longrightarrow> calls_owing k s') \<and>
      (\<forall>c. c \<notin> {cid} \<longrightarrow> unpublished s c \<longrightarrow> unpublished s' c) \<and> outbound_gauge s' = outbound_gauge s \<and>
      owed s' = owed s"
      using step_inv [OF inv leg] assms(2) mv by simp
  qed
  assume inv: "slot_inv s"
  obtain p where p: "call_phase s cid = Some p" "p \<noteq> InFlight" using assms(1) by (auto simp: unpublished_def)
  then show "outcome \<noteq> kInvalid"
    using PublishSlot_spec(1) [OF inv ph assms(2)] by (cases p) auto
qed

lemma allocate_kept:
  assumes inv: "slot_inv s" and owe: "calls_owing 1 s" and left: "version_left s"
    and out: "AllocateSlot tk resp ctl ex raw mx s = (cid, s')"
  shows "if cid = 0 then s' = s
    else slot_inv s' \<and> calls_owing 0 s' \<and> call_phase s cid = None \<and> unpublished s' cid \<and>
      (\<forall>c. unpublished s c \<longrightarrow> unpublished s' c) \<and> outbound_gauge s' = outbound_gauge s \<and>
      owed s' = owed s + one tk \<and> sl_task (st_slots s' ! unat (GetSlotId cid)) = tk"
proof (cases "ex \<noteq> None \<and> st_active_slots s < mx \<and> mx \<le> Capacity s")
  case True
  then have "\<not> (ex = None \<or> mx = 0 \<or> mx > Capacity s \<or> st_active_slots s \<ge> mx)" by auto
  then have new: "slot_inv s'" "call_phase s cid = None" "call_phase s' = (call_phase s)(cid \<mapsto> Arming)"
    "st_active_slots s' = st_active_slots s + 1" "GetSlotId cid = st_free_head s"
    "GetVersion cid = slot_version (st_slots s ! unat (st_free_head s)) + 1"
    "st_client_metrics s' = map_option (\<lambda>m. m\<lparr>cm_active_in_flight := cm_active_in_flight m + 1\<rparr>) (st_client_metrics s)"
    "st_slots s' = (st_slots s)[unat (GetSlotId cid) := (st_slots s ! unat (GetSlotId cid))
      \<lparr>sl_task := tk, sl_response_msg := resp, sl_controller := ctl, sl_raw_resp_body := raw,
       sl_executor := ex, sl_deadline_timer_id := 0, sl_lifecycle := PackSlotLifecycle (GetVersion cid) ARMING\<rparr>]"
    using AllocateSlot_spec [OF inv out] by blast+
  have "unat (GetSlotId cid) < Capacity s"
    using call_phase_Some(1) [of s' cid Arming] new(3) by (simp add: new(8))
  then have "sl_task (st_slots s' ! unat (GetSlotId cid)) = tk" by (simp add: new(8))
  moreover have "owed s' = owed s + one tk"
    using allocate_accounts [OF inv, where tk = tk and resp = resp and ctl = ctl and ex = ex and raw = raw and mx = mx] True
    by (simp add: out)
  moreover have "cid \<noteq> 0"
  proof
    assume "cid = 0"
    then have "GetSlotId cid = 0" "GetVersion cid = 0" by (simp_all add: GetSlotId_def GetVersion_def)
    then have "st_free_head s = 0" "slot_version (st_slots s ! 0) = - 1"
      using new(5,6) by (auto simp: eq_neg_iff_add_eq_0)
    then show False using left by (simp add: version_left_def)
  qed
  ultimately show ?thesis
    using owe new by (auto simp: calls_owing_def unpublished_def outbound_gauge_def option.map_comp comp_def)
next
  case False
  then have "cid = 0 \<and> s' = s" using AllocateSlot_spec [OF inv out] by blast
  then show ?thesis by simp
qed

lemma discard_kept:
  assumes inv: "slot_inv s" and owe: "calls_owing 0 s" and arm: "call_phase s cid = Some Arming"
  shows "slot_inv (snd (DiscardArmingSlot cid s)) \<and> calls_owing 1 (snd (DiscardArmingSlot cid s)) \<and>
    (\<forall>c. c \<noteq> cid \<longrightarrow> unpublished s c \<longrightarrow> unpublished (snd (DiscardArmingSlot cid s)) c) \<and>
    outbound_gauge (snd (DiscardArmingSlot cid s)) = outbound_gauge s \<and>
    owed s = owed (snd (DiscardArmingSlot cid s)) + one (sl_task (st_slots s ! unat (GetSlotId cid)))"
proof -
  obtain ok s' where out: "DiscardArmingSlot cid s = (ok, s')" by fastforce
  have won: "ok" using DiscardArmingSlot_spec(1) [OF inv out] arm by simp
  then have eff: "released cid s s'"
    "st_client_metrics s' = map_option (\<lambda>m. m\<lparr>cm_active_in_flight := cm_active_in_flight m - 1\<rparr>) (st_client_metrics s)"
    using DiscardArmingSlot_spec(2) [OF inv out] by simp_all
  have act: "of_nat (st_active_slots s') = (of_nat (st_active_slots s) - 1 :: u64)"
    using eff(1) live_active [OF slot_inv_core [OF inv] arm] by (simp only: released_def Let_def sub64_1 of_nat_pred)
  have "legal (OpDiscard cid) s" by simp
  from step_refines [OF inv refines_view this]
  have "slot_inv s' \<and> call_phase s' = cs_phase (spec_step (Discarded cid) (view s))"
    by (simp add: out refines_def del: spec_step.simps)
  then show ?thesis
    using owe arm discard_accounts [OF inv, of cid] won by (auto simp: out eff(2) act calls_owing_def unpublished_def view_def outbound_gauge_def option.map_comp comp_def)
qed

section \<open>Worlds that differ in the slot table\<close>

text \<open>A world without its slot table and its log of closures.\<close>

definition shell :: "'m ChannelWorld \<Rightarrow> 'm ChannelWorld" where
  "shell w = (on_slots (\<lambda>_. undefined) w)\<lparr>ch_events := []\<rparr>"

definition only_slots :: "'m ChannelWorld \<Rightarrow> 'm ChannelWorld \<Rightarrow> bool" where
  "only_slots w w' = (shell w' = shell w)"

lemma on_slots_sel [simp]:
  "ch_slots (on_slots f w) = f (ch_slots w)" "ch_callers (on_slots f w) = ch_callers w"
  "ch_options (on_slots f w) = ch_options w" "ch_driver (on_slots f w) = ch_driver w"
  "ch_timer_keeper (on_slots f w) = ch_timer_keeper w" "ch_closers (on_slots f w) = ch_closers w"
  "dr_self (ch_io (on_slots f w)) = dr_self (ch_io w)" "ch_ctx (on_slots f w) = ch_ctx w"
  "dr_running (ch_io (on_slots f w)) = dr_running (ch_io w)"
  by (simp_all add: on_slots_def upd_io_def upd_slots_def upd_state_def)

lemma on_slots_on_slots [simp]: "on_slots f (on_slots g w) = on_slots (\<lambda>s. f (g s)) w"
  by (simp add: on_slots_def upd_io_def upd_slots_def upd_state_def)

lemma on_slots_const: "on_slots f w = on_slots (\<lambda>_. f (ch_slots w)) w"
  by (simp add: on_slots_def upd_io_def upd_slots_def upd_state_def)

lemma shell_simps [simp]: "shell (on_slots f w) = shell w" "shell (w\<lparr>ch_events := ev\<rparr>) = shell w"
  by (simp_all add: shell_def on_slots_def upd_io_def upd_slots_def upd_state_def)

lemma only_slots_same: "only_slots w w"
  by (simp add: only_slots_def)

lemma only_slots_trans: "only_slots u v \<Longrightarrow> only_slots v w \<Longrightarrow> only_slots u w"
  by (simp add: only_slots_def)

lemma only_slots_on [simp]: "only_slots v (on_slots f w) = only_slots v w"
  by (simp add: only_slots_def)

lemma only_slots_events [simp]: "only_slots v (w\<lparr>ch_events := ev\<rparr>) = only_slots v w"
  by (simp add: only_slots_def)

lemma shell_sel:
  "ch_callers (shell w) = ch_callers w" "ch_closers (shell w) = ch_closers w" "ch_driver (shell w) = ch_driver w"
  "ch_options (shell w) = ch_options w" "ch_timer_keeper (shell w) = ch_timer_keeper w"
  "upd_slots (\<lambda>_. s) (ch_io (shell w)) = upd_slots (\<lambda>_. s) (ch_io w)"
  by (simp_all add: shell_def on_slots_def upd_io_def upd_slots_def upd_state_def)

lemma only_slotsD:
  assumes "only_slots v w"
  shows "ch_callers w = ch_callers v" "ch_closers w = ch_closers v" "ch_driver w = ch_driver v" "ch_options w = ch_options v"
    "ch_timer_keeper w = ch_timer_keeper v" "ch_io w = upd_slots (\<lambda>_. ch_slots w) (ch_io v)"
proof -
  have eq: "shell w = shell v" using assms by (simp add: only_slots_def)
  show "ch_callers w = ch_callers v" "ch_closers w = ch_closers v" "ch_driver w = ch_driver v" "ch_options w = ch_options v"
    "ch_timer_keeper w = ch_timer_keeper v"
    by (metis eq shell_sel(1), metis eq shell_sel(2), metis eq shell_sel(3), metis eq shell_sel(4), metis eq shell_sel(5))
  have "upd_slots (\<lambda>_. ch_slots w) (ch_io w) = upd_slots (\<lambda>_. ch_slots w) (ch_io v)"
    by (metis eq shell_sel(6))
  then show "ch_io w = upd_slots (\<lambda>_. ch_slots w) (ch_io v)" by (simp add: upd_slots_def upd_state_def)
qed

lemma snd_CancelRpcSlot:
  "snd (CancelRpcSlot now cid st) = st\<lparr>chs_slots := snd (CancelSlot now cid ''RPC call canceled'' (chs_slots st))\<rparr>"
  by (simp add: CancelRpcSlot_def split: prod.split)

lemma deliver_cancels:
  "\<exists>ops. (\<forall>op \<in> set ops. quiet_op op) \<and>
     deliver t (CancelRpcSlot now) events st = st\<lparr>chs_slots := table_run p ops (chs_slots st)\<rparr>"
proof (induction events arbitrary: st)
  case Nil
  show ?case by (rule exI [of _ "[]"]) simp
next
  case (Cons e events)
  show ?case
  proof (cases e)
    case (CallCancelRpcSlot t' cid)
    let ?st = "if t' = t then snd (CancelRpcSlot now cid st) else st"
    obtain ops where ops: "\<forall>op \<in> set ops. quiet_op op"
      "deliver t (CancelRpcSlot now) events ?st = ?st\<lparr>chs_slots := table_run p ops (chs_slots ?st)\<rparr>"
      using Cons.IH by blast
    show ?thesis
    proof (cases "t' = t")
      case True
      then show ?thesis
        using ops CallCancelRpcSlot
        by (intro exI [of _ "OpCancel now cid ''RPC call canceled'' # ops"])
           (simp add: snd_CancelRpcSlot)
    qed (use ops CallCancelRpcSlot in auto)
  qed (use Cons.IH in simp)
qed

lemma run_kept: "\<forall>op \<in> set ops. quiet_op op \<Longrightarrow> slots_kept X s (table_run p ops s)"
  by (induction ops arbitrary: s) (auto intro: slots_kept_trans [OF slots_kept_quiet])

lemma controller_kept: "slots_kept X s (upd_controller c f s)"
  using slots_kept_quiet [of "OpController c (f (st_controllers s c))" X s] by (simp add: upd_controller_def)

lemma keeper_kept: "slots_kept X s (SetDeadlineTimerKeeper k s)"
  using slots_kept_quiet [of "OpTimerKeeper k" X s] by simp

lemma deliver_kept:
  "slots_kept X (chs_slots st) (chs_slots (deliver t (CancelRpcSlot now) events st))"
  "\<exists>s. deliver t (CancelRpcSlot now) events st = st\<lparr>chs_slots := s\<rparr>"
proof -
  obtain ops where "\<forall>op \<in> set ops. quiet_op op"
    "deliver t (CancelRpcSlot now) events st = st\<lparr>chs_slots := table_run undefined ops (chs_slots st)\<rparr>"
    using deliver_cancels by blast
  then show "slots_kept X (chs_slots st) (chs_slots (deliver t (CancelRpcSlot now) events st))"
    "\<exists>s. deliver t (CancelRpcSlot now) events st = st\<lparr>chs_slots := s\<rparr>"
    by (auto simp: run_kept)
qed

lemma deliver_only_slots [simp]:
  "only_slots v (upd_io (upd_state (deliver t (CancelRpcSlot now) events)) w) = only_slots v w"
proof -
  obtain s where "deliver t (CancelRpcSlot now) events (dr_state (ch_io w)) = (dr_state (ch_io w))\<lparr>chs_slots := s\<rparr>"
    using deliver_kept(2) by blast
  then have "upd_io (upd_state (deliver t (CancelRpcSlot now) events)) w = on_slots (\<lambda>_. s) w"
    by (simp add: on_slots_def upd_io_def upd_slots_def upd_state_def)
  then show ?thesis by simp
qed

section \<open>Sections of a call\<close>

lemma inline_failure:
  assumes "w' = SetInlineFailure now ctl msg e w"
  shows "only_slots v w' = only_slots v w"
    and "slot_inv (ch_slots w) \<Longrightarrow> calls_owing 1 (ch_slots w) \<Longrightarrow>
      slot_inv (ch_slots w') \<and> calls_owing 0 (ch_slots w') \<and> outbound_gauge (ch_slots w') = outbound_gauge (ch_slots w) \<and>
      (\<forall>c. unpublished (ch_slots w) c \<longrightarrow> unpublished (ch_slots w') c) \<and> owed (ch_slots w') = owed (ch_slots w)"
proof -
  have "\<exists>s l ev. w' = (on_slots (\<lambda>_. upd_metrics (RecordCompletion e l) s) w)\<lparr>ch_events := ev\<rparr> \<and> slots_kept {} (ch_slots w) s"
  proof (cases ctl)
    case None
    then show ?thesis
      using assms on_slots_const [of "upd_metrics (RecordCompletion e 0)" w]
      by (intro exI [of _ "ch_slots w"] exI [of _ 0] exI [of _ "ch_events w"])
         (simp add: SetInlineFailure_def on_slots_def upd_io_def)
  next
    case (Some c)
    let ?k = "set_latency_us (CalculateElapsedUs now (SetFailed e msg (st_controllers (ch_slots w) c)))
        (SetFailed e msg (st_controllers (ch_slots w) c))"
    obtain cb k' where t: "TakeNotifyOnCompletion ?k = (cb, k')" by fastforce
    let ?s = "upd_controller c (\<lambda>_. k') (ch_slots w)" and ?l = "word_of_int (c_latency_us ?k) :: u64"
    have "w' = (on_slots (\<lambda>_. upd_metrics (RecordCompletion e ?l) ?s) w)\<lparr>ch_events := ch_events w @ RunNotifyCallback cb\<rparr>"
      by (simp add: assms SetInlineFailure_def Some t on_slots_def upd_io_def upd_slots_def upd_state_def Let_def)
    then show ?thesis
      using controller_kept [of "{}" "ch_slots w" c "\<lambda>_. k'"]
      by (intro exI [of _ ?s] exI [of _ ?l] exI [of _ "ch_events w @ RunNotifyCallback cb"]) simp
  qed
  then obtain s l ev where w': "w' = (on_slots (\<lambda>_. upd_metrics (RecordCompletion e l) s) w)\<lparr>ch_events := ev\<rparr>"
    and k: "slots_kept {} (ch_slots w) s" by blast
  show "only_slots v w' = only_slots v w" by (simp add: w')
  show "slot_inv (ch_slots w') \<and> calls_owing 0 (ch_slots w') \<and> outbound_gauge (ch_slots w') = outbound_gauge (ch_slots w) \<and>
      (\<forall>c. unpublished (ch_slots w) c \<longrightarrow> unpublished (ch_slots w') c) \<and> owed (ch_slots w') = owed (ch_slots w)"
    if "slot_inv (ch_slots w)" "calls_owing 1 (ch_slots w)"
    using k that
    by (auto simp: w' slots_kept_def calls_owing_def outbound_gauge_def option.map_comp comp_def)
qed

lemma bind_spec:
  assumes "bind_controller now ctl cid w = (ok, w')"
  shows "only_slots v w' = only_slots v w" "slots_kept {} (ch_slots w) (ch_slots w')"
    "\<not> ok \<Longrightarrow> call_phase (ch_slots w') = call_phase (ch_slots w) \<and> st_slots (ch_slots w') = st_slots (ch_slots w)"
proof -
  have "only_slots v w' = only_slots v w \<and> slots_kept {} (ch_slots w) (ch_slots w') \<and>
    (\<not> ok \<longrightarrow> call_phase (ch_slots w') = call_phase (ch_slots w) \<and> st_slots (ch_slots w') = st_slots (ch_slots w))"
  proof (cases ctl)
    case None
    then show ?thesis using assms by (simp add: bind_controller_def)
  next
    case (Some c)
    obtain k ev where b: "BindActiveSlot (\<lambda>_. True) (dr_self (ch_io w)) cid
        ((st_controllers (ch_slots w) c)\<lparr>c_correlation_id := cid\<rparr>) = (ok, k, ev)" and
      w': "w' = upd_io (upd_state (deliver (dr_self (ch_io w)) (CancelRpcSlot now) ev)) (on_slots (upd_controller c (\<lambda>_. k)) w)"
      using assms by (auto simp: bind_controller_def Some Let_def split: prod.splits)
    let ?w = "on_slots (upd_controller c (\<lambda>_. k)) w"
    have "slots_kept {} (ch_slots ?w) (ch_slots w')"
      using deliver_kept(1) [where st = "dr_state (ch_io ?w)"] by (simp add: w' upd_io_def)
    then have "slots_kept {} (ch_slots w) (ch_slots w')"
      using slots_kept_trans controller_kept by (metis on_slots_sel(1))
    moreover have "call_phase (ch_slots w') = call_phase (ch_slots w) \<and> st_slots (ch_slots w') = st_slots (ch_slots w)" if "\<not> ok"
    proof -
      have "ev = []" using b that by (auto simp: BindActiveSlot_def Let_def split: if_splits)
      then have "w' = ?w" by (simp add: w' upd_io_def upd_state_def)
      then show ?thesis by (auto simp: upd_controller_def call_phase_def Let_def)
    qed
    ultimately show ?thesis by (simp add: w')
  qed
  then show "only_slots v w' = only_slots v w" "slots_kept {} (ch_slots w) (ch_slots w')"
    "\<not> ok \<Longrightarrow> call_phase (ch_slots w') = call_phase (ch_slots w) \<and> st_slots (ch_slots w') = st_slots (ch_slots w)" by auto
qed

text \<open>
  What a section guarantees of the table it leaves, relative to the table it found: the calls in \<open>X\<close>
  may have been published or recycled, and the table took over the continuations \<open>t\<close>.
\<close>

definition sound :: "u64 set \<Rightarrow> nat multiset \<Rightarrow> 'm ChannelWorld \<Rightarrow> 'm ChannelWorld \<Rightarrow> bool" where
  "sound X t w w' =
     (only_slots w w' \<and> slot_inv (ch_slots w') \<and> calls_owing 0 (ch_slots w') \<and>
      outbound_gauge (ch_slots w') = outbound_gauge (ch_slots w) \<and>
      (\<forall>c. c \<notin> X \<longrightarrow> unpublished (ch_slots w) c \<longrightarrow> unpublished (ch_slots w') c) \<and>
      owed (ch_slots w') = owed (ch_slots w) + t)"

text \<open>The call is counted and its start recorded.\<close>

definition counted :: "int \<Rightarrow> 'm UnaryCall \<Rightarrow> 'm ChannelWorld \<Rightarrow> 'm ChannelWorld" where
  "counted now call w =
     (let w = on_slots (upd_metrics (\<lambda>m. m\<lparr>cm_calls_started := Counter_Add (cm_calls_started m) 1\<rparr>)) w
      in case uc_controller call of None \<Rightarrow> w | Some c \<Rightarrow> on_slots (upd_controller c (RecordStart now)) w)"

lemma upd_controller_slots [simp]:
  "slot_inv (upd_controller c f s) = slot_inv s" "call_phase (upd_controller c f s) = call_phase s"
  "st_client_metrics (upd_controller c f s) = st_client_metrics s" "st_active_slots (upd_controller c f s) = st_active_slots s"
  "version_left (upd_controller c f s) = version_left s"
  by (auto simp: upd_controller_def slot_inv_defs call_phase_def version_left_def Let_def intro!: ext)

lemma version_left_upd_metrics [simp]: "version_left (upd_metrics f s) = version_left s"
  by (simp add: version_left_def upd_metrics_def)

lemma counted_spec:
  assumes "slot_inv (ch_slots w)" "calls_owing 0 (ch_slots w)" "version_left (ch_slots w)"
  shows "only_slots v (counted now call w) = only_slots v w" "slot_inv (ch_slots (counted now call w))"
    "calls_owing 1 (ch_slots (counted now call w))" "version_left (ch_slots (counted now call w))"
    "outbound_gauge (ch_slots (counted now call w)) = outbound_gauge (ch_slots w)"
    "call_phase (ch_slots (counted now call w)) = call_phase (ch_slots w)"
    "owed (ch_slots (counted now call w)) = owed (ch_slots w)"
  using assms
  by (auto simp: counted_def Let_def calls_owing_def outbound_gauge_def option.map_comp comp_def Counter_Add_def
      split: option.split)

lemma counted_sel: "ch_options (counted now call w) = ch_options w" "ch_driver (counted now call w) = ch_driver w"
  by (auto simp: counted_def Let_def split: option.split)

lemma failure_sound:
  assumes "only_slots w v" "slot_inv (ch_slots v)" "calls_owing 1 (ch_slots v)"
    "outbound_gauge (ch_slots v) = outbound_gauge (ch_slots w)"
    "\<forall>c. c \<notin> X \<longrightarrow> unpublished (ch_slots w) c \<longrightarrow> unpublished (ch_slots v) c"
    "owed (ch_slots v) = owed (ch_slots w)"
  shows "sound X {#} w (SetInlineFailure now ctl msg e v)"
  using assms inline_failure [OF refl, where w = v and now = now and ctl = ctl and msg = msg and e = e] by (simp add: sound_def)

lemma start_admit_counted:
  "start_admit now call w =
     (let v = counted now call w;
          failed = (\<lambda>message code w. (Inl default_StartResult, SetInlineFailure now (uc_controller call) message code w))
      in if (case uc_controller call of None \<Rightarrow> False | Some c \<Rightarrow> IsCanceled (st_controllers (ch_slots v) c))
         then failed ''RPC call canceled before send'' RPC_ECANCELED v
         else if \<not> ch_driver v \<or> \<not> dr_running (ch_io v) then failed ''Connection closed'' RPC_ECONN_FAILED v
         else case AllocateSlot (uc_task call) (uc_response call) (uc_controller call) (uc_target call)
                     (uc_raw_response_body call) (co_max_in_flight (ch_options v)) (ch_slots v) of
           (cid, s) \<Rightarrow>
             if cid = 0 then failed ''RPC max_in_flight limit reached'' RPC_EOVERLOAD (on_slots (\<lambda>_. s) v)
             else case bind_controller now (uc_controller call) cid (on_slots (\<lambda>_. s) v) of
                 (False, u) \<Rightarrow>
                   failed ''RpcController is already bound to an active RPC'' RPC_EINTERNAL
                     (on_slots (\<lambda>s. snd (DiscardArmingSlot cid s)) u)
               | (True, u) \<Rightarrow> (Inr cid, u))"
  by (simp only: start_admit_def counted_def Let_def)

lemma admit_spec:
  assumes inv: "slot_inv (ch_slots w)" "calls_owing 0 (ch_slots w)" "version_left (ch_slots w)"
    and out: "start_admit now call w = (r, w')"
  shows "sound {} (case r of Inl _ \<Rightarrow> {#} | Inr _ \<Rightarrow> one (uc_task call)) w w' \<and>
    (\<forall>cid. r = Inr cid \<longrightarrow> call_phase (ch_slots w) cid = None \<and> unpublished (ch_slots w') cid)"
proof -
  let ?v = "counted now call w"
  note v = counted_spec [OF inv, where now = now and call = call]
  have unp: "unpublished (ch_slots ?v) = unpublished (ch_slots w)" by (auto simp: unpublished_def v(6))
  have fail: "sound {} {#} w (SetInlineFailure now (uc_controller call) msg e ?v)" for msg e
    by (rule failure_sound) (simp_all add: v only_slots_same unp)
  let ?a = "AllocateSlot (uc_task call) (uc_response call) (uc_controller call) (uc_target call)
      (uc_raw_response_body call) (co_max_in_flight (ch_options ?v)) (ch_slots ?v)"
  obtain cid s where a: "?a = (cid, s)" by fastforce
  note al = allocate_kept [OF v(2,3,4) a]
  let ?u = "on_slots (\<lambda>_. s) ?v"
  have sel: "ch_slots ?u = s" by simp
  obtain ok u' where b: "bind_controller now (uc_controller call) cid ?u = (ok, u')" by fastforce
  note bd = bind_spec [OF b]
  have os: "only_slots w u'" by (simp add: bd(1) v(1) only_slots_same)
  consider (refused) msg e where "r = Inl default_StartResult" "w' = SetInlineFailure now (uc_controller call) msg e ?v"
    | (full) msg e where "cid = 0" "r = Inl default_StartResult" "w' = SetInlineFailure now (uc_controller call) msg e ?u"
    | (bound) msg e where "cid \<noteq> 0" "\<not> ok" "r = Inl default_StartResult"
        "w' = SetInlineFailure now (uc_controller call) msg e (on_slots (\<lambda>s. snd (DiscardArmingSlot cid s)) u')"
    | (admitted) "cid \<noteq> 0" "ok" "r = Inr cid" "w' = u'"
    using out a b unfolding start_admit_counted Let_def by (auto split: if_splits bool.splits)
  then show ?thesis
  proof cases
    case refused
    then show ?thesis using fail by simp
  next
    case full
    then have "s = ch_slots ?v" using al by simp
    then have "?u = ?v" using on_slots_const [of "\<lambda>x. x" ?v] by (simp add: on_slots_def upd_io_def upd_slots_def upd_state_def)
    then show ?thesis using full fail by simp
  next
    case bound
    have s: "slot_inv s" "calls_owing 0 s" "call_phase (ch_slots ?v) cid = None" "unpublished s cid"
      "\<forall>c. unpublished (ch_slots w) c \<longrightarrow> unpublished s c" "outbound_gauge s = outbound_gauge (ch_slots ?v)"
      "owed s = owed (ch_slots w) + one (uc_task call)" "sl_task (st_slots s ! unat (GetSlotId cid)) = uc_task call"
      using al bound(1) unp by (auto simp: v(7))
    have k: "slots_kept {} s (ch_slots u')" using bd(2) by (simp only: sel)
    have ph: "call_phase (ch_slots u') = call_phase s" "st_slots (ch_slots u') = st_slots s" using bd(3) [OF bound(2)] by (simp_all only: sel)
    have fresh: "\<not> unpublished (ch_slots w) cid" using s(3) by (simp add: unpublished_def v(6))
    have arm: "call_phase (ch_slots u') cid = Some Arming"
      using bound(1) AllocateSlot_spec [OF v(2) a] by (auto simp: ph)
    have "slot_inv (ch_slots u')" "calls_owing 0 (ch_slots u')" "outbound_gauge (ch_slots u') = outbound_gauge s"
      "owed (ch_slots u') = owed s"
      "\<forall>c. unpublished s c \<longrightarrow> unpublished (ch_slots u') c"
      using k s(1,2) by (auto simp: slots_kept_def)
    with discard_kept [OF _ _ arm] s(5,6,7,8) fresh
    show ?thesis
      unfolding bound(3,4) sum.case by (intro conjI allI impI failure_sound) (auto simp: os v(5) ph(2))
  next
    case admitted
    have s: "slot_inv s" "calls_owing 0 s" "call_phase (ch_slots ?v) cid = None" "unpublished s cid"
      "\<forall>c. unpublished (ch_slots w) c \<longrightarrow> unpublished s c" "outbound_gauge s = outbound_gauge (ch_slots ?v)"
      "owed s = owed (ch_slots w) + one (uc_task call)" "sl_task (st_slots s ! unat (GetSlotId cid)) = uc_task call"
      using al admitted(1) unp by (auto simp: v(7))
    have k: "slots_kept {} s (ch_slots u')" using bd(2) by (simp only: sel)
    show ?thesis
      using k s os by (auto simp: admitted(3,4) sound_def slots_kept_def v(5,6))
  qed
qed

lemma slots_kept_sound:
  assumes "only_slots w w'" "slots_kept X (ch_slots w) (ch_slots w')" "slot_inv (ch_slots w)" "calls_owing 0 (ch_slots w)"
  shows "sound X {#} w w'"
  using assms by (simp add: sound_def slots_kept_def)

lemma fail_kept: "slots_kept X s (snd (FailSlot now cid e msg s))"
  using slots_kept_quiet [of "OpFail now cid e msg" X s] by simp

lemma slots_kept_mono: "slots_kept X s t \<Longrightarrow> X \<subseteq> Y \<Longrightarrow> slots_kept Y s t"
  unfolding slots_kept_def by blast

lemma arming_failure_spec:
  assumes "unpublished (ch_slots w) cid" "ResolveArmingFailure now cid e msg w = (r, w')"
  shows "only_slots v w' = only_slots v w" "slots_kept {cid} (ch_slots w) (ch_slots w')"
proof -
  obtain oc s where p: "PublishSlot now cid (ch_slots w) = (oc, s)" by fastforce
  note k = publish_kept(1) [OF assms(1) p]
  have "slots_kept {cid} (ch_slots w) (snd (FailSlot now cid e msg s))"
    by (rule slots_kept_trans [OF k fail_kept])
  then show "only_slots v w' = only_slots v w" "slots_kept {cid} (ch_slots w) (ch_slots w')"
    using assms(2) k by (auto simp: ResolveArmingFailure_def p Let_def split: if_splits)
qed

lemma add_deadline_spec:
  assumes "add_deadline now rnd call cid w = (tid, w')"
  shows "only_slots v w' = only_slots v w" "slots_kept {} (ch_slots w) (ch_slots w')"
  using assms by (auto simp: add_deadline_def keeper_kept split: option.splits prod.splits)

lemma attach_kept: "AttachDeadlineTimer cid tid s = (ok, s') \<Longrightarrow> slots_kept X s s'"
  using slots_kept_quiet [of "OpAttach cid tid" X s] by simp

lemma arm_spec:
  assumes inv: "slot_inv (ch_slots w)" "calls_owing 0 (ch_slots w)" "unpublished (ch_slots w) cid"
    and out: "start_arm cx now rnd call cid w = (r, w')"
  obtains (resolved) sr where "r = Inl sr" "sr_outcome sr = ResolvedBySlot" "sound {cid} {#} w w'"
  | (reserved) fr v d where "r = Inr fr" "sound {} {#} w v" "Driver_TryReserveOutboundBytes (length fr) (ch_io v) = (True, d)"
      "w' = v\<lparr>ch_io := d\<rparr>"
proof -
  let ?F = "\<lambda>e msg v. case ResolveArmingFailure now cid e msg v of (r, w) \<Rightarrow> (Inl r, w)"
  have fail: thesis if f: "?F e msg v = (r, w')" and v: "only_slots w v" "slots_kept {} (ch_slots w) (ch_slots v)" for e msg v
  proof -
    obtain sr where sr: "ResolveArmingFailure now cid e msg v = (sr, w')" "r = Inl sr" using f by (auto split: prod.splits)
    have oc: "sr_outcome sr = ResolvedBySlot" using sr(1) by (auto simp: ResolveArmingFailure_def Let_def split: prod.splits)
    have "unpublished (ch_slots v) cid" using v(2) inv by (simp add: slots_kept_def)
    note af = arming_failure_spec [OF this sr(1)]
    have "slots_kept {cid} (ch_slots w) (ch_slots w')"
      by (rule slots_kept_trans [OF slots_kept_mono [OF v(2)] af(2)]) simp
    then have "sound {cid} {#} w w'" by (intro slots_kept_sound inv) (simp add: af(1) v(1))
    then show thesis by (rule resolved [OF sr(2) oc])
  qed
  obtain tid w1 where d1: "add_deadline now rnd call cid w = (tid, w1)" by fastforce
  note k1 = add_deadline_spec [OF d1]
  obtain ok s2 where d2: "AttachDeadlineTimer cid tid (ch_slots w1) = (ok, s2)" by fastforce
  have k2: "slots_kept {} (ch_slots w) s2" by (rule slots_kept_trans [OF k1(2) attach_kept [OF d2]])
  let ?w2 = "on_slots (\<lambda>_. s2) w1"
  have os: "only_slots w ?w2" by (simp add: k1(1) only_slots_same)
  have k3: "slots_kept {} (ch_slots w) (s2\<lparr>st_deadline_timer_keeper := k\<rparr>)" for k
  proof (cases k)
    case None
    have "slots_kept {} s2 (s2\<lparr>st_deadline_timer_keeper := None\<rparr>)"
      by (auto simp: slots_kept_def slot_inv_defs calls_owing_def unpublished_def call_phase_def outbound_gauge_def owed_def Let_def)
    then show ?thesis using slots_kept_trans [OF k2] None by simp
  next
    case (Some kp)
    then show ?thesis using slots_kept_trans [OF k2 keeper_kept [of _ _ kp]] by (simp add: SetDeadlineTimerKeeper_def)
  qed
  obtain packed fr where d3: "pack_call cx call cid ?w2 = (packed, fr)" by fastforce
  obtain got d where d4: "Driver_TryReserveOutboundBytes (length fr) (ch_io ?w2) = (got, d)" by fastforce
  have refused: "d = ch_io ?w2" if "\<not> got"
    using d4 that by (auto simp: Driver_TryReserveOutboundBytes_def split: if_splits)
  have s2: "sound {} {#} w ?w2" by (intro slots_kept_sound inv os) (simp add: k2)
  show thesis
  proof (cases "ch_timer_keeper w \<and> ok \<and> packed \<and> got")
    case True
    then have "r = Inr fr" "w' = ?w2\<lparr>ch_io := d\<rparr>"
      using out by (simp_all add: start_arm_def d1 d2 d3 d4 Let_def)
    moreover have "Driver_TryReserveOutboundBytes (length fr) (ch_io ?w2) = (True, d)" using d4 True by simp
    ultimately show thesis by (intro reserved [OF _ s2])
  next
    case False
    let ?w3 = "on_slots (\<lambda>_. s2\<lparr>st_deadline_timer_keeper :=
        map_option (CancelTimer tid) (st_deadline_timer_keeper s2)\<rparr>) w1"
    consider (a) "\<not> ch_timer_keeper w" | (b) "ch_timer_keeper w" "\<not> ok" | (c) "ch_timer_keeper w" ok "\<not> packed"
      | (d) "ch_timer_keeper w" ok packed "\<not> got"
      using False by blast
    then show thesis
    proof cases
      case a
      with out have "?F RPC_EINTERNAL ''RPC deadline timer is unavailable'' w = (r, w')"
        by (simp add: start_arm_def Let_def)
      then show thesis by (rule fail) (simp_all add: only_slots_same)
    next
      case b
      with out have "?F RPC_EINTERNAL ''Failed to install RPC deadline timer'' ?w3 = (r, w')"
        by (simp add: start_arm_def Let_def d1 d2)
      then show thesis by (rule fail) (simp_all add: k1(1) only_slots_same k3)
    next
      case c
      with out have "?F RPC_EINVALID_DATA ''RPC request frame exceeds max_frame_bytes'' ?w2 = (r, w')"
        by (simp add: start_arm_def Let_def d1 d2 d3)
      then show thesis by (rule fail) (simp_all add: k1(1) only_slots_same k2)
    next
      case d
      with out refused have "?F RPC_EOVERLOAD ''RPC max_outbound_bytes limit reached'' ?w2 = (r, w')"
        by (simp add: start_arm_def Let_def d1 d2 d3 d4)
      then show thesis by (rule fail) (simp_all add: k1(1) only_slots_same k2)
    qed
  qed
qed

lemma publish_spec:
  assumes inv: "slot_inv (ch_slots w)" "calls_owing 0 (ch_slots w)" "unpublished (ch_slots w) cid"
    and out: "start_publish now call cid fr w = (r, w')"
  obtains (resolved) sr v where "r = Inl sr" "sr_outcome sr = ResolvedBySlot" "sound {cid} {#} w v" "w' = upd_io (ReleaseReservedOutboundBytes (length fr)) v"
  | (published) "r = Inr ()" "sound {cid} {#} w w'"
proof -
  obtain oc s where p: "PublishSlot now cid (ch_slots w) = (oc, s)" by fastforce
  note k = publish_kept [OF inv(3) p]
  have valid: "oc \<noteq> kInvalid" by (rule k(2) [OF inv(1)])
  let ?v = "on_slots (\<lambda>_. s) w"
  have v: "sound {cid} {#} w ?v" by (intro slots_kept_sound inv) (simp_all add: only_slots_same k(1))
  show thesis
  proof (cases "oc = kInFlight")
    case True
    then have "r = Inr ()" "w' = ?v" using out by (simp_all add: start_publish_def p Let_def)
    then show thesis using v by (intro published) simp_all
  next
    case False
    then have "r = Inl \<lparr>sr_correlation_id = cid, sr_outcome = ResolvedBySlot\<rparr>"
      "w' = upd_io (ReleaseReservedOutboundBytes (length fr)) ?v"
      using out valid by (simp_all add: start_publish_def p Let_def)
    then show thesis using resolved [OF _ _ v] by simp
  qed
qed

section \<open>The invariant\<close>

fun held_cid :: "'m caller \<Rightarrow> u64 list" where
  "held_cid (CallAdmitted call cid) = [cid]"
| "held_cid (CallReserved call cid fr) = [cid]"
| "held_cid (CallPublished cid fr) = []"

definition held_cids :: "'m caller list \<Rightarrow> u64 list" where
  "held_cids cs = concat (map held_cid cs)"

definition calls_ok :: "'m ChannelWorld \<Rightarrow> bool" where
  "calls_ok w =
     (slot_inv (ch_slots w) \<and> calls_owing 0 (ch_slots w) \<and> gauge_offset (ch_io w) = Some 0 \<and>
      (\<forall>cid \<in> set (held_cids (ch_callers w)). unpublished (ch_slots w) cid) \<and> distinct (held_cids (ch_callers w)))"

lemma held_cids_simps [simp]:
  "held_cids [] = []" "held_cids (c # cs) = held_cid c @ held_cids cs" "held_cids (cs @ cs') = held_cids cs @ held_cids cs'"
  by (simp_all add: held_cids_def)

lemma calls_ok_io:
  assumes "calls_ok w" "flow (ch_io w) (f (ch_io w))"
  shows "calls_ok (upd_io f w)"
  using assms by (auto simp: calls_ok_def flow_def upd_io_def)

lemma gauge_only_slots:
  "only_slots w w' \<Longrightarrow> outbound_gauge (ch_slots w') = outbound_gauge (ch_slots w) \<Longrightarrow>
   gauge_offset (ch_io w') = gauge_offset (ch_io w)"
  using arg_cong [OF only_slotsD(6) [of w w'], of dr_outbound_bytes] by (simp add: gauge_offset_def)

lemma calls_ok_sound:
  assumes "calls_ok w" "sound X t w w'" "X \<inter> set (held_cids cs) = {}" "set (held_cids cs) \<subseteq> set (held_cids (ch_callers w))"
    "distinct (held_cids cs)"
  shows "calls_ok (w'\<lparr>ch_callers := cs\<rparr>)"
proof -
  have "gauge_offset (ch_io w') = Some 0"
    using assms(1,2) gauge_only_slots [of w w'] by (simp add: calls_ok_def sound_def)
  then show ?thesis using assms by (auto simp: calls_ok_def sound_def)
qed

lemma callers_same: "only_slots w w' \<Longrightarrow> w'\<lparr>ch_callers := ch_callers w\<rparr> = w'"
  using only_slotsD(1) [of w w'] by simp

text \<open>The caller at one of its sections is taken out of the list while it runs.\<close>

lemma calls_ok_take:
  assumes "calls_ok w" "ch_callers w = cs @ c # cs'" "held_cid c = [cid]"
  shows "calls_ok (w\<lparr>ch_callers := cs @ cs'\<rparr>)" "unpublished (ch_slots w) cid" "cid \<notin> set (held_cids (cs @ cs'))"
  using assms by (auto simp: calls_ok_def)

lemma calls_ok_admit:
  assumes ok: "calls_ok w" and left: "version_left (ch_slots w)"
  shows "calls_ok (admit_caller call (start_admit now call w))"
proof -
  obtain r w' where out: "start_admit now call w = (r, w')" by fastforce
  have inv: "slot_inv (ch_slots w)" "calls_owing 0 (ch_slots w)" using ok by (simp_all add: calls_ok_def)
  note sp = admit_spec [OF inv left out]
  then have os: "only_slots w w'" by (simp add: sound_def)
  show ?thesis
  proof (cases r)
    case (Inl sr)
    then show ?thesis
      using calls_ok_sound [OF ok, of "{}" "{#}" w' "ch_callers w"] sp ok by (simp add: out callers_same [OF os] calls_ok_def)
  next
    case (Inr cid)
    have "cid \<notin> set (held_cids (ch_callers w))"
      using ok sp Inr by (auto simp: calls_ok_def unpublished_def)
    then have "calls_ok (w'\<lparr>ch_callers := ch_callers w @ [CallAdmitted call cid]\<rparr>)"
      using ok sp gauge_only_slots [OF os] Inr by (auto simp: calls_ok_def sound_def)
    then show ?thesis using only_slotsD(1) [OF os] by (simp add: out Inr)
  qed
qed

lemma calls_ok_arm:
  assumes ok: "calls_ok w" and at: "ch_callers w = cs @ CallAdmitted call cid # cs'"
  shows "calls_ok (arm_caller call cid (start_arm cx now rnd call cid (w\<lparr>ch_callers := cs @ cs'\<rparr>)))"
proof -
  let ?v = "w\<lparr>ch_callers := cs @ cs'\<rparr>"
  note tk = calls_ok_take [OF ok at held_cid.simps(1)]
  obtain r w' where out: "start_arm cx now rnd call cid ?v = (r, w')" by fastforce
  have inv: "slot_inv (ch_slots ?v)" "calls_owing 0 (ch_slots ?v)" "unpublished (ch_slots ?v) cid"
    using tk by (simp_all add: calls_ok_def)
  have d: "distinct (held_cids (cs @ cs'))" using tk(1) by (simp add: calls_ok_def)
  show ?thesis
  proof (rule arm_spec [OF inv out])
    fix sr assume r: "r = Inl sr" "sound {cid} {#} ?v w'"
    then have "calls_ok (w'\<lparr>ch_callers := ch_callers ?v\<rparr>)"
      using tk d by (intro calls_ok_sound [OF tk(1) r(2)]) auto
    then show ?thesis using r(2) callers_same [of ?v w'] by (simp add: out r(1) sound_def)
  next
    fix fr v d assume r: "r = Inr fr" "sound {} {#} ?v v" "Driver_TryReserveOutboundBytes (length fr) (ch_io v) = (True, d)"
      "w' = v\<lparr>ch_io := d\<rparr>"
    have os: "only_slots ?v v" using r(2) by (simp add: sound_def)
    have "calls_ok (v\<lparr>ch_callers := ch_callers ?v @ [CallReserved call cid fr]\<rparr>)"
      using tk r(2) inv gauge_only_slots [OF os] by (auto simp: calls_ok_def sound_def)
    from calls_ok_io [OF this, of "\<lambda>_. d"]
    have "calls_ok (upd_io (\<lambda>_. d) (v\<lparr>ch_callers := ch_callers ?v @ [CallReserved call cid fr]\<rparr>))"
      using flow_reserve [of "ch_io v" "length fr"] r(3) by simp
    then show ?thesis using only_slotsD(1) [OF os] by (simp add: out r(1,4) upd_io_def calls_ok_def)
  qed
qed

lemma calls_ok_publish:
  assumes ok: "calls_ok w" and at: "ch_callers w = cs @ CallReserved call cid fr # cs'"
  shows "calls_ok (publish_caller cid fr (start_publish now call cid fr (w\<lparr>ch_callers := cs @ cs'\<rparr>)))"
proof -
  let ?v = "w\<lparr>ch_callers := cs @ cs'\<rparr>"
  note tk = calls_ok_take [OF ok at held_cid.simps(2)]
  obtain r w' where out: "start_publish now call cid fr ?v = (r, w')" by fastforce
  have inv: "slot_inv (ch_slots ?v)" "calls_owing 0 (ch_slots ?v)" "unpublished (ch_slots ?v) cid"
    using tk by (simp_all add: calls_ok_def)
  have d: "distinct (held_cids (cs @ cs'))" using tk(1) by (simp add: calls_ok_def)
  have snd: "calls_ok (u\<lparr>ch_callers := ch_callers ?v\<rparr>)" if "sound {cid} {#} ?v u" for u
    using tk d by (intro calls_ok_sound [OF tk(1) that]) auto
  show ?thesis
  proof (rule publish_spec [OF inv out])
    fix sr v assume r: "r = Inl sr" "sound {cid} {#} ?v v" "w' = upd_io (ReleaseReservedOutboundBytes (length fr)) v"
    have "calls_ok v" using snd [OF r(2)] r(2) callers_same [of ?v v] by (simp add: sound_def)
    then have "calls_ok (upd_io (ReleaseReservedOutboundBytes (length fr)) v)"
      by (rule calls_ok_io) (rule flow_release)
    then show ?thesis by (simp add: out r(1,3))
  next
    assume r: "r = Inr ()" "sound {cid} {#} ?v w'"
    have os: "only_slots ?v w'" using r(2) by (simp add: sound_def)
    have "calls_ok (w'\<lparr>ch_callers := ch_callers ?v @ [CallPublished cid fr]\<rparr>)"
      using snd [OF r(2)] by (simp add: calls_ok_def)
    then show ?thesis using only_slotsD(1) [OF os] by (simp add: out r(1))
  qed
qed

lemma calls_ok_slots: "calls_ok w \<Longrightarrow> slots_kept {} (ch_slots w) (f (ch_slots w)) \<Longrightarrow> calls_ok (on_slots f w)"
proof -
  assume ok: "calls_ok w" and k: "slots_kept {} (ch_slots w) (f (ch_slots w))"
  have "sound {} {#} w (on_slots f w)"
    using ok k by (intro slots_kept_sound) (simp_all add: only_slots_same calls_ok_def)
  from calls_ok_sound [OF ok this, of "ch_callers w"] show ?thesis
    using ok callers_same [of w "on_slots f w"] by (simp add: only_slots_same calls_ok_def)
qed

lemma calls_ok_cancel: "calls_ok w \<Longrightarrow> calls_ok (cancel_controller now c w)"
proof -
  assume ok: "calls_ok w"
  obtain k ev where sc: "StartCancel (\<lambda>_. True) (st_controllers (ch_slots w) c) = (k, ev)" by fastforce
  let ?v = "on_slots (upd_controller c (\<lambda>_. k)) w"
  let ?u = "upd_io (upd_state (deliver (dr_self (ch_io ?v)) (CancelRpcSlot now) ev)) ?v"
  have v: "calls_ok ?v" by (rule calls_ok_slots [OF ok]) (rule controller_kept)
  obtain s where s: "deliver (dr_self (ch_io ?v)) (CancelRpcSlot now) ev (dr_state (ch_io ?v)) = (dr_state (ch_io ?v))\<lparr>chs_slots := s\<rparr>"
    using deliver_kept(2) by blast
  have "slots_kept {} (ch_slots ?v) s"
    using deliver_kept(1) [of "{}" "dr_state (ch_io ?v)" "dr_self (ch_io ?v)" now ev] unfolding s by simp
  moreover have "?u = on_slots (\<lambda>_. s) ?v" using s by (simp add: on_slots_def upd_io_def upd_slots_def upd_state_def)
  ultimately have "calls_ok ?u" using calls_ok_slots [OF v, of "\<lambda>_. s"] by simp
  then show ?thesis by (simp add: cancel_controller_def sc calls_ok_def upd_io_def Let_def)
qed

lemma calls_ok_state:
  "calls_ok w \<Longrightarrow> chs_slots st = ch_slots w \<Longrightarrow> calls_ok (upd_io (upd_state (\<lambda>_. st)) w)"
  by (simp add: calls_ok_def upd_io_def upd_state_def gauge_offset_def)

lemma calls_ok_close_end:
  assumes "calls_ok w" "WaitClosed on_io timed_out (ch_io w) = Some d"
  shows "calls_ok (Close_reset (w\<lparr>ch_io := d, ch_closers := cs\<rparr>))"
  using assms
  by (auto simp: calls_ok_def Close_reset_def ReleaseDefaultRuntimeBinding_def WaitClosed_def close_fd_def gauge_offset_def
      Let_def upd_state_def split: if_splits)

lemma calls_ok_step:
  assumes "calls_ok w" "channel_step cx w w'"
  shows "calls_ok w'"
  using assms(2)
proof (cases rule: channel_step.cases)
  case (call_admit call now)
  then show ?thesis using calls_ok_admit [OF assms(1)] by simp
next
  case (call_arm cs call cid cs' now rnd)
  then show ?thesis using calls_ok_arm [OF assms(1)] by simp
next
  case (call_publish cs call cid fr cs' now)
  then show ?thesis using calls_ok_publish [OF assms(1)] by simp
next
  case (call_enqueue cs cid fr cs')
  then show ?thesis
    using assms(1)
    by (auto simp: start_enqueue_def EnqueueReserved_def Driver_post_def upd_io_def calls_ok_def gauge_offset_def)
next
  case (io_command cmd rest now)
  show ?thesis unfolding io_command(1) by (rule calls_ok_io [OF assms(1)]) (rule flow.dispatch)
next
  case (io_connect now result)
  show ?thesis unfolding io_connect(1) by (rule calls_ok_io [OF assms(1)]) (rule flow.connect_resume)
next
  case (io_connect_timeout now)
  show ?thesis unfolding io_connect_timeout(1) by (rule calls_ok_io [OF assms(1)]) (rule flow.connect_resume)
next
  case (io_read bytes data now)
  show ?thesis unfolding io_read(1) by (rule calls_ok_io [OF assms(1)]) (rule flow.read_resume)
next
  case (io_write f written now)
  show ?thesis unfolding io_write(1) by (rule calls_ok_io [OF assms(1)]) (rule flow.write_resume)
next
  case (deadline now cid)
  have "slots_kept {} (ch_slots w) (snd (TimeoutSlot now cid ''RPC call timed out'' (ch_slots w)))"
    using slots_kept_quiet [of "OpTimeout now cid ''RPC call timed out''"] by simp
  then show ?thesis unfolding deadline(1) by (rule calls_ok_slots [OF assms(1)])
next
  case (user_cancel now c)
  then show ?thesis using calls_ok_cancel [OF assms(1)] by simp
next
  case (user_controller c k)
  show ?thesis unfolding user_controller(1) by (rule calls_ok_slots [OF assms(1)]) (rule controller_kept)
next
  case (timer_thread keeper)
  show ?thesis unfolding timer_thread(1) by (rule calls_ok_slots [OF assms(1)]) (rule keeper_kept)
next
  case close_begin
  then show ?thesis
    using assms(1)
    by (simp add: begin_close_def Driver_RequestClose_exchange_def calls_ok_def upd_state_def gauge_offset_def)
next
  case (close_post xs ys)
  then show ?thesis
    using assms(1)
    by (simp add: Driver_RequestClose_post_def Driver_post_def upd_io_def calls_ok_def gauge_offset_def)
next
  case (close_end xs ys on_io timed_out d)
  then show ?thesis using calls_ok_close_end [OF assms(1)] by simp
next
  case (init_wait timed_out r st)
  then have "chs_slots st = ch_slots w" by (auto simp: Init_wait_def split: if_splits)
  then show ?thesis using calls_ok_state [OF assms(1)] init_wait by simp
qed

lemma opened_world:
  assumes "Init_open capacity self opt runtime fd (new_RpcChannel capacity ctls msgs raws) = (True, w)"
  obtains c where "runtime = Some c" "0 \<le> fd" "ctx_running c" "ch_options w = opt" "ch_timer_keeper w" "ch_driver w" "ch_callers w = []" "ch_closers w = []"
    "ch_io w = Driver_Start (new_RpcChannelIoDriver self (fresh_state capacity (ctx_timer_keeper c)
       (SetClientMetrics new_ClientMetrics (new_SlotTable capacity ctls msgs raws))) fd
       (co_max_frame_bytes opt) (co_max_outbound_bytes opt))"
  using assms
  by (auto simp: Init_open_def BindDefaultRuntime_def new_RpcChannel_def new_RpcChannelIoDriver_def new_ChannelState_def
      Let_def split: option.splits if_splits)

lemma fresh_slots:
  "chs_slots (fresh_state capacity keeper (SetClientMetrics m (new_SlotTable capacity ctls msgs raws))) =
     SetClientMetrics m (SetDeadlineTimerKeeper keeper (new_SlotTable capacity ctls msgs raws))"
  by (simp add: fresh_state_def new_ChannelState_def SetClientMetrics_def new_SlotTable_def)

lemma calls_ok_opened:
  assumes "0 < capacity" "capacity \<le> UINT32_MAX"
    "Init_open capacity self opt runtime fd (new_RpcChannel capacity ctls msgs raws) = (True, w)"
  shows "calls_ok w"
proof (rule opened_world [OF assms(3)])
  fix c assume w: "ch_callers w = []" "ch_io w = Driver_Start (new_RpcChannelIoDriver self (fresh_state capacity (ctx_timer_keeper c)
       (SetClientMetrics new_ClientMetrics (new_SlotTable capacity ctls msgs raws))) fd
       (co_max_frame_bytes opt) (co_max_outbound_bytes opt))"
  have "slot_inv (new_SlotTable capacity ctls msgs raws)" by (rule slot_inv_new [OF assms(1,2)])
  then have "slot_inv (SetClientMetrics new_ClientMetrics (SetDeadlineTimerKeeper (ctx_timer_keeper c) (new_SlotTable capacity ctls msgs raws)))"
    by (simp add: SetClientMetrics_def SetDeadlineTimerKeeper_def slot_inv_defs)
  then show ?thesis
    by (simp add: calls_ok_def w Driver_Start_def Driver_post_def new_RpcChannelIoDriver_def gauge_offset_def fresh_slots
        outbound_gauge_def calls_owing_def)
       (simp add: SetClientMetrics_def SetDeadlineTimerKeeper_def new_ClientMetrics_def new_SlotTable_def)
qed

lemma channel_reach_calls: "channel_reach cx w \<Longrightarrow> calls_ok w"
proof (induction rule: channel_reach.induct)
  case channel_opened
  then show ?case by (intro calls_ok_opened)
qed (rule calls_ok_step)

end
