(* ===== verification/Client_Bytes.thy ===== *)
theory Client_Bytes
  imports Client_Calls
begin

text \<open>
  The outbound bytes of a channel: while it runs, the counter is exactly the number of bytes held by
  callers, by posted commands, by the queue and by the suspended write; it never exceeds the limit.
\<close>

section \<open>Bytes held\<close>

fun command_bytes :: "IoCommand \<Rightarrow> nat" where
  "command_bytes (ChannelSendFrame k cid payload) = length payload"
| "command_bytes cmd = 0"

definition frames_bytes :: "OutboundFrame list \<Rightarrow> nat" where
  "frames_bytes fs = sum_list (map (\<lambda>f. length (of_buffer f)) fs)"

definition held_bytes :: "'m RpcChannelIoDriver \<Rightarrow> nat" where
  "held_bytes d =
     sum_list (map command_bytes (dr_commands d)) + frames_bytes (dr_outbound d) +
     (case dr_write_frame d of None \<Rightarrow> 0 | Some f \<Rightarrow> length (of_buffer f))"

text \<open>\<open>x\<close> further bytes are in the hands of callers or of the code that runs.\<close>

definition bytes_ok :: "nat \<Rightarrow> 'm RpcChannelIoDriver \<Rightarrow> bool" where
  "bytes_ok x d =
     (held_bytes d + x \<le> dr_outbound_bytes d \<and> dr_outbound_bytes d \<le> dr_max_outbound_bytes d \<and>
      dr_max_outbound_bytes d \<le> SIZE_MAX \<and> (dr_running d \<longrightarrow> dr_outbound_bytes d = held_bytes d + x) \<and>
      (\<not> dr_writing d \<longrightarrow> dr_write_frame d = None))"

lemma frames_bytes_simps [simp]:
  "frames_bytes [] = 0" "frames_bytes (f # fs) = length (of_buffer f) + frames_bytes fs"
  "frames_bytes (fs @ gs) = frames_bytes fs + frames_bytes gs"
  by (simp_all add: frames_bytes_def)

lemma bytes_ok_fields [simp]:
  "bytes_ok x (d\<lparr>dr_receiver_started := b\<rparr>) = bytes_ok x d" "bytes_ok x (d\<lparr>dr_receiver_exited := b\<rparr>) = bytes_ok x d"
  "bytes_ok x (d\<lparr>dr_close_command_handled := b\<rparr>) = bytes_ok x d" "bytes_ok x (d\<lparr>dr_close_command_posted := b\<rparr>) = bytes_ok x d"
  "bytes_ok x (d\<lparr>dr_active_read := b\<rparr>) = bytes_ok x d" "bytes_ok x (d\<lparr>dr_recv_buffer := e\<rparr>) = bytes_ok x d"
  "bytes_ok x (d\<lparr>dr_active_read := b, dr_recv_buffer := e\<rparr>) = bytes_ok x d" "bytes_ok x (d\<lparr>dr_racing := b\<rparr>) = bytes_ok x d"
  "bytes_ok x (d\<lparr>dr_connect_started := b, dr_active_connect := b'\<rparr>) = bytes_ok x d"
  "bytes_ok x (d\<lparr>dr_active_connect := b, dr_connect_operation_exited := b'\<rparr>) = bytes_ok x d"
  "bytes_ok x (d\<lparr>dr_log := l\<rparr>) = bytes_ok x d" "bytes_ok x (d\<lparr>dr_fd := i\<rparr>) = bytes_ok x d"
  "bytes_ok x (upd_slots f d) = bytes_ok x d" "bytes_ok x (FinishConnectOnIoThread r d) = bytes_ok x d"
  "bytes_ok x (upd_state (\<lambda>st. st\<lparr>chs_closed := c\<rparr>) d) = bytes_ok x d"
  by (simp_all add: bytes_ok_def held_bytes_def upd_slots_def upd_state_def FinishConnectOnIoThread_def)

lemma bytes_ok_close_fd [simp]: "bytes_ok x (close_fd d) = bytes_ok x d"
  by (simp add: close_fd_def Let_def)

lemma bytes_ok_interrupt [simp]: "bytes_ok x (interrupt_socket d) = bytes_ok x d"
  by (simp add: interrupt_socket_def CancelPendingConnectOnIoThread_def Let_def)

lemma bytes_ok_finish [simp]: "bytes_ok x (Driver_TryFinishCloseOnIoThread d) = bytes_ok x d"
  by (simp add: Driver_TryFinishCloseOnIoThread_def)

lemma bytes_ok_stop: "bytes_ok x d \<Longrightarrow> bytes_ok x (upd_state (\<lambda>st. st\<lparr>chs_running := False\<rparr>) d)"
  by (simp add: bytes_ok_def held_bytes_def upd_state_def)

lemma bytes_ok_release: "bytes_ok (x + n) d \<Longrightarrow> bytes_ok x (ReleaseReservedOutboundBytes n d)"
  unfolding ReleaseReservedOutboundBytes_def bytes_ok_fields by (auto simp: bytes_ok_def held_bytes_def sub64_exact)

lemma bytes_ok_reserve:
  "bytes_ok x d \<Longrightarrow> Driver_TryReserveOutboundBytes n d = (True, d') \<Longrightarrow> bytes_ok (x + n) d'"
proof -
  assume ok: "bytes_ok x d" and out: "Driver_TryReserveOutboundBytes n d = (True, d')"
  have le: "n \<le> dr_max_outbound_bytes d" "dr_outbound_bytes d \<le> dr_max_outbound_bytes d - n"
    using out by (auto simp: Driver_TryReserveOutboundBytes_def split: if_splits)
  then have "bytes_ok (x + n) (d\<lparr>dr_outbound_bytes := add64 (dr_outbound_bytes d) n\<rparr>)"
    using ok by (auto simp: bytes_ok_def held_bytes_def add64_exact)
  moreover have "bytes_ok y d' = bytes_ok y (d\<lparr>dr_outbound_bytes := add64 (dr_outbound_bytes d) n\<rparr>)" for y
    using out le by (auto simp: Driver_TryReserveOutboundBytes_def)
  ultimately show ?thesis by simp
qed

text \<open>Bytes that nobody releases after the channel stopped are lost.\<close>

lemma bytes_ok_lost: "bytes_ok (x + n) d \<Longrightarrow> \<not> dr_running d \<Longrightarrow> bytes_ok x d"
  by (simp add: bytes_ok_def)

section \<open>Handlers\<close>

lemma bytes_ok_fail_frames: "bytes_ok (x + frames_bytes fs) d \<Longrightarrow> bytes_ok x (fail_frames now e msg fs d)"
proof (induction fs arbitrary: d)
  case (Cons f fs)
  then have "bytes_ok (x + frames_bytes fs) (ReleaseReservedOutboundBytes (length (of_buffer f)) d)"
    by (intro bytes_ok_release) (simp add: ac_simps)
  then show ?case by (simp add: Cons.IH)
qed simp

lemma fail_frame_outbound:
  "(upd_slots g (ReleaseReservedOutboundBytes n d))\<lparr>dr_outbound := q\<rparr> =
   upd_slots g (ReleaseReservedOutboundBytes n (d\<lparr>dr_outbound := q\<rparr>))"
  by (cases d) (simp add: ReleaseReservedOutboundBytes_def upd_slots_def upd_state_def)

lemma fail_frames_outbound:
  "(fail_frames now e msg fs d)\<lparr>dr_outbound := q\<rparr> = fail_frames now e msg fs (d\<lparr>dr_outbound := q\<rparr>)"
  by (induction fs arbitrary: d) (simp_all add: fail_frame_outbound)

lemma bytes_ok_clear: "bytes_ok x d \<Longrightarrow> bytes_ok x (FailAndClearOutboundOnIoThread now e msg d)"
proof -
  assume "bytes_ok x d"
  then have "bytes_ok (x + frames_bytes (dr_outbound d)) (d\<lparr>dr_outbound := []\<rparr>)"
    by (auto simp: bytes_ok_def held_bytes_def)
  then show ?thesis
    by (simp add: FailAndClearOutboundOnIoThread_def fail_frames_outbound bytes_ok_fail_frames)
qed

lemma bytes_ok_terminal: "bytes_ok x d \<Longrightarrow> bytes_ok x (HandleTerminalFailureOnIoThread now e msg d)"
  by (simp add: HandleTerminalFailureOnIoThread_def Let_def bytes_ok_clear bytes_ok_stop)

lemma fail_frames_running [simp]:
  "dr_running (fail_frames now e msg fs d) = dr_running d" "dr_write_frame (fail_frames now e msg fs d) = dr_write_frame d"
  by (induction fs arbitrary: d) (simp_all add: ReleaseReservedOutboundBytes_def upd_slots_def upd_state_def)

lemma interrupt_log: "\<exists>l. interrupt_socket d = d\<lparr>dr_log := l\<rparr>"
proof -
  have r: "\<exists>l. d'\<lparr>dr_log := m\<rparr> = d\<lparr>dr_log := l\<rparr>" if "\<exists>l. d' = d\<lparr>dr_log := l\<rparr>" for d' m using that by auto
  have s: "\<exists>l. d = d\<lparr>dr_log := l\<rparr>" by (rule exI [of _ "dr_log d"]) simp
  show ?thesis unfolding interrupt_socket_def CancelPendingConnectOnIoThread_def Let_def by (simp add: r s)
qed

lemma interrupt_sel [simp]:
  "dr_state (interrupt_socket d) = dr_state d" "dr_write_frame (interrupt_socket d) = dr_write_frame d"
proof -
  obtain l where "interrupt_socket d = d\<lparr>dr_log := l\<rparr>" using interrupt_log by blast
  then show "dr_state (interrupt_socket d) = dr_state d" "dr_write_frame (interrupt_socket d) = dr_write_frame d" by simp_all
qed

lemma finish_sel [simp]:
  "dr_running (Driver_TryFinishCloseOnIoThread d) = dr_running d"
  "dr_write_frame (Driver_TryFinishCloseOnIoThread d) = dr_write_frame d"
  by (simp_all add: Driver_TryFinishCloseOnIoThread_def close_fd_def upd_state_def Let_def)

lemma terminal_sel [simp]:
  "\<not> dr_running (HandleTerminalFailureOnIoThread now e msg d)"
  "dr_write_frame (HandleTerminalFailureOnIoThread now e msg d) = dr_write_frame d"
  by (simp_all add: HandleTerminalFailureOnIoThread_def FailAndClearOutboundOnIoThread_def Let_def upd_slots_def upd_state_def)

lemma merge_frames_bytes:
  "merge_frames f fs = (g, rest) \<Longrightarrow> length (of_buffer g) + frames_bytes rest = length (of_buffer f) + frames_bytes fs"
  by (induction f fs rule: merge_frames.induct) (auto split: if_splits)

lemma bytes_ok_start_next: "bytes_ok x d \<Longrightarrow> bytes_ok x (Driver_StartNextWriteOnIoThread d)"
proof (induction d rule: Driver_StartNextWriteOnIoThread.induct)
  case (1 d)
  show ?case
  proof (cases "dr_outbound d = [] \<or> dr_writing d \<or> \<not> dr_running d")
    case True
    then have "Driver_StartNextWriteOnIoThread d = d"
      by (subst Driver_StartNextWriteOnIoThread.simps) (auto split: list.split)
    then show ?thesis using 1(2) by simp
  next
    case False
    then obtain f fs where q: "dr_outbound d = f # fs" by (cases "dr_outbound d") auto
    obtain g rest where m: "merge_frames f fs = (g, rest)" by fastforce
    let ?d = "d\<lparr>dr_writing := True, dr_outbound := rest\<rparr>"
    have w: "dr_write_frame d = None" using False 1(2) by (simp add: bytes_ok_def)
    show ?thesis
    proof (cases "of_buffer g = []")
      case True
      have "bytes_ok x (?d\<lparr>dr_writing := False\<rparr>)"
        using 1(2) w merge_frames_bytes [OF m] True by (simp add: bytes_ok_def held_bytes_def q)
      then have "bytes_ok x (Driver_StartNextWriteOnIoThread (?d\<lparr>dr_writing := False\<rparr>))"
        using 1(1) [OF q _ m [symmetric] refl refl] False True by simp
      then show ?thesis using False True by (subst Driver_StartNextWriteOnIoThread.simps) (simp add: q m)
    next
      case nonempty: False
      have "bytes_ok x (?d\<lparr>dr_write_frame := Some g\<rparr>)"
        using 1(2) w merge_frames_bytes [OF m] by (simp add: bytes_ok_def held_bytes_def q)
      then show ?thesis using False nonempty by (subst Driver_StartNextWriteOnIoThread.simps) (simp add: q m)
    qed
  qed
qed

lemma bytes_ok_write_end:
  "bytes_ok x d \<Longrightarrow> dr_write_frame d = None \<Longrightarrow> bytes_ok x (Driver_WriteFrame_end d)"
  unfolding Driver_WriteFrame_end_def bytes_ok_finish
  by (rule bytes_ok_start_next) (simp add: bytes_ok_def held_bytes_def)

lemma bytes_ok_write_resume:
  assumes ok: "bytes_ok x d" and f: "dr_write_frame d = Some f" and n: "written \<le> int (length (of_buffer f))"
  shows "bytes_ok x (Driver_WriteResume now written d)"
proof -
  let ?d = "d\<lparr>dr_write_frame := None\<rparr>"
  have taken: "bytes_ok (x + length (of_buffer f)) ?d" using ok f by (auto simp: bytes_ok_def held_bytes_def)
  consider (stopped) "\<not> dr_running d" | (failed) "dr_running d" "written \<le> 0" | (wrote) "dr_running d" "0 < written" by linarith
  then show ?thesis
  proof cases
    case stopped
    then have "bytes_ok x ?d" using bytes_ok_lost [OF taken] by simp
    then show ?thesis using stopped by (simp add: Driver_WriteResume_def f bytes_ok_write_end)
  next
    case failed
    have "bytes_ok x (HandleTerminalFailureOnIoThread now RPC_ECONN_FAILED ''Failed to write RPC request'' ?d)"
      by (rule bytes_ok_lost [OF bytes_ok_terminal [OF taken]]) simp
    then show ?thesis using failed by (simp add: Driver_WriteResume_def f Let_def bytes_ok_write_end)
  next
    case wrote
    let ?n = "nat written" and ?g = "f\<lparr>of_buffer := drop (nat written) (of_buffer f)\<rparr>"
    let ?e = "ReleaseReservedOutboundBytes ?n ?d"
    have "x + length (of_buffer f) = (x + length (of_buffer ?g)) + ?n" using n wrote by simp
    then have rel: "bytes_ok (x + length (of_buffer ?g)) ?e" using taken bytes_ok_release by metis
    have sel: "dr_running ?e = dr_running d" "dr_write_frame ?e = None" "dr_writing ?e = dr_writing d"
      by (simp_all add: ReleaseReservedOutboundBytes_def upd_slots_def upd_state_def)
    have wr: "dr_writing d" using ok f by (auto simp: bytes_ok_def)
    show ?thesis
    proof (cases "of_buffer ?g = []")
      case True
      then have "bytes_ok x ?e" using rel by simp
      then show ?thesis
        using True wrote sel by (simp add: Driver_WriteResume_def f Let_def bytes_ok_write_end)
    next
      case False
      have "bytes_ok x (?e\<lparr>dr_write_frame := Some ?g\<rparr>)"
        using rel sel wr by (auto simp: bytes_ok_def held_bytes_def)
      then show ?thesis using False wrote sel by (simp add: Driver_WriteResume_def f Let_def)
    qed
  qed
qed

lemma bytes_ok_response_loop: "bytes_ok x d \<Longrightarrow> bytes_ok x (snd (response_loop cx now d))"
proof (induction cx now d rule: response_loop.induct)
  case (1 cx now d)
  show ?case using 1 by (subst response_loop.simps) (auto simp: Let_def bytes_ok_terminal)
qed

lemma bytes_ok_receive: "bytes_ok x d \<Longrightarrow> bytes_ok x (Driver_ReceiveLoop now d)"
  by (simp add: Driver_ReceiveLoop_def Let_def bytes_ok_terminal)

lemma bytes_ok_read_resume: "bytes_ok x d \<Longrightarrow> bytes_ok x (Driver_ReadResume cx now n data d)"
  using bytes_ok_response_loop [of x "d\<lparr>dr_active_read := False, dr_recv_buffer := dr_recv_buffer d @ data\<rparr>" cx now]
  by (auto simp: Driver_ReadResume_def Let_def bytes_ok_terminal bytes_ok_receive split: prod.split bool.split)

lemma bytes_ok_connect_resume: "bytes_ok x d \<Longrightarrow> bytes_ok x (ConnectOnIoThread_resume now r d)"
  by (simp add: ConnectOnIoThread_resume_def Let_def bytes_ok_terminal bytes_ok_receive)

lemma bytes_ok_connect: "bytes_ok x d \<Longrightarrow> bytes_ok x (ConnectResume now r d)" "bytes_ok x d \<Longrightarrow> bytes_ok x (ConnectTimeoutResume now d)"
  by (simp_all add: ConnectResume_def ConnectTimeoutResume_def Let_def bytes_ok_connect_resume)

lemma bytes_ok_start: "bytes_ok x d \<Longrightarrow> bytes_ok x (Driver_StartOnIoThread d)"
  by (simp add: Driver_StartOnIoThread_def)

lemma bytes_ok_begin_close: "bytes_ok x d \<Longrightarrow> bytes_ok x (Driver_BeginCloseOnIoThread now d)"
  by (simp add: Driver_BeginCloseOnIoThread_def Let_def bytes_ok_terminal)

lemma bytes_ok_send: "bytes_ok (x + length payload) d \<Longrightarrow> bytes_ok x (SendFrameOnIoThread now cid payload d)"
proof -
  assume ok: "bytes_ok (x + length payload) d"
  have "bytes_ok x (d\<lparr>dr_outbound := dr_outbound d @ [\<lparr>of_correlation_id = cid, of_buffer = payload\<rparr>]\<rparr>)"
    using ok by (simp add: bytes_ok_def held_bytes_def)
  from bytes_ok_start_next [OF this] bytes_ok_release [OF ok] show ?thesis by (simp add: SendFrameOnIoThread_def)
qed

lemma bytes_ok_dispatch:
  assumes "bytes_ok x d" "dr_commands d = cmd # rest"
  shows "bytes_ok x (Driver_DispatchCommand now cmd (d\<lparr>dr_commands := rest\<rparr>))"
proof -
  have taken: "bytes_ok (x + command_bytes cmd) (d\<lparr>dr_commands := rest\<rparr>)"
    using assms by (simp add: bytes_ok_def held_bytes_def)
  show ?thesis
  proof (cases cmd)
    case (ChannelSendFrame k cid payload)
    then show ?thesis using taken by (simp add: bytes_ok_send)
  next
    case (ChannelStart k)
    then show ?thesis using taken by (simp add: bytes_ok_start)
  next
    case (ChannelClose k)
    then show ?thesis using taken by (simp add: bytes_ok_begin_close)
  qed (use taken in simp_all)
qed

section \<open>The invariant\<close>

fun caller_bytes :: "'m caller \<Rightarrow> nat" where
  "caller_bytes (CallAdmitted call cid) = 0"
| "caller_bytes (CallReserved call cid fr) = length fr"
| "caller_bytes (CallPublished cid fr) = length fr"

definition callers_bytes :: "'m caller list \<Rightarrow> nat" where
  "callers_bytes cs = sum_list (map caller_bytes cs)"

lemma callers_bytes_simps [simp]:
  "callers_bytes [] = 0" "callers_bytes (c # cs) = caller_bytes c + callers_bytes cs"
  "callers_bytes (cs @ cs') = callers_bytes cs + callers_bytes cs'"
  by (simp_all add: callers_bytes_def)

definition world_bytes_ok :: "'m ChannelWorld \<Rightarrow> bool" where
  "world_bytes_ok w = bytes_ok (callers_bytes (ch_callers w)) (ch_io w)"

lemma bytes_only_slots: "only_slots w w' \<Longrightarrow> bytes_ok x (ch_io w') = bytes_ok x (ch_io w)"
  using arg_cong [OF only_slotsD(6) [of w w'], of "bytes_ok x"] by simp

lemma world_bytes_step:
  assumes ok: "world_bytes_ok w" and calls: "calls_ok w" and st: "channel_step cx w w'"
  shows "world_bytes_ok w'"
  using st
proof (cases rule: channel_step.cases)
  case (call_admit call now)
  obtain r v where out: "start_admit now call w = (r, v)" by fastforce
  have "slot_inv (ch_slots w)" "calls_owing 0 (ch_slots w)" using calls by (simp_all add: calls_ok_def)
  from admit_spec [OF this call_admit(2) out] have os: "only_slots w v" by (simp add: sound_def)
  then show ?thesis
    using ok only_slotsD(1) [OF os] bytes_only_slots [OF os]
    by (cases r) (simp_all add: call_admit(1) out world_bytes_ok_def)
next
  case (call_arm cs call cid cs' now rnd)
  let ?v = "w\<lparr>ch_callers := cs @ cs'\<rparr>"
  obtain r u where out: "start_arm cx now rnd call cid ?v = (r, u)" by fastforce
  have inv: "slot_inv (ch_slots ?v)" "calls_owing 0 (ch_slots ?v)" "unpublished (ch_slots ?v) cid"
    using calls_ok_take [OF calls call_arm(2)] by (simp_all add: calls_ok_def)
  have ok: "bytes_ok (callers_bytes (cs @ cs')) (ch_io ?v)" using ok by (simp add: world_bytes_ok_def call_arm(2))
  show ?thesis
  proof (rule arm_spec [OF inv out])
    fix sr assume r: "r = Inl sr" "sound {cid} {#} ?v u"
    then have os: "only_slots ?v u" by (simp add: sound_def)
    then show ?thesis
      using ok only_slotsD(1) [OF os] bytes_only_slots [OF os] by (simp add: call_arm(1) out r(1) world_bytes_ok_def)
  next
    fix fr v d assume r: "r = Inr fr" "sound {} {#} ?v v" "Driver_TryReserveOutboundBytes (length fr) (ch_io v) = (True, d)"
      "u = v\<lparr>ch_io := d\<rparr>"
    have os: "only_slots ?v v" using r(2) by (simp add: sound_def)
    have "bytes_ok (callers_bytes (cs @ cs')) (ch_io v)" using ok bytes_only_slots [OF os] by simp
    from bytes_ok_reserve [OF this r(3)] show ?thesis
      using only_slotsD(1) [OF os] by (simp add: call_arm(1) out r(1,4) world_bytes_ok_def ac_simps)
  qed
next
  case (call_publish cs call cid fr cs' now)
  let ?v = "w\<lparr>ch_callers := cs @ cs'\<rparr>"
  obtain r u where out: "start_publish now call cid fr ?v = (r, u)" by fastforce
  have inv: "slot_inv (ch_slots ?v)" "calls_owing 0 (ch_slots ?v)" "unpublished (ch_slots ?v) cid"
    using calls_ok_take [OF calls call_publish(2)] by (simp_all add: calls_ok_def)
  have ok: "bytes_ok (callers_bytes (cs @ cs') + length fr) (ch_io ?v)"
    using ok by (simp add: world_bytes_ok_def call_publish(2) ac_simps)
  show ?thesis
  proof (rule publish_spec [OF inv out])
    fix sr v assume r: "r = Inl sr" "sound {cid} {#} ?v v" "u = upd_io (ReleaseReservedOutboundBytes (length fr)) v"
    have os: "only_slots ?v v" using r(2) by (simp add: sound_def)
    have "bytes_ok (callers_bytes (cs @ cs')) (ReleaseReservedOutboundBytes (length fr) (ch_io v))"
      by (rule bytes_ok_release) (simp only: bytes_only_slots [OF os] ok)
    then show ?thesis using only_slotsD(1) [OF os] by (simp add: call_publish(1) out r(1,3) world_bytes_ok_def upd_io_def)
  next
    assume r: "r = Inr ()" "sound {cid} {#} ?v u"
    have os: "only_slots ?v u" using r(2) by (simp add: sound_def)
    show ?thesis
      using ok only_slotsD(1) [OF os] bytes_only_slots [OF os] by (simp add: call_publish(1) out r(1) world_bytes_ok_def ac_simps)
  qed
next
  case (call_enqueue cs cid fr cs')
  then show ?thesis
    using ok
    by (auto simp: start_enqueue_def EnqueueReserved_def Driver_post_def upd_io_def world_bytes_ok_def bytes_ok_def held_bytes_def)
next
  case (io_command cmd rest now)
  then show ?thesis using ok by (simp add: world_bytes_ok_def upd_io_def bytes_ok_dispatch)
next
  case (io_connect now result)
  then show ?thesis using ok by (simp add: world_bytes_ok_def upd_io_def bytes_ok_connect)
next
  case (io_connect_timeout now)
  then show ?thesis using ok by (simp add: world_bytes_ok_def upd_io_def bytes_ok_connect)
next
  case (io_read bytes data now)
  then show ?thesis using ok by (simp add: world_bytes_ok_def upd_io_def bytes_ok_read_resume)
next
  case (io_write f written now)
  then show ?thesis using ok by (simp add: world_bytes_ok_def upd_io_def bytes_ok_write_resume)
next
  case (deadline now cid)
  then show ?thesis using ok by (simp add: world_bytes_ok_def on_slots_def upd_io_def)
next
  case (user_cancel now c)
  have os: "only_slots w w'" unfolding user_cancel(1) cancel_controller_def by (simp add: Let_def only_slots_same split: prod.split)
  then show ?thesis using ok only_slotsD(1) [OF os] bytes_only_slots [OF os] by (simp add: world_bytes_ok_def)
next
  case (user_controller c k)
  then show ?thesis using ok by (simp add: world_bytes_ok_def on_slots_def upd_io_def)
next
  case (timer_thread keeper)
  then show ?thesis using ok by (simp add: world_bytes_ok_def on_slots_def upd_io_def)
next
  case close_begin
  then show ?thesis
    using ok by (simp add: begin_close_def Driver_RequestClose_exchange_def world_bytes_ok_def bytes_ok_stop)
next
  case (close_post xs ys)
  then show ?thesis
    using ok by (simp add: Driver_RequestClose_post_def Driver_post_def upd_io_def world_bytes_ok_def bytes_ok_def held_bytes_def)
next
  case (close_end xs ys on_io timed_out d)
  then have "bytes_ok x d = bytes_ok x (ch_io w)" for x by (auto simp: WaitClosed_def split: if_splits)
  then show ?thesis using ok close_end by (simp add: Close_reset_def ReleaseDefaultRuntimeBinding_def world_bytes_ok_def)
next
  case (init_wait timed_out r st)
  then have "chs_running st = dr_running (ch_io w)" by (auto simp: Init_wait_def split: if_splits)
  then show ?thesis using ok init_wait by (simp add: upd_io_def upd_state_def world_bytes_ok_def bytes_ok_def held_bytes_def)
qed

lemma channel_reach_bytes: "channel_reach cx w \<Longrightarrow> world_bytes_ok w"
proof (induction rule: channel_reach.induct)
  case (channel_opened capacity opt self runtime fd ctls msgs raws w)
  show ?case
  proof (rule opened_world [OF channel_opened(5)])
    fix c assume "ch_callers w = []" "ch_io w = Driver_Start (new_RpcChannelIoDriver self (fresh_state capacity (ctx_timer_keeper c)
       (SetClientMetrics new_ClientMetrics (new_SlotTable capacity ctls msgs raws))) fd
       (co_max_frame_bytes opt) (co_max_outbound_bytes opt))"
    then show ?thesis
      using channel_opened(4)
      by (simp add: world_bytes_ok_def bytes_ok_def held_bytes_def Driver_Start_def Driver_post_def new_RpcChannelIoDriver_def)
  qed
next
  case (channel_next w w')
  then show ?case using world_bytes_step channel_reach_calls by blast
qed

end
