(* ===== verification/Client_Lifecycle.thy ===== *)
theory Client_Lifecycle
  imports Client_Bytes
begin

text \<open>
  The life of a connection: the flags of the driver agree with the operations that are suspended,
  a channel is closed only after it stopped, and it is closed once nothing is suspended and no
  command waits.
\<close>

section \<open>The invariant\<close>

fun is_start :: "IoCommand \<Rightarrow> bool" where
  "is_start (ChannelStart k) = True"
| "is_start cmd = False"

fun is_close :: "IoCommand \<Rightarrow> bool" where
  "is_close (ChannelClose k) = True"
| "is_close cmd = False"

definition starts :: "'m RpcChannelIoDriver \<Rightarrow> nat" where
  "starts d = length (filter is_start (dr_commands d))"

definition closes :: "'m RpcChannelIoDriver \<Rightarrow> nat" where
  "closes d = length (filter is_close (dr_commands d))"

text \<open>The conditions under which \<open>TryFinishCloseOnIoThread\<close> finishes.\<close>

definition settled :: "'m RpcChannelIoDriver \<Rightarrow> bool" where
  "settled d =
     (\<not> dr_running d \<and> dr_receiver_exited d \<and> \<not> dr_writing d \<and> (dr_connect_started d \<longrightarrow> dr_connect_operation_exited d) \<and>
      (dr_close_command_posted d \<longrightarrow> dr_close_command_handled d))"

definition flags_ok :: "'m RpcChannelIoDriver \<Rightarrow> bool" where
  "flags_ok d =
     ((dr_receiver_exited d \<longrightarrow> \<not> dr_running d) \<and>
      (dr_writing d = (dr_write_frame d \<noteq> None)) \<and>
      (dr_active_connect d = (dr_connect_started d \<and> \<not> dr_connect_operation_exited d)) \<and>
      (dr_active_read d = (dr_receiver_started d \<and> \<not> dr_receiver_exited d)) \<and>
      (dr_racing d \<longrightarrow> dr_active_connect d \<and> \<not> dr_receiver_started d) \<and>
      (dr_closed d \<longrightarrow> \<not> dr_running d \<and> dr_fd d < 0) \<and>
      (\<not> dr_connect_started d \<longrightarrow> \<not> dr_receiver_started d \<and> \<not> dr_connect_operation_exited d) \<and>
      (dr_connect_started d \<and> \<not> dr_racing d \<longrightarrow>
         chs_connect_finished (dr_state d) \<and> (dr_receiver_started d \<or> dr_receiver_exited d)) \<and>
      (starts d + (if dr_connect_started d then 1 else 0) \<le> 1) \<and>
      (starts d = 0 \<and> \<not> dr_connect_started d \<longrightarrow> dr_receiver_exited d \<and> chs_connect_finished (dr_state d)) \<and>
      (dr_close_command_posted d \<and> \<not> dr_close_command_handled d \<longrightarrow> 0 < closes d))"

definition life_ok :: "'m RpcChannelIoDriver \<Rightarrow> bool" where
  "life_ok d = (flags_ok d \<and> (settled d \<longrightarrow> dr_closed d))"

text \<open>Drivers that agree on everything the invariant reads.\<close>

definition same_life :: "'m RpcChannelIoDriver \<Rightarrow> 'm RpcChannelIoDriver \<Rightarrow> bool" where
  "same_life d d' =
     (dr_running d' = dr_running d \<and> dr_closed d' = dr_closed d \<and>
      chs_connect_finished (dr_state d') = chs_connect_finished (dr_state d) \<and> dr_fd d' = dr_fd d \<and>
      dr_receiver_started d' = dr_receiver_started d \<and> dr_receiver_exited d' = dr_receiver_exited d \<and>
      dr_writing d' = dr_writing d \<and> dr_connect_started d' = dr_connect_started d \<and>
      dr_connect_operation_exited d' = dr_connect_operation_exited d \<and> dr_active_connect d' = dr_active_connect d \<and>
      dr_active_read d' = dr_active_read d \<and> dr_close_command_posted d' = dr_close_command_posted d \<and>
      dr_close_command_handled d' = dr_close_command_handled d \<and> dr_racing d' = dr_racing d \<and>
      dr_write_frame d' = dr_write_frame d \<and> dr_commands d' = dr_commands d)"

lemma same_life_ok: "same_life d d' \<Longrightarrow> flags_ok d' = flags_ok d" "same_life d d' \<Longrightarrow> life_ok d' = life_ok d"
  by (simp_all add: same_life_def flags_ok_def life_ok_def settled_def starts_def closes_def)

lemma same_life_refl: "same_life d d"
  by (simp add: same_life_def)

lemma same_life_trans: "same_life u v \<Longrightarrow> same_life v d \<Longrightarrow> same_life u d"
  by (simp add: same_life_def)

lemma same_life_updates:
  "same_life v d \<Longrightarrow> same_life v (upd_slots f d)" "same_life v d \<Longrightarrow> same_life v (d\<lparr>dr_outbound := out\<rparr>)"
  "same_life v d \<Longrightarrow> same_life v (ReleaseReservedOutboundBytes n d)" "same_life v d \<Longrightarrow> same_life v (d\<lparr>dr_recv_buffer := buf\<rparr>)"
  "same_life v d \<Longrightarrow> same_life v (d\<lparr>dr_log := l\<rparr>)"
  by (simp_all add: same_life_def upd_slots_def upd_state_def ReleaseReservedOutboundBytes_def)

lemma same_life_fail_frames: "same_life v d \<Longrightarrow> same_life v (fail_frames now e msg fs d)"
  by (induction fs arbitrary: d) (simp_all add: same_life_updates)

section \<open>Finishing and failing\<close>

lemma finish_unsettled: "\<not> settled d \<Longrightarrow> Driver_TryFinishCloseOnIoThread d = d"
  by (auto simp: settled_def Driver_TryFinishCloseOnIoThread_def)

lemma close_fd_shape: "\<exists>l. close_fd d = d\<lparr>dr_fd := - 1, dr_log := l\<rparr>"
  by (cases "0 \<le> dr_fd d") (auto simp: close_fd_def Let_def intro: exI [of _ "dr_log d"])

lemma finish_settled:
  assumes "settled d"
  shows "\<exists>l. Driver_TryFinishCloseOnIoThread d = d\<lparr>dr_fd := - 1, dr_log := l, dr_state := (dr_state d)\<lparr>chs_closed := True\<rparr>\<rparr>"
proof -
  have "Driver_TryFinishCloseOnIoThread d = upd_state (\<lambda>st. st\<lparr>chs_closed := True\<rparr>) (close_fd d)"
    using assms by (auto simp: settled_def Driver_TryFinishCloseOnIoThread_def)
  then show ?thesis using close_fd_shape [of d] by (auto simp: upd_state_def)
qed

lemma life_finish:
  assumes "flags_ok d"
  shows "life_ok (Driver_TryFinishCloseOnIoThread d)"
proof (cases "settled d")
  case True
  then obtain l where l: "Driver_TryFinishCloseOnIoThread d =
      d\<lparr>dr_fd := - 1, dr_log := l, dr_state := (dr_state d)\<lparr>chs_closed := True\<rparr>\<rparr>" using finish_settled by blast
  have "\<not> dr_running d" using True by (simp add: settled_def)
  then show ?thesis using assms unfolding l life_ok_def flags_ok_def starts_def closes_def by auto
next
  case False
  then show ?thesis using assms by (simp add: finish_unsettled life_ok_def)
qed

text \<open>The driver as \<open>HandleTerminalFailureOnIoThread\<close> leaves it before it tries to finish.\<close>

definition stopping :: "'m RpcChannelIoDriver \<Rightarrow> 'm RpcChannelIoDriver" where
  "stopping d = d\<lparr>dr_state := (dr_state d)\<lparr>chs_running := False\<rparr>,
     dr_receiver_exited := (dr_receiver_exited d \<or> \<not> dr_receiver_started d)\<rparr>"

lemma terminal_shape:
  "\<exists>d'. same_life (stopping d) d' \<and> HandleTerminalFailureOnIoThread now e msg d = Driver_TryFinishCloseOnIoThread d'"
proof -
  let ?a = "upd_state (\<lambda>st. st\<lparr>chs_running := False\<rparr>) d"
  obtain l where l: "interrupt_socket ?a = ?a\<lparr>dr_log := l\<rparr>" using interrupt_log by blast
  let ?b = "if \<not> dr_receiver_started (?a\<lparr>dr_log := l\<rparr>) then (?a\<lparr>dr_log := l\<rparr>)\<lparr>dr_receiver_exited := True\<rparr> else ?a\<lparr>dr_log := l\<rparr>"
  let ?c = "FailAndClearOutboundOnIoThread now e msg (upd_slots (\<lambda>s. snd (FailAllActiveSlots now e msg s)) ?b)"
  have "same_life (stopping d) ?b" by (simp add: same_life_def stopping_def upd_state_def)
  then have "same_life (stopping d) ?c"
    unfolding FailAndClearOutboundOnIoThread_def by (intro same_life_updates same_life_fail_frames)
  moreover have "HandleTerminalFailureOnIoThread now e msg d = Driver_TryFinishCloseOnIoThread ?c"
    by (simp only: HandleTerminalFailureOnIoThread_def Let_def l)
  ultimately show ?thesis by blast
qed

lemma life_terminal: "flags_ok (stopping d) \<Longrightarrow> life_ok (HandleTerminalFailureOnIoThread now e msg d)"
  using terminal_shape [of d now e msg] same_life_ok(1) life_finish by metis

lemma flags_stopping: "flags_ok d \<Longrightarrow> flags_ok (stopping d)"
  by (auto simp: flags_ok_def stopping_def starts_def closes_def)

section \<open>Handlers\<close>

lemma life_flags: "life_ok d \<Longrightarrow> flags_ok d"
  by (simp add: life_ok_def)

lemma life_start_next: "life_ok d \<Longrightarrow> life_ok (Driver_StartNextWriteOnIoThread d)"
proof (induction d rule: Driver_StartNextWriteOnIoThread.induct)
  case (1 d)
  show ?case
  proof (cases "dr_outbound d = [] \<or> dr_writing d \<or> \<not> dr_running d")
    case True
    then have "Driver_StartNextWriteOnIoThread d = d"
      by (subst Driver_StartNextWriteOnIoThread.simps) (auto split: list.split)
    then show ?thesis using 1(2) by simp
  next
    case False
    then obtain f fs where q: "dr_outbound d = f # fs" by (cases "dr_outbound d") auto
    obtain g rest where m: "merge_frames f fs = (g, rest)" by fastforce
    let ?d = "d\<lparr>dr_writing := True, dr_outbound := rest\<rparr>"
    have "same_life d (?d\<lparr>dr_writing := False\<rparr>)" using False by (simp add: same_life_def)
    then have "life_ok (?d\<lparr>dr_writing := False\<rparr>)" using 1(2) same_life_ok(2) by blast
    from 1(1) [OF q _ m [symmetric] refl refl _ this] False
    have "life_ok (Driver_TryFinishCloseOnIoThread (Driver_StartNextWriteOnIoThread (?d\<lparr>dr_writing := False\<rparr>)))"
      if "of_buffer g = []" using that by (simp add: life_finish life_flags)
    moreover have "life_ok (?d\<lparr>dr_write_frame := Some g\<rparr>)"
      using 1(2) False by (auto simp: life_ok_def flags_ok_def settled_def starts_def closes_def)
    ultimately show ?thesis using False by (subst Driver_StartNextWriteOnIoThread.simps) (simp add: q m Let_def)
  qed
qed

text \<open>After a write: the coroutine has taken its frame but still counts as writing.\<close>

lemma life_write_end:
  assumes "flags_ok (d\<lparr>dr_writing := False\<rparr>)"
  shows "life_ok (Driver_WriteFrame_end d)"
proof (cases "dr_running d")
  case True
  then have "life_ok (d\<lparr>dr_writing := False\<rparr>)" using assms by (auto simp: life_ok_def settled_def flags_ok_def)
  then show ?thesis unfolding Driver_WriteFrame_end_def by (intro life_finish life_flags life_start_next)
next
  case False
  then have "Driver_StartNextWriteOnIoThread (d\<lparr>dr_writing := False\<rparr>) = d\<lparr>dr_writing := False\<rparr>"
    by (subst Driver_StartNextWriteOnIoThread.simps) (simp split: list.split)
  then show ?thesis unfolding Driver_WriteFrame_end_def using assms by (simp add: life_finish)
qed

lemma flags_taken:
  assumes "flags_ok d" "dr_write_frame d = Some f"
  shows "flags_ok (d\<lparr>dr_write_frame := None, dr_writing := False\<rparr>)"
  using assms by (auto simp: flags_ok_def starts_def closes_def)

lemma finish_other [simp]:
  "dr_writing (Driver_TryFinishCloseOnIoThread d) = dr_writing d"
  "dr_outbound (Driver_TryFinishCloseOnIoThread d) = dr_outbound d"
  "Driver_TryFinishCloseOnIoThread (d\<lparr>dr_write_frame := f\<rparr>) = (Driver_TryFinishCloseOnIoThread d)\<lparr>dr_write_frame := f\<rparr>"
  by (simp_all add: Driver_TryFinishCloseOnIoThread_def close_fd_def upd_state_def Let_def)

lemma finish_writing: "dr_writing d \<Longrightarrow> Driver_TryFinishCloseOnIoThread d = d"
  by (simp add: Driver_TryFinishCloseOnIoThread_def)

lemma life_write_resume:
  assumes ok: "life_ok d" and f: "dr_write_frame d = Some f"
  shows "life_ok (Driver_WriteResume now written d)"
proof -
  let ?d = "d\<lparr>dr_write_frame := None\<rparr>"
  have fl: "flags_ok (?d\<lparr>dr_writing := False\<rparr>)" using flags_taken [OF life_flags [OF ok] f] by simp
  have wr: "dr_writing d" using ok f by (auto simp: life_ok_def flags_ok_def)
  consider (stopped) "\<not> dr_running d" | (failed) "dr_running d" "written \<le> 0" | (wrote) "dr_running d" "0 < written" by linarith
  then show ?thesis
  proof cases
    case stopped
    then show ?thesis using fl by (simp add: Driver_WriteResume_def f life_write_end)
  next
    case failed
    obtain d' where d': "same_life (stopping ?d) d'"
      "HandleTerminalFailureOnIoThread now RPC_ECONN_FAILED ''Failed to write RPC request'' ?d = Driver_TryFinishCloseOnIoThread d'"
      using terminal_shape by blast
    have "dr_writing d'" using d'(1) wr by (simp add: same_life_def stopping_def)
    moreover have "same_life (stopping (?d\<lparr>dr_writing := False\<rparr>)) (d'\<lparr>dr_writing := False\<rparr>)"
      using d'(1) by (simp add: same_life_def stopping_def)
    then have "flags_ok (d'\<lparr>dr_writing := False\<rparr>)" using same_life_ok(1) flags_stopping [OF fl] by blast
    ultimately show ?thesis
      using failed by (simp add: Driver_WriteResume_def f Let_def d'(2) finish_writing life_write_end)
  next
    case wrote
    let ?e = "ReleaseReservedOutboundBytes (nat written) ?d"
    have e: "same_life ?d ?e" by (rule same_life_updates) (rule same_life_refl)
    have "same_life (?d\<lparr>dr_writing := False\<rparr>) (?e\<lparr>dr_writing := False\<rparr>)" using e by (simp add: same_life_def)
    then have "flags_ok (?e\<lparr>dr_writing := False\<rparr>)" using fl same_life_ok(1) by blast
    moreover have "same_life (d\<lparr>dr_write_frame := Some g\<rparr>) (?e\<lparr>dr_write_frame := Some g\<rparr>)" for g
      using e by (simp add: same_life_def)
    moreover have "life_ok (d\<lparr>dr_write_frame := Some g\<rparr>)" for g
      using ok f by (auto simp: life_ok_def flags_ok_def settled_def starts_def closes_def)
    ultimately show ?thesis
      using wrote same_life_ok(2) by (auto simp: Driver_WriteResume_def f Let_def life_write_end)
  qed
qed

lemma response_loop_shape:
  "\<exists>d'. same_life d d' \<and> (response_loop cx now d = (False, d') \<or>
     (\<exists>msg. response_loop cx now d = (True, HandleTerminalFailureOnIoThread now RPC_ECONN_FAILED msg (d'\<lparr>dr_receiver_exited := True\<rparr>))))"
proof (induction cx now d rule: response_loop.induct)
  case (1 cx now d)
  define result where "result = TryParseRpcFrame (cx_par_meta cx) (dr_recv_buffer d) (dr_max_frame_bytes d)"
  let ?d = "upd_slots (complete_response cx now result) (d\<lparr>dr_recv_buffer := drop (total_frame_bytes result) (dr_recv_buffer d)\<rparr>)"
  show ?case
  proof (cases "status result = SUCCESS \<and> m_msg_type (meta result) = RPC_RESPONSE")
    case True
    then have eq: "response_loop cx now d = response_loop cx now ?d"
      by (subst response_loop.simps) (simp add: Let_def flip: result_def)
    have "same_life d ?d" by (intro same_life_updates same_life_refl)
    moreover have "\<exists>d'. same_life ?d d' \<and> (response_loop cx now ?d = (False, d') \<or>
       (\<exists>msg. response_loop cx now ?d = (True, HandleTerminalFailureOnIoThread now RPC_ECONN_FAILED msg (d'\<lparr>dr_receiver_exited := True\<rparr>))))"
      using 1 [OF result_def] True by simp
    ultimately show ?thesis unfolding eq using same_life_trans by blast
  next
    case False
    then have "response_loop cx now d = (False, d) \<or>
      (\<exists>msg. response_loop cx now d = (True, HandleTerminalFailureOnIoThread now RPC_ECONN_FAILED msg (d\<lparr>dr_receiver_exited := True\<rparr>)))"
      by (subst (1 2) response_loop.simps) (auto simp: Let_def simp flip: result_def)
    then show ?thesis using same_life_refl by blast
  qed
qed

text \<open>The receive loop has left its read: the flag is clear although the receiver has not exited.\<close>

definition received :: "'m RpcChannelIoDriver \<Rightarrow> bool" where
  "received d =
     (\<not> dr_active_read d \<and> dr_receiver_started d \<and> \<not> dr_receiver_exited d \<and> flags_ok (d\<lparr>dr_active_read := True\<rparr>))"

lemma received_exit: "received d \<Longrightarrow> \<not> dr_running d \<Longrightarrow> flags_ok (d\<lparr>dr_receiver_exited := True\<rparr>)"
  by (auto simp: received_def flags_ok_def starts_def closes_def)

lemma received_terminal:
  assumes "received d"
  shows "life_ok (HandleTerminalFailureOnIoThread now e msg (d\<lparr>dr_receiver_exited := True\<rparr>))"
proof (rule life_terminal)
  show "flags_ok (stopping (d\<lparr>dr_receiver_exited := True\<rparr>))"
    using assms by (auto simp: received_def flags_ok_def stopping_def starts_def closes_def)
qed

lemma life_receive: "received d \<Longrightarrow> life_ok (Driver_ReceiveLoop now d)"
  using received_exit [of d] life_finish [of "d\<lparr>dr_receiver_exited := True\<rparr>"]
  by (auto simp: Driver_ReceiveLoop_def Let_def received_def life_ok_def settled_def)

lemma same_life_received:
  assumes "same_life d d'"
  shows "received d' = received d"
proof -
  have "same_life (d\<lparr>dr_active_read := True\<rparr>) (d'\<lparr>dr_active_read := True\<rparr>)" using assms by (simp add: same_life_def)
  then have "flags_ok (d'\<lparr>dr_active_read := True\<rparr>) = flags_ok (d\<lparr>dr_active_read := True\<rparr>)" by (rule same_life_ok(1))
  moreover have "dr_active_read d' = dr_active_read d" "dr_receiver_started d' = dr_receiver_started d"
    "dr_receiver_exited d' = dr_receiver_exited d"
    using assms by (simp_all add: same_life_def)
  ultimately show ?thesis by (simp only: received_def)
qed

lemma life_read_resume:
  assumes ok: "life_ok d" and rd: "dr_active_read d"
  shows "life_ok (Driver_ReadResume cx now n data d)"
proof -
  let ?d = "d\<lparr>dr_active_read := False, dr_recv_buffer := dr_recv_buffer d @ data\<rparr>"
  have r: "received ?d" using ok rd by (auto simp: received_def life_ok_def flags_ok_def starts_def closes_def)
  show ?thesis
  proof (cases "n \<le> 0")
    case True
    then show ?thesis
      using received_terminal [OF r] life_finish [OF received_exit [OF r]] by (simp add: Driver_ReadResume_def Let_def)
  next
    case False
    obtain d' where d': "same_life ?d d'" "response_loop cx now ?d = (False, d') \<or>
       (\<exists>msg. response_loop cx now ?d = (True, HandleTerminalFailureOnIoThread now RPC_ECONN_FAILED msg (d'\<lparr>dr_receiver_exited := True\<rparr>)))"
      using response_loop_shape by blast
    have "received d'" using r same_life_received [OF d'(1)] by simp
    note rc = life_receive [OF this, of now] received_terminal [OF this, of now RPC_ECONN_FAILED]
    from d'(2) show ?thesis
    proof (elim disjE exE)
      assume "response_loop cx now ?d = (False, d')"
      then show ?thesis using False rc(1) by (simp add: Driver_ReadResume_def Let_def)
    next
      fix msg assume "response_loop cx now ?d = (True, HandleTerminalFailureOnIoThread now RPC_ECONN_FAILED msg (d'\<lparr>dr_receiver_exited := True\<rparr>))"
      then show ?thesis using False rc(2) by (simp add: Driver_ReadResume_def Let_def)
    qed
  qed
qed

section \<open>Connecting\<close>

lemma flags_closed:
  "flags_ok d \<Longrightarrow> \<not> dr_running d \<Longrightarrow> flags_ok (d\<lparr>dr_fd := - 1, dr_log := l, dr_state := (dr_state d)\<lparr>chs_closed := True\<rparr>\<rparr>)"
  unfolding flags_ok_def starts_def closes_def by auto

text \<open>The driver after a connect attempt has failed.\<close>

definition given_up :: "'m RpcChannelIoDriver \<Rightarrow> 'm RpcChannelIoDriver" where
  "given_up d = d\<lparr>dr_racing := False, dr_receiver_exited := True,
     dr_state := (dr_state d)\<lparr>chs_connect_finished := True, chs_running := False\<rparr>\<rparr>"

definition raced :: "'m RpcChannelIoDriver \<Rightarrow> bool" where
  "raced d =
     (dr_connect_started d \<and> \<not> dr_receiver_started d \<and> (dr_receiver_exited d \<or> dr_closed d \<longrightarrow> \<not> dr_running d) \<and>
      flags_ok (given_up d))"

lemma raced_finish: "raced d \<Longrightarrow> raced (Driver_TryFinishCloseOnIoThread d)"
proof (cases "settled d")
  case True
  assume r: "raced d"
  obtain l where l: "Driver_TryFinishCloseOnIoThread d =
      d\<lparr>dr_fd := - 1, dr_log := l, dr_state := (dr_state d)\<lparr>chs_closed := True\<rparr>\<rparr>" using finish_settled [OF True] by blast
  have "flags_ok (given_up d)" "\<not> dr_running (given_up d)" using r by (simp_all add: raced_def given_up_def)
  from flags_closed [OF this, of l] have "flags_ok (given_up (d\<lparr>dr_fd := - 1, dr_log := l, dr_state := (dr_state d)\<lparr>chs_closed := True\<rparr>\<rparr>))"
    by (rule back_subst [of flags_ok]) (cases d, simp add: given_up_def)
  then show ?thesis unfolding l using r True by (simp add: raced_def settled_def)
qed (simp add: finish_unsettled)

lemma raced_failed:
  assumes r: "raced d"
  shows "life_ok (Driver_TryFinishCloseOnIoThread
    ((FinishConnectOnIoThread c (HandleTerminalFailureOnIoThread now e msg (d\<lparr>dr_racing := False\<rparr>)))\<lparr>dr_receiver_exited := True\<rparr>))"
proof -
  obtain d' where d': "same_life (stopping (d\<lparr>dr_racing := False\<rparr>)) d'"
    "HandleTerminalFailureOnIoThread now e msg (d\<lparr>dr_racing := False\<rparr>) = Driver_TryFinishCloseOnIoThread d'"
    using terminal_shape by blast
  have "same_life (given_up d) (given_up d')" using d'(1) by (simp add: same_life_def stopping_def given_up_def)
  then have "flags_ok (given_up d')" using same_life_ok(1) r by (auto simp: raced_def)
  moreover have "dr_connect_started d'" "\<not> dr_receiver_started d'" "\<not> dr_running d'"
    using d'(1) r by (simp_all add: same_life_def stopping_def raced_def)
  ultimately have "raced d'" by (simp add: raced_def)
  then have rf: "raced (Driver_TryFinishCloseOnIoThread d')" by (rule raced_finish)
  have "\<not> dr_running (Driver_TryFinishCloseOnIoThread d')" "\<not> dr_racing (Driver_TryFinishCloseOnIoThread d')"
    using d'(1) by (simp_all add: same_life_def stopping_def Driver_TryFinishCloseOnIoThread_def close_fd_def upd_state_def Let_def)
  then have "same_life (given_up (Driver_TryFinishCloseOnIoThread d'))
      ((FinishConnectOnIoThread c (Driver_TryFinishCloseOnIoThread d'))\<lparr>dr_receiver_exited := True\<rparr>)"
    by (simp add: same_life_def given_up_def FinishConnectOnIoThread_def upd_state_def)
  from same_life_ok(1) [OF this] show ?thesis unfolding d'(2) using rf by (intro life_finish) (simp add: raced_def)
qed

lemma raced_connected:
  assumes "raced d" "dr_running d" "dr_connect_operation_exited d"
  shows "life_ok (Driver_ReceiveLoop now ((FinishConnectOnIoThread c (d\<lparr>dr_racing := False\<rparr>))\<lparr>dr_receiver_started := True\<rparr>))"
proof -
  let ?e = "(FinishConnectOnIoThread c (d\<lparr>dr_racing := False\<rparr>))\<lparr>dr_receiver_started := True\<rparr>"
  have run: "dr_running ?e" using assms(2) by (simp add: FinishConnectOnIoThread_def upd_state_def)
  have "flags_ok (?e\<lparr>dr_active_read := True\<rparr>)"
    using assms unfolding raced_def flags_ok_def starts_def closes_def given_up_def FinishConnectOnIoThread_def upd_state_def by auto
  then show ?thesis using run by (simp add: Driver_ReceiveLoop_def life_ok_def settled_def)
qed

lemma life_connect_resume:
  assumes "raced d" "c = 0 \<and> dr_running d \<longrightarrow> dr_connect_operation_exited d"
  shows "life_ok (ConnectOnIoThread_resume now c d)"
  using raced_failed [OF assms(1)] raced_connected [OF assms(1)] assms(2)
  by (simp add: ConnectOnIoThread_resume_def Let_def)

lemma raced_start:
  assumes "life_ok d" "dr_racing d"
  shows "raced d" "raced (d\<lparr>dr_active_connect := False, dr_connect_operation_exited := True\<rparr>)"
  using assms unfolding life_ok_def raced_def given_up_def flags_ok_def starts_def closes_def by auto

lemma life_connect:
  assumes ok: "life_ok d" and ac: "dr_active_connect d"
  shows "life_ok (ConnectResume now c d)"
proof -
  let ?e = "d\<lparr>dr_active_connect := False, dr_connect_operation_exited := True\<rparr>"
  have sel: "dr_racing (Driver_TryFinishCloseOnIoThread ?e) = dr_racing d"
    "dr_connect_operation_exited (Driver_TryFinishCloseOnIoThread ?e)"
    by (simp_all add: Driver_TryFinishCloseOnIoThread_def close_fd_def upd_state_def Let_def)
  show ?thesis
  proof (cases "dr_racing d")
    case True
    have "raced (Driver_TryFinishCloseOnIoThread ?e)" by (rule raced_finish [OF raced_start(2) [OF ok True]])
    then show ?thesis using True sel by (simp add: ConnectResume_def Let_def life_connect_resume)
  next
    case False
    then have "flags_ok ?e" using ok ac unfolding life_ok_def flags_ok_def starts_def closes_def by auto
    then show ?thesis using False sel by (simp add: ConnectResume_def Let_def life_finish)
  qed
qed

lemma life_connect_timeout: "life_ok d \<Longrightarrow> life_ok (ConnectTimeoutResume now d)"
  using raced_start(1) [of d] by (auto simp: ConnectTimeoutResume_def ETIMEDOUT_def intro!: life_connect_resume)

section \<open>Commands\<close>

lemma life_start:
  assumes "life_ok d" "dr_commands d = ChannelStart k # rest"
  shows "life_ok (Driver_StartOnIoThread (d\<lparr>dr_commands := rest\<rparr>))"
proof (cases "dr_running d")
  case True
  have "flags_ok (d\<lparr>dr_commands := rest, dr_connect_started := True, dr_active_connect := True, dr_racing := True\<rparr>)"
    using assms True unfolding life_ok_def flags_ok_def starts_def closes_def by (auto split: if_splits)
  then show ?thesis using True by (simp add: Driver_StartOnIoThread_def life_ok_def settled_def)
next
  case False
  have "flags_ok ((FinishConnectOnIoThread c (d\<lparr>dr_commands := rest\<rparr>))\<lparr>dr_receiver_exited := True\<rparr>)" for c
    using assms False unfolding life_ok_def flags_ok_def starts_def closes_def FinishConnectOnIoThread_def upd_state_def
    by (auto split: if_splits)
  then show ?thesis using False by (simp add: Driver_StartOnIoThread_def life_finish)
qed

lemma life_begin_close:
  assumes "life_ok d" "dr_commands d = ChannelClose k # rest"
  shows "life_ok (Driver_BeginCloseOnIoThread now (d\<lparr>dr_commands := rest\<rparr>))"
proof -
  let ?d = "d\<lparr>dr_commands := rest\<rparr>"
  obtain d' where d': "same_life (stopping ?d) d'"
    "HandleTerminalFailureOnIoThread now RPC_ECONN_FAILED ''Connection closed'' ?d = Driver_TryFinishCloseOnIoThread d'"
    using terminal_shape by blast
  have "flags_ok ((stopping ?d)\<lparr>dr_close_command_handled := True\<rparr>)"
    using assms unfolding life_ok_def flags_ok_def starts_def closes_def stopping_def by auto
  moreover have "same_life ((stopping ?d)\<lparr>dr_close_command_handled := True\<rparr>) (d'\<lparr>dr_close_command_handled := True\<rparr>)"
    using d'(1) by (simp add: same_life_def)
  ultimately have fl: "flags_ok (d'\<lparr>dr_close_command_handled := True\<rparr>)" using same_life_ok(1) by blast
  have "flags_ok ((Driver_TryFinishCloseOnIoThread d')\<lparr>dr_close_command_handled := True\<rparr>)"
  proof (cases "settled d'")
    case True
    obtain l where l: "Driver_TryFinishCloseOnIoThread d' =
        d'\<lparr>dr_fd := - 1, dr_log := l, dr_state := (dr_state d')\<lparr>chs_closed := True\<rparr>\<rparr>" using finish_settled [OF True] by blast
    have "\<not> dr_running (d'\<lparr>dr_close_command_handled := True\<rparr>)" using True by (simp add: settled_def)
    from flags_closed [OF fl this, of l] show ?thesis
      unfolding l by (rule back_subst [of flags_ok]) (cases d', simp)
  qed (simp add: finish_unsettled fl)
  then show ?thesis by (simp add: Driver_BeginCloseOnIoThread_def Let_def d'(2) life_finish)
qed

lemma life_send: "life_ok d \<Longrightarrow> life_ok (SendFrameOnIoThread now cid payload d)"
proof -
  assume ok: "life_ok d"
  have "same_life d (upd_slots f (ReleaseReservedOutboundBytes n d))" "same_life d (d\<lparr>dr_outbound := q\<rparr>)" for f n q
    by (intro same_life_updates same_life_refl)+
  then have "life_ok (upd_slots f (ReleaseReservedOutboundBytes n d))" "life_ok (d\<lparr>dr_outbound := q\<rparr>)" for f n q
    using ok same_life_ok(2) by blast+
  then show ?thesis by (simp add: SendFrameOnIoThread_def life_start_next)
qed

lemma life_drop_command:
  assumes "life_ok d" "dr_commands d = cmd # rest" "\<not> is_start cmd" "\<not> is_close cmd"
  shows "life_ok (d\<lparr>dr_commands := rest\<rparr>)"
  using assms unfolding life_ok_def flags_ok_def settled_def starts_def closes_def by auto

lemma life_dispatch:
  assumes "life_ok d" "dr_commands d = cmd # rest"
  shows "life_ok (Driver_DispatchCommand now cmd (d\<lparr>dr_commands := rest\<rparr>))"
  using life_start [OF assms(1)] life_begin_close [OF assms(1)] life_send [OF life_drop_command [OF assms]]
    life_drop_command [OF assms] assms(2)
  by (cases cmd) simp_all

section \<open>Reachable channels\<close>

definition world_life_ok :: "'m ChannelWorld \<Rightarrow> bool" where
  "world_life_ok w = (life_ok (ch_io w) \<and> (ch_closers w \<noteq> [] \<longrightarrow> \<not> dr_running (ch_io w)))"

lemma world_life_io:
  assumes "world_life_ok w" "latched (ch_io w) (f (ch_io w))" "life_ok (f (ch_io w))"
  shows "world_life_ok (upd_io f w)"
  using assms by (auto simp: world_life_ok_def upd_io_def latched_def)

lemma life_only_slots:
  assumes "only_slots w w'"
  shows "life_ok (ch_io w') = life_ok (ch_io w)" "dr_running (ch_io w') = dr_running (ch_io w)"
proof -
  have same: "same_life (ch_io w) (ch_io w')"
    by (subst only_slotsD(6) [OF assms], rule same_life_updates(1), rule same_life_refl)
  show "life_ok (ch_io w') = life_ok (ch_io w)" by (rule same_life_ok(2) [OF same])
  show "dr_running (ch_io w') = dr_running (ch_io w)" using same by (simp add: same_life_def)
qed

lemma world_life_only_slots: "only_slots w w' \<Longrightarrow> world_life_ok w \<Longrightarrow> world_life_ok w'"
  using life_only_slots [of w w'] only_slotsD(2) [of w w'] by (simp add: world_life_ok_def)

lemma sound_life: "sound X t w w' \<Longrightarrow> world_life_ok w \<Longrightarrow> world_life_ok w'"
  unfolding sound_def by (elim conjE) (rule world_life_only_slots)

lemma life_enqueue [simp]:
  "life_ok (EnqueueReserved f d) = life_ok d" "dr_state (EnqueueReserved f d) = dr_state d"
  by (simp_all add: EnqueueReserved_def life_ok_def flags_ok_def settled_def starts_def closes_def Driver_post_def)

lemma life_close_post: "life_ok d \<Longrightarrow> life_ok (Driver_RequestClose_post d)"
  unfolding life_ok_def flags_ok_def settled_def starts_def closes_def Driver_RequestClose_post_def Driver_post_def by auto

lemma life_stop: "life_ok d \<Longrightarrow> dr_running d \<Longrightarrow> life_ok (upd_state (\<lambda>st. st\<lparr>chs_running := False\<rparr>) d)"
  unfolding life_ok_def flags_ok_def settled_def starts_def closes_def upd_state_def by auto

lemma life_wait_closed:
  assumes "life_ok d" "\<not> dr_running d" "WaitClosed on_io timed_out d = Some d'"
  shows "life_ok d'" "\<not> dr_running d'"
proof -
  have "d' = d \<or> d' = upd_state (\<lambda>st. st\<lparr>chs_closed := True\<rparr>) (close_fd d)"
    using assms(3) by (auto simp: WaitClosed_def split: if_splits)
  moreover obtain l where "close_fd d = d\<lparr>dr_fd := - 1, dr_log := l\<rparr>" using close_fd_shape by blast
  ultimately have "d' = d \<or> d' = d\<lparr>dr_fd := - 1, dr_log := l, dr_state := (dr_state d)\<lparr>chs_closed := True\<rparr>\<rparr>"
    by (simp add: upd_state_def)
  then show "life_ok d'" "\<not> dr_running d'"
    using assms flags_closed [of d l] by (auto simp: life_ok_def)
qed

lemma life_connect_expired:
  "life_ok d \<Longrightarrow> life_ok (d\<lparr>dr_state := (dr_state d)\<lparr>chs_connect_result := r, chs_connect_finished := True\<rparr>\<rparr>)"
  unfolding life_ok_def flags_ok_def settled_def starts_def closes_def by auto

lemma life_init_wait:
  assumes "life_ok d" "Init_wait timed_out (dr_state d) = Some (r, st)"
  shows "life_ok (upd_state (\<lambda>_. st) d)" "chs_running st = dr_running d"
proof -
  consider "st = dr_state d" | "st = (dr_state d)\<lparr>chs_connect_result := - ETIMEDOUT, chs_connect_finished := True\<rparr>"
    using assms(2) by (auto simp: Init_wait_def split: if_splits)
  then show "life_ok (upd_state (\<lambda>_. st) d)" "chs_running st = dr_running d"
    by (cases, simp_all add: upd_state_def assms(1) life_connect_expired)+
qed

lemma reserve_life: "Driver_TryReserveOutboundBytes n d = (True, d') \<Longrightarrow> same_life d d'"
  by (auto simp: Driver_TryReserveOutboundBytes_def same_life_def upd_slots_def upd_state_def split: if_splits)

lemma release_life: "same_life d (ReleaseReservedOutboundBytes n d)"
  by (rule same_life_updates) (rule same_life_refl)

lemma world_life_same:
  assumes "world_life_ok w" "same_life (ch_io w) d"
  shows "world_life_ok (w\<lparr>ch_io := d, ch_callers := cs\<rparr>)"
proof -
  have "dr_running d = dr_running (ch_io w)" using assms(2) by (simp add: same_life_def)
  then show ?thesis using assms(1) same_life_ok(2) [OF assms(2)] by (simp add: world_life_ok_def)
qed

lemma world_life_callers [simp]: "world_life_ok (w\<lparr>ch_callers := cs\<rparr>) = world_life_ok w"
  by (simp add: world_life_ok_def)

lemma world_life_admit:
  assumes "world_life_ok w" "calls_ok w" "version_left (ch_slots w)"
  shows "world_life_ok (admit_caller call (start_admit now call w))"
proof -
  obtain r v where out: "start_admit now call w = (r, v)" by fastforce
  have "slot_inv (ch_slots w)" "calls_owing 0 (ch_slots w)" using assms(2) by (simp_all add: calls_ok_def)
  from admit_spec [OF this assms(3) out] have "only_slots w v" by (simp add: sound_def)
  then have "world_life_ok v" by (rule world_life_only_slots) (rule assms(1))
  then show ?thesis by (cases r) (simp_all add: out)
qed

lemma world_life_arm:
  assumes life: "world_life_ok w" and calls: "calls_ok w" and at: "ch_callers w = cs @ CallAdmitted call cid # cs'"
  shows "world_life_ok (arm_caller call cid (start_arm cx now rnd call cid (w\<lparr>ch_callers := cs @ cs'\<rparr>)))"
proof -
  let ?v = "w\<lparr>ch_callers := cs @ cs'\<rparr>"
  obtain r u where out: "start_arm cx now rnd call cid ?v = (r, u)" by fastforce
  have inv: "slot_inv (ch_slots ?v)" "calls_owing 0 (ch_slots ?v)" "unpublished (ch_slots ?v) cid"
    using calls_ok_take [OF calls at] by (simp_all add: calls_ok_def)
  have v: "world_life_ok ?v" using life by simp
  have "world_life_ok u"
  proof (rule arm_spec [OF inv out])
    fix sr assume "sound {cid} {#} ?v u"
    then show ?thesis by (rule sound_life [OF _ v])
  next
    fix fr v d assume r: "sound {} {#} ?v v" "Driver_TryReserveOutboundBytes (length fr) (ch_io v) = (True, d)" "u = v\<lparr>ch_io := d\<rparr>"
    have "world_life_ok v" by (rule sound_life [OF r(1) v])
    from world_life_same [OF this reserve_life [OF r(2)], of "ch_callers v"] show ?thesis
      unfolding r(3) by (simp add: world_life_ok_def)
  qed
  then show ?thesis by (cases r) (simp_all add: out)
qed

lemma world_life_publish:
  assumes life: "world_life_ok w" and calls: "calls_ok w" and at: "ch_callers w = cs @ CallReserved call cid fr # cs'"
  shows "world_life_ok (publish_caller cid fr (start_publish now call cid fr (w\<lparr>ch_callers := cs @ cs'\<rparr>)))"
proof -
  let ?v = "w\<lparr>ch_callers := cs @ cs'\<rparr>"
  obtain r u where out: "start_publish now call cid fr ?v = (r, u)" by fastforce
  have inv: "slot_inv (ch_slots ?v)" "calls_owing 0 (ch_slots ?v)" "unpublished (ch_slots ?v) cid"
    using calls_ok_take [OF calls at] by (simp_all add: calls_ok_def)
  have v: "world_life_ok ?v" using life by simp
  have "world_life_ok u"
  proof (rule publish_spec [OF inv out])
    fix sr v assume r: "sound {cid} {#} ?v v" "u = upd_io (ReleaseReservedOutboundBytes (length fr)) v"
    have "world_life_ok v" by (rule sound_life [OF r(1) v])
    from world_life_same [OF this release_life [where n = "length fr"], of "ch_callers v"] show ?thesis
      unfolding r(2) by (simp add: world_life_ok_def upd_io_def)
  next
    assume "sound {cid} {#} ?v u"
    then show ?thesis by (rule sound_life [OF _ v])
  qed
  then show ?thesis by (cases r) (simp_all add: out)
qed

lemma world_life_step:
  assumes life: "world_life_ok w" and calls: "calls_ok w" and st: "channel_step cx w w'"
  shows "world_life_ok w'"
  using st
proof (cases rule: channel_step.cases)
  case (call_admit call now)
  then show ?thesis using world_life_admit [OF life calls] by simp
next
  case (call_arm cs call cid cs' now rnd)
  then show ?thesis using world_life_arm [OF life calls] by simp
next
  case (call_publish cs call cid fr cs' now)
  then show ?thesis using world_life_publish [OF life calls] by simp
next
  case (call_enqueue cs cid fr cs')
  then show ?thesis using life by (simp add: start_enqueue_def upd_io_def world_life_ok_def)
next
  case (io_command cmd rest now)
  show ?thesis unfolding io_command(1)
    by (rule world_life_io [OF life], rule latch.dispatch)
       (rule life_dispatch [OF _ io_command(2)], use life in \<open>simp add: world_life_ok_def\<close>)
next
  case (io_connect now result)
  show ?thesis unfolding io_connect(1)
    by (rule world_life_io [OF life], rule latch.connect_resume(1))
       (rule life_connect [OF _ io_connect(2)], use life in \<open>simp add: world_life_ok_def\<close>)
next
  case (io_connect_timeout now)
  show ?thesis unfolding io_connect_timeout(1)
    by (rule world_life_io [OF life], rule latch.connect_resume(2))
       (rule life_connect_timeout, use life in \<open>simp add: world_life_ok_def\<close>)
next
  case (io_read bytes data now)
  show ?thesis unfolding io_read(1)
    by (rule world_life_io [OF life], rule latch.read_resume)
       (rule life_read_resume [OF _ io_read(2)], use life in \<open>simp add: world_life_ok_def\<close>)
next
  case (io_write f written now)
  show ?thesis unfolding io_write(1)
    by (rule world_life_io [OF life], rule latch.write_resume)
       (rule life_write_resume [OF _ io_write(2)], use life in \<open>simp add: world_life_ok_def\<close>)
next
  case (deadline now cid)
  have "only_slots w w'" unfolding deadline(1) by (simp add: only_slots_same)
  then show ?thesis by (rule world_life_only_slots) (rule life)
next
  case (user_cancel now c)
  have "only_slots w w'" unfolding user_cancel(1) cancel_controller_def by (simp add: Let_def only_slots_same split: prod.split)
  then show ?thesis by (rule world_life_only_slots) (rule life)
next
  case (user_controller c k)
  have "only_slots w w'" unfolding user_controller(1) by (simp add: only_slots_same)
  then show ?thesis by (rule world_life_only_slots) (rule life)
next
  case (timer_thread keeper)
  have "only_slots w w'" unfolding timer_thread(1) by (simp add: only_slots_same)
  then show ?thesis by (rule world_life_only_slots) (rule life)
next
  case close_begin
  have "life_ok (upd_state (\<lambda>st. st\<lparr>chs_running := False\<rparr>) (ch_io w))"
  proof (cases "dr_running (ch_io w)")
    case True
    moreover have "life_ok (ch_io w)" using life by (simp add: world_life_ok_def)
    ultimately show ?thesis by (intro life_stop)
  next
    case False
    then have "upd_state (\<lambda>st. st\<lparr>chs_running := False\<rparr>) (ch_io w) = ch_io w" by (simp add: upd_state_def)
    then show ?thesis using life by (simp add: world_life_ok_def)
  qed
  then show ?thesis
    by (simp add: close_begin(1) begin_close_def Driver_RequestClose_exchange_def world_life_ok_def)
next
  case (close_post xs ys)
  have "life_ok (Driver_RequestClose_post (ch_io w))" using life life_close_post [of "ch_io w"] by (simp add: world_life_ok_def)
  moreover have "dr_running (Driver_RequestClose_post (ch_io w)) = dr_running (ch_io w)"
    by (simp add: Driver_RequestClose_post_def Driver_post_def)
  ultimately show ?thesis using life close_post by (simp add: world_life_ok_def upd_io_def)
next
  case (close_end xs ys on_io timed_out d)
  have "life_ok (ch_io w)" "\<not> dr_running (ch_io w)" using life close_end(2) by (simp_all add: world_life_ok_def)
  from life_wait_closed [OF this close_end(3)] show ?thesis
    by (simp add: close_end(1) Close_reset_def ReleaseDefaultRuntimeBinding_def world_life_ok_def)
next
  case (init_wait timed_out r st)
  have "life_ok (ch_io w)" using life by (simp add: world_life_ok_def)
  from life_init_wait [OF this init_wait(2)] show ?thesis
    using life by (simp add: init_wait(1) world_life_ok_def upd_io_def)
qed

lemma channel_reach_life: "channel_reach cx w \<Longrightarrow> world_life_ok w"
proof (induction rule: channel_reach.induct)
  case (channel_opened capacity opt self runtime fd ctls msgs raws w)
  show ?case
  proof (rule opened_world [OF channel_opened(5)])
    fix c assume "ch_closers w = []" "ch_io w = Driver_Start (new_RpcChannelIoDriver self (fresh_state capacity (ctx_timer_keeper c)
       (SetClientMetrics new_ClientMetrics (new_SlotTable capacity ctls msgs raws))) fd
       (co_max_frame_bytes opt) (co_max_outbound_bytes opt))"
    then show ?thesis
      by (simp add: world_life_ok_def life_ok_def flags_ok_def settled_def starts_def closes_def Driver_Start_def Driver_post_def
          new_RpcChannelIoDriver_def fresh_state_def new_ChannelState_def)
  qed
next
  case (channel_next w w')
  show ?case by (rule world_life_step [OF channel_next.IH channel_reach_calls [OF channel_next.hyps(1)] channel_next.hyps(2)])
qed

end
