(* ===== verification/Client_Sample.thy ===== *)
theory Client_Sample
  imports Client_Lifecycle
begin

text \<open>
  A concrete run of a client channel with one slot, used to instantiate its properties: the channel
  connects and one call without a controller is started, published and posted.
\<close>

definition sample_client :: "unit ClientCodec" where
  "sample_client = \<lparr>cx_ser_meta = (\<lambda>_. Some [8]), cx_par_meta = (\<lambda>_. None), cx_ser_msg = (\<lambda>_. None),
     cx_parse_msg = (\<lambda>_. (True, ()))\<rparr>"

definition sample_unary :: "unit UnaryCall" where
  "sample_unary = \<lparr>uc_service_name = ''Echo'', uc_method_name = ''Ping'', uc_controller = None, uc_request = None,
     uc_response = None, uc_task = Some 3, uc_target = Some 1, uc_raw_request_body = None, uc_raw_response_body = None\<rparr>"

definition sample_options :: RpcChannelOptions where
  "sample_options = default_RpcChannelOptions\<lparr>co_max_in_flight := 1\<rparr>"

definition sample_context :: ChannelContext where
  "sample_context = \<lparr>ctx_running = True, ctx_executor = Some 1, ctx_timer_keeper = new_TimerKeeper\<rparr>"

definition sample_slots :: "unit SlotTable" where
  "sample_slots = SetClientMetrics new_ClientMetrics (SetDeadlineTimerKeeper new_TimerKeeper
     (new_SlotTable 1 (\<lambda>_. new_RpcController 0) (\<lambda>_. ()) (\<lambda>_. [])))"

text \<open>The driver before and after the connect, and the channel around it.\<close>

definition idle_driver :: "unit RpcChannelIoDriver" where
  "idle_driver = new_RpcChannelIoDriver 0 \<lparr>chs_slots = sample_slots, chs_running = True, chs_connect_finished = False,
     chs_connect_result = - 1, chs_closed = False\<rparr> 5 kDefaultMaxRpcFrameBytes (16 * 1024 * 1024)"

definition ready_driver :: "unit SlotTable \<Rightarrow> unit RpcChannelIoDriver" where
  "ready_driver s = idle_driver\<lparr>dr_state := \<lparr>chs_slots = s, chs_running = True, chs_connect_finished = True,
     chs_connect_result = 0, chs_closed = False\<rparr>, dr_connect_started := True, dr_connect_operation_exited := True,
     dr_receiver_started := True, dr_active_read := True\<rparr>"

definition sample_world :: "unit RpcChannelIoDriver \<Rightarrow> unit caller list \<Rightarrow> unit ChannelWorld" where
  "sample_world d cs = \<lparr>ch_options = sample_options, ch_ctx = Some sample_context, ch_timer_keeper = True,
     ch_runtime = True, ch_driver = True, ch_io = d, ch_callers = cs, ch_closers = [], ch_events = []\<rparr>"

lemma sample_opened: "channel_reach sample_client (sample_world (Driver_Start idle_driver) [])"
proof (rule channel_opened)
  show "Init_open 1 0 sample_options (Some sample_context) 5 (new_RpcChannel 1 (\<lambda>_. new_RpcController 0) (\<lambda>_. ()) (\<lambda>_. [])) =
      (True, sample_world (Driver_Start idle_driver) [])"
    by (simp add: Init_open_def BindDefaultRuntime_def new_RpcChannel_def sample_context_def sample_world_def idle_driver_def
        sample_options_def default_RpcChannelOptions_def fresh_state_def new_ChannelState_def new_RpcChannelIoDriver_def
        sample_slots_def SetClientMetrics_def SetDeadlineTimerKeeper_def new_SlotTable_def Let_def)
qed (simp_all add: UINT32_MAX_def sample_options_def RpcChannelOptions_IsValid_def default_RpcChannelOptions_def INT_MAX_def
    kRpcHeaderBytes_def kDefaultMaxRpcFrameBytes_def SIZE_MAX_def)

lemma sample_connected: "channel_reach sample_client (sample_world (ready_driver sample_slots) [])"
proof -
  let ?d = "idle_driver\<lparr>dr_connect_started := True, dr_active_connect := True, dr_racing := True\<rparr>"
  let ?w = "sample_world (Driver_Start idle_driver) []"
  have "channel_step sample_client ?w (upd_io (\<lambda>d. Driver_DispatchCommand 0 (ChannelStart 0) (d\<lparr>dr_commands := []\<rparr>)) ?w)"
    by (rule io_command)
       (simp_all add: sample_world_def Driver_Start_def Driver_post_def idle_driver_def new_RpcChannelIoDriver_def driver_owned_def)
  also have "upd_io (\<lambda>d. Driver_DispatchCommand 0 (ChannelStart 0) (d\<lparr>dr_commands := []\<rparr>)) ?w = sample_world ?d []"
    by (simp add: upd_io_def sample_world_def Driver_StartOnIoThread_def Driver_Start_def Driver_post_def idle_driver_def
        new_RpcChannelIoDriver_def)
  finally have r: "channel_reach sample_client (sample_world ?d [])" by (rule channel_next [OF sample_opened])
  have "channel_step sample_client (sample_world ?d []) (upd_io (ConnectResume 0 0) (sample_world ?d []))"
    by (rule io_connect) (simp add: sample_world_def)
  also have "upd_io (ConnectResume 0 0) (sample_world ?d []) = sample_world (ready_driver sample_slots) []"
    by (simp add: upd_io_def sample_world_def ready_driver_def idle_driver_def new_RpcChannelIoDriver_def ConnectResume_def
        ConnectOnIoThread_resume_def Driver_TryFinishCloseOnIoThread_def FinishConnectOnIoThread_def Driver_ReceiveLoop_def
        upd_state_def Let_def)
  finally show ?thesis by (rule channel_next [OF r])
qed

section \<open>The call\<close>

definition sample_cid :: u64 where "sample_cid = MakeCorrelationId 1 0"

definition started_slots :: "unit SlotTable" where
  "started_slots = upd_metrics (\<lambda>m. m\<lparr>cm_calls_started := Counter_Add (cm_calls_started m) 1\<rparr>) sample_slots"

definition admitted_slots :: "unit SlotTable" where
  "admitted_slots = snd (AllocateSlot (Some 3) None None (Some 1) None 1 started_slots)"

lemma sample_allocated: "AllocateSlot (Some 3) None None (Some 1) None 1 started_slots = (sample_cid, admitted_slots)"
proof -
  have "fst (AllocateSlot (Some 3) None None (Some 1) None 1 started_slots) = sample_cid"
    by (simp add: started_slots_def sample_slots_def SetDeadlineTimerKeeper_def slot_eval sample_cid_def)
  then show ?thesis unfolding admitted_slots_def by (metis prod.collapse)
qed

lemma sample_admitted:
  "start_admit 0 sample_unary (sample_world (ready_driver sample_slots) []) =
     (Inr sample_cid, sample_world (ready_driver admitted_slots) [])"
proof -
  have "sample_cid \<noteq> 0" by (simp add: sample_cid_def MakeCorrelationId_def)
  then show ?thesis
    using sample_allocated
    by (simp add: start_admit_def sample_unary_def sample_world_def ready_driver_def on_slots_def upd_io_def upd_slots_def
        upd_state_def started_slots_def bind_controller_def sample_options_def Let_def)
qed

definition timed_slots :: "unit SlotTable" where
  "timed_slots = (case st_deadline_timer_keeper admitted_slots of
     Some k \<Rightarrow> (case AddTimerCallback 0 0 5000000 (unat sample_cid) k of
        (tid, k) \<Rightarrow> snd (AttachDeadlineTimer sample_cid tid (SetDeadlineTimerKeeper k admitted_slots))))"

definition sample_frame :: bytes where
  "sample_frame = snd (pack_call sample_client sample_unary sample_cid (sample_world (ready_driver timed_slots) []))"

lemma sample_timed: "\<exists>k tid k'. st_deadline_timer_keeper admitted_slots = Some k \<and>
   AddTimerCallback 0 0 5000000 (unat sample_cid) k = (tid, k') \<and>
   AttachDeadlineTimer sample_cid tid (SetDeadlineTimerKeeper k' admitted_slots) = (True, timed_slots)"
  by (simp add: timed_slots_def admitted_slots_def started_slots_def sample_slots_def SetDeadlineTimerKeeper_def slot_eval sample_cid_def
    AddTimerCallback_def add_internal_def new_TimerKeeper_def Bucket_schedule_def new_Bucket_def AttachDeadlineTimer_def get_bucket_index_def
    kNumBuckets_def)

lemma sample_packed:
  "pack_call sample_client sample_unary sample_cid (sample_world (ready_driver timed_slots) []) = (True, sample_frame)"
  "length sample_frame = 17"
  by (simp_all add: sample_frame_def pack_call_def sample_client_def sample_unary_def call_meta_def PackRpcFrameRaw_def
      PackSerializedFrame_def sample_world_def sample_options_def default_RpcChannelOptions_def FitsUint32_def UINT32_MAX_def
      kDefaultMaxRpcFrameBytes_def kRpcHeaderBytes_def AppendWireHeader_def StoreUint32BE_def Let_def)

definition reserved_slots :: "unit SlotTable" where
  "reserved_slots = upd_metrics (\<lambda>m. m\<lparr>cm_outbound_bytes := Gauge_Add (cm_outbound_bytes m) 17\<rparr>) timed_slots"

definition busy_driver :: "unit SlotTable \<Rightarrow> unit RpcChannelIoDriver" where
  "busy_driver s = (ready_driver s)\<lparr>dr_outbound_bytes := 17\<rparr>"

lemma sample_reserved:
  "start_arm sample_client 0 0 sample_unary sample_cid (sample_world (ready_driver admitted_slots) []) =
     (Inr sample_frame, sample_world (busy_driver reserved_slots) [])"
proof -
  let ?w = "sample_world (ready_driver timed_slots) []"
  obtain k tid k' where k: "st_deadline_timer_keeper admitted_slots = Some k"
    "AddTimerCallback 0 0 5000000 (unat sample_cid) k = (tid, k')"
    "AttachDeadlineTimer sample_cid tid (SetDeadlineTimerKeeper k' admitted_slots) = (True, timed_slots)"
    using sample_timed by blast
  have "add_deadline 0 0 sample_unary sample_cid (sample_world (ready_driver admitted_slots) []) =
      (tid, sample_world (ready_driver (SetDeadlineTimerKeeper k' admitted_slots)) [])"
    using k by (simp add: add_deadline_def sample_world_def ready_driver_def call_timeout_ms_def sample_unary_def sample_options_def
        default_RpcChannelOptions_def on_slots_def upd_io_def upd_slots_def upd_state_def)
  moreover have "on_slots (\<lambda>_. timed_slots) (sample_world (ready_driver (SetDeadlineTimerKeeper k' admitted_slots)) []) = ?w"
    "ch_timer_keeper (sample_world d cs)" "ch_slots (sample_world (ready_driver s) cs) = s" for d s cs
    by (simp_all add: sample_world_def ready_driver_def on_slots_def upd_io_def upd_slots_def upd_state_def)
  moreover have "Driver_TryReserveOutboundBytes 17 (ch_io ?w) = (True, busy_driver reserved_slots)"
    by (simp add: Driver_TryReserveOutboundBytes_def sample_world_def ready_driver_def busy_driver_def idle_driver_def
        new_RpcChannelIoDriver_def upd_slots_def upd_state_def add64_def reserved_slots_def)
  ultimately show ?thesis
    using k(3) by (simp add: start_arm_def sample_packed Let_def) (simp add: sample_world_def)
qed

definition published_slots :: "unit SlotTable" where
  "published_slots = snd (PublishSlot 0 sample_cid reserved_slots)"

lemma sample_in_flight: "PublishSlot 0 sample_cid reserved_slots = (kInFlight, published_slots)"
  "call_phase published_slots sample_cid = Some InFlight"
  by (simp_all add: published_slots_def reserved_slots_def timed_slots_def admitted_slots_def started_slots_def sample_slots_def
    SetDeadlineTimerKeeper_def slot_eval sample_cid_def AddTimerCallback_def add_internal_def new_TimerKeeper_def
    Bucket_schedule_def new_Bucket_def AttachDeadlineTimer_def get_bucket_index_def kNumBuckets_def)

lemma sample_published:
  "start_publish 0 sample_unary sample_cid sample_frame (sample_world (busy_driver reserved_slots) []) =
     (Inr (), sample_world (busy_driver published_slots) [])"
  by (simp add: start_publish_def sample_in_flight sample_world_def busy_driver_def ready_driver_def on_slots_def upd_io_def
      upd_slots_def upd_state_def Let_def)

abbreviation sample_command :: IoCommand where
  "sample_command \<equiv> ChannelSendFrame 0 sample_cid sample_frame"

definition posted_driver :: "unit RpcChannelIoDriver" where
  "posted_driver = (busy_driver published_slots)\<lparr>dr_commands := [sample_command]\<rparr>"

lemma sample_enqueued:
  "start_enqueue sample_cid sample_frame (sample_world (busy_driver published_slots) []) =
     (\<lparr>sr_correlation_id = sample_cid, sr_outcome = StartInFlight\<rparr>, sample_world posted_driver [])"
  by (simp add: start_enqueue_def upd_io_def EnqueueReserved_def Driver_post_def sample_world_def busy_driver_def ready_driver_def
      idle_driver_def new_RpcChannelIoDriver_def posted_driver_def)

lemma sample_version_left: "version_left sample_slots"
  by (simp add: version_left_def sample_slots_def SetDeadlineTimerKeeper_def slot_eval)

lemma sample_start:
  "StartUnaryCall sample_client 0 0 sample_unary (sample_world (ready_driver sample_slots) []) =
     (\<lparr>sr_correlation_id = sample_cid, sr_outcome = StartInFlight\<rparr>, sample_world posted_driver [])"
  by (simp add: StartUnaryCall_def sample_admitted sample_reserved sample_published sample_enqueued)

text \<open>The same call, section by section.\<close>

lemma sample_callers:
  "(sample_world d cs)\<lparr>ch_callers := cs'\<rparr> = sample_world d cs'" "ch_callers (sample_world d cs) = cs"
  "ch_io (sample_world d cs) = d"
  by (simp_all add: sample_world_def)

lemma sample_posted: "channel_reach sample_client (sample_world posted_driver [])"
proof -
  have "channel_step sample_client (sample_world (ready_driver sample_slots) [])
      (admit_caller sample_unary (start_admit 0 sample_unary (sample_world (ready_driver sample_slots) [])))"
    by (rule call_admit) (simp add: sample_callers ready_driver_def sample_version_left)
  then have "channel_reach sample_client (sample_world (ready_driver admitted_slots) [CallAdmitted sample_unary sample_cid])"
    by (intro channel_next [OF sample_connected]) (simp add: sample_admitted sample_callers)
  from channel_next [OF this call_arm [of _ "[]" _ _ "[]" _ 0 0]]
  have "channel_reach sample_client (sample_world (busy_driver reserved_slots) [CallReserved sample_unary sample_cid sample_frame])"
    by (simp add: sample_callers sample_reserved)
  from channel_next [OF this call_publish [of _ "[]" _ _ _ "[]" _ 0]]
  have "channel_reach sample_client (sample_world (busy_driver published_slots) [CallPublished sample_cid sample_frame])"
    by (simp add: sample_callers sample_published)
  from channel_next [OF this call_enqueue [of _ "[]" _ _ "[]"]]
  show ?thesis by (simp add: sample_callers sample_enqueued)
qed

definition writing_driver :: "unit RpcChannelIoDriver" where
  "writing_driver = (busy_driver published_slots)\<lparr>dr_writing := True,
     dr_write_frame := Some \<lparr>of_correlation_id = sample_cid, of_buffer = sample_frame\<rparr>\<rparr>"

lemma sample_writing: "channel_reach sample_client (sample_world writing_driver [])"
proof -
  let ?w = "sample_world posted_driver []"
  have ne: "sample_frame \<noteq> []" using sample_packed(2) by auto
  have "channel_step sample_client ?w (upd_io (\<lambda>d. Driver_DispatchCommand 0 sample_command (d\<lparr>dr_commands := []\<rparr>)) ?w)"
    by (rule io_command) (simp_all add: sample_world_def posted_driver_def driver_owned_def)
  also have "upd_io (\<lambda>d. Driver_DispatchCommand 0 sample_command (d\<lparr>dr_commands := []\<rparr>)) ?w = sample_world writing_driver []"
    using ne
    by (simp add: upd_io_def sample_world_def posted_driver_def SendFrameOnIoThread_def busy_driver_def ready_driver_def
        idle_driver_def new_RpcChannelIoDriver_def Driver_StartNextWriteOnIoThread.simps writing_driver_def Let_def)
  finally show ?thesis by (rule channel_next [OF sample_posted])
qed

end
