(* ===== verification/Client_Contract.thy ===== *)
theory Client_Contract
  imports Client_Sample
begin

text \<open>
  What a client channel promises: its properties, over every interleaving of callers, closers, timers
  and the IO thread.
\<close>

section \<open>Outbound bytes\<close>

text \<open>
  C28: in every reachable state the reserved outbound bytes of a client channel are within the limit
  and equal to the gauge; while the channel runs they are exactly the bytes of the frames held by
  callers, in posted commands, in the queue and in the current write.
\<close>

theorem client_outbound_bytes_exact:
  assumes "channel_reach cx w"
  shows "dr_outbound_bytes (ch_io w) \<le> dr_max_outbound_bytes (ch_io w) \<and>
    held_bytes (ch_io w) + callers_bytes (ch_callers w) \<le> dr_outbound_bytes (ch_io w) \<and>
    (dr_running (ch_io w) \<longrightarrow> dr_outbound_bytes (ch_io w) = held_bytes (ch_io w) + callers_bytes (ch_callers w)) \<and>
    outbound_gauge (ch_slots w) = Some (of_nat (dr_outbound_bytes (ch_io w)))"
proof -
  have "gauge_offset (ch_io w) = Some 0" using channel_reach_calls [OF assms] by (simp add: calls_ok_def)
  then have "outbound_gauge (ch_slots w) = Some (of_nat (dr_outbound_bytes (ch_io w)))"
    by (auto simp: gauge_offset_def)
  then show ?thesis using channel_reach_bytes [OF assms] by (simp add: world_bytes_ok_def bytes_ok_def)
qed

theorem client_outbound_bytes_exact_witness:
  "dr_outbound_bytes (ch_io (sample_world writing_driver [])) = 17 \<and>
   dr_outbound_bytes (ch_io (sample_world writing_driver [])) =
     held_bytes (ch_io (sample_world writing_driver [])) + callers_bytes (ch_callers (sample_world writing_driver []))"
proof -
  have "dr_running writing_driver" "dr_outbound_bytes writing_driver = 17"
    by (simp_all add: writing_driver_def busy_driver_def ready_driver_def)
  then show ?thesis using client_outbound_bytes_exact [OF sample_writing] by (simp add: sample_callers)
qed

lemma fail_frames_exact:
  assumes "frames_bytes fs \<le> dr_outbound_bytes d" "dr_outbound_bytes d \<le> SIZE_MAX"
  shows "dr_outbound_bytes (fail_frames now e msg fs d) = dr_outbound_bytes d - frames_bytes fs"
    "dr_commands (fail_frames now e msg fs d) = dr_commands d"
  using assms
  by (induction fs arbitrary: d)
     (simp_all add: ReleaseReservedOutboundBytes_def upd_slots_def upd_state_def sub64_exact)

lemma finish_counters:
  "dr_outbound_bytes (Driver_TryFinishCloseOnIoThread d) = dr_outbound_bytes d"
  "dr_commands (Driver_TryFinishCloseOnIoThread d) = dr_commands d"
  "dr_outbound (Driver_TryFinishCloseOnIoThread d) = dr_outbound d"
  by (simp_all add: Driver_TryFinishCloseOnIoThread_def close_fd_def upd_state_def Let_def)

lemma terminal_counters:
  assumes "frames_bytes (dr_outbound d) \<le> dr_outbound_bytes d" "dr_outbound_bytes d \<le> SIZE_MAX"
  shows "dr_outbound_bytes (HandleTerminalFailureOnIoThread now e msg d) = dr_outbound_bytes d - frames_bytes (dr_outbound d)"
    "dr_commands (HandleTerminalFailureOnIoThread now e msg d) = dr_commands d"
    "dr_outbound (HandleTerminalFailureOnIoThread now e msg d) = []"
proof -
  obtain l where l: "interrupt_socket (upd_state (\<lambda>st. st\<lparr>chs_running := False\<rparr>) d) = (upd_state (\<lambda>st. st\<lparr>chs_running := False\<rparr>) d)\<lparr>dr_log := l\<rparr>"
    using interrupt_log by blast
  show "dr_outbound_bytes (HandleTerminalFailureOnIoThread now e msg d) = dr_outbound_bytes d - frames_bytes (dr_outbound d)"
    "dr_commands (HandleTerminalFailureOnIoThread now e msg d) = dr_commands d"
    "dr_outbound (HandleTerminalFailureOnIoThread now e msg d) = []"
    unfolding HandleTerminalFailureOnIoThread_def Let_def FailAndClearOutboundOnIoThread_def l finish_counters
    using assms by (simp_all add: fail_frames_exact upd_slots_def upd_state_def)
qed

lemma stopped_write_end: "\<not> dr_running d \<Longrightarrow> Driver_WriteFrame_end d = Driver_TryFinishCloseOnIoThread (d\<lparr>dr_writing := False\<rparr>)"
  by (simp add: Driver_WriteFrame_end_def Driver_StartNextWriteOnIoThread.simps split: list.split)

text \<open>
  C31: a failed write leaks its reservation: when the write of a frame fails, the frame is dropped, but
  the counter keeps its bytes on top of everything that callers, commands and queue still hold.
\<close>

theorem write_reservation_leaked:
  assumes reach: "channel_reach cx w" and f: "dr_write_frame (ch_io w) = Some f" and run: "dr_running (ch_io w)"
    and failed: "written \<le> 0" and w': "w' = upd_io (Driver_WriteResume now written) w"
  shows "dr_write_frame (ch_io w') = None \<and> dr_outbound (ch_io w') = [] \<and>
    dr_outbound_bytes (ch_io w') = held_bytes (ch_io w') + callers_bytes (ch_callers w') + length (of_buffer f)"
proof -
  let ?d = "(ch_io w)\<lparr>dr_write_frame := None\<rparr>"
  let ?t = "HandleTerminalFailureOnIoThread now RPC_ECONN_FAILED ''Failed to write RPC request'' ?d"
  have ok: "bytes_ok (callers_bytes (ch_callers w)) (ch_io w)"
    using channel_reach_bytes [OF reach] by (simp add: world_bytes_ok_def)
  then have le: "frames_bytes (dr_outbound ?d) \<le> dr_outbound_bytes ?d" "dr_outbound_bytes ?d \<le> SIZE_MAX"
    by (simp_all add: bytes_ok_def held_bytes_def)
  have io: "ch_io w' = Driver_TryFinishCloseOnIoThread (?t\<lparr>dr_writing := False\<rparr>)"
    using f run failed by (simp add: w' upd_io_def Driver_WriteResume_def stopped_write_end Let_def)
  note t = terminal_counters [OF le, where now = now and e = RPC_ECONN_FAILED and msg = "''Failed to write RPC request''"]
  have "dr_outbound_bytes (ch_io w') = dr_outbound_bytes (ch_io w) - frames_bytes (dr_outbound (ch_io w))"
    "dr_commands (ch_io w') = dr_commands (ch_io w)" "dr_outbound (ch_io w') = []" "dr_write_frame (ch_io w') = None"
    unfolding io finish_counters finish_sel by (simp_all add: t)
  moreover have "ch_callers w' = ch_callers w" by (simp add: w' upd_io_def)
  moreover have "dr_outbound_bytes (ch_io w) =
      sum_list (map command_bytes (dr_commands (ch_io w))) + frames_bytes (dr_outbound (ch_io w)) + length (of_buffer f) +
      callers_bytes (ch_callers w)"
    using ok run f by (simp add: bytes_ok_def held_bytes_def)
  ultimately show ?thesis by (simp add: held_bytes_def)
qed

theorem write_reservation_leaked_witness:
  "let w' = upd_io (Driver_WriteResume 0 0) (sample_world writing_driver [])
   in held_bytes (ch_io w') = 0 \<and> callers_bytes (ch_callers w') = 0 \<and> dr_outbound_bytes (ch_io w') = 17"
proof -
  let ?w = "sample_world writing_driver []"
  let ?f = "\<lparr>of_correlation_id = sample_cid, of_buffer = sample_frame\<rparr>"
  let ?w' = "upd_io (Driver_WriteResume 0 0) ?w"
  have d: "dr_write_frame (ch_io ?w) = Some ?f" "dr_running (ch_io ?w)" "dr_outbound (ch_io ?w) = []" "dr_outbound_bytes (ch_io ?w) = 17"
    "ch_callers ?w' = []"
    by (simp_all add: sample_world_def writing_driver_def busy_driver_def ready_driver_def idle_driver_def new_RpcChannelIoDriver_def upd_io_def)
  note leak = write_reservation_leaked [OF sample_writing d(1,2) order_refl refl, of 0]
  have "dr_commands (ch_io ?w) = []"
    by (simp add: sample_world_def writing_driver_def busy_driver_def ready_driver_def idle_driver_def new_RpcChannelIoDriver_def)
  then have "dr_commands (ch_io ?w') = []"
    using d by (simp add: upd_io_def Driver_WriteResume_def stopped_write_end finish_counters terminal_counters SIZE_MAX_def Let_def)
  then have "held_bytes (ch_io ?w') = 0" using leak by (simp add: held_bytes_def)
  then show ?thesis using leak d(5) sample_packed(2) by (simp add: Let_def)
qed

section \<open>Calls\<close>











section \<open>Closing\<close>

text \<open>
  C30: a client channel that stopped never gets stuck half-closed: once the IO thread has no command
  and no suspended operation left, the socket is closed, \<open>closed\<close> is signalled and \<open>Init\<close> has its
  connect result, so neither \<open>Close\<close> nor \<open>Init\<close> waits for its timeout.
\<close>

theorem stopped_channel_closes:
  assumes "channel_reach cx w" "\<not> dr_running (ch_io w)" "dr_commands (ch_io w) = []" "\<not> dr_active_connect (ch_io w)"
    "\<not> dr_active_read (ch_io w)" "dr_write_frame (ch_io w) = None"
  shows "dr_closed (ch_io w) \<and> dr_fd (ch_io w) < 0 \<and> WaitClosed False False (ch_io w) = Some (ch_io w) \<and>
    Init_wait False (dr_state (ch_io w)) \<noteq> None"
proof -
  have fl: "flags_ok (ch_io w)" and cl: "settled (ch_io w) \<longrightarrow> dr_closed (ch_io w)"
    using channel_reach_life [OF assms(1)] by (simp_all add: world_life_ok_def life_ok_def)
  have "dr_receiver_exited (ch_io w) \<and> chs_connect_finished (dr_state (ch_io w))"
    using fl assms unfolding flags_ok_def starts_def by auto
  moreover have "settled (ch_io w)"
    using fl assms calculation unfolding flags_ok_def settled_def closes_def by auto
  ultimately show ?thesis using cl fl by (simp add: flags_ok_def WaitClosed_def Init_wait_def)
qed


text \<open>The end of a stream on an idle connection closes it at once.\<close>

lemma eof_closes:
  assumes "dr_running d" "\<not> dr_writing d" "dr_write_frame d = None" "\<not> dr_active_connect d" "dr_connect_operation_exited d"
    "\<not> dr_close_command_posted d" "dr_outbound d = []" "dr_outbound_bytes d \<le> SIZE_MAX"
    and d': "d' = Driver_ReadResume cx now 0 [] d"
  shows "dr_closed d'" "\<not> dr_running d'" "dr_commands d' = dr_commands d" "\<not> dr_active_connect d'" "\<not> dr_active_read d'"
    "dr_write_frame d' = None" "dr_racing d' = dr_racing d"
proof -
  let ?e = "d\<lparr>dr_active_read := False, dr_recv_buffer := dr_recv_buffer d, dr_receiver_exited := True\<rparr>"
  have t: "d' = HandleTerminalFailureOnIoThread now RPC_ECONN_FAILED ''RPC peer closed connection'' ?e"
    using assms(1) by (simp add: d' Driver_ReadResume_def Let_def)
  obtain c where c: "same_life (stopping ?e) c" "d' = Driver_TryFinishCloseOnIoThread c"
    using terminal_shape [of ?e] unfolding t by blast
  have "settled c" using c(1) assms by (simp add: same_life_def stopping_def settled_def)
  then obtain l where l: "d' = c\<lparr>dr_fd := - 1, dr_log := l, dr_state := (dr_state c)\<lparr>chs_closed := True\<rparr>\<rparr>"
    using finish_settled c(2) by blast
  show "dr_closed d'" by (simp add: l)
  show "\<not> dr_running d'" "\<not> dr_active_connect d'" "\<not> dr_active_read d'" "dr_racing d' = dr_racing d"
    using c(1) assms(1-8) by (simp_all add: l same_life_def stopping_def)
  show "dr_write_frame d' = None" "dr_commands d' = dr_commands d"
    unfolding t using assms(1-8) by (simp_all add: terminal_counters)
qed

lemma sample_flags:
  "dr_running (ready_driver s)" "\<not> dr_writing (ready_driver s)" "dr_write_frame (ready_driver s) = None"
  "\<not> dr_active_connect (ready_driver s)" "dr_connect_operation_exited (ready_driver s)" "\<not> dr_close_command_posted (ready_driver s)"
  "dr_outbound (ready_driver s) = []" "dr_outbound_bytes (ready_driver s) = 0" "dr_commands (ready_driver s) = []"
  "\<not> dr_racing (ready_driver s)" "dr_active_read (ready_driver s)"
  by (simp_all add: ready_driver_def idle_driver_def new_RpcChannelIoDriver_def)

theorem stopped_channel_closes_witness:
  "dr_closed (ch_io (upd_io (Driver_ReadResume sample_client 0 0 []) (sample_world (ready_driver sample_slots) [])))"
proof -
  let ?w = "sample_world (ready_driver sample_slots) []" and ?d = "ready_driver sample_slots"
  let ?w' = "upd_io (Driver_ReadResume sample_client 0 0 []) ?w"
  have "channel_step sample_client ?w ?w'" by (rule io_read) (simp_all add: sample_callers sample_flags)
  then have r: "channel_reach sample_client ?w'" by (rule channel_next [OF sample_connected])
  have io: "ch_io ?w' = Driver_ReadResume sample_client 0 0 [] ?d" by (simp add: upd_io_def sample_callers)
  have "0 \<le> SIZE_MAX" by simp
  note e = eof_closes [OF sample_flags(1-7) _ io, unfolded sample_flags(8,9)]
  show ?thesis using stopped_channel_closes [OF r] e by simp
qed

text \<open>
  C32: a posted frame can outlive its driver: there is an execution in which the peer closes the
  connection, \<open>Close\<close> returns and the last owner of the driver is gone while a \<open>SendFrame\<close> command
  with the driver's raw pointer is still queued.
\<close>

theorem client_command_outlives_driver:
  "\<exists>(cx :: unit ClientCodec) w cid fr. channel_reach cx w \<and> \<not> driver_owned w \<and>
     dr_commands (ch_io w) = [ChannelSendFrame (dr_self (ch_io w)) cid fr]"
proof -
  let ?w = "sample_world posted_driver []" and ?d = "Driver_ReadResume sample_client 0 0 [] posted_driver"
  have e: "dr_closed ?d" "\<not> dr_running ?d" "dr_commands ?d = dr_commands posted_driver" "\<not> dr_active_connect ?d"
    "\<not> dr_active_read ?d" "dr_write_frame ?d = None" "dr_racing ?d = dr_racing posted_driver"
    by (rule eof_closes; simp add: posted_driver_def busy_driver_def sample_flags SIZE_MAX_def)+
  have "channel_step sample_client ?w (upd_io (Driver_ReadResume sample_client 0 0 []) ?w)"
    by (rule io_read) (simp_all add: sample_callers posted_driver_def busy_driver_def sample_flags)
  then have r: "channel_reach sample_client (sample_world ?d [])"
    using channel_next [OF sample_posted] by (simp add: upd_io_def sample_world_def)
  have st: "(dr_state ?d)\<lparr>chs_running := False\<rparr> = dr_state ?d" using e(2) by (cases "dr_state ?d") simp
  from channel_next [OF r close_begin]
  have "channel_reach sample_client ((sample_world ?d [])\<lparr>ch_closers := [CloseWaiting]\<rparr>)"
    using e(2) by (simp add: st sample_world_def begin_close_def Driver_RequestClose_exchange_def upd_state_def)
  from channel_next [OF this close_end [of _ "[]" "[]" False False ?d]]
  have "channel_reach sample_client (Close_reset (sample_world ?d []))"
    using e(1) by (simp add: sample_world_def WaitClosed_def)
  moreover have "\<not> driver_owned (Close_reset (sample_world ?d []))"
    using e by (simp add: driver_owned_def Close_reset_def ReleaseDefaultRuntimeBinding_def sample_world_def posted_driver_def
        busy_driver_def sample_flags)
  moreover have "ch_io (Close_reset (sample_world ?d [])) = ?d"
    by (simp add: Close_reset_def ReleaseDefaultRuntimeBinding_def sample_world_def)
  moreover have "dr_self ?d = 0"
    using latch.read_resume [of posted_driver sample_client 0 0 "[]"]
    by (simp add: latched_def posted_driver_def busy_driver_def ready_driver_def idle_driver_def new_RpcChannelIoDriver_def)
  moreover have "dr_commands ?d = [ChannelSendFrame 0 sample_cid sample_frame]" using e(3) by (simp add: posted_driver_def)
  ultimately show ?thesis by metis
qed

end
