(* ===== verification/Spmc_Queue.thy ===== *)
theory Spmc_Queue
  imports Prelude
begin

text \<open>
  \<^verbatim>\<open>scheduler/spmc_queue.hpp\<close>: the Chase-Lev deque of a worker.  \<open>Push\<close>, \<open>TryPop\<close> and \<open>Steal\<close> are the
  operations without interruption.  \<open>deque_step\<close> runs them access by access: the owner is inside at
  most one \<open>Push\<close> or \<open>TryPop\<close>, any number of thieves are inside \<open>Steal\<close>, and every read, write or
  compare-exchange of a shared field is a step of its own, in a sequentially consistent order.

  The template argument \<^verbatim>\<open>kMaxSize\<close> is the length of the buffer; the mask is a remainder.  The
  indices are unbounded integers: \<^verbatim>\<open>int64_t\<close> would wrap after \<open>2^63\<close> pushes.
\<close>

section \<open>The queue and its operations\<close>

record SPMCQueue =
  sq_top :: int
  sq_bottom :: int
  sq_cached_top :: int
  sq_buffer :: "nat list"

definition new_SPMCQueue :: "nat \<Rightarrow> SPMCQueue" where
  "new_SPMCQueue kMaxSize = \<lparr>sq_top = 0, sq_bottom = 0, sq_cached_top = 0, sq_buffer = replicate kMaxSize 0\<rparr>"

abbreviation kMaxSize :: "SPMCQueue \<Rightarrow> int" where
  "kMaxSize q \<equiv> int (length (sq_buffer q))"

definition buffer_index :: "SPMCQueue \<Rightarrow> int \<Rightarrow> nat" where
  "buffer_index q i = nat (i mod kMaxSize q)"

definition buffer_at :: "SPMCQueue \<Rightarrow> int \<Rightarrow> nat" where
  "buffer_at q i = sq_buffer q ! buffer_index q i"

definition store_at :: "int \<Rightarrow> nat \<Rightarrow> SPMCQueue \<Rightarrow> SPMCQueue" where
  "store_at i x q = q\<lparr>sq_buffer := (sq_buffer q)[buffer_index q i := x]\<rparr>"

definition refresh_cached_top :: "SPMCQueue \<Rightarrow> SPMCQueue" where
  "refresh_cached_top q =
     (if sq_bottom q - sq_cached_top q \<ge> kMaxSize q then q\<lparr>sq_cached_top := sq_top q\<rparr> else q)"

definition Push :: "nat \<Rightarrow> SPMCQueue \<Rightarrow> bool \<times> SPMCQueue" where
  "Push x q =
     (let q = refresh_cached_top q; b = sq_bottom q
      in if b - sq_cached_top q \<ge> kMaxSize q then (False, q)
         else (True, (store_at b x q)\<lparr>sq_bottom := b + 1\<rparr>))"

definition TryPop :: "SPMCQueue \<Rightarrow> nat option \<times> SPMCQueue" where
  "TryPop q =
     (let b = sq_bottom q - 1; q = q\<lparr>sq_bottom := b\<rparr>; t = sq_top q
      in if t \<le> b
         then let item = buffer_at q b
              in if t = b then (Some item, q\<lparr>sq_top := t + 1, sq_bottom := b + 1\<rparr>) else (Some item, q)
         else (None, q\<lparr>sq_bottom := b + 1\<rparr>))"

definition Steal :: "SPMCQueue \<Rightarrow> nat option \<times> SPMCQueue" where
  "Steal q =
     (let t = sq_top q
      in if t < sq_bottom q then (Some (buffer_at q t), q\<lparr>sq_top := t + 1\<rparr>) else (None, q))"

definition Size :: "SPMCQueue \<Rightarrow> int" where
  "Size q = (if sq_bottom q \<ge> sq_top q then sq_bottom q - sq_top q else 0)"

definition Empty :: "SPMCQueue \<Rightarrow> bool" where
  "Empty q = (sq_bottom q \<le> sq_top q)"

section \<open>Interleavings\<close>

text \<open>Where the owner and a thief stand, with the locals they have read.\<close>

datatype owner_pc = OwnerIdle | PushChecked nat | PushStored nat | PopClaimed | PopLast int nat | PopRestore

datatype thief_pc = ThiefIdle | StealTop int | StealChecked int | StealItem int nat

record deque_world =
  dw_queue :: SPMCQueue
  dw_owner :: owner_pc
  dw_thief :: "nat \<Rightarrow> thief_pc"

definition new_deque :: "nat \<Rightarrow> deque_world" where
  "new_deque n = \<lparr>dw_queue = new_SPMCQueue n, dw_owner = OwnerIdle, dw_thief = (\<lambda>_. ThiefIdle)\<rparr>"

text \<open>What an operation reports when it takes effect.\<close>

datatype deque_event = Internal | Pushed nat | PushRefused | Popped nat | PopEmpty | Stolen nat

inductive deque_step :: "deque_world \<Rightarrow> deque_event \<Rightarrow> deque_world \<Rightarrow> bool" where
  push_check: "dw_owner w = OwnerIdle \<Longrightarrow> q = refresh_cached_top (dw_queue w) \<Longrightarrow>
    sq_bottom q - sq_cached_top q < kMaxSize q \<Longrightarrow>
    deque_step w Internal (w\<lparr>dw_queue := q, dw_owner := PushChecked x\<rparr>)"
| push_full: "dw_owner w = OwnerIdle \<Longrightarrow> q = refresh_cached_top (dw_queue w) \<Longrightarrow>
    sq_bottom q - sq_cached_top q \<ge> kMaxSize q \<Longrightarrow> deque_step w PushRefused (w\<lparr>dw_queue := q\<rparr>)"
| push_store: "dw_owner w = PushChecked x \<Longrightarrow>
    deque_step w Internal (w\<lparr>dw_queue := store_at (sq_bottom (dw_queue w)) x (dw_queue w), dw_owner := PushStored x\<rparr>)"
| push_publish: "dw_owner w = PushStored x \<Longrightarrow> q = dw_queue w \<Longrightarrow>
    deque_step w (Pushed x) (w\<lparr>dw_queue := q\<lparr>sq_bottom := sq_bottom q + 1\<rparr>, dw_owner := OwnerIdle\<rparr>)"
| pop_claim: "dw_owner w = OwnerIdle \<Longrightarrow> q = dw_queue w \<Longrightarrow>
    deque_step w Internal (w\<lparr>dw_queue := q\<lparr>sq_bottom := sq_bottom q - 1\<rparr>, dw_owner := PopClaimed\<rparr>)"
| pop_take: "dw_owner w = PopClaimed \<Longrightarrow> q = dw_queue w \<Longrightarrow> sq_top q < sq_bottom q \<Longrightarrow>
    deque_step w (Popped (buffer_at q (sq_bottom q))) (w\<lparr>dw_owner := OwnerIdle\<rparr>)"
| pop_last: "dw_owner w = PopClaimed \<Longrightarrow> q = dw_queue w \<Longrightarrow> sq_top q = sq_bottom q \<Longrightarrow>
    deque_step w Internal (w\<lparr>dw_owner := PopLast (sq_top q) (buffer_at q (sq_bottom q))\<rparr>)"
| pop_none: "dw_owner w = PopClaimed \<Longrightarrow> q = dw_queue w \<Longrightarrow> sq_top q > sq_bottom q \<Longrightarrow>
    deque_step w PopEmpty (w\<lparr>dw_owner := PopRestore\<rparr>)"
| pop_won: "dw_owner w = PopLast t item \<Longrightarrow> q = dw_queue w \<Longrightarrow> sq_top q = t \<Longrightarrow>
    deque_step w (Popped item) (w\<lparr>dw_queue := q\<lparr>sq_top := t + 1\<rparr>, dw_owner := PopRestore\<rparr>)"
| pop_lost: "dw_owner w = PopLast t item \<Longrightarrow> sq_top (dw_queue w) \<noteq> t \<Longrightarrow>
    deque_step w PopEmpty (w\<lparr>dw_owner := PopRestore\<rparr>)"
| pop_restore: "dw_owner w = PopRestore \<Longrightarrow> q = dw_queue w \<Longrightarrow>
    deque_step w Internal (w\<lparr>dw_queue := q\<lparr>sq_bottom := sq_bottom q + 1\<rparr>, dw_owner := OwnerIdle\<rparr>)"
| steal_top: "dw_thief w k = ThiefIdle \<Longrightarrow>
    deque_step w Internal (w\<lparr>dw_thief := (dw_thief w)(k := StealTop (sq_top (dw_queue w)))\<rparr>)"
| steal_none: "dw_thief w k = StealTop t \<Longrightarrow> \<not> t < sq_bottom (dw_queue w) \<Longrightarrow>
    deque_step w Internal (w\<lparr>dw_thief := (dw_thief w)(k := ThiefIdle)\<rparr>)"
| steal_check: "dw_thief w k = StealTop t \<Longrightarrow> t < sq_bottom (dw_queue w) \<Longrightarrow>
    deque_step w Internal (w\<lparr>dw_thief := (dw_thief w)(k := StealChecked t)\<rparr>)"
| steal_read: "dw_thief w k = StealChecked t \<Longrightarrow>
    deque_step w Internal (w\<lparr>dw_thief := (dw_thief w)(k := StealItem t (buffer_at (dw_queue w) t))\<rparr>)"
| steal_won: "dw_thief w k = StealItem t item \<Longrightarrow> q = dw_queue w \<Longrightarrow> sq_top q = t \<Longrightarrow>
    deque_step w (Stolen item) (w\<lparr>dw_queue := q\<lparr>sq_top := t + 1\<rparr>, dw_thief := (dw_thief w)(k := ThiefIdle)\<rparr>)"
| steal_lost: "dw_thief w k = StealItem t item \<Longrightarrow> sq_top (dw_queue w) \<noteq> t \<Longrightarrow>
    deque_step w Internal (w\<lparr>dw_thief := (dw_thief w)(k := ThiefIdle)\<rparr>)"

text \<open>The events of an execution, oldest first.\<close>

inductive deque_run :: "nat \<Rightarrow> deque_event list \<Rightarrow> deque_world \<Rightarrow> bool" for n where
  run_new: "deque_run n [] (new_deque n)"
| run_step: "deque_run n es w \<Longrightarrow> deque_step w e w' \<Longrightarrow> deque_run n (es @ [e]) w'"

section \<open>The abstract deque\<close>

text \<open>
  The specification: a list with its top at the head.  A bounded push may be refused only when the
  deque is full, a pop reports emptiness only when it is empty.
\<close>

fun deque_spec :: "nat \<Rightarrow> deque_event \<Rightarrow> nat list \<Rightarrow> nat list option" where
  "deque_spec n Internal xs = Some xs"
| "deque_spec n (Pushed x) xs = (if length xs < n then Some (xs @ [x]) else None)"
| "deque_spec n PushRefused xs = (if length xs = n then Some xs else None)"
| "deque_spec n (Popped x) xs = (if xs \<noteq> [] \<and> last xs = x then Some (butlast xs) else None)"
| "deque_spec n PopEmpty xs = (if xs = [] then Some xs else None)"
| "deque_spec n (Stolen x) xs = (case xs of [] \<Rightarrow> None | y # ys \<Rightarrow> if y = x then Some ys else None)"

fun deque_specs :: "nat \<Rightarrow> deque_event list \<Rightarrow> nat list \<Rightarrow> nat list option" where
  "deque_specs n [] xs = Some xs"
| "deque_specs n (e # es) xs = (case deque_spec n e xs of None \<Rightarrow> None | Some ys \<Rightarrow> deque_specs n es ys)"

lemma deque_specs_append:
  "deque_specs n (es @ [e]) xs = (case deque_specs n es xs of None \<Rightarrow> None | Some ys \<Rightarrow> deque_spec n e ys)"
  by (induction es arbitrary: xs) (auto split: option.split)

text \<open>While the owner is inside \<open>TryPop\<close> the field \<^verbatim>\<open>bottom_\<close> is one below the logical end.\<close>

definition claimed :: "owner_pc \<Rightarrow> bool" where
  "claimed pc = (case pc of PopClaimed \<Rightarrow> True | PopLast _ _ \<Rightarrow> True | PopRestore \<Rightarrow> True | _ \<Rightarrow> False)"

definition deque_end :: "deque_world \<Rightarrow> int" where
  "deque_end w = sq_bottom (dw_queue w) + (if claimed (dw_owner w) then 1 else 0)"

definition contents :: "deque_world \<Rightarrow> nat list" where
  "contents w = map (buffer_at (dw_queue w)) [sq_top (dw_queue w) .. deque_end w - 1]"

definition owner_ok :: "deque_world \<Rightarrow> bool" where
  "owner_ok w =
     (let q = dw_queue w in
      case dw_owner w of
        PushChecked x \<Rightarrow> sq_bottom q - sq_cached_top q < kMaxSize q
      | PushStored x \<Rightarrow> sq_bottom q - sq_cached_top q < kMaxSize q \<and> buffer_at q (sq_bottom q) = x
      | PopLast t item \<Rightarrow> t = sq_bottom q \<and> t \<le> sq_top q \<and> item = buffer_at q t
      | PopRestore \<Rightarrow> sq_top q = sq_bottom q + 1
      | _ \<Rightarrow> True)"

definition thief_ok :: "deque_world \<Rightarrow> thief_pc \<Rightarrow> bool" where
  "thief_ok w pc =
     (let q = dw_queue w in
      case pc of
        ThiefIdle \<Rightarrow> True
      | StealTop t \<Rightarrow> t \<le> sq_top q
      | StealChecked t \<Rightarrow> t \<le> sq_top q \<and> (sq_top q = t \<longrightarrow> t < deque_end w)
      | StealItem t item \<Rightarrow> t \<le> sq_top q \<and> (sq_top q = t \<longrightarrow> t < deque_end w \<and> item = buffer_at q t))"

definition deque_inv :: "nat \<Rightarrow> deque_world \<Rightarrow> bool" where
  "deque_inv n w =
     (let q = dw_queue w in
      length (sq_buffer q) = n \<and> 0 < n \<and> sq_cached_top q \<le> sq_top q \<and> sq_top q \<le> deque_end w \<and>
      deque_end w - sq_top q \<le> int n \<and> owner_ok w \<and> (\<forall>k. thief_ok w (dw_thief w k)))"

lemma buffer_at_store:
  assumes "0 < length (sq_buffer q)"
  shows "buffer_at (store_at i x q) i = x"
    "\<bar>j - i\<bar> < kMaxSize q \<Longrightarrow> j \<noteq> i \<Longrightarrow> buffer_at (store_at i x q) j = buffer_at q j"
proof -
  have lt: "nat (k mod kMaxSize q) < length (sq_buffer q)" for k using assms by (simp add: nat_less_iff)
  then show "buffer_at (store_at i x q) i = x" by (simp add: buffer_at_def buffer_index_def store_at_def)
  assume near: "\<bar>j - i\<bar> < kMaxSize q" "j \<noteq> i"
  have "i mod kMaxSize q \<noteq> j mod kMaxSize q"
  proof
    assume "i mod kMaxSize q = j mod kMaxSize q"
    then have "kMaxSize q dvd j - i" by (metis mod_eq_dvd_iff)
    then show False using near zdvd_imp_le [of "kMaxSize q" "\<bar>j - i\<bar>"] by simp
  qed
  then have "nat (i mod kMaxSize q) \<noteq> nat (j mod kMaxSize q)" using assms by (simp add: eq_nat_nat_iff)
  then show "buffer_at (store_at i x q) j = buffer_at q j" by (simp add: buffer_at_def buffer_index_def store_at_def)
qed


lemma store_at_sel [simp]:
  "sq_top (store_at i x q) = sq_top q" "sq_bottom (store_at i x q) = sq_bottom q"
  "sq_cached_top (store_at i x q) = sq_cached_top q" "length (sq_buffer (store_at i x q)) = length (sq_buffer q)"
  by (simp_all add: store_at_def)

lemma buffer_at_fields [simp]:
  "buffer_at (q\<lparr>sq_top := a\<rparr>) i = buffer_at q i" "buffer_at (q\<lparr>sq_bottom := a\<rparr>) i = buffer_at q i"
  "buffer_at (q\<lparr>sq_cached_top := a\<rparr>) i = buffer_at q i"
  by (simp_all add: buffer_at_def buffer_index_def)

lemma refresh_sel [simp]:
  "sq_top (refresh_cached_top q) = sq_top q" "sq_bottom (refresh_cached_top q) = sq_bottom q"
  "sq_buffer (refresh_cached_top q) = sq_buffer q" "buffer_at (refresh_cached_top q) i = buffer_at q i"
  by (simp_all add: refresh_cached_top_def)

lemma refresh_cached: "sq_cached_top q \<le> sq_top q \<Longrightarrow> sq_cached_top (refresh_cached_top q) \<le> sq_top q"
  "sq_bottom q - sq_cached_top (refresh_cached_top q) \<ge> kMaxSize q \<Longrightarrow> sq_cached_top (refresh_cached_top q) = sq_top q"
  by (auto simp: refresh_cached_top_def)

lemma claimed_simps [simp]:
  "\<not> claimed OwnerIdle" "\<not> claimed (PushChecked x)" "\<not> claimed (PushStored x)" "claimed PopClaimed"
  "claimed (PopLast t y)" "claimed PopRestore"
  by (simp_all add: claimed_def)

lemmas deque_defs = deque_inv_def owner_ok_def deque_end_def Let_def

text \<open>The steps of a thief, and those of the owner that neither store an item nor move an index.\<close>

lemma thief_ok_mono:
  assumes "thief_ok w pc" "sq_top (dw_queue w) \<le> sq_top (dw_queue w')"
    "sq_top (dw_queue w') = sq_top (dw_queue w) \<Longrightarrow> sq_top (dw_queue w) < deque_end w \<Longrightarrow>
     sq_top (dw_queue w) < deque_end w' \<and> buffer_at (dw_queue w') (sq_top (dw_queue w)) = buffer_at (dw_queue w) (sq_top (dw_queue w))"
  shows "thief_ok w' pc"
  using assms by (auto simp: thief_ok_def Let_def split: thief_pc.splits)

lemma contents_top: "sq_top (dw_queue w) < deque_end w \<Longrightarrow>
    contents w = buffer_at (dw_queue w) (sq_top (dw_queue w)) # map (buffer_at (dw_queue w)) [sq_top (dw_queue w) + 1 .. deque_end w - 1]"
  by (simp add: contents_def upto_rec1)

lemma contents_last: "sq_top (dw_queue w) < deque_end w \<Longrightarrow>
    contents w = map (buffer_at (dw_queue w)) [sq_top (dw_queue w) .. deque_end w - 2] @ [buffer_at (dw_queue w) (deque_end w - 1)]"
  using upto_rec2 [of "sq_top (dw_queue w)" "deque_end w - 1"] by (simp add: contents_def)

lemma contents_length: "sq_top (dw_queue w) \<le> deque_end w \<Longrightarrow> int (length (contents w)) = deque_end w - sq_top (dw_queue w)"
  by (simp add: contents_def)

lemma contents_empty: "contents w = [] \<longleftrightarrow> deque_end w \<le> sq_top (dw_queue w)"
  by (auto simp: contents_def)

lemma thief_step_inv:
  assumes inv: "deque_inv n w" and pc: "thief_ok w pc"
  shows "deque_inv n (w\<lparr>dw_thief := (dw_thief w)(k := pc)\<rparr>)" "contents (w\<lparr>dw_thief := (dw_thief w)(k := pc)\<rparr>) = contents w"
proof -
  have t: "thief_ok (w\<lparr>dw_thief := f\<rparr>) c = thief_ok w c" for f c
    by (simp add: thief_ok_def deque_end_def Let_def split: thief_pc.split)
  show "deque_inv n (w\<lparr>dw_thief := (dw_thief w)(k := pc)\<rparr>)"
    using inv pc by (auto simp: deque_inv_def owner_ok_def deque_end_def t Let_def)
  show "contents (w\<lparr>dw_thief := (dw_thief w)(k := pc)\<rparr>) = contents w" by (simp add: contents_def deque_end_def)
qed

text \<open>A successful compare-exchange of the top removes the oldest item.\<close>

lemma advance_top:
  assumes inv: "deque_inv n w" and lt: "sq_top (dw_queue w) < deque_end w"
    and w': "dw_queue w' = (dw_queue w)\<lparr>sq_top := sq_top (dw_queue w) + 1\<rparr>" "deque_end w' = deque_end w"
    and own: "owner_ok w'" and thieves: "\<forall>k. thief_ok w (dw_thief w' k)"
  shows "deque_inv n w'" "contents w = buffer_at (dw_queue w) (sq_top (dw_queue w)) # contents w'"
proof -
  have "thief_ok w' pc" if "thief_ok w pc" for pc using that by (rule thief_ok_mono) (simp_all add: w')
  then show "deque_inv n w'" using inv lt own thieves by (auto simp: deque_inv_def w' Let_def)
  have "map (buffer_at (dw_queue w')) l = map (buffer_at (dw_queue w)) l" for l by (simp add: w')
  then show "contents w = buffer_at (dw_queue w) (sq_top (dw_queue w)) # contents w'"
    using contents_top [OF lt] by (simp add: contents_def w')
qed

lemma owner_step_inv:
  assumes inv: "deque_inv n w" and w': "dw_thief w' = dw_thief w" "sq_top (dw_queue w') = sq_top (dw_queue w)"
    "length (sq_buffer (dw_queue w')) = length (sq_buffer (dw_queue w))" "sq_cached_top (dw_queue w') \<le> sq_top (dw_queue w)"
    and "end": "sq_top (dw_queue w) \<le> deque_end w'" "deque_end w' - sq_top (dw_queue w) \<le> int n"
      "sq_top (dw_queue w) < deque_end w \<Longrightarrow> sq_top (dw_queue w) < deque_end w'"
    and buf: "\<And>i. sq_top (dw_queue w) \<le> i \<Longrightarrow> i < deque_end w \<Longrightarrow> buffer_at (dw_queue w') i = buffer_at (dw_queue w) i"
    and own: "owner_ok w'"
  shows "deque_inv n w'"
proof -
  have "thief_ok w' pc" if "thief_ok w pc" for pc using that by (rule thief_ok_mono) (simp_all add: w' "end" buf)
  then show ?thesis using inv own by (auto simp: deque_inv_def w' "end" Let_def)
qed


lemma contents_cong:
  assumes "sq_top (dw_queue w') = sq_top (dw_queue w)" "deque_end w' = deque_end w"
    "\<And>i. sq_top (dw_queue w) \<le> i \<Longrightarrow> i < deque_end w \<Longrightarrow> buffer_at (dw_queue w') i = buffer_at (dw_queue w) i"
  shows "contents w' = contents w"
  using assms by (auto simp: contents_def)

lemma deque_push_step:
  assumes inv: "deque_inv n w" and st: "deque_step w e w'" and idle: "dw_thief w' = dw_thief w"
    and pc: "\<not> claimed (dw_owner w)" "\<not> claimed (dw_owner w')"
  shows "deque_inv n w' \<and> deque_spec n e (contents w) = Some (contents w')"
  using st
proof (cases rule: deque_step.cases)
  case (push_check q x)
  have "contents w' = contents w" using push_check by (intro contents_cong) (simp_all add: deque_end_def)
  moreover have "deque_inv n w'"
    using inv push_check refresh_cached(1) [of "dw_queue w"]
    by (intro owner_step_inv [OF inv]) (simp_all add: deque_defs)
  ultimately show ?thesis using push_check by simp
next
  case (push_full q)
  have "contents w' = contents w" using push_full by (intro contents_cong) (simp_all add: deque_end_def)
  moreover have "deque_inv n w'"
    using inv push_full refresh_cached(1) [of "dw_queue w"]
    by (intro owner_step_inv [OF inv]) (simp_all add: deque_defs)
  moreover have "length (contents w) = n"
  proof -
    have "deque_end w - sq_top (dw_queue w) = int n"
      using inv push_full refresh_cached(2) [of "dw_queue w"] by (simp add: deque_defs)
    then show ?thesis using contents_length [of w] inv by (simp add: deque_inv_def Let_def)
  qed
  ultimately show ?thesis using push_full by simp
next
  case (push_store x)
  have room: "sq_bottom (dw_queue w) - sq_top (dw_queue w) < int n" "0 < length (sq_buffer (dw_queue w))" "deque_end w = sq_bottom (dw_queue w)"
    "length (sq_buffer (dw_queue w)) = n"
    using inv push_store(3) by (auto simp: deque_defs)
  have buf: "buffer_at (dw_queue w') i = buffer_at (dw_queue w) i"
    if "sq_top (dw_queue w) \<le> i" "i < deque_end w" for i
    using that room push_store(2) by (simp add: buffer_at_store)
  have "contents w' = contents w" using push_store buf by (intro contents_cong) (simp_all add: deque_end_def)
  moreover have "deque_inv n w'"
    using inv push_store room buf
    by (intro owner_step_inv [OF inv]) (simp_all add: deque_defs buffer_at_store)
  ultimately show ?thesis using push_store by simp
next
  case (push_publish x q)
  have "deque_end w' = deque_end w + 1" "buffer_at (dw_queue w) (deque_end w) = x" "sq_top (dw_queue w) \<le> deque_end w"
    "deque_end w - sq_top (dw_queue w) < int n" "length (sq_buffer (dw_queue w)) = n"
    using inv push_publish by (auto simp: deque_defs)
  moreover from this have "contents w' = contents w @ [x]"
    using contents_last [of w'] push_publish by (simp add: contents_def)
  moreover have "deque_inv n w'"
    using inv push_publish by (intro owner_step_inv [OF inv]) (auto simp: deque_defs)
  ultimately show ?thesis using push_publish contents_length [of w] by simp
qed (use idle pc in \<open>auto simp: fun_upd_idem_iff dest: fun_cong\<close>)


lemma deque_pop_step:
  assumes inv: "deque_inv n w" and st: "deque_step w e w'" and idle: "dw_thief w' = dw_thief w"
    and pc: "claimed (dw_owner w) \<or> claimed (dw_owner w')"
  shows "deque_inv n w' \<and> deque_spec n e (contents w) = Some (contents w')"
  using st
proof (cases rule: deque_step.cases)
  case (pop_claim q)
  have "contents w' = contents w" using pop_claim by (intro contents_cong) (simp_all add: deque_end_def)
  moreover have "deque_inv n w'"
    using inv pop_claim by (intro owner_step_inv [OF inv]) (simp_all add: deque_defs)
  ultimately show ?thesis using pop_claim by simp
next
  case (pop_take q)
  have e: "deque_end w' = deque_end w - 1" "sq_top (dw_queue w) < deque_end w - 1" using pop_take by (simp_all add: deque_end_def)
  have "contents w = contents w' @ [buffer_at q (sq_bottom q)]"
    using contents_last [of w] e pop_take by (simp add: contents_def) (simp add: deque_end_def)
  moreover have "deque_inv n w'"
    using inv pop_take e by (intro owner_step_inv [OF inv]) (simp_all add: deque_inv_def owner_ok_def Let_def)
  ultimately show ?thesis using pop_take by simp
next
  case (pop_last q)
  have "contents w' = contents w" using pop_last by (intro contents_cong) (simp_all add: deque_end_def)
  moreover have "deque_inv n w'"
    using inv pop_last by (intro owner_step_inv [OF inv]) (simp_all add: deque_defs)
  ultimately show ?thesis using pop_last by simp
next
  case (pop_none q)
  have "contents w' = contents w" using pop_none by (intro contents_cong) (simp_all add: deque_end_def)
  moreover have "deque_inv n w'"
    using inv pop_none by (intro owner_step_inv [OF inv]) (simp_all add: deque_defs)
  moreover have "contents w = []" using pop_none by (simp add: contents_empty deque_end_def)
  ultimately show ?thesis using pop_none by simp
next
  case (pop_won t item q)
  have "owner_ok w" using inv by (simp add: deque_inv_def Let_def)
  then have o: "t = sq_bottom q" "item = buffer_at q t" using pop_won by (simp_all add: owner_ok_def Let_def)
  have lt: "sq_top (dw_queue w) < deque_end w" using pop_won o by (simp add: deque_end_def)
  have "owner_ok w'" "deque_end w' = deque_end w" "\<forall>k. thief_ok w (dw_thief w' k)"
    using pop_won o inv by (simp_all add: owner_ok_def deque_end_def deque_inv_def Let_def)
  then have "deque_inv n w'" "contents w = item # contents w'"
    using advance_top [OF inv lt, of w'] pop_won o by simp_all
  moreover from this have "contents w' = []" using contents_length [of w] inv pop_won o by (simp add: deque_defs)
  ultimately show ?thesis using pop_won by simp
next
  case (pop_lost t item)
  have "contents w' = contents w" using pop_lost by (intro contents_cong) (simp_all add: deque_end_def)
  moreover have "deque_inv n w'"
    using inv pop_lost by (intro owner_step_inv [OF inv]) (simp_all add: deque_defs)
  moreover have "contents w = []" using pop_lost inv by (simp add: contents_empty deque_defs)
  ultimately show ?thesis using pop_lost by simp
next
  case (pop_restore q)
  have "contents w' = contents w" using pop_restore by (intro contents_cong) (simp_all add: deque_end_def)
  moreover have "deque_inv n w'"
    using inv pop_restore by (intro owner_step_inv [OF inv]) (simp_all add: deque_defs)
  ultimately show ?thesis using pop_restore by simp
qed (use idle pc in \<open>auto simp: fun_upd_idem_iff dest: fun_cong\<close>)

lemma deque_steal_step:
  assumes inv: "deque_inv n w" and st: "deque_step w e w'" and moved: "dw_thief w' \<noteq> dw_thief w"
  shows "deque_inv n w' \<and> deque_spec n e (contents w) = Some (contents w')"
proof -
  have ok: "thief_ok w (dw_thief w k)" for k using inv by (simp add: deque_inv_def Let_def)
  have quiet: ?thesis if "e = Internal" "w' = w\<lparr>dw_thief := (dw_thief w)(k := pc)\<rparr>" "thief_ok w pc" for k pc
    using thief_step_inv [OF inv that(3), of k] that by simp
  show ?thesis
    using st
  proof (cases rule: deque_step.cases)
    case (steal_top k)
    then show ?thesis by (intro quiet [OF steal_top(1,2)]) (simp add: thief_ok_def Let_def)
  next
    case (steal_none k t)
    then show ?thesis by (intro quiet [OF steal_none(1,2)]) (simp add: thief_ok_def Let_def)
  next
    case (steal_check k t)
    then show ?thesis using ok [of k] by (intro quiet [OF steal_check(1,2)]) (simp add: thief_ok_def deque_end_def Let_def)
  next
    case (steal_read k t)
    then show ?thesis using ok [of k] by (intro quiet [OF steal_read(1,2)]) (simp add: thief_ok_def Let_def)
  next
    case (steal_lost k t item)
    then show ?thesis by (intro quiet [OF steal_lost(1,2)]) (simp add: thief_ok_def Let_def)
  next
    case (steal_won k t item q)
    have lt: "sq_top (dw_queue w) < deque_end w" "item = buffer_at (dw_queue w) (sq_top (dw_queue w))"
      using ok [of k] steal_won by (auto simp: thief_ok_def Let_def)
    have "owner_ok w'" using inv steal_won lt(1) by (auto simp: deque_defs split: owner_pc.splits)
    moreover have "thief_ok w (dw_thief w' j)" for j using ok [of j] steal_won by (simp add: thief_ok_def Let_def)
    ultimately have "deque_inv n w'" "contents w = item # contents w'"
      using advance_top [OF inv lt(1), of w'] steal_won lt(2) by (simp_all add: deque_end_def)
    then show ?thesis using steal_won by simp
  qed (use moved in auto)
qed

lemma deque_step_refines:
  assumes "deque_inv n w" "deque_step w e w'"
  shows "deque_inv n w' \<and> deque_spec n e (contents w) = Some (contents w')"
  using deque_push_step [OF assms] deque_pop_step [OF assms] deque_steal_step [OF assms] by blast

lemma deque_new_ok: "0 < n \<Longrightarrow> deque_inv n (new_deque n)" "contents (new_deque n) = []"
  by (simp_all add: deque_defs new_deque_def new_SPMCQueue_def thief_ok_def contents_empty)

lemma deque_run_inv:
  assumes "0 < n" "deque_run n es w"
  shows "deque_inv n w \<and> deque_specs n es [] = Some (contents w)"
  using assms(2)
proof (induction rule: deque_run.induct)
  case run_new
  then show ?case using deque_new_ok assms(1) by simp
next
  case (run_step es w e w')
  then show ?case using deque_step_refines [of n w e w'] by (simp add: deque_specs_append)
qed


section \<open>Exactly once\<close>

text \<open>The items that the operations of a history put in and took out.\<close>

fun put_in :: "deque_event \<Rightarrow> nat multiset" where
  "put_in (Pushed x) = {#x#}"
| "put_in _ = {#}"

fun took_out :: "deque_event \<Rightarrow> nat multiset" where
  "took_out (Popped x) = {#x#}"
| "took_out (Stolen x) = {#x#}"
| "took_out _ = {#}"

lemma mset_butlast_last: "xs \<noteq> [] \<Longrightarrow> add_mset (last xs) (mset (butlast xs)) = mset xs"
  by (metis append_butlast_last_id mset_append mset.simps(1,2) add_mset_add_single)

lemma deque_spec_account: "deque_spec n e xs = Some ys \<Longrightarrow> mset xs + put_in e = mset ys + took_out e"
  by (cases e) (auto split: if_splits list.splits simp: mset_butlast_last)

lemma deque_specs_account:
  "deque_specs n es xs = Some ys \<Longrightarrow>
   mset xs + sum_list (map put_in es) = mset ys + sum_list (map took_out es)"
proof (induction es arbitrary: xs)
  case (Cons e es)
  then obtain zs where z: "deque_spec n e xs = Some zs" "deque_specs n es zs = Some ys"
    by (auto split: option.splits)
  have "mset xs + put_in e = mset zs + took_out e" by (rule deque_spec_account [OF z(1)])
  then show ?case using Cons.IH [OF z(2)]
    by (simp add: add.assoc [symmetric])
qed simp

text \<open>
  C33: the work-stealing deque is linearizable: under every interleaving of the owner's and the thieves'
  accesses the operations, in the order in which they take effect, are a run of a bounded deque (the
  owner pushes and pops at one end, thieves take the oldest item), so every pushed task is taken
  exactly once or still queued.
\<close>

theorem deque_linearizable:
  assumes "0 < n" "deque_run n es w"
  shows "deque_specs n es [] = Some (contents w) \<and> length (contents w) \<le> n \<and>
    sum_list (map put_in es) = mset (contents w) + sum_list (map took_out es)"
proof -
  have inv: "deque_inv n w" "deque_specs n es [] = Some (contents w)" using deque_run_inv [OF assms] by simp_all
  have "int (length (contents w)) \<le> int n"
    using inv(1) contents_length [of w] by (simp add: deque_inv_def Let_def)
  then show ?thesis using inv(2) deque_specs_account [OF inv(2)] by simp
qed

lemma sample_deque:
  "\<exists>w. deque_run 1 [Internal, Internal, Pushed 7, Internal, Internal, Internal, Internal, Stolen 7] w"
proof -
  let ?q = "new_SPMCQueue 1" and ?i = "\<lambda>_ :: nat. ThiefIdle"
  let ?q1 = "\<lparr>sq_top = 0, sq_bottom = 0, sq_cached_top = 0, sq_buffer = [7]\<rparr>"
  let ?q2 = "\<lparr>sq_top = 0, sq_bottom = 1, sq_cached_top = 0, sq_buffer = [7]\<rparr>"
  let ?q3 = "\<lparr>sq_top = 0, sq_bottom = 0, sq_cached_top = 0, sq_buffer = [7]\<rparr>"
  let ?w = "\<lambda>q pc t. \<lparr>dw_queue = q, dw_owner = pc, dw_thief = ?i(0 := t)\<rparr>"
  have b: "buffer_at ?q2 0 = 7" by (simp add: buffer_at_def buffer_index_def)
  have 0: "deque_run 1 [] (?w ?q OwnerIdle ThiefIdle)" using run_new [of 1] by (simp add: new_deque_def fun_upd_idem)
  have 1: "deque_run 1 [Internal] (?w ?q (PushChecked 7) ThiefIdle)"
    using run_step [OF 0 push_check [OF _ refl, where x = 7]]
    by (simp add: new_SPMCQueue_def refresh_cached_top_def)
  have 2: "deque_run 1 [Internal, Internal] (?w ?q1 (PushStored 7) ThiefIdle)"
    using run_step [OF 1 push_store] by (simp add: store_at_def buffer_index_def new_SPMCQueue_def)
  have 3: "deque_run 1 [Internal, Internal, Pushed 7] (?w ?q2 OwnerIdle ThiefIdle)"
    using run_step [OF 2 push_publish [OF _ refl]] by simp
  have 4: "deque_run 1 [Internal, Internal, Pushed 7, Internal] (?w ?q2 OwnerIdle (StealTop 0))"
    using run_step [OF 3 steal_top [where k = 0]] by simp
  have 5: "deque_run 1 [Internal, Internal, Pushed 7, Internal, Internal] (?w ?q2 OwnerIdle (StealChecked 0))"
    using run_step [OF 4 steal_check [where k = 0]] by simp
  have 6: "deque_run 1 [Internal, Internal, Pushed 7, Internal, Internal, Internal] (?w ?q2 OwnerIdle (StealItem 0 7))"
    using run_step [OF 5 steal_read [where k = 0]] by (simp add: b)
  have 7: "deque_run 1 [Internal, Internal, Pushed 7, Internal, Internal, Internal, Internal] (?w ?q3 PopClaimed (StealItem 0 7))"
    using run_step [OF 6 pop_claim [OF _ refl]] by simp
  show ?thesis using run_step [OF 7 steal_won [OF _ refl, where k = 0]] by auto
qed

theorem deque_linearizable_witness:
  "\<exists>w. deque_run 1 [Internal, Internal, Pushed 7, Internal, Internal, Internal, Internal, Stolen 7] w \<and> contents w = []"
proof -
  obtain w where w: "deque_run 1 [Internal, Internal, Pushed 7, Internal, Internal, Internal, Internal, Stolen 7] w"
    using sample_deque by blast
  from deque_linearizable [OF _ this] show ?thesis using w by auto
qed

section \<open>Uninterrupted operations\<close>

text \<open>A queue on which no operation is in progress, and the tasks in it.\<close>

definition resting :: "SPMCQueue \<Rightarrow> deque_world" where
  "resting q = \<lparr>dw_queue = q, dw_owner = OwnerIdle, dw_thief = (\<lambda>_. ThiefIdle)\<rparr>"

definition spmc_ok :: "nat \<Rightarrow> SPMCQueue \<Rightarrow> bool" where
  "spmc_ok n q = deque_inv n (resting q)"

definition queued :: "SPMCQueue \<Rightarrow> nat list" where
  "queued q = contents (resting q)"

lemma queue_ok_new: "0 < n \<Longrightarrow> spmc_ok n (new_SPMCQueue n)" "queued (new_SPMCQueue n) = []"
  using deque_new_ok by (simp_all add: spmc_ok_def queued_def resting_def new_deque_def)

lemma Push_spec:
  assumes ok: "spmc_ok n q" and out: "Push x q = (r, q')"
  shows "spmc_ok n q'" "r = (length (queued q) < n)" "queued q' = (if r then queued q @ [x] else queued q)"
proof -
  let ?q = "refresh_cached_top q"
  have inv: "deque_inv n (resting q)" using ok by (simp add: spmc_ok_def)
  have len: "length (queued q) \<le> n"
    using inv contents_length [of "resting q"] by (simp add: queued_def deque_inv_def Let_def)
  have "spmc_ok n q' \<and> r = (length (queued q) < n) \<and> queued q' = (if r then queued q @ [x] else queued q)"
  proof (cases "sq_bottom ?q - sq_cached_top ?q \<ge> kMaxSize ?q")
    case True
    then have eq: "r = False" "q' = ?q" using out by (simp_all add: Push_def Let_def)
    have "deque_step (resting q) PushRefused (resting ?q)"
      using push_full [of "resting q" ?q] True by (simp add: resting_def)
    from deque_step_refines [OF inv this] show ?thesis
      by (auto simp: eq spmc_ok_def queued_def split: if_splits)
  next
    case False
    let ?w1 = "(resting q)\<lparr>dw_queue := ?q, dw_owner := PushChecked x\<rparr>"
    let ?w2 = "?w1\<lparr>dw_queue := store_at (sq_bottom ?q) x ?q, dw_owner := PushStored x\<rparr>"
    have eq: "r = True" "q' = (store_at (sq_bottom ?q) x ?q)\<lparr>sq_bottom := sq_bottom ?q + 1\<rparr>"
      using out False by (simp_all add: Push_def Let_def)
    have "deque_step (resting q) Internal ?w1" using False by (intro push_check) (simp_all add: resting_def)
    note 1 = deque_step_refines [OF inv this]
    have "deque_step ?w1 Internal ?w2" using push_store [of ?w1 x] by simp
    note 2 = deque_step_refines [OF conjunct1 [OF 1] this]
    have "deque_step ?w2 (Pushed x) (resting q')" using push_publish [of ?w2 x] by (simp add: eq resting_def)
    note 3 = deque_step_refines [OF conjunct1 [OF 2] this]
    show ?thesis using 1 2 3 by (auto simp: eq(1) spmc_ok_def queued_def split: if_splits)
  qed
  then show "spmc_ok n q'" "r = (length (queued q) < n)" "queued q' = (if r then queued q @ [x] else queued q)" by blast+
qed


lemma TryPop_spec:
  assumes ok: "spmc_ok n q" and out: "TryPop q = (r, q')"
  shows "spmc_ok n q'" "(r, queued q') = (if queued q = [] then (None, []) else (Some (last (queued q)), butlast (queued q)))"
proof -
  let ?q = "q\<lparr>sq_bottom := sq_bottom q - 1\<rparr>"
  let ?w1 = "(resting q)\<lparr>dw_queue := ?q, dw_owner := PopClaimed\<rparr>"
  have "deque_step (resting q) Internal ?w1" using pop_claim [of "resting q" q] by (simp add: resting_def)
  note 1 = deque_step_refines [OF ok [unfolded spmc_ok_def] this]
  have "spmc_ok n q' \<and> (r, queued q') = (if queued q = [] then (None, []) else (Some (last (queued q)), butlast (queued q)))"
  proof (cases "sq_top q" "sq_bottom q - 1" rule: linorder_cases)
    case less
    then have eq: "r = Some (buffer_at ?q (sq_bottom ?q))" "q' = ?q" using out by (auto simp: TryPop_def Let_def)
    have "deque_step ?w1 (Popped (buffer_at ?q (sq_bottom ?q))) (resting q')"
      using pop_take [of ?w1 ?q] less by (simp add: eq resting_def)
    from deque_step_refines [OF conjunct1 [OF 1] this] 1 show ?thesis
      by (auto simp: eq(1) spmc_ok_def queued_def split: if_splits)
  next
    case equal
    let ?x = "buffer_at ?q (sq_bottom ?q)"
    let ?w2 = "?w1\<lparr>dw_owner := PopLast (sq_top q) ?x\<rparr>"
    let ?w3 = "?w2\<lparr>dw_queue := ?q\<lparr>sq_top := sq_top q + 1\<rparr>, dw_owner := PopRestore\<rparr>"
    have eq: "r = Some ?x" "q' = ?q\<lparr>sq_top := sq_top q + 1, sq_bottom := sq_bottom q\<rparr>"
      using out equal by (simp_all add: TryPop_def Let_def)
    have "deque_step ?w1 Internal ?w2" using pop_last [of ?w1 ?q] equal by simp
    note 2 = deque_step_refines [OF conjunct1 [OF 1] this]
    have "deque_step ?w2 (Popped ?x) ?w3" using pop_won [of ?w2 "sq_top q" ?x ?q] by simp
    note 3 = deque_step_refines [OF conjunct1 [OF 2] this]
    have "deque_step ?w3 Internal (resting q')" using pop_restore [of ?w3] equal by (simp add: eq resting_def)
    note 4 = deque_step_refines [OF conjunct1 [OF 3] this]
    show ?thesis using 1 2 3 4 by (auto simp: eq(1) spmc_ok_def queued_def split: if_splits)
  next
    case greater
    let ?w2 = "?w1\<lparr>dw_owner := PopRestore\<rparr>"
    have eq: "r = None" "q' = q" using out greater by (simp_all add: TryPop_def Let_def)
    have "deque_step ?w1 PopEmpty ?w2" using pop_none [of ?w1 ?q] greater by simp
    note 2 = deque_step_refines [OF conjunct1 [OF 1] this]
    have "deque_step ?w2 Internal (resting q')" using pop_restore [of ?w2] by (simp add: eq resting_def)
    note 3 = deque_step_refines [OF conjunct1 [OF 2] this]
    show ?thesis using 1 2 3 by (auto simp: eq(1) spmc_ok_def queued_def split: if_splits)
  qed
  then show "spmc_ok n q'" "(r, queued q') = (if queued q = [] then (None, []) else (Some (last (queued q)), butlast (queued q)))"
    by blast+
qed

lemma queued_facts:
  assumes "spmc_ok n q"
  shows "int (length (queued q)) = sq_bottom q - sq_top q" "Size q = int (length (queued q))" "Empty q \<longleftrightarrow> queued q = []"
proof -
  show len: "int (length (queued q)) = sq_bottom q - sq_top q"
    using assms contents_length [of "resting q"]
    by (simp add: spmc_ok_def queued_def deque_inv_def Let_def) (simp add: resting_def deque_end_def)
  then show "Size q = int (length (queued q))" by (simp add: Size_def)
  have "queued q = [] \<longleftrightarrow> int (length (queued q)) = 0" by simp
  then show "Empty q \<longleftrightarrow> queued q = []" using assms len by (auto simp: Empty_def simp del: of_nat_eq_0_iff length_0_conv)
qed

lemma Steal_spec:
  assumes ok: "spmc_ok n q" and out: "Steal q = (r, q')"
  shows "spmc_ok n q'" "(r, queued q') = (case queued q of [] \<Rightarrow> (None, []) | x # xs \<Rightarrow> (Some x, xs))"
proof -
  have inv: "deque_inv n (resting q)" using ok by (simp add: spmc_ok_def)
  have "spmc_ok n q' \<and> (r, queued q') = (case queued q of [] \<Rightarrow> (None, []) | x # xs \<Rightarrow> (Some x, xs))"
  proof (cases "sq_top q < sq_bottom q")
    case True
    then have eq: "r = Some (buffer_at q (sq_top q))" "q' = q\<lparr>sq_top := sq_top q + 1\<rparr>"
      using out by (simp_all add: Steal_def Let_def)
    have "deque_inv n (resting q')" "contents (resting q) = buffer_at q (sq_top q) # contents (resting q')"
      using advance_top [OF inv, of "resting q'"] True
      by (simp_all add: eq resting_def deque_end_def owner_ok_def thief_ok_def)
    then show ?thesis by (simp add: eq(1) spmc_ok_def queued_def)
  next
    case False
    then have "r = None" "q' = q" "queued q = []" using out queued_facts(3) [OF ok] by (auto simp: Steal_def Empty_def Let_def)
    then show ?thesis using ok by simp
  qed
  then show "spmc_ok n q'" "(r, queued q') = (case queued q of [] \<Rightarrow> (None, []) | x # xs \<Rightarrow> (Some x, xs))" by blast+
qed


section \<open>The interface of a worker's queue\<close>

text \<open>What the executor relies on: a bounded deque whose three operations neither lose nor duplicate a task.\<close>

locale work_deque =
  fixes capacity :: nat and ok :: "'q \<Rightarrow> bool" and items :: "'q \<Rightarrow> nat list"
    and push :: "nat \<Rightarrow> 'q \<Rightarrow> bool \<times> 'q" and pop steal :: "'q \<Rightarrow> nat option \<times> 'q"
  assumes push_law: "ok q \<Longrightarrow> push x q = (stored, q') \<Longrightarrow>
      ok q' \<and> stored = (length (items q) < capacity) \<and> items q' = (if stored then items q @ [x] else items q)"
    and pop_law: "ok q \<Longrightarrow> pop q = (r, q') \<Longrightarrow>
      ok q' \<and> (r, items q') = (if items q = [] then (None, []) else (Some (last (items q)), butlast (items q)))"
    and steal_law: "ok q \<Longrightarrow> steal q = (r, q') \<Longrightarrow>
      ok q' \<and> (r, items q') = (case items q of [] \<Rightarrow> (None, []) | x # xs \<Rightarrow> (Some x, xs))"
begin

lemma push_account: "ok q \<Longrightarrow> push x q = (r, q') \<Longrightarrow> ok q' \<and> mset (items q') = mset (items q) + (if r then {#x#} else {#})"
  using push_law by fastforce

lemma pop_account:
  "ok q \<Longrightarrow> pop q = (r, q') \<Longrightarrow>
   ok q' \<and> mset (items q) = mset (items q') + (case r of None \<Rightarrow> {#} | Some x \<Rightarrow> {#x#}) \<and> (r = None \<longleftrightarrow> items q = [])"
  using pop_law [of q r q'] by (auto simp: mset_butlast_last split: if_splits)

lemma steal_account:
  "ok q \<Longrightarrow> steal q = (r, q') \<Longrightarrow>
   ok q' \<and> mset (items q) = mset (items q') + (case r of None \<Rightarrow> {#} | Some x \<Rightarrow> {#x#}) \<and> (r = None \<longleftrightarrow> items q = [])"
  using steal_law [of q r q'] by (auto split: list.splits)

end

interpretation spmc: work_deque n "spmc_ok n" queued Push TryPop Steal for n
proof unfold_locales
  fix q x q' and b :: bool assume "spmc_ok n q" "Push x q = (b, q')"
  from Push_spec [OF this]
  show "spmc_ok n q' \<and> b = (length (queued q) < n) \<and> queued q' = (if b then queued q @ [x] else queued q)" by (intro conjI)
next
  fix q q' r assume "spmc_ok n q" "TryPop q = (r, q')"
  from TryPop_spec [OF this]
  show "spmc_ok n q' \<and> (r, queued q') = (if queued q = [] then (None, []) else (Some (last (queued q)), butlast (queued q)))"
    by (intro conjI)
next
  fix q q' r assume "spmc_ok n q" "Steal q = (r, q')"
  from Steal_spec [OF this]
  show "spmc_ok n q' \<and> (r, queued q') = (case queued q of [] \<Rightarrow> (None, []) | x # xs \<Rightarrow> (Some x, xs))" by (intro conjI)
qed

end
