(* ===== verification/Work_Executor.thy ===== *)
theory Work_Executor
  imports Spmc_Queue
begin

text \<open>
  \<^verbatim>\<open>scheduler/executor.hpp\<close> and \<^verbatim>\<open>scheduler/mpmc_queue.hpp\<close>: the worker threads.  Every access to one of
  the queues is atomic here, which the deque justifies for the local queues.  The vendored
  \<^verbatim>\<open>ConcurrentQueue\<close> is a list in the order in which it will hand out its items; it is used with its
  counter, so an enqueue and the count of it are one step.  Null task pointers are \<open>None\<close>, random
  numbers are arguments, and \<open>we_ran\<close> lists the tasks that were run.

  \<open>ws_is_parked\<close> is true while the thread waits inside \<^verbatim>\<open>park_and_wait\<close>; the wait ends by a signal or
  by its timeout.  \<open>ws_empty_spins\<close> is the local variable of the worker loop.
\<close>

section \<open>State\<close>

definition kGlobalCheckInterval :: nat where "kGlobalCheckInterval = 61"
definition kLocalQueueSize :: nat where "kLocalQueueSize = 1024"
definition kBulk :: nat where "kBulk = 32"

record WorkerState =
  ws_local_queue :: SPMCQueue
  ws_inbound_queue :: "nat list"
  ws_inbound_count :: int
  ws_tick :: nat
  ws_is_parked :: bool
  ws_empty_spins :: nat

record WorkStealingExecutor =
  we_workers :: "WorkerState list"
  we_global_queue :: "nat list"
  we_running :: bool
  we_ran :: "nat list"

definition new_WorkerState :: WorkerState where
  "new_WorkerState = \<lparr>ws_local_queue = new_SPMCQueue kLocalQueueSize, ws_inbound_queue = [], ws_inbound_count = 0,
     ws_tick = 0, ws_is_parked = False, ws_empty_spins = 0\<rparr>"

definition new_WorkStealingExecutor :: "nat \<Rightarrow> WorkStealingExecutor" where
  "new_WorkStealingExecutor nthreads = \<lparr>we_workers = replicate nthreads new_WorkerState, we_global_queue = [],
     we_running = False, we_ran = []\<rparr>"

abbreviation nthreads :: "WorkStealingExecutor \<Rightarrow> nat" where
  "nthreads ex \<equiv> length (we_workers ex)"

definition upd_worker :: "nat \<Rightarrow> (WorkerState \<Rightarrow> WorkerState) \<Rightarrow> WorkStealingExecutor \<Rightarrow> WorkStealingExecutor" where
  "upd_worker i f ex = ex\<lparr>we_workers := (we_workers ex)[i := f (we_workers ex ! i)]\<rparr>"

section \<open>The queues of a worker\<close>

definition enqueue_inbound :: "nat \<Rightarrow> WorkerState \<Rightarrow> WorkerState" where
  "enqueue_inbound t w = w\<lparr>ws_inbound_count := ws_inbound_count w + 1, ws_inbound_queue := ws_inbound_queue w @ [t]\<rparr>"

definition push_local_or_inbound :: "nat \<Rightarrow> WorkerState \<Rightarrow> WorkerState" where
  "push_local_or_inbound t w =
     (case Push t (ws_local_queue w) of
        (True, q) \<Rightarrow> w\<lparr>ws_local_queue := q\<rparr>
      | (False, q) \<Rightarrow> enqueue_inbound t (w\<lparr>ws_local_queue := q\<rparr>))"

text \<open>\<open>is_current\<close> says that the calling thread is this worker.\<close>

definition push_ready :: "bool \<Rightarrow> nat option \<Rightarrow> WorkerState \<Rightarrow> WorkerState" where
  "push_ready is_current task w =
     (case task of
        None \<Rightarrow> w
      | Some t \<Rightarrow> if is_current then push_local_or_inbound t w else enqueue_inbound t w)"

definition approximate_load :: "WorkerState \<Rightarrow> nat" where
  "approximate_load w = nat (Size (ws_local_queue w)) + (if ws_inbound_count w > 0 then nat (ws_inbound_count w) else 0)"

definition has_ready_work :: "WorkerState \<Rightarrow> bool" where
  "has_ready_work w = (\<not> Empty (ws_local_queue w) \<or> ws_inbound_count w > 0)"

definition unpark :: "WorkerState \<Rightarrow> WorkerState" where
  "unpark w = (if ws_is_parked w then w\<lparr>ws_is_parked := False\<rparr> else w)"

fun wake_first :: "WorkerState list \<Rightarrow> WorkerState list" where
  "wake_first [] = []"
| "wake_first (w # ws) = (if ws_is_parked w then unpark w # ws else w # wake_first ws)"

definition wake_any_worker :: "WorkStealingExecutor \<Rightarrow> WorkStealingExecutor" where
  "wake_any_worker ex = ex\<lparr>we_workers := wake_first (we_workers ex)\<rparr>"

definition pop_local :: "nat \<Rightarrow> WorkStealingExecutor \<Rightarrow> nat option \<times> WorkStealingExecutor" where
  "pop_local i ex =
     (case TryPop (ws_local_queue (we_workers ex ! i)) of
        (Some t, q) \<Rightarrow> (Some t, upd_worker i (\<lambda>w. w\<lparr>ws_local_queue := q\<rparr>) ex)
      | (None, q) \<Rightarrow>
          let w = (we_workers ex ! i)\<lparr>ws_local_queue := q\<rparr>
          in if ws_inbound_count w \<le> 0 then (None, upd_worker i (\<lambda>_. w) ex)
             else case take kBulk (ws_inbound_queue w) of
                    [] \<Rightarrow> (None, upd_worker i (\<lambda>_. w) ex)
                  | t # ts \<Rightarrow>
                      let w = w\<lparr>ws_inbound_queue := drop kBulk (ws_inbound_queue w),
                                ws_inbound_count := ws_inbound_count w - int (length (t # ts))\<rparr>;
                          ex = upd_worker i (\<lambda>_. fold push_local_or_inbound ts w) ex
                      in (Some t, if ts \<noteq> [] then wake_any_worker ex else ex))"

section \<open>Stealing\<close>

fun steal_local :: "nat list \<Rightarrow> WorkStealingExecutor \<Rightarrow> nat option \<times> WorkStealingExecutor" where
  "steal_local [] ex = (None, ex)"
| "steal_local (v # vs) ex =
     (if Empty (ws_local_queue (we_workers ex ! v)) then steal_local vs ex
      else case Steal (ws_local_queue (we_workers ex ! v)) of
             (Some t, q) \<Rightarrow> (Some t, upd_worker v (\<lambda>w. w\<lparr>ws_local_queue := q\<rparr>) ex)
           | (None, q) \<Rightarrow> steal_local vs ex)"

fun steal_inbound :: "nat list \<Rightarrow> WorkStealingExecutor \<Rightarrow> nat option \<times> WorkStealingExecutor" where
  "steal_inbound [] ex = (None, ex)"
| "steal_inbound (v # vs) ex =
     (let w = we_workers ex ! v
      in if ws_inbound_count w \<le> 0 then steal_inbound vs ex
         else case ws_inbound_queue w of
                [] \<Rightarrow> steal_inbound vs ex
              | t # ts \<Rightarrow>
                  (Some t, upd_worker v (\<lambda>w. w\<lparr>ws_inbound_queue := ts, ws_inbound_count := ws_inbound_count w - 1\<rparr>) ex))"

text \<open>The other workers, from a random start.\<close>

definition victims :: "nat \<Rightarrow> nat \<Rightarrow> nat \<Rightarrow> nat list" where
  "victims n start thief = filter (\<lambda>v. v \<noteq> thief) (map (\<lambda>i. (start + i) mod n) [0..<n])"

definition steal_task :: "nat \<Rightarrow> nat \<Rightarrow> WorkStealingExecutor \<Rightarrow> nat option \<times> WorkStealingExecutor" where
  "steal_task rnd thief_id ex =
     (if nthreads ex \<le> 1 then (None, ex)
      else let vs = victims (nthreads ex) (rnd mod nthreads ex) thief_id
           in case steal_local vs ex of
                (Some t, ex) \<Rightarrow> (Some t, ex)
              | (None, ex) \<Rightarrow> steal_inbound vs ex)"

section \<open>Scheduling\<close>

definition global_push :: "nat option \<Rightarrow> WorkStealingExecutor \<Rightarrow> WorkStealingExecutor" where
  "global_push node ex = (case node of None \<Rightarrow> ex | Some t \<Rightarrow> ex\<lparr>we_global_queue := we_global_queue ex @ [t]\<rparr>)"

definition global_pop :: "WorkStealingExecutor \<Rightarrow> nat option \<times> WorkStealingExecutor" where
  "global_pop ex =
     (case we_global_queue ex of [] \<Rightarrow> (None, ex) | t # ts \<Rightarrow> (Some t, ex\<lparr>we_global_queue := ts\<rparr>))"

text \<open>\<open>current\<close> is the worker of this executor that calls, if any; the two random numbers pick two others.\<close>

definition two_choices :: "nat \<Rightarrow> nat \<Rightarrow> nat \<Rightarrow> nat \<times> nat" where
  "two_choices n r1 r2 = (let w1 = r1 mod n in (w1, (w1 + 1 + r2 mod (n - 1)) mod n))"

definition schedule :: "nat option \<Rightarrow> nat \<Rightarrow> nat \<Rightarrow> nat option \<Rightarrow> WorkStealingExecutor \<Rightarrow> WorkStealingExecutor" where
  "schedule current r1 r2 task ex =
     (if task = None then ex
      else case current of
             Some i \<Rightarrow> upd_worker i (\<lambda>w. unpark (push_ready True task w)) ex
           | None \<Rightarrow>
               if nthreads ex = 1 then upd_worker 0 (\<lambda>w. unpark (push_ready False task w)) ex
               else let (w1, w2) = two_choices (nthreads ex) r1 r2;
                        target = (if approximate_load (we_workers ex ! w1) \<le> approximate_load (we_workers ex ! w2) then w1 else w2)
                    in upd_worker target (\<lambda>w. unpark (push_ready False task w)) ex)"

definition schedule_on :: "nat option \<Rightarrow> nat option \<Rightarrow> nat \<Rightarrow> WorkStealingExecutor \<Rightarrow> WorkStealingExecutor" where
  "schedule_on current task thread_id ex =
     (if task = None then ex
      else if thread_id \<ge> nthreads ex then wake_any_worker (global_push task ex)
      else upd_worker thread_id (\<lambda>w. unpark (push_ready (current = Some thread_id) task w)) ex)"

section \<open>The worker loop\<close>

definition park_and_wait :: "bool \<Rightarrow> WorkerState \<Rightarrow> WorkerState" where
  "park_and_wait running w =
     (if \<not> running then w
      else if has_ready_work w then w\<lparr>ws_is_parked := False\<rparr>
      else w\<lparr>ws_is_parked := True\<rparr>)"

definition find_task :: "nat \<Rightarrow> nat \<Rightarrow> WorkStealingExecutor \<Rightarrow> nat option \<times> WorkStealingExecutor" where
  "find_task rnd i ex =
     (let (task, ex) = (if ws_tick (we_workers ex ! i) mod kGlobalCheckInterval = 0 then global_pop ex else (None, ex));
          (task, ex) = (if task = None then pop_local i ex else (task, ex));
          (task, ex) = (if task = None then steal_task rnd i ex else (task, ex))
      in if task = None then global_pop ex else (task, ex))"

definition back_off :: "bool \<Rightarrow> WorkerState \<Rightarrow> WorkerState" where
  "back_off running w =
     (let w = w\<lparr>ws_empty_spins := ws_empty_spins w + 1\<rparr>
      in if ws_empty_spins w < 64 then w else (park_and_wait running w)\<lparr>ws_empty_spins := 0\<rparr>)"

text \<open>One iteration of \<^verbatim>\<open>WorkerLoop\<close>; a parked thread returns from its wait first.\<close>

definition WorkerLoop_iteration :: "nat \<Rightarrow> nat \<Rightarrow> WorkStealingExecutor \<Rightarrow> WorkStealingExecutor" where
  "WorkerLoop_iteration rnd i ex =
     (let ex = upd_worker i (\<lambda>w. w\<lparr>ws_tick := ws_tick w + 1\<rparr>) ex
      in case find_task rnd i ex of
           (Some t, ex) \<Rightarrow> (upd_worker i (\<lambda>w. w\<lparr>ws_empty_spins := 0\<rparr>) ex)\<lparr>we_ran := we_ran ex @ [t]\<rparr>
         | (None, ex) \<Rightarrow> upd_worker i (back_off (we_running ex)) ex)"

definition Executor_Start :: "WorkStealingExecutor \<Rightarrow> WorkStealingExecutor" where
  "Executor_Start ex = ex\<lparr>we_running := True\<rparr>"

definition Executor_Stop :: "WorkStealingExecutor \<Rightarrow> WorkStealingExecutor" where
  "Executor_Stop ex =
     (if we_running ex then ex\<lparr>we_running := False, we_workers := map unpark (we_workers ex)\<rparr> else ex)"

section \<open>Executions\<close>

definition task_set :: "nat option \<Rightarrow> nat multiset" where
  "task_set task = (case task of None \<Rightarrow> {#} | Some t \<Rightarrow> {#t#})"

text \<open>\<open>executor_reach n m ex\<close>: the tasks \<open>m\<close> were scheduled on the way to \<open>ex\<close>.\<close>

inductive executor_reach :: "nat \<Rightarrow> nat multiset \<Rightarrow> WorkStealingExecutor \<Rightarrow> bool" for n where
  exec_new: "0 < n \<Longrightarrow> executor_reach n {#} (new_WorkStealingExecutor n)"
| exec_schedule: "executor_reach n m ex \<Longrightarrow> (\<forall>i. current = Some i \<longrightarrow> i < n) \<Longrightarrow>
    executor_reach n (m + task_set task) (schedule current r1 r2 task ex)"
| exec_schedule_on: "executor_reach n m ex \<Longrightarrow> executor_reach n (m + task_set task) (schedule_on current task k ex)"
| exec_iterate: "executor_reach n m ex \<Longrightarrow> we_running ex \<Longrightarrow> i < n \<Longrightarrow> \<not> ws_is_parked (we_workers ex ! i) \<Longrightarrow>
    executor_reach n m (WorkerLoop_iteration rnd i ex)"
| exec_wait_ends: "executor_reach n m ex \<Longrightarrow> i < n \<Longrightarrow>
    executor_reach n m (upd_worker i (\<lambda>w. w\<lparr>ws_is_parked := False\<rparr>) ex)"
| exec_start: "executor_reach n m ex \<Longrightarrow> executor_reach n m (Executor_Start ex)"
| exec_stop: "executor_reach n m ex \<Longrightarrow> executor_reach n m (Executor_Stop ex)"


section \<open>Accounts\<close>

definition waiting_of :: "WorkerState \<Rightarrow> nat multiset" where
  "waiting_of w = mset (queued (ws_local_queue w)) + mset (ws_inbound_queue w)"

definition waiting :: "WorkStealingExecutor \<Rightarrow> nat multiset" where
  "waiting ex = mset (we_global_queue ex) + sum_list (map waiting_of (we_workers ex))"

definition worker_ok :: "WorkerState \<Rightarrow> bool" where
  "worker_ok w = (spmc_ok kLocalQueueSize (ws_local_queue w) \<and> ws_inbound_count w = int (length (ws_inbound_queue w)))"

definition executor_ok :: "nat \<Rightarrow> WorkStealingExecutor \<Rightarrow> bool" where
  "executor_ok n ex = (0 < n \<and> nthreads ex = n \<and> (\<forall>w \<in> set (we_workers ex). worker_ok w))"

lemma sum_list_update:
  fixes g :: "'a \<Rightarrow> 'b :: comm_monoid_add"
  assumes "i < length xs"
  shows "sum_list (map g (xs[i := y])) + g (xs ! i) = sum_list (map g xs) + g y"
  using arg_cong [OF id_take_nth_drop [OF assms], of "\<lambda>l. sum_list (map g l)"] assms
  by (simp add: upd_conv_take_nth_drop ac_simps)

lemma upd_worker_sel [simp]:
  "we_global_queue (upd_worker i f ex) = we_global_queue ex" "we_ran (upd_worker i f ex) = we_ran ex"
  "nthreads (upd_worker i f ex) = nthreads ex" "we_running (upd_worker i f ex) = we_running ex"
  "i < nthreads ex \<Longrightarrow> we_workers (upd_worker i f ex) ! i = f (we_workers ex ! i)"
  by (simp_all add: upd_worker_def)

lemma upd_worker_account:
  assumes ok: "executor_ok n ex" "i < n" and w: "worker_ok (f (we_workers ex ! i))"
    and wt: "waiting_of (f (we_workers ex ! i)) + out = waiting_of (we_workers ex ! i) + inp"
  shows "executor_ok n (upd_worker i f ex)" "waiting (upd_worker i f ex) + out = waiting ex + inp"
proof -
  have i: "i < length (we_workers ex)" using ok by (simp add: executor_ok_def)
  show "executor_ok n (upd_worker i f ex)"
    using ok w set_update_subset_insert [of "we_workers ex" i "f (we_workers ex ! i)"]
    by (auto simp: executor_ok_def upd_worker_def)
  have "sum_list (map waiting_of ((we_workers ex)[i := f (we_workers ex ! i)])) + out + waiting_of (we_workers ex ! i) =
      sum_list (map waiting_of (we_workers ex)) + inp + waiting_of (we_workers ex ! i)"
    using sum_list_update [OF i, of waiting_of "f (we_workers ex ! i)"] wt
    by (simp add: ac_simps)
  then show "waiting (upd_worker i f ex) + out = waiting ex + inp"
    by (simp add: waiting_def upd_worker_def add.assoc)
qed

lemma worker_fields [simp]:
  "worker_ok (w\<lparr>ws_tick := t\<rparr>) = worker_ok w" "waiting_of (w\<lparr>ws_tick := t\<rparr>) = waiting_of w"
  "worker_ok (w\<lparr>ws_is_parked := b\<rparr>) = worker_ok w" "waiting_of (w\<lparr>ws_is_parked := b\<rparr>) = waiting_of w"
  "worker_ok (w\<lparr>ws_empty_spins := t\<rparr>) = worker_ok w" "waiting_of (w\<lparr>ws_empty_spins := t\<rparr>) = waiting_of w"
  "worker_ok (unpark w) = worker_ok w" "waiting_of (unpark w) = waiting_of w"
  "worker_ok (park_and_wait r w) = worker_ok w" "waiting_of (park_and_wait r w) = waiting_of w"
  by (simp_all add: worker_ok_def waiting_of_def unpark_def park_and_wait_def)

lemma back_off_fields [simp]: "worker_ok (back_off r w) = worker_ok w" "waiting_of (back_off r w) = waiting_of w"
  by (simp_all add: back_off_def Let_def)

lemma wake_account [simp]:
  "executor_ok n (wake_any_worker ex) = executor_ok n ex" "waiting (wake_any_worker ex) = waiting ex"
proof -
  have "(\<forall>w \<in> set (wake_first ws). worker_ok w) = (\<forall>w \<in> set ws. worker_ok w)" "length (wake_first ws) = length ws"
    "map waiting_of (wake_first ws) = map waiting_of ws" for ws
    by (induction ws) auto
  then show "executor_ok n (wake_any_worker ex) = executor_ok n ex" "waiting (wake_any_worker ex) = waiting ex"
    by (simp_all add: wake_any_worker_def executor_ok_def waiting_def)
qed

lemma enqueue_account:
  "worker_ok (enqueue_inbound t w) = worker_ok w" "waiting_of (enqueue_inbound t w) = waiting_of w + {#t#}"
  by (auto simp: enqueue_inbound_def worker_ok_def waiting_of_def)

lemma worker_push_account:
  assumes "worker_ok w"
  shows "worker_ok (push_local_or_inbound t w)" "waiting_of (push_local_or_inbound t w) = waiting_of w + {#t#}"
proof -
  obtain r q where p: "Push t (ws_local_queue w) = (r, q)" by fastforce
  have q: "spmc_ok kLocalQueueSize q" "mset (queued q) = mset (queued (ws_local_queue w)) + (if r then {#t#} else {#})"
    using spmc.push_account [OF _ p, of kLocalQueueSize] assms by (simp_all add: worker_ok_def)
  then show "worker_ok (push_local_or_inbound t w)" "waiting_of (push_local_or_inbound t w) = waiting_of w + {#t#}"
    using assms by (simp_all add: push_local_or_inbound_def p worker_ok_def waiting_of_def enqueue_inbound_def split: bool.split)
qed

lemma push_ready_account:
  assumes "worker_ok w"
  shows "worker_ok (push_ready c task w)" "waiting_of (push_ready c task w) = waiting_of w + task_set task"
  using assms worker_push_account enqueue_account by (simp_all add: push_ready_def task_set_def split: option.split)

lemma push_all_account:
  "worker_ok w \<Longrightarrow> worker_ok (fold push_local_or_inbound ts w) \<and>
   waiting_of (fold push_local_or_inbound ts w) = waiting_of w + mset ts"
  by (induction ts arbitrary: w) (simp_all add: worker_push_account)

lemma schedule_account:
  assumes ok: "executor_ok n ex" and cur: "\<forall>i. current = Some i \<longrightarrow> i < n"
  shows "executor_ok n (schedule current r1 r2 task ex)" "waiting (schedule current r1 r2 task ex) = waiting ex + task_set task"
proof -
  have put: "executor_ok n (upd_worker i (\<lambda>w. unpark (push_ready c task w)) ex) \<and>
      waiting (upd_worker i (\<lambda>w. unpark (push_ready c task w)) ex) = waiting ex + task_set task" if "i < n" for i c
  proof -
    have "worker_ok (we_workers ex ! i)" using ok that by (simp add: executor_ok_def)
    then show ?thesis
      using upd_worker_account [OF ok that, of "\<lambda>w. unpark (push_ready c task w)" "{#}" "task_set task"] push_ready_account
      by simp
  qed
  have n: "0 < n" "nthreads ex = n" using ok by (simp_all add: executor_ok_def)
  have "executor_ok n (schedule current r1 r2 task ex) \<and> waiting (schedule current r1 r2 task ex) = waiting ex + task_set task"
    using put n cur ok
    by (auto simp: schedule_def two_choices_def task_set_def Let_def split: option.split)
  then show "executor_ok n (schedule current r1 r2 task ex)" "waiting (schedule current r1 r2 task ex) = waiting ex + task_set task"
    by blast+
qed

lemma schedule_on_account:
  assumes ok: "executor_ok n ex"
  shows "executor_ok n (schedule_on current task k ex)" "waiting (schedule_on current task k ex) = waiting ex + task_set task"
proof -
  have n: "nthreads ex = n" using ok by (simp add: executor_ok_def)
  have g: "executor_ok n (global_push task ex)" "waiting (global_push task ex) = waiting ex + task_set task"
    using ok by (simp_all add: global_push_def executor_ok_def waiting_def task_set_def split: option.split)
  have "executor_ok n (schedule_on current task k ex) \<and> waiting (schedule_on current task k ex) = waiting ex + task_set task"
  proof (cases "task = None \<or> nthreads ex \<le> k")
    case True
    then show ?thesis using ok g by (auto simp: schedule_on_def task_set_def)
  next
    case False
    then have "worker_ok (we_workers ex ! k)" using ok by (simp add: executor_ok_def)
    then show ?thesis
      using upd_worker_account [OF ok, of k "\<lambda>w. unpark (push_ready (current = Some k) task w)" "{#}" "task_set task"]
        push_ready_account False n by (auto simp: schedule_on_def)
  qed
  then show "executor_ok n (schedule_on current task k ex)" "waiting (schedule_on current task k ex) = waiting ex + task_set task"
    by blast+
qed


section \<open>Taking a task\<close>

text \<open>An operation that takes out the task it returns, and nothing else.\<close>

definition takes :: "nat \<Rightarrow> WorkStealingExecutor \<Rightarrow> nat option \<times> WorkStealingExecutor \<Rightarrow> bool" where
  "takes n ex out =
     (executor_ok n (snd out) \<and> waiting ex = waiting (snd out) + task_set (fst out) \<and> we_ran (snd out) = we_ran ex \<and>
      we_running (snd out) = we_running ex)"

lemma takes_trans:
  "takes n ex (None, ex') \<Longrightarrow> takes n ex' out \<Longrightarrow> takes n ex out"
  by (simp add: takes_def task_set_def)

lemma takes_worker:
  assumes "executor_ok n ex" "i < n" "worker_ok (f (we_workers ex ! i))"
    "waiting_of (we_workers ex ! i) = waiting_of (f (we_workers ex ! i)) + task_set task"
  shows "takes n ex (task, upd_worker i f ex)"
  using upd_worker_account [OF assms(1,2), of f "task_set task" "{#}"] assms(3,4) by (simp add: takes_def)

lemma takes_wake: "takes n ex (task, ex') \<Longrightarrow> takes n ex (task, wake_any_worker ex')"
  by (simp add: takes_def) (simp add: wake_any_worker_def)

lemma global_pop_takes: "executor_ok n ex \<Longrightarrow> takes n ex (global_pop ex)"
  by (auto simp: global_pop_def takes_def executor_ok_def waiting_def task_set_def split: list.split)

lemma global_pop_None: "fst (global_pop ex) = None \<Longrightarrow> we_global_queue ex = [] \<and> snd (global_pop ex) = ex"
  by (auto simp: global_pop_def split: list.splits)

lemma pop_local_takes:
  assumes ok: "executor_ok n ex" and i: "i < n"
  shows "takes n ex (pop_local i ex)" "fst (pop_local i ex) = None \<Longrightarrow> waiting_of (we_workers (snd (pop_local i ex)) ! i) = {#}"
proof -
  let ?w = "we_workers ex ! i"
  have w: "spmc_ok kLocalQueueSize (ws_local_queue ?w)" "ws_inbound_count ?w = int (length (ws_inbound_queue ?w))"
    using ok i by (auto simp: executor_ok_def worker_ok_def)
  obtain r q where p: "TryPop (ws_local_queue ?w) = (r, q)" by fastforce
  note q = spmc.pop_account [OF w(1) p]
  have "takes n ex (pop_local i ex) \<and> (fst (pop_local i ex) = None \<longrightarrow> waiting_of (we_workers (snd (pop_local i ex)) ! i) = {#})"
  proof (cases r)
    case (Some t)
    then show ?thesis
      using q w by (auto simp: pop_local_def p worker_ok_def waiting_of_def task_set_def intro!: takes_worker [OF ok i])
  next
    case None
    let ?v = "?w\<lparr>ws_local_queue := q\<rparr>"
    have v: "worker_ok ?v" "waiting_of ?v = waiting_of ?w" "queued (ws_local_queue ?w) = []"
      using None q w by (auto simp: worker_ok_def waiting_of_def)
    show ?thesis
    proof (cases "take kBulk (ws_inbound_queue ?w)")
      case Nil
      then have "ws_inbound_queue ?w = []" by (simp add: kBulk_def)
      moreover from this have "pop_local i ex = (None, upd_worker i (\<lambda>_. ?v) ex)"
        using w(2) None by (simp add: pop_local_def p Let_def)
      moreover have "takes n ex (None, upd_worker i (\<lambda>_. ?v) ex)"
        using v by (intro takes_worker [OF ok i]) (simp_all add: task_set_def)
      moreover have "i < nthreads ex" using ok i by (simp add: executor_ok_def)
      ultimately show ?thesis using v by (simp add: waiting_of_def)
    next
      case (Cons t ts)
      let ?u = "?v\<lparr>ws_inbound_queue := drop kBulk (ws_inbound_queue ?w), ws_inbound_count := ws_inbound_count ?w - int (length (t # ts))\<rparr>"
      have split: "ws_inbound_queue ?w = (t # ts) @ drop kBulk (ws_inbound_queue ?w)" by (metis Cons append_take_drop_id)
      have "ws_inbound_count ?w = int (length (t # ts)) + int (length (drop kBulk (ws_inbound_queue ?w)))"
        unfolding w(2) by (subst split) (simp only: length_append of_nat_add)
      then have u: "worker_ok ?u" using v(1) by (simp add: worker_ok_def)
      have "waiting_of ?w = waiting_of ?u + mset (t # ts)"
        using v(2) arg_cong [OF split, of mset] by (simp add: waiting_of_def)
      then have "takes n ex (Some t, upd_worker i (\<lambda>_. fold push_local_or_inbound ts ?u) ex)"
        using push_all_account [OF u, of ts] by (intro takes_worker [OF ok i]) (simp_all add: task_set_def)
      moreover have "ws_inbound_queue ?w \<noteq> []" using Cons by auto
      ultimately show ?thesis
        using None Cons w(2) by (auto simp: pop_local_def p takes_wake Let_def)
    qed
  qed
  then show "takes n ex (pop_local i ex)" "fst (pop_local i ex) = None \<Longrightarrow> waiting_of (we_workers (snd (pop_local i ex)) ! i) = {#}" by blast+
qed


lemma steal_local_takes:
  assumes ok: "executor_ok n ex" and vs: "\<forall>v \<in> set vs. v < n"
  shows "takes n ex (steal_local vs ex)"
    "fst (steal_local vs ex) = None \<Longrightarrow> snd (steal_local vs ex) = ex \<and> (\<forall>v \<in> set vs. queued (ws_local_queue (we_workers ex ! v)) = [])"
proof -
  have "takes n ex (steal_local vs ex) \<and> (fst (steal_local vs ex) = None \<longrightarrow>
      snd (steal_local vs ex) = ex \<and> (\<forall>v \<in> set vs. queued (ws_local_queue (we_workers ex ! v)) = []))"
    using vs
  proof (induction vs)
    case Nil
    then show ?case using ok by (simp add: takes_def task_set_def)
  next
    case (Cons v vs)
    let ?q = "ws_local_queue (we_workers ex ! v)"
    have w: "worker_ok (we_workers ex ! v)" using ok Cons.prems by (simp add: executor_ok_def)
    then have q: "spmc_ok kLocalQueueSize ?q" by (simp add: worker_ok_def)
    obtain r q' where st: "Steal ?q = (r, q')" by fastforce
    note acc = spmc.steal_account [OF q st]
    show ?case
    proof (cases r)
      case None
      then show ?thesis using Cons acc queued_facts(3) [OF q] by (simp add: st)
    next
      case (Some t)
      then have "takes n ex (Some t, upd_worker v (\<lambda>w. w\<lparr>ws_local_queue := q'\<rparr>) ex)"
        using acc w Cons.prems by (intro takes_worker [OF ok]) (auto simp: worker_ok_def waiting_of_def task_set_def)
      then show ?thesis using Some acc queued_facts(3) [OF q] by (simp add: st)
    qed
  qed
  then show "takes n ex (steal_local vs ex)"
    "fst (steal_local vs ex) = None \<Longrightarrow> snd (steal_local vs ex) = ex \<and> (\<forall>v \<in> set vs. queued (ws_local_queue (we_workers ex ! v)) = [])"
    by blast+
qed

lemma steal_inbound_takes:
  assumes ok: "executor_ok n ex" and vs: "\<forall>v \<in> set vs. v < n"
  shows "takes n ex (steal_inbound vs ex)"
    "fst (steal_inbound vs ex) = None \<Longrightarrow> snd (steal_inbound vs ex) = ex \<and> (\<forall>v \<in> set vs. ws_inbound_queue (we_workers ex ! v) = [])"
proof -
  have "takes n ex (steal_inbound vs ex) \<and> (fst (steal_inbound vs ex) = None \<longrightarrow>
      snd (steal_inbound vs ex) = ex \<and> (\<forall>v \<in> set vs. ws_inbound_queue (we_workers ex ! v) = []))"
    using vs
  proof (induction vs)
    case Nil
    then show ?case using ok by (simp add: takes_def task_set_def)
  next
    case (Cons v vs)
    have w: "worker_ok (we_workers ex ! v)" using ok Cons.prems by (simp add: executor_ok_def)
    show ?case
    proof (cases "ws_inbound_queue (we_workers ex ! v)")
      case Nil
      then show ?thesis using Cons w by (simp add: worker_ok_def)
    next
      case (Cons t ts)
      then have "takes n ex (Some t, upd_worker v (\<lambda>w. w\<lparr>ws_inbound_queue := ts, ws_inbound_count := ws_inbound_count w - 1\<rparr>) ex)"
        using w \<open>\<forall>v \<in> set (v # vs). v < n\<close> by (intro takes_worker [OF ok]) (auto simp: worker_ok_def waiting_of_def task_set_def)
      then show ?thesis using Cons w by (simp add: worker_ok_def Let_def)
    qed
  qed
  then show "takes n ex (steal_inbound vs ex)"
    "fst (steal_inbound vs ex) = None \<Longrightarrow> snd (steal_inbound vs ex) = ex \<and> (\<forall>v \<in> set vs. ws_inbound_queue (we_workers ex ! v) = [])"
    by blast+
qed

lemma victims_set:
  assumes "start < n"
  shows "set (victims n start thief) = {..<n} - {thief}"
proof -
  have "\<exists>i < n. (start + i) mod n = v" if "v < n" for v
  proof (cases "start \<le> v")
    case True
    then show ?thesis using that by (intro exI [of _ "v - start"]) auto
  next
    case False
    then show ?thesis using that assms by (intro exI [of _ "n + v - start"]) auto
  qed
  then show ?thesis using assms by (auto simp: victims_def image_iff) (metis atLeast0LessThan lessThan_iff)
qed

lemma steal_task_takes:
  assumes ok: "executor_ok n ex" and i: "i < n"
  shows "takes n ex (steal_task rnd i ex)"
    "fst (steal_task rnd i ex) = None \<Longrightarrow> snd (steal_task rnd i ex) = ex \<and> (\<forall>v < n. v \<noteq> i \<longrightarrow> waiting_of (we_workers ex ! v) = {#})"
proof -
  let ?vs = "victims (nthreads ex) (rnd mod nthreads ex) i"
  have n: "nthreads ex = n" "0 < n" using ok by (simp_all add: executor_ok_def)
  have vs: "set ?vs = {..<n} - {i}" using n by (simp add: victims_set)
  have b: "\<forall>v \<in> set ?vs. v < n" by (simp add: vs)
  obtain r ex' where st: "steal_local ?vs ex = (r, ex')" by fastforce
  note l = steal_local_takes [OF ok b, unfolded st]
  have "takes n ex (steal_task rnd i ex) \<and> (fst (steal_task rnd i ex) = None \<longrightarrow>
      snd (steal_task rnd i ex) = ex \<and> (\<forall>v < n. v \<noteq> i \<longrightarrow> waiting_of (we_workers ex ! v) = {#}))"
  proof (cases "nthreads ex \<le> 1 \<or> r \<noteq> None")
    case True
    then show ?thesis
      using l ok n i by (auto simp: steal_task_def st takes_def task_set_def)
  next
    case False
    then have "ex' = ex" using l(2) by simp
    then show ?thesis
      using False l(2) steal_inbound_takes [OF ok b] by (auto simp: steal_task_def st waiting_of_def vs)
  qed
  then show "takes n ex (steal_task rnd i ex)"
    "fst (steal_task rnd i ex) = None \<Longrightarrow> snd (steal_task rnd i ex) = ex \<and> (\<forall>v < n. v \<noteq> i \<longrightarrow> waiting_of (we_workers ex ! v) = {#})"
    by blast+
qed


lemma waiting_none:
  assumes "executor_ok n ex" "we_global_queue ex = []" "\<forall>v < n. waiting_of (we_workers ex ! v) = {#}"
  shows "waiting ex = {#}"
proof -
  have "\<forall>w \<in> set (we_workers ex). waiting_of w = {#}"
    using assms by (auto simp: executor_ok_def in_set_conv_nth)
  then have "map waiting_of (we_workers ex) = map (\<lambda>_. {#}) (we_workers ex)" by simp
  then show ?thesis by (simp add: waiting_def assms(2) del: map_eq_conv)
qed

lemma find_task_takes:
  assumes ok: "executor_ok n ex" and i: "i < n"
  shows "takes n ex (find_task rnd i ex)" "fst (find_task rnd i ex) = None \<Longrightarrow> waiting ex = {#}"
proof -
  obtain t1 ex1 where 1: "(if ws_tick (we_workers ex ! i) mod kGlobalCheckInterval = 0 then global_pop ex else (None, ex)) = (t1, ex1)"
    by fastforce
  have a1: "takes n ex (t1, ex1)"
    using global_pop_takes [OF ok] ok 1 by (auto simp: takes_def task_set_def split: if_splits)
  then have ok1: "executor_ok n ex1" by (simp add: takes_def)
  obtain t2 ex2 where 2: "(if t1 = None then pop_local i ex1 else (t1, ex1)) = (t2, ex2)" by fastforce
  have a2: "takes n ex (t2, ex2)"
    using takes_trans [of n ex ex1 "(t2, ex2)"] pop_local_takes(1) [OF ok1 i] a1 2 by (auto split: if_splits)
  then have ok2: "executor_ok n ex2" by (simp add: takes_def)
  obtain t3 ex3 where 3: "(if t2 = None then steal_task rnd i ex2 else (t2, ex2)) = (t3, ex3)" by fastforce
  have a3: "takes n ex (t3, ex3)"
    using takes_trans [of n ex ex2 "(t3, ex3)"] steal_task_takes(1) [OF ok2 i, of rnd] a2 3 by (auto split: if_splits)
  then have ok3: "executor_ok n ex3" by (simp add: takes_def)
  have eq: "find_task rnd i ex = (if t3 = None then global_pop ex3 else (t3, ex3))"
    by (simp only: find_task_def 1 2 3 Let_def prod.case)
  show "takes n ex (find_task rnd i ex)"
    using takes_trans [of n ex ex3 "global_pop ex3"] global_pop_takes [OF ok3] a3 by (auto simp: eq)
  assume none: "fst (find_task rnd i ex) = None"
  have t: "t1 = None" "t2 = None" "t3 = None" "fst (global_pop ex3) = None"
    using none 2 3 by (auto simp: eq split: if_splits)
  have "waiting_of (we_workers ex2 ! i) = {#}" using pop_local_takes(2) [OF ok1 i] 2 t by simp
  moreover have "ex3 = ex2" "\<forall>v < n. v \<noteq> i \<longrightarrow> waiting_of (we_workers ex2 ! v) = {#}"
    using steal_task_takes(2) [OF ok2 i, of rnd] 3 t by simp_all
  ultimately have "waiting ex3 = {#}"
    using global_pop_None [OF t(4)] by (intro waiting_none [OF ok3]) auto
  then show "waiting ex = {#}" using a3 t(3) by (simp add: takes_def task_set_def)
qed

text \<open>One iteration of a worker moves one waiting task, if there is any, to the tasks that were run.\<close>

lemma iteration_spec:
  assumes ok: "executor_ok n ex" and i: "i < n"
  shows "executor_ok n (WorkerLoop_iteration rnd i ex)"
    "mset (we_ran (WorkerLoop_iteration rnd i ex)) + waiting (WorkerLoop_iteration rnd i ex) = mset (we_ran ex) + waiting ex"
    "size (waiting (WorkerLoop_iteration rnd i ex)) = size (waiting ex) - 1"
proof -
  let ?ex = "upd_worker i (\<lambda>w. w\<lparr>ws_tick := ws_tick w + 1\<rparr>) ex"
  have w: "worker_ok (we_workers e ! i)" if "executor_ok n e" for e using that i by (simp add: executor_ok_def)
  have keep: "executor_ok n (upd_worker i f e) \<and> waiting (upd_worker i f e) = waiting e"
    if "executor_ok n e" "worker_ok (f (we_workers e ! i))" "waiting_of (f (we_workers e ! i)) = waiting_of (we_workers e ! i)" for e f
    using upd_worker_account [OF that(1) i, of f "{#}" "{#}"] that by simp
  have ok1: "executor_ok n ?ex" "waiting ?ex = waiting ex" using keep [OF ok] w [OF ok] by simp_all
  obtain task ex2 where f: "find_task rnd i ?ex = (task, ex2)" by fastforce
  have tk: "takes n ?ex (task, ex2)" "task = None \<Longrightarrow> waiting ?ex = {#}"
    using find_task_takes [OF ok1(1) i, of rnd, unfolded f] by simp_all
  then have ok2: "executor_ok n ex2" by (simp add: takes_def)
  have sz: "size (waiting ex) = size (waiting ex2) + size (task_set task)"
    using tk(1) ok1(2) by (metis fst_conv size_union snd_conv takes_def)
  have it: "WorkerLoop_iteration rnd i ex = (case task of
      Some t \<Rightarrow> (upd_worker i (\<lambda>w. w\<lparr>ws_empty_spins := 0\<rparr>) ex2)\<lparr>we_ran := we_ran ex2 @ [t]\<rparr>
    | None \<Rightarrow> upd_worker i (back_off (we_running ex2)) ex2)"
    by (simp only: WorkerLoop_iteration_def Let_def f prod.case)
  have "executor_ok n (WorkerLoop_iteration rnd i ex) \<and>
    mset (we_ran (WorkerLoop_iteration rnd i ex)) + waiting (WorkerLoop_iteration rnd i ex) = mset (we_ran ex) + waiting ex \<and>
    size (waiting (WorkerLoop_iteration rnd i ex)) = size (waiting ex) - 1"
  proof (cases task)
    case None
    then show ?thesis
      using tk keep [OF ok2, of "back_off (we_running ex2)"] w [OF ok2] ok1(2)
      by (simp add: it takes_def task_set_def)
  next
    case (Some t)
    let ?v = "upd_worker i (\<lambda>w. w\<lparr>ws_empty_spins := 0\<rparr>) ex2"
    have "executor_ok n (?v\<lparr>we_ran := l\<rparr>) = executor_ok n ?v" "waiting (?v\<lparr>we_ran := l\<rparr>) = waiting ?v" for l
      by (simp_all add: executor_ok_def waiting_def)
    then show ?thesis
      using tk keep [OF ok2, of "\<lambda>w. w\<lparr>ws_empty_spins := 0\<rparr>"] w [OF ok2] ok1(2) Some sz
      by (simp add: it takes_def task_set_def)
  qed
  then show "executor_ok n (WorkerLoop_iteration rnd i ex)"
    "mset (we_ran (WorkerLoop_iteration rnd i ex)) + waiting (WorkerLoop_iteration rnd i ex) = mset (we_ran ex) + waiting ex"
    "size (waiting (WorkerLoop_iteration rnd i ex)) = size (waiting ex) - 1"
    by blast+
qed

lemma executor_reach_ok:
  "executor_reach n m ex \<Longrightarrow> executor_ok n ex \<and> m = mset (we_ran ex) + waiting ex"
proof (induction rule: executor_reach.induct)
  case exec_new
  have "worker_ok new_WorkerState" "waiting_of new_WorkerState = {#}"
    using queue_ok_new [of kLocalQueueSize] by (simp_all add: worker_ok_def waiting_of_def new_WorkerState_def kLocalQueueSize_def)
  moreover have "sum_list (replicate n {#}) = ({#} :: nat multiset)" by (induction n) simp_all
  ultimately show ?case using exec_new by (simp add: executor_ok_def waiting_def new_WorkStealingExecutor_def)
next
  case (exec_schedule m ex current task r1 r2)
  have "we_ran (schedule current r1 r2 task ex) = we_ran ex"
    by (auto simp: schedule_def Let_def split: option.split prod.split)
  then show ?case using exec_schedule schedule_account [of n ex current r1 r2 task] by simp
next
  case (exec_schedule_on m ex task current k)
  have "we_ran (schedule_on current task k ex) = we_ran ex"
    by (auto simp: schedule_on_def wake_any_worker_def global_push_def split: option.split)
  then show ?case using exec_schedule_on schedule_on_account [of n ex current task k] by simp
next
  case (exec_iterate m ex i rnd)
  then show ?case using iteration_spec(1,2) [of n ex i rnd] by simp
next
  case (exec_wait_ends m ex i)
  then have "worker_ok (we_workers ex ! i)" by (simp add: executor_ok_def)
  then show ?case
    using exec_wait_ends upd_worker_account [of n ex i "\<lambda>w. w\<lparr>ws_is_parked := False\<rparr>" "{#}" "{#}"] by simp
next
  case (exec_start m ex)
  then show ?case by (simp add: Executor_Start_def executor_ok_def waiting_def)
next
  case (exec_stop m ex)
  then show ?case by (simp add: Executor_Stop_def executor_ok_def waiting_def comp_def)
qed


section \<open>Properties\<close>

text \<open>
  C34: the executor neither loses nor repeats a task: under every interleaving of scheduling threads,
  workers, parking and stopping, the scheduled tasks are exactly the ones that were run and the ones
  that wait in a queue.
\<close>

theorem executor_exactly_once:
  assumes "executor_reach n m ex"
  shows "m = mset (we_ran ex) + mset (we_global_queue ex) +
    (\<Sum>w \<leftarrow> we_workers ex. mset (queued (ws_local_queue w)) + mset (ws_inbound_queue w))"
  using executor_reach_ok [OF assms] by (simp add: waiting_def waiting_of_def [abs_def] ac_simps)



text \<open>Two workers: one task for worker 1, one for the global queue.\<close>

definition sample_executor :: WorkStealingExecutor where
  "sample_executor = schedule_on None (Some 8) 5 (schedule_on None (Some 7) 1 (new_WorkStealingExecutor 2))"

lemma sample_executor_reach: "executor_reach 2 {#7, 8#} sample_executor"
proof -
  have "executor_reach 2 ({#} + task_set (Some 7) + task_set (Some 8)) sample_executor"
    unfolding sample_executor_def by (intro exec_schedule_on exec_new) simp
  then show ?thesis by (simp add: task_set_def add_mset_commute)
qed

theorem executor_exactly_once_witness:
  "mset (we_ran sample_executor) + mset (we_global_queue sample_executor) +
     (\<Sum>w \<leftarrow> we_workers sample_executor. mset (queued (ws_local_queue w)) + mset (ws_inbound_queue w)) = {#7, 8#}"
  by (rule executor_exactly_once [OF sample_executor_reach, symmetric])


end
