(* ===== verification/Spec2Isabelle.thy ===== *)
theory Spec2Isabelle
  imports Wire_Protocol Metrics Metric_Registry Controller Timer_Keeper Slot_Contract Context_Control Server_Contract Server_Facade Client_Contract
    Work_Executor
begin

text \<open>
  A verification library for the RPC framework under \<^verbatim>\<open>src/include/ant_rpc\<close>: asynchronous unary calls
  over TCP, with a client channel, a server, and the scheduler that runs both.

  \<^bold>\<open>The program and its theories.\<close>  A call starts in \<^verbatim>\<open>RpcChannel::StartUnaryCall\<close>, takes a slot of the
  client's slot table, is packed into a frame and posted to the IO thread that owns the connection.
  The server's IO thread parses frames, admits calls under limits, hands them to workers, and queues
  the responses.  A response, a timer, a cancellation or the loss of the connection resolves the slot.

  \<^item> \<open>Prelude\<close>: fixed-width integers, \<^verbatim>\<open>size_t\<close> counters with their wrap-around, byte buffers.

  \<^item> \<open>Wire_Protocol\<close> (\<^verbatim>\<open>rpc/protocol.hpp\<close>, \<^verbatim>\<open>rpc/error_code.hpp\<close>): \<open>PackSerializedFrame\<close> and
  \<open>TryParseRpcFrame\<close>.  Packing and parsing are inverse, also for a stream of frames cut anywhere; a
  parsed frame is within the bounds of its buffer; the parser never decides on less than a frame.

  \<^item> \<open>Quad_Heap\<close>, \<open>Timer_Keeper\<close> (\<^verbatim>\<open>scheduler/timer_keeper.hpp\<close>): the 4-ary heap implements a priority
  queue; a timer fires at most once, not before its time, never after a successful cancel, and the
  thread never sleeps past a deadline.  The store of entries makes the sharing between buckets, index
  and heap explicit.

  \<^item> \<open>Metrics\<close> (\<^verbatim>\<open>metrics/metric.hpp\<close>, \<^verbatim>\<open>latency_recorder.hpp\<close>, \<^verbatim>\<open>client_metrics.hpp\<close>,
  \<^verbatim>\<open>server_metrics.hpp\<close>): counters, gauges and the latency summary, at 64 bits.

  \<^item> \<open>Metric_Registry\<close> (\<^verbatim>\<open>metrics/metric_registry.hpp\<close>): registration and the text exposition; the registry is
  well typed, its text is read back exactly by an independent reader, names no series twice and does not
  depend on the order of the hash map.

  \<^item> \<open>Controller\<close> (\<^verbatim>\<open>rpc/controller.hpp\<close>): per-call context; a cancel notification runs exactly once
  under every interleaving of its critical sections.

  \<^item> \<open>Slot_Table\<close>, \<open>Slot_Invariants\<close>, \<open>Slot_Refinement\<close>, \<open>Slot_Continuations\<close>, \<open>Slot_Contract\<close>
  (\<^verbatim>\<open>rpc/slot_table.hpp\<close>): the table refines a ledger of calls; each call completes once, each
  continuation is scheduled once, stale identifiers do nothing, the metrics count exactly.

  \<^item> \<open>Context_Control\<close> (\<^verbatim>\<open>context/io_command.hpp\<close>, \<^verbatim>\<open>context/context_control.hpp\<close>): the mailbox of an IO
  thread; every posted command is handled, whatever the order of the posting threads' accesses.

  \<^item> \<open>Client_Driver\<close>, \<open>Client_Channel\<close> (\<^verbatim>\<open>rpc/io_driver/\<close>, \<^verbatim>\<open>rpc/core/\<close>): connect, receive and write state
  machines and the channel facade.  \<open>Client_Relations\<close>, \<open>Client_Calls\<close>, \<open>Client_Bytes\<close>,
  \<open>Client_Lifecycle\<close> hold what their steps preserve, \<open>Client_Sample\<close> a concrete run and
  \<open>Client_Contract\<close> the properties: outcome of a started call, exact byte accounts, balance of calls,
  and that a stopped channel closes.

  \<^item> \<open>Server_Runtime\<close>, \<open>Server_Connection\<close> (\<^verbatim>\<open>rpc/server/server_connection.hpp\<close>, \<^verbatim>\<open>server_options.hpp\<close>,
  \<^verbatim>\<open>rpc/service_registry.hpp\<close>): admission, the connection state machine, inbound calls, graceful stop.
  \<open>Server_Isolation\<close>, \<open>Server_Bytes\<close>, \<open>Server_Calls\<close>, \<open>Server_Release\<close> hold the invariants,
  \<open>Server_Sample\<close> a concrete run and \<open>Server_Contract\<close> the properties: byte accounts, one place per
  call, exact counters, draining, isolation of connections, order of responses.

  \<^item> \<open>Server_Facade\<close> (\<^verbatim>\<open>rpc/server/rpc_server.hpp\<close>): \<open>Server_Start\<close>, \<open>Server_Stop\<close>, \<open>Join\<close> and the dispatch
  of accepted sockets, around the server world; the life cycle only moves forward and \<open>Join\<close> ends a
  stopping server only when it is drained.

  \<^item> \<open>Spmc_Queue\<close>, \<open>Work_Executor\<close> (\<^verbatim>\<open>scheduler/spmc_queue.hpp\<close>, \<^verbatim>\<open>mpmc_queue.hpp\<close>, \<^verbatim>\<open>executor.hpp\<close>): the
  work-stealing deque, access by access, refines a bounded double-ended list; the executor built on
  it runs every scheduled task exactly once and drains.

  \<^bold>\<open>Conventions.\<close>  A class is a record with the fields of the class, a method a function on it; names are
  those of the source, prefixed where two classes share one.  Pointers are addresses into explicit
  stores.  A mutex makes its critical section one function; a method with several sections is the
  composition of their functions.  A coroutine is cut at its \<^verbatim>\<open>co_await\<close>, and the state says which
  operation is suspended.  A compare-exchange loop that recomputes from the observed value is one
  atomic step.  For every component a step relation (\<open>Run_step\<close>, \<open>cc_step\<close>, \<open>server_step\<close>,
  \<open>deque_step\<close>, \<open>facade_step\<close>, and the reachability predicates over them) interleaves the sections of all
  threads in a sequentially consistent order, and the properties are invariants of the reachable states.

  \<^bold>\<open>Interfaces.\<close>  \<open>stream_parser\<close> is interpreted on the frame parser, \<open>priority_queue\<close> on the heap,
  \<open>cancellation_target\<close> on the slot table, \<open>bounded_counter\<close> on the three admission counters of the server
  and the live slots, \<open>driver_relation\<close> on two relations of the client driver, \<open>work_deque\<close> on the
  deque that the executor uses.

  \<^bold>\<open>Arguments.\<close>  Generated and third-party code is an argument: the protobuf codecs, user services and
  closures, clock readings, random numbers, and the results of socket calls.  The laws relied on
  are named hypotheses (\<open>meta_codec_ok\<close> for the codec).

  \<^bold>\<open>Bounds.\<close>  All recursions are structural or have a termination proof; no operation of the model uses fuel
  (the reader \<open>read_pairs\<close>, part of a specification, takes the length of its text, which is enough).
  Widths are kept where they matter: slot versions and correlation ids, metrics, the saturating latency
  total, header fields, and the \<^verbatim>\<open>size_t\<close> counters.  The indices of the deque and the ticks of a worker are
  unbounded, as 64-bit counters that only grow by one do not wrap in a run.  Options are assumed to
  fit a \<^verbatim>\<open>size_t\<close> (\<open>options_sized\<close>).

  \<^bold>\<open>Not modelled.\<close>  The kernel event loops, socket awaiters and acceptors (\<^verbatim>\<open>context/\<close>, \<^verbatim>\<open>awaiter/\<close>,
  \<^verbatim>\<open>handler/\<close>): their results enter as arguments of the steps.  The promise types of coroutines and
  \<^verbatim>\<open>when_any\<close>; the scheduler and runtime objects, which start and stop the modelled parts; the HTTP parser
  around generated code and the admin server; logging, platform
  wrappers and the vendored libraries.  Weak memory: all shared accesses are sequentially consistent.
\<close>

end
